(* ===== verification/Prelude.thy ===== *)
theory Prelude
  imports Main "HOL-Library.Word" "HOL-Library.Signed_Division"
begin

text \<open>
  Shared vocabulary of the development: the C integer types at their widths, the collections
  of facts that the component theories use, generic lemmas on words, and the rounding macros
  of \<^verbatim>\<open>inc/types.h\<close>.

  The kernel is compiled for x86-64: \<^verbatim>\<open>int\<close> and \<^verbatim>\<open>unsigned\<close> have 32 bits, \<^verbatim>\<open>long\<close>,
  \<^verbatim>\<open>long long\<close>, \<^verbatim>\<open>size_t\<close> and pointers have 64. A C integer is a word of its width whatever
  its signedness; signed operations read it through \<open>sint\<close>.
\<close>

unbundle bit_operations_syntax

section \<open>C integer types\<close>

type_synonym u8 = "8 word"
type_synonym u16 = "16 word"
type_synonym u32 = "32 word"
type_synonym u64 = "64 word"

text \<open>An address, and the byte-addressed memory.\<close>

type_synonym addr = "64 word"
type_synonym mem = "addr \<Rightarrow> u8"

section \<open>Collections of facts\<close>

named_theorems word_step \<open>one step of a loop counted by a word\<close>
named_theorems region_simps \<open>membership in a region of memory\<close>
named_theorems str_spec \<open>functional specifications of the string routines\<close>

section \<open>Words as loop counters\<close>

lemma unat_pred_less [word_step, termination_simp]:
  "(n :: 'a::len word) \<noteq> 0 \<Longrightarrow> unat (n - 1) < unat n"
  by (simp add: measure_unat)

lemma unat_pred2_less [word_step]: "n \<noteq> 1 \<Longrightarrow> unat (n - 2) < unat (n - 1)" for n :: "'a::len word"
  using unat_pred_less [of "n - 1"] by (simp add: diff_diff_eq)

lemma unat_pred:
  "(n :: 'a::len word) \<noteq> 0 \<Longrightarrow> unat (n - 1) = unat n - 1"
  by (simp add: unat_sub word_le_nat_alt Suc_leI unat_gt_0)

lemma unat_Suc_pred:
  "(n :: 'a::len word) \<noteq> 0 \<Longrightarrow> unat n = Suc (unat (n - 1))"
  by (metis Suc_pred' unat_gt_0 unat_pred diff_Suc_1 One_nat_def)

lemma word_neq0_pos [word_step]: "(n :: 'a::len word) > 0 \<longleftrightarrow> n \<noteq> 0"
  by (simp add: word_neq_0_conv)

lemma of_nat_Suc_word: "(of_nat (Suc k) :: 'a::len word) = 1 + of_nat k"
  by simp

lemma unat_Suc_less: "i < n \<Longrightarrow> unat (i + 1) = Suc (unat i)" for i n :: "'a::len word"
proof -
  assume "i < n"
  then have "unat i < unat n" by (simp add: word_less_nat_alt)
  moreover have "unat n < 2 ^ LENGTH('a)" by (rule unsigned_less)
  ultimately have "unat i + 1 < 2 ^ LENGTH('a)" by linarith
  then show ?thesis by (simp add: unat_word_ariths)
qed

lemma unat_up_less [word_step]: "i < n \<Longrightarrow> unat n - unat (i + 1) < unat n - unat i"
  for i n :: "'a::len word"
  by (simp add: unat_Suc_less word_less_nat_alt)

lemma all_nat_0_Suc: "(\<forall>i. P i) \<longleftrightarrow> P 0 \<and> (\<forall>i. P (Suc i))"
  by (metis nat.exhaust)

lemma word_neq0_uint: "y \<noteq> 0 \<Longrightarrow> 0 < uint y" for y :: "'a::len word"
  by (metis uint_0_iff uint_nonnegative order_le_less)

lemma unat_ucast_wider:
  assumes "LENGTH('a::len) \<le> LENGTH('b::len)"
  shows "unat (ucast (w :: 'a word) :: 'b word) = unat w"
proof -
  have "unat w < 2 ^ LENGTH('a)" by (rule unsigned_less)
  also have "\<dots> \<le> 2 ^ LENGTH('b)" using assms by simp
  finally show ?thesis by (simp add: unsigned_ucast_eq take_bit_nat_eq_self)
qed

lemma unat_of_nat64: "n < 2 ^ 64 \<Longrightarrow> unat (of_nat n :: u64) = n"
  by (simp add: unat_of_nat take_bit_nat_eq_self)

lemma unat_of_nat32: "n < 2 ^ 32 \<Longrightarrow> unat (of_nat n :: u32) = n"
  by (simp add: unat_of_nat take_bit_nat_eq_self)

lemma unat_plus_nat: "unat a + k < 2 ^ 64 \<Longrightarrow> unat (a + of_nat k) = unat a + k" for a :: u64
  by (simp add: unat_word_ariths unat_of_nat)

lemma ucast_narrow: "unat w < 2 ^ LENGTH('a) \<Longrightarrow> unat (ucast w :: 'a::len word) = unat w"
  by (simp add: unsigned_ucast_eq take_bit_nat_eq_self)

lemma down_step:
  fixes k :: u32
  assumes "0 \<le> sint (k - 1 - 1)"
  shows "unat (k - 1 - 1) < unat (k - 1)"
proof (rule unat_pred_less, rule notI)
  assume "k - 1 = 0"
  with assms show False by simp
qed

lemma down_step': "0 < sint k \<Longrightarrow> unat (k - 1) < unat k" for k :: u32
  by (rule unat_pred_less) auto

lemma down_step2: "0 < sint (k - 1) \<Longrightarrow> unat (k - 2) < unat (k - 1)" for k :: u32
  using down_step' [of "k - 1"] by (simp add: diff_diff_eq)

lemma sint_pred: "- (2 ^ 31) < sint w \<Longrightarrow> sint (w - 1) = sint w - 1" for w :: u32
proof -
  assume "- (2 ^ 31) < sint w"
  moreover have "sint w < 2 ^ 31" using sint_lt [of w] by simp
  ultimately show ?thesis
    using signed_take_bit_int_eq_self [of 31 "sint w - 1"] by (simp add: sint_word_ariths)
qed

lemma sint_succ: "sint w < 2 ^ 31 - 1 \<Longrightarrow> sint (w + 1) = sint w + 1" for w :: u32
proof -
  assume "sint w < 2 ^ 31 - 1"
  moreover have "- (2 ^ 31) \<le> sint w" using sint_ge [of w] by simp
  ultimately show ?thesis
    using signed_take_bit_int_eq_self [of 31 "sint w + 1"] by (simp add: sint_word_ariths)
qed

lemma sint_up_less [word_step]:
  "sint i < n \<Longrightarrow> n < 2 ^ 31 \<Longrightarrow> nat (n - sint (i + 1)) < nat (n - sint i)" for i :: u32
  by (simp add: sint_succ)

lemma sint_pos: "0 \<le> sint n \<Longrightarrow> sint n = int (unat n)" for n :: "'a::len word"
proof -
  assume "0 \<le> sint n"
  moreover have "sint n < 2 ^ (LENGTH('a) - 1)" by (rule sint_lt)
  moreover have "(2 :: int) ^ (LENGTH('a) - 1) \<le> 2 ^ LENGTH('a)" by simp
  ultimately have "take_bit LENGTH('a) (sint n) = sint n"
    by (intro take_bit_int_eq_self) linarith+
  then have "uint n = sint n" using uint_sint [of n] by simp
  then show ?thesis by simp
qed

lemma scast_pos: "0 \<le> sint n \<Longrightarrow> (scast n :: u64) = of_nat (unat n)" for n :: u32
  by (metis sint_pos of_int_of_nat_eq scast_eq)

lemma scast_len: "k < 2 ^ 31 \<Longrightarrow> (scast (of_nat k :: u32) :: u64) = of_nat k"
proof -
  assume "k < 2 ^ 31"
  then have "sint (of_nat k :: u32) = int k"
    by (simp add: sint_uint unsigned_of_nat take_bit_int_eq_self signed_take_bit_eq_if_positive
        bit_iff_odd take_bit_nat_eq_self)
  then show ?thesis by (metis of_int_of_nat_eq scast_eq)
qed

lemma uint_of_sint32: "uint x = (if sint x < 0 then sint x + 2 ^ 32 else sint x)" for x :: u32
proof (cases "sint x < 0")
  case True
  moreover have "- (2 ^ 31) \<le> sint x" using sint_ge [of x] by simp
  ultimately have "(sint x + 2 ^ 32) mod 2 ^ 32 = sint x + 2 ^ 32" by (intro mod_pos_pos_trivial) simp_all
  then have "sint x mod 2 ^ 32 = sint x + 2 ^ 32" by simp
  then show ?thesis using True by (simp add: uint_sint take_bit_eq_mod)
qed (simp add: sint_pos)

lemma replicate_numeral: "replicate (numeral k) x = x # replicate (pred_numeral k) x"
  by (simp add: numeral_eq_Suc)

text \<open>Counting down to zero: induction on a word.\<close>

lemma word_pred_induct [case_names zero pred]:
  fixes n :: "'a::len word"
  assumes "P 0" and "\<And>n. n \<noteq> 0 \<Longrightarrow> P (n - 1) \<Longrightarrow> P n"
  shows "P n"
proof (induction "unat n" arbitrary: n)
  case 0
  then show ?case using assms(1) by (simp add: unat_eq_zero)
next
  case (Suc k)
  then have "n \<noteq> 0" by auto
  moreover have "k = unat (n - 1)" using Suc.hyps(2) \<open>n \<noteq> 0\<close> by (simp add: unat_pred)
  ultimately show ?case using Suc.hyps(1) assms(2) by blast
qed

section \<open>Memory layout (inc/memlayout.h)\<close>

definition KERNBASE :: u64 where "KERNBASE = 0x8004000000"

section \<open>Rounding (inc/types.h)\<close>

text \<open>
  Both macros compute on \<^verbatim>\<open>uint64_t\<close> and cast back to the type of their first argument,
  which is 64 bits wide wherever the kernel uses them.
\<close>

definition ROUNDDOWN :: "u64 \<Rightarrow> u64 \<Rightarrow> u64" where
  "ROUNDDOWN a n = a - a mod n"

definition ROUNDUP :: "u64 \<Rightarrow> u64 \<Rightarrow> u64" where
  "ROUNDUP a n = ROUNDDOWN (a + n - 1) n"

lemma unat_ROUNDDOWN: "unat (ROUNDDOWN a n) = unat a - unat a mod unat n"
proof -
  have "a mod n \<le> a" by (metis word_le_nat_alt unat_mod_distrib mod_less_eq_dividend)
  then show ?thesis by (simp add: ROUNDDOWN_def unat_sub unat_mod_distrib)
qed

lemma ROUNDDOWN_dvd: "unat n dvd unat (ROUNDDOWN a n)"
  by (simp add: unat_ROUNDDOWN dvd_minus_mod)

lemma ROUNDDOWN_le: "unat (ROUNDDOWN a n) \<le> unat a"
  by (simp add: unat_ROUNDDOWN)

lemma ROUNDDOWN_gap:
  assumes "n \<noteq> 0"
  shows "unat a < unat (ROUNDDOWN a n) + unat n"
proof -
  have "unat a mod unat n < unat n" using assms by (simp add: unat_gt_0)
  then show ?thesis using mod_less_eq_dividend [of "unat a" "unat n"]
    by (simp add: unat_ROUNDDOWN)
qed

lemma ROUNDUP_le:
  assumes "n \<noteq> 0" and "unat a + unat n - 1 < 2 ^ 64"
  shows "unat a \<le> unat (ROUNDUP a n) \<and> unat (ROUNDUP a n) < unat a + unat n
    \<and> unat n dvd unat (ROUNDUP a n)"
proof -
  have n: "0 < unat n" using assms(1) by (simp add: unat_gt_0)
  have eq: "a + n - 1 = of_nat (unat a + unat n - 1)"
    using n by (simp add: of_nat_diff)
  have u: "unat (a + n - 1) = unat a + unat n - 1"
    unfolding eq using assms(2) by (simp add: unat_of_nat)
  show ?thesis
    using n u ROUNDDOWN_dvd [of n "a + n - 1"] ROUNDDOWN_le [of "a + n - 1" n]
      ROUNDDOWN_gap [OF assms(1), of "a + n - 1"]
    by (auto simp: ROUNDUP_def)
qed

end
