(* ===== verification/Memory.thy ===== *)
theory Memory
  imports Prelude
begin

text \<open>
  The memory that the pointer code works on: a total map from 64-bit addresses to bytes. Address
  arithmetic is word arithmetic, so it wraps as pointers do on the machine. Page faults are not
  modelled: the kernel of this lab runs on the boot page tables, with no trap handler.

  \<open>span p n\<close> is the set of the \<open>n\<close> addresses from \<open>p\<close> on, \<open>store m p xs\<close> the memory after the
  bytes \<open>xs\<close> were written at \<open>p\<close>, \<open>cstr m p xs\<close> the contract of a C string: the bytes \<open>xs\<close>, none
  of them NUL, followed by a NUL.
\<close>

section \<open>Spans of addresses\<close>

definition span :: "addr \<Rightarrow> nat \<Rightarrow> addr set" where
  "span p n = {a. unat (a - p) < n}"

lemma span_iff [region_simps]: "a \<in> span p n \<longleftrightarrow> unat (a - p) < n"
  by (simp add: span_def)

lemma span_0 [simp]: "span p 0 = {}"
  by (simp add: span_def)

lemma unat_minus_Suc:
  "a \<noteq> p \<Longrightarrow> unat (a - p) = Suc (unat (a - (p + 1)))" for a p :: addr
proof -
  assume "a \<noteq> p"
  then have "a - p \<noteq> 0" by simp
  then have "unat (a - p) = Suc (unat (a - p - 1))" by (rule unat_Suc_pred)
  then show ?thesis by (simp add: algebra_simps)
qed

lemma span_Suc: "span p (Suc n) = insert p (span (p + 1) n)"
proof (intro set_eqI)
  fix a
  show "a \<in> span p (Suc n) \<longleftrightarrow> a \<in> insert p (span (p + 1) n)"
    by (cases "a = p") (simp_all add: span_iff unat_minus_Suc)
qed

lemma span_self [simp]: "p \<in> span p n \<longleftrightarrow> 0 < n"
  by (simp add: span_iff)

lemma span_mono: "n \<le> k \<Longrightarrow> span p n \<subseteq> span p k"
  by (auto simp: span_iff)

lemma span_memI: "k < n \<Longrightarrow> n \<le> 2 ^ 64 \<Longrightarrow> p + of_nat k \<in> span p n"
  by (simp add: span_iff unat_of_nat)

lemma not_in_next_span: "n < 2 ^ 64 \<Longrightarrow> p \<notin> span (p + 1) n"
proof -
  assume "n < 2 ^ 64"
  moreover have "p - (p + 1) = (-1 :: addr)" by simp
  then have "unat (p - (p + 1)) = unat (-1 :: addr)" by (simp only:)
  then have "unat (p - (p + 1)) = 2 ^ 64 - 1"
    by (simp add: unsigned_minus_1_eq_mask mask_eq_exp_minus_1)
  ultimately show ?thesis by (simp add: span_iff)
qed

lemma span_interval:
  "unat p + n \<le> 2 ^ 64 \<Longrightarrow> a \<in> span p n \<longleftrightarrow> unat p \<le> unat a \<and> unat a < unat p + n"
  using unsigned_less [of a] by (auto simp: span_iff unat_sub_if')

lemma span_append: "span p (n + k) = span p n \<union> span (p + of_nat n) k"
  by (induction n arbitrary: p) (auto simp: span_Suc algebra_simps)

lemma span_disjoint:
  assumes "n + k \<le> 2 ^ 64" and "a \<in> span p n"
  shows "a \<notin> span (p + of_nat n) k"
proof -
  define u where "u = a - p"
  have u: "unat u < n" using assms(2) by (simp add: span_iff u_def)
  show ?thesis
  proof (cases "n < 2 ^ 64")
    case False
    then have "k = 0" using assms(1) by simp
    then show ?thesis by simp
  next
    case True
    have n: "unat (of_nat n :: addr) = n" using True by (simp add: unat_of_nat)
    have "a - (p + of_nat n) = u - of_nat n" by (simp add: u_def)
    moreover have "unat (u - of_nat n) = 2 ^ 64 + unat u - n"
      using u n by (simp add: unat_sub_if')
    ultimately have "unat (a - (p + of_nat n)) = 2 ^ 64 + unat u - n" by (simp only:)
    then show ?thesis using assms(1) by (simp add: span_iff)
  qed
qed

section \<open>Reading and writing runs of bytes\<close>

fun bytes_at :: "mem \<Rightarrow> addr \<Rightarrow> nat \<Rightarrow> u8 list" where
  "bytes_at m p 0 = []"
| "bytes_at m p (Suc n) = m p # bytes_at m (p + 1) n"

fun store :: "mem \<Rightarrow> addr \<Rightarrow> u8 list \<Rightarrow> mem" where
  "store m p [] = m"
| "store m p (x # xs) = store (m(p := x)) (p + 1) xs"

lemma bytes_at_numeral: "bytes_at m p (numeral k) = m p # bytes_at m (p + 1) (pred_numeral k)"
  by (simp add: numeral_eq_Suc)

lemma bytes_at_4: "bytes_at m p 4 = [m p, m (p + 1), m (p + 2), m (p + 3)]"
proof -
  have "(4::nat) = Suc (Suc (Suc (Suc 0)))" by simp
  then show ?thesis by (simp only: bytes_at.simps) (simp add: add.assoc)
qed

lemma store_4: "store m p [a, b, c, d] = m(p := a, p + 1 := b, p + 2 := c, p + 3 := d)"
  by (simp add: add.assoc)

lemma length_bytes_at [simp]: "length (bytes_at m p n) = n"
  by (induction n arbitrary: p) auto

lemma bytes_at_nth: "k < n \<Longrightarrow> bytes_at m p n ! k = m (p + of_nat k)"
  by (induction n arbitrary: p k) (auto simp: nth_Cons algebra_simps split: nat.splits)

lemma bytes_at_cong: "(\<And>a. a \<in> span p n \<Longrightarrow> m a = m' a) \<Longrightarrow> bytes_at m p n = bytes_at m' p n"
  by (induction n arbitrary: p) (auto simp: span_Suc)

lemma bytes_at_upd: "a \<notin> span p n \<Longrightarrow> bytes_at (m(a := x)) p n = bytes_at m p n"
  by (rule bytes_at_cong) auto

lemma bytes_at_append: "bytes_at m p (n + k) = bytes_at m p n @ bytes_at m (p + of_nat n) k"
  by (induction n arbitrary: p) (auto simp: algebra_simps)

lemma store_append: "store m p (xs @ ys) = store (store m p xs) (p + of_nat (length xs)) ys"
  by (induction xs arbitrary: m p) (auto simp: algebra_simps)

lemma store_outside: "a \<notin> span p (length xs) \<Longrightarrow> store m p xs a = m a"
  by (induction xs arbitrary: m p) (auto simp: span_Suc)

lemma store_lookup:
  assumes "length xs \<le> 2 ^ 64"
  shows "store m p xs a = (if a \<in> span p (length xs) then xs ! unat (a - p) else m a)"
  using assms
proof (induction xs arbitrary: m p)
  case Nil
  then show ?case by simp
next
  case (Cons x xs)
  show ?case
  proof (cases "a = p")
    case True
    have "p \<notin> span (p + 1) (length xs)"
      using Cons.prems by (intro not_in_next_span) simp
    then show ?thesis using True by (simp add: store_outside)
  next
    case False
    then show ?thesis using Cons by (simp add: span_Suc unat_minus_Suc)
  qed
qed

lemma bytes_at_store: "length xs \<le> 2 ^ 64 \<Longrightarrow> bytes_at (store m p xs) p (length xs) = xs"
proof (induction xs arbitrary: m p)
  case Nil
  then show ?case by simp
next
  case (Cons x xs)
  then have "store (m(p := x)) (p + 1) xs p = x"
    using not_in_next_span [of "length xs" p] by (simp add: store_outside)
  with Cons show ?case by simp
qed

lemma store_bytes_at: "store m p (bytes_at m p n) = m"
proof (induction n arbitrary: p)
  case (Suc n)
  have "m(p := m p) = m" by simp
  with Suc show ?case by simp
qed simp

text \<open>The bytes \<open>xs\<close> lie at \<open>p\<close>.\<close>

definition holds_at :: "mem \<Rightarrow> addr \<Rightarrow> u8 list \<Rightarrow> bool" where
  "holds_at m p xs \<longleftrightarrow> bytes_at m p (length xs) = xs"

lemma holds_at_Nil [simp]: "holds_at m p []"
  by (simp add: holds_at_def)

lemma holds_at_Cons: "holds_at m p (x # xs) \<longleftrightarrow> m p = x \<and> holds_at m (p + 1) xs"
  by (simp add: holds_at_def)

lemma holds_at_append:
  "holds_at m p (xs @ ys) \<longleftrightarrow> holds_at m p xs \<and> holds_at m (p + of_nat (length xs)) ys"
  by (induction xs arbitrary: p) (auto simp: holds_at_Cons algebra_simps)

lemma holds_at_store: "length xs \<le> 2 ^ 64 \<Longrightarrow> holds_at (store m p xs) p xs"
  by (simp add: holds_at_def bytes_at_store)

section \<open>Words in memory\<close>

text \<open>Eight bytes in the order of the machine.\<close>

definition word_bytes :: "u64 \<Rightarrow> u8 list" where
  "word_bytes w = map (\<lambda>i. ucast (drop_bit (8 * i) w)) [0..<8]"

definition load_word :: "mem \<Rightarrow> addr \<Rightarrow> u64" where
  "load_word m a = foldr (\<lambda>b acc. ucast b OR push_bit 8 acc) (bytes_at m a 8) 0"

lemma foldr_bytes:
  "foldr (\<lambda>b acc. ucast b OR push_bit 8 acc) (map (\<lambda>i. ucast (drop_bit (8 * i) w) :: u8) [k..<k + n]) 0
     = take_bit (8 * n) (drop_bit (8 * k) w)" for w :: u64
proof (induction n arbitrary: k)
  case (Suc n)
  have "[k..<k + Suc n] = k # [Suc k..<Suc k + n]" by (simp add: upt_conv_Cons)
  moreover have "(ucast (ucast (drop_bit (8 * k) w) :: u8) :: u64) OR push_bit 8 (take_bit (8 * n) (drop_bit (8 * Suc k) w))
      = take_bit (8 * Suc n) (drop_bit (8 * k) w)"
    by (rule bit_word_eqI) (auto simp: bit_simps algebra_simps)
  ultimately show ?case using Suc.IH [of "Suc k"] by simp
qed simp

lemma length_word_bytes [simp]: "length (word_bytes w) = 8"
  by (simp add: word_bytes_def)

lemma load_store_same: "load_word (store m a (word_bytes w)) a = w"
  using bytes_at_store [of "word_bytes w" m a] foldr_bytes [of w 0 8]
  by (simp add: load_word_def word_bytes_def take_bit_word_eq_self del: upt_rec_numeral)

text \<open>A store leaves the bytes of a place that is apart from it.\<close>

lemma bytes_at_apart:
  assumes "n \<le> unat (a - b)" and "length xs \<le> unat (b - a)"
  shows "bytes_at (store m a xs) b n = bytes_at m b n"
proof -
  have "c \<notin> span a (length xs)" if "c \<in> span b n" for c
  proof
    assume "c \<in> span a (length xs)"
    then have c: "unat (c - a) < length xs" "unat (c - b) < n" using that by (simp_all add: span_iff)
    have eq: "a - b = (c - b) - (c - a)" "b - a = (c - a) - (c - b)" by simp_all
    show False
    proof (cases "c - a \<le> c - b")
      case True
      then have "unat (a - b) = unat (c - b) - unat (c - a)" unfolding eq(1) by (rule unat_sub)
      then show False using c assms(1) by simp
    next
      case False
      then have "c - b \<le> c - a" by simp
      then have "unat (b - a) = unat (c - a) - unat (c - b)" unfolding eq(2) by (rule unat_sub)
      then show False using c assms(2) by simp
    qed
  qed
  then show ?thesis by (intro bytes_at_cong store_outside) simp
qed

lemma load_store_other:
  "8 \<le> unat (a - b) \<Longrightarrow> 8 \<le> unat (b - a) \<Longrightarrow> load_word (store m a (word_bytes w)) b = load_word m b"
  by (simp add: load_word_def bytes_at_apart)

section \<open>C strings\<close>

fun cstr :: "mem \<Rightarrow> addr \<Rightarrow> u8 list \<Rightarrow> bool" where
  "cstr m p [] = (m p = 0)"
| "cstr m p (x # xs) = (x \<noteq> 0 \<and> m p = x \<and> cstr m (p + 1) xs)"

text \<open>A literal of the source as its bytes.\<close>

definition lit :: "string \<Rightarrow> u8 list" where
  "lit s = map of_char s"

lemma cstr_no_NUL: "cstr m p xs \<Longrightarrow> 0 \<notin> set xs"
  by (induction xs arbitrary: p) auto

lemma cstr_cong:
  "(\<And>a. a \<in> span p (Suc (length xs)) \<Longrightarrow> m a = m' a) \<Longrightarrow> cstr m p xs = cstr m' p xs"
proof (induction xs arbitrary: p)
  case (Cons x xs)
  have "cstr m (p + 1) xs = cstr m' (p + 1) xs"
    by (rule Cons.IH) (use Cons.prems in \<open>simp add: span_Suc [of p]\<close>)
  moreover have "m p = m' p" by (rule Cons.prems) simp
  ultimately show ?case by simp
qed simp

lemma cstr_upd: "a \<notin> span p (Suc (length xs)) \<Longrightarrow> cstr (m(a := x)) p xs = cstr m p xs"
  by (rule cstr_cong) auto

lemma cstr_bytes: "cstr m p xs \<longleftrightarrow> bytes_at m p (Suc (length xs)) = xs @ [0] \<and> 0 \<notin> set xs"
  by (induction xs arbitrary: p) auto

lemma cstr_unique: "cstr m p xs \<Longrightarrow> cstr m p ys \<Longrightarrow> xs = ys"
proof (induction xs arbitrary: p ys)
  case Nil
  then show ?case by (cases ys) auto
next
  case (Cons x xs)
  then show ?case by (cases ys) auto
qed

lemma cstr_append:
  "cstr m p (xs @ ys) \<longleftrightarrow> 0 \<notin> set xs \<and> bytes_at m p (length xs) = xs \<and> cstr m (p + of_nat (length xs)) ys"
  by (induction xs arbitrary: p) (auto simp: algebra_simps)

lemma cstr_drop: "cstr m p xs \<Longrightarrow> k \<le> length xs \<Longrightarrow> cstr m (p + of_nat k) (drop k xs)"
  by (metis append_take_drop_id cstr_append length_take min.absorb2)

text \<open>Bytes before the end of a string are not NUL, so a string is shorter than the address space.\<close>

lemma cstr_nth: "cstr m p xs \<Longrightarrow> k < length xs \<Longrightarrow> m (p + of_nat k) = xs ! k \<and> xs ! k \<noteq> 0"
  using bytes_at_nth [of k "Suc (length xs)" m p] cstr_bytes [of m p xs]
  by (auto simp: nth_append in_set_conv_nth)

lemma cstr_end: "cstr m p xs \<Longrightarrow> m (p + of_nat (length xs)) = 0"
  using cstr_drop [of m p xs "length xs"] by simp

lemma cstr_short: assumes "cstr m p xs" shows "length xs < 2 ^ 64"
proof (rule ccontr)
  assume "\<not> length xs < 2 ^ 64"
  then have le: "2 ^ 64 \<le> length xs" by simp
  define k where "k = length xs - 2 ^ 64"
  have k: "length xs = k + 2 ^ 64" "k < length xs" using le by (simp_all add: k_def)
  have "of_nat (length xs) = (of_nat k :: addr)"
    unfolding k(1) of_nat_add by (simp add: word_of_nat_eq_0_iff)
  with cstr_nth [OF assms k(2)] cstr_end [OF assms] show False by simp
qed

lemma cstr_store:
  assumes "0 \<notin> set xs" and "length xs < 2 ^ 64"
  shows "cstr (store m p (xs @ [0])) p xs"
  using assms bytes_at_store [of "xs @ [0]" m p] by (simp add: cstr_bytes del: bytes_at.simps)

lemma cstr_store_frame:
  "span p (length xs) \<inter> span q (Suc (length ys)) = {} \<Longrightarrow> cstr (store m p xs) q ys = cstr m q ys"
  by (rule cstr_cong) (blast intro: store_outside)

end
