(* ===== verification/CString.thy ===== *)
theory CString
  imports Memory
begin

text \<open>
  The string routines of \<^verbatim>\<open>lib/string.c\<close> (\<^verbatim>\<open>strlen\<close> to \<^verbatim>\<open>strfind\<close>, \<^verbatim>\<open>strstr\<close>) on the memory of \<^theory_text>\<open>Memory\<close>. A loop that
  stops only at a NUL is a \<^theory_text>\<open>partial_function\<close> whose value \<open>None\<close> means that it runs
  forever; a loop with a size argument is total. The specifications are stated against
  \<open>cstr\<close>: what a routine returns and stores, as a function of the bytes of the strings.
\<close>

section \<open>Lengths\<close>

text \<open>\<^verbatim>\<open>int n\<close> counts, so the result wraps at 32 bits.\<close>

partial_function (option) strlen_loop :: "mem \<Rightarrow> addr \<Rightarrow> u32 \<Rightarrow> u32 option" where
  "strlen_loop m s n = (if m s \<noteq> 0 then strlen_loop m (s + 1) (n + 1) else Some n)"

definition strlen :: "mem \<Rightarrow> addr \<Rightarrow> u32 option" where
  "strlen m s = strlen_loop m s 0"

function strnlen_loop :: "mem \<Rightarrow> addr \<Rightarrow> u64 \<Rightarrow> u32 \<Rightarrow> u32" where
  "strnlen_loop m s sz n =
     (if sz > 0 \<and> m s \<noteq> 0 then strnlen_loop m (s + 1) (sz - 1) (n + 1) else n)"
  by pat_completeness auto
termination
  by (relation "measure (\<lambda>(m, s, sz, n). unat sz)") (simp_all add: word_step)

definition strnlen :: "mem \<Rightarrow> addr \<Rightarrow> u64 \<Rightarrow> u32" where
  "strnlen m s sz = strnlen_loop m s sz 0"

section \<open>Copying\<close>

partial_function (option) strcpy_loop :: "mem \<Rightarrow> addr \<Rightarrow> addr \<Rightarrow> mem option" where
  "strcpy_loop m dst src =
     (let c = m src; m' = m(dst := c)
      in if c \<noteq> 0 then strcpy_loop m' (dst + 1) (src + 1) else Some m')"

definition strcpy :: "mem \<Rightarrow> addr \<Rightarrow> addr \<Rightarrow> (addr \<times> mem) option" where
  "strcpy m dst src =
     (case strcpy_loop m dst src of None \<Rightarrow> None | Some m' \<Rightarrow> Some (dst, m'))"

text \<open>\<^verbatim>\<open>int len\<close> is sign-extended when it is added to the pointer.\<close>

definition strcat :: "mem \<Rightarrow> addr \<Rightarrow> addr \<Rightarrow> (addr \<times> mem) option" where
  "strcat m dst src =
     (case strlen m dst of
        None \<Rightarrow> None
      | Some len \<Rightarrow>
          (case strcpy m (dst + scast len) src of None \<Rightarrow> None | Some (_, m') \<Rightarrow> Some (dst, m')))"

function strncpy_loop :: "mem \<Rightarrow> addr \<Rightarrow> addr \<Rightarrow> u64 \<Rightarrow> u64 \<Rightarrow> mem" where
  "strncpy_loop m dst src i sz =
     (if i < sz
      then let m' = m(dst := m src)
           in strncpy_loop m' (dst + 1) (if m' src \<noteq> 0 then src + 1 else src) (i + 1) sz
      else m)"
  by pat_completeness auto
termination
  by (relation "measure (\<lambda>(m, dst, src, i, sz). unat sz - unat i)")
    (simp_all add: word_step)

definition strncpy :: "mem \<Rightarrow> addr \<Rightarrow> addr \<Rightarrow> u64 \<Rightarrow> addr \<times> mem" where
  "strncpy m dst src sz = (dst, strncpy_loop m dst src 0 sz)"

text \<open>\<^verbatim>\<open>while (--size > 0 && *src != '\0') *dst++ = *src++\<close>; the loop gives back the memory and \<^verbatim>\<open>dst\<close>.\<close>

function strlcpy_loop :: "mem \<Rightarrow> addr \<Rightarrow> addr \<Rightarrow> u64 \<Rightarrow> mem \<times> addr" where
  "strlcpy_loop m dst src sz =
     (let sz' = sz - 1
      in if sz' > 0 \<and> m src \<noteq> 0
         then strlcpy_loop (m(dst := m src)) (dst + 1) (src + 1) sz'
         else (m, dst))"
  by pat_completeness auto
termination
  by (relation "measure (\<lambda>(m, dst, src, sz). unat (sz - 1))") (simp_all add: word_step)

definition strlcpy :: "mem \<Rightarrow> addr \<Rightarrow> addr \<Rightarrow> u64 \<Rightarrow> u64 \<times> mem" where
  "strlcpy m dst src sz =
     (if sz > 0
      then let (m', dst') = strlcpy_loop m dst src sz
           in (dst' - dst, m'(dst' := 0))
      else (dst - dst, m))"

section \<open>Comparing and searching\<close>

definition byte_diff :: "u8 \<Rightarrow> u8 \<Rightarrow> u32" where
  "byte_diff x y = ucast x - ucast y"

partial_function (option) strcmp :: "mem \<Rightarrow> addr \<Rightarrow> addr \<Rightarrow> u32 option" where
  "strcmp m p q =
     (if m p \<noteq> 0 \<and> m p = m q then strcmp m (p + 1) (q + 1)
      else Some (byte_diff (m p) (m q)))"

function strncmp :: "mem \<Rightarrow> addr \<Rightarrow> addr \<Rightarrow> u64 \<Rightarrow> u32" where
  "strncmp m p q n =
     (if n > 0 \<and> m p \<noteq> 0 \<and> m p = m q then strncmp m (p + 1) (q + 1) (n - 1)
      else if n = 0 then 0
      else byte_diff (m p) (m q))"
  by pat_completeness auto
termination
  by (relation "measure (\<lambda>(m, p, q, n). unat n)") (simp_all add: word_step)

text \<open>The null pointer is address 0.\<close>

partial_function (option) strchr :: "mem \<Rightarrow> addr \<Rightarrow> u8 \<Rightarrow> addr option" where
  "strchr m s c =
     (if m s \<noteq> 0 then if m s = c then Some s else strchr m (s + 1) c
      else Some 0)"

partial_function (option) strfind :: "mem \<Rightarrow> addr \<Rightarrow> u8 \<Rightarrow> addr option" where
  "strfind m s c =
     (if m s \<noteq> 0 then if m s = c then Some s else strfind m (s + 1) c
      else Some s)"

text \<open>
  The inner loop of \<^verbatim>\<open>strstr\<close>: \<open>Some None\<close> when it meets the NUL, \<open>Some (Some in)\<close> with the
  pointer behind the first byte that equals \<open>c\<close>.
\<close>

partial_function (option) strstr_scan :: "mem \<Rightarrow> addr \<Rightarrow> u8 \<Rightarrow> addr option option" where
  "strstr_scan m inp c =
     (let sc = m inp
      in if sc = 0 then Some None
         else if sc \<noteq> c then strstr_scan m (inp + 1) c
         else Some (Some (inp + 1)))"

partial_function (option) strstr_loop ::
    "mem \<Rightarrow> addr \<Rightarrow> addr \<Rightarrow> u8 \<Rightarrow> u64 \<Rightarrow> addr option" where
  "strstr_loop m inp str c len =
     Option.bind (strstr_scan m inp c)
       (\<lambda>r. case r of
          None \<Rightarrow> Some 0
        | Some inp' \<Rightarrow>
            if strncmp m inp' str len \<noteq> 0 then strstr_loop m inp' str c len
            else Some (inp' - 1))"

definition strstr :: "mem \<Rightarrow> addr \<Rightarrow> addr \<Rightarrow> addr option" where
  "strstr m inp str =
     (let c = m str
      in if c = 0 then Some inp
         else Option.bind (strlen m (str + 1))
                (\<lambda>len. strstr_loop m inp (str + 1) c (scast len)))"

section \<open>Specifications\<close>

lemmas cstring_loops [simp del] = strnlen_loop.simps strncpy_loop.simps strlcpy_loop.simps strncmp.simps

subsection \<open>Lengths\<close>

lemma strlen_loop_cstr:
  "cstr m s xs \<Longrightarrow> strlen_loop m s n = Some (n + of_nat (length xs))"
  by (induction xs arbitrary: s n) (subst strlen_loop.simps, simp add: algebra_simps)+

lemma strlen_cstr [str_spec]: "cstr m s xs \<Longrightarrow> strlen m s = Some (of_nat (length xs))"
  by (simp add: strlen_def strlen_loop_cstr)

lemma strnlen_loop_cstr:
  "cstr m s xs \<Longrightarrow> strnlen_loop m s sz n = n + of_nat (min (length xs) (unat sz))"
proof (induction xs arbitrary: s sz n)
  case Nil
  then show ?case by (subst strnlen_loop.simps) simp
next
  case (Cons x xs)
  then show ?case
    by (subst strnlen_loop.simps) (auto simp: word_step unat_Suc_pred [of sz] algebra_simps)
qed

lemma strnlen_cstr [str_spec]:
  "cstr m s xs \<Longrightarrow> strnlen m s sz = of_nat (min (length xs) (unat sz))"
  by (simp add: strnlen_def strnlen_loop_cstr)

subsection \<open>Copying\<close>

text \<open>Two runs of bytes do not overlap.\<close>

definition apart :: "addr \<Rightarrow> nat \<Rightarrow> addr \<Rightarrow> nat \<Rightarrow> bool" where
  "apart p n q k \<longleftrightarrow> span p n \<inter> span q k = {}"

lemma apart_Suc: "apart p (Suc n) q k \<Longrightarrow> p \<notin> span q k \<and> apart (p + 1) n q k"
  by (auto simp: apart_def span_Suc)

lemma apart_sub: "apart p n q k \<Longrightarrow> n' \<le> n \<Longrightarrow> k' \<le> k \<Longrightarrow> apart p n' q k'"
  using span_mono [of n' n p] span_mono [of k' k q] by (auto simp: apart_def)

lemma apart_next: "apart p n q (Suc k) \<Longrightarrow> apart p n (q + 1) k"
  by (auto simp: apart_def span_Suc)

lemma strcpy_loop_cstr:
  "cstr m src xs \<Longrightarrow> apart dst (Suc (length xs)) src (Suc (length xs)) \<Longrightarrow>
   strcpy_loop m dst src = Some (store m dst (xs @ [0]))"
proof (induction xs arbitrary: m dst src)
  case Nil
  then show ?case by (subst strcpy_loop.simps) simp
next
  case (Cons x xs)
  note ap = apart_Suc [OF Cons.prems(2)]
  have "cstr (m(dst := x)) (src + 1) xs"
    using Cons.prems(1) ap by (subst cstr_upd) (auto simp: span_Suc [of src])
  moreover have "apart (dst + 1) (Suc (length xs)) (src + 1) (Suc (length xs))"
    using ap by (intro apart_next) simp
  ultimately show ?case
    using Cons.IH Cons.prems(1) by (subst strcpy_loop.simps) (simp add: Let_def)
qed

lemma strcpy_cstr [str_spec]:
  "cstr m src xs \<Longrightarrow> apart dst (Suc (length xs)) src (Suc (length xs)) \<Longrightarrow>
   strcpy m dst src = Some (dst, store m dst (xs @ [0]))"
  by (simp add: strcpy_def strcpy_loop_cstr)

text \<open>What \<^verbatim>\<open>strncpy\<close> stores: the first \<open>n\<close> bytes of the string, padded with NULs.\<close>

fun padded :: "u8 list \<Rightarrow> nat \<Rightarrow> u8 list" where
  "padded xs 0 = []"
| "padded [] (Suc n) = 0 # padded [] n"
| "padded (x # xs) (Suc n) = x # padded xs n"

lemma padded_eq: "padded xs n = take n xs @ replicate (n - length xs) 0"
  by (induction xs n rule: padded.induct) auto

lemma length_padded [simp]: "length (padded xs n) = n"
  by (simp add: padded_eq)

lemma strncpy_loop_cstr:
  "cstr m src xs \<Longrightarrow> apart dst n src (Suc (length xs)) \<Longrightarrow> unat sz - unat i = n \<Longrightarrow>
   strncpy_loop m dst src i sz = store m dst (padded xs n)"
proof (induction n arbitrary: m dst src xs i)
  case 0
  then show ?case by (subst strncpy_loop.simps) (simp add: word_less_nat_alt)
next
  case (Suc n)
  then have i: "i < sz" by (simp add: word_less_nat_alt)
  note ap = apart_Suc [OF Suc.prems(2)]
  have n: "unat sz - unat (i + 1) = n" using Suc.prems(3) unat_Suc_less [OF i] by simp
  have self: "cstr (m(dst := m src)) src xs"
    using Suc.prems(1) ap by (subst cstr_upd) auto
  show ?case
  proof (cases xs)
    case Nil
    have "strncpy_loop (m(dst := m src)) (dst + 1) src (i + 1) sz
        = store (m(dst := m src)) (dst + 1) (padded [] n)"
      by (rule Suc.IH [OF _ _ n]) (use self ap Nil in simp_all)
    then show ?thesis using Suc.prems(1) ap i Nil
      by (subst strncpy_loop.simps) (simp add: Let_def)
  next
    case (Cons x ys)
    have "cstr (m(dst := m src)) (src + 1) ys" using self unfolding Cons cstr.simps by blast
    moreover have "apart (dst + 1) n (src + 1) (Suc (length ys))"
      using ap Cons by (intro apart_next) simp
    ultimately have "strncpy_loop (m(dst := m src)) (dst + 1) (src + 1) (i + 1) sz
        = store (m(dst := m src)) (dst + 1) (padded ys n)"
      by (rule Suc.IH [OF _ _ n])
    then show ?thesis using Suc.prems(1) Cons i
      by (subst strncpy_loop.simps) (simp add: Let_def)
  qed
qed

lemma strncpy_cstr [str_spec]:
  "cstr m src xs \<Longrightarrow> apart dst (unat sz) src (Suc (length xs)) \<Longrightarrow>
   strncpy m dst src sz = (dst, store m dst (padded xs (unat sz)))"
  by (simp add: strncpy_def strncpy_loop_cstr)

lemma strlcpy_loop_cstr:
  "cstr m src xs \<Longrightarrow> sz \<noteq> 0 \<Longrightarrow> k = min (length xs) (unat sz - 1) \<Longrightarrow>
   apart dst k src (Suc (length xs)) \<Longrightarrow>
   strlcpy_loop m dst src sz = (store m dst (take k xs), dst + of_nat k)"
proof (induction xs arbitrary: m dst src sz k)
  case Nil
  then show ?case by (subst strlcpy_loop.simps) (simp add: Let_def)
next
  case (Cons x xs)
  show ?case
  proof (cases "sz = 1")
    case True
    then show ?thesis using Cons.prems by (subst strlcpy_loop.simps) (simp add: Let_def)
  next
    case False
    then have pos: "sz - 1 \<noteq> 0" by simp
    define j where "j = min (length xs) (unat (sz - 1) - 1)"
    have k: "k = Suc j"
      using Cons.prems(2,3) unat_Suc_pred [OF pos] unat_pred [OF Cons.prems(2)]
      by (simp add: j_def min_def)
    note ap = apart_Suc [OF Cons.prems(4) [unfolded k]]
    have "cstr (m(dst := x)) (src + 1) xs"
      using Cons.prems(1) ap by (subst cstr_upd) (auto simp: span_Suc [of src])
    moreover have "apart (dst + 1) j (src + 1) (Suc (length xs))"
      using ap by (intro apart_next) simp
    ultimately have "strlcpy_loop (m(dst := x)) (dst + 1) (src + 1) (sz - 1) =
        (store (m(dst := x)) (dst + 1) (take j xs), dst + 1 + of_nat j)"
      by (rule Cons.IH [OF _ pos j_def])
    then show ?thesis using Cons.prems(1) pos k
      by (subst strlcpy_loop.simps) (simp add: Let_def word_step add.assoc)
  qed
qed

lemma strlcpy_cstr [str_spec]:
  assumes "cstr m src xs" and "sz \<noteq> 0" and "k = min (length xs) (unat sz - 1)"
    and "apart dst k src (Suc (length xs))"
  shows "strlcpy m dst src sz = (of_nat k, store m dst (take k xs @ [0]))"
  using strlcpy_loop_cstr [OF assms] assms(2,3)
  by (simp add: strlcpy_def word_step store_append min_def)

lemma strcat_cstr [str_spec]:
  assumes "cstr m dst xs" and "cstr m src ys" and "length xs < 2 ^ 31"
    and "apart (dst + of_nat (length xs)) (Suc (length ys)) src (Suc (length ys))"
  shows "strcat m dst src = Some (dst, store m (dst + of_nat (length xs)) (ys @ [0]))"
  using assms by (simp add: strcat_def strlen_cstr scast_len strcpy_cstr)

subsection \<open>Comparing\<close>

text \<open>The order that \<^verbatim>\<open>strcmp\<close> computes, on the bytes of the strings.\<close>

fun cmp_spec :: "u8 list \<Rightarrow> u8 list \<Rightarrow> u32" where
  "cmp_spec [] [] = 0"
| "cmp_spec [] (y # ys) = byte_diff 0 y"
| "cmp_spec (x # xs) [] = byte_diff x 0"
| "cmp_spec (x # xs) (y # ys) = (if x = y then cmp_spec xs ys else byte_diff x y)"

lemma sint_byte_diff: "sint (byte_diff x y) = uint x - uint y"
proof -
  have b: "0 \<le> uint x" "uint x < 256" "0 \<le> uint y" "uint y < 256"
    using uint_lt2p [of x] uint_lt2p [of y] by simp_all
  have "byte_diff x y = word_of_int (uint x - uint y)"
    by (simp add: byte_diff_def)
  moreover have "signed_take_bit 31 (uint x - uint y) = uint x - uint y"
    by (rule signed_take_bit_int_eq_self) (use b in \<open>simp_all, linarith+\<close>)
  ultimately show ?thesis by (simp add: signed_of_int del: of_int_diff)
qed

lemma byte_diff_0_iff: "byte_diff x y = 0 \<longleftrightarrow> x = y"
proof
  assume "byte_diff x y = 0"
  then have "uint x = uint y" using sint_byte_diff [of x y] by simp
  then show "x = y" by (simp add: word_uint_eq_iff)
qed (simp add: byte_diff_def)

lemma cmp_spec_eq_0: "0 \<notin> set xs \<Longrightarrow> 0 \<notin> set ys \<Longrightarrow> cmp_spec xs ys = 0 \<longleftrightarrow> xs = ys"
  by (induction xs ys rule: cmp_spec.induct) (auto simp: byte_diff_0_iff)

lemma cmp_spec_less:
  "0 \<notin> set xs \<Longrightarrow> 0 \<notin> set ys \<Longrightarrow>
   sint (cmp_spec xs ys) < 0 \<longleftrightarrow> (xs, ys) \<in> lexord {(x, y). x < y}"
  by (induction xs ys rule: cmp_spec.induct)
    (auto simp: sint_byte_diff word_less_def word_neq0_uint)

lemma strcmp_cstr [str_spec]:
  "cstr m p xs \<Longrightarrow> cstr m q ys \<Longrightarrow> strcmp m p q = Some (cmp_spec xs ys)"
proof (induction xs ys arbitrary: p q rule: cmp_spec.induct)
  case 1
  then show ?case by (subst strcmp.simps) (simp add: byte_diff_def)
qed (subst strcmp.simps, simp add: byte_diff_def)+

lemma strncmp_cstr [str_spec]:
  "cstr m p xs \<Longrightarrow> cstr m q ys \<Longrightarrow>
   strncmp m p q n = cmp_spec (take (unat n) xs) (take (unat n) ys)"
proof (induction xs ys arbitrary: p q n rule: cmp_spec.induct)
  case (4 x xs y ys p q n)
  then show ?case
    by (subst strncmp.simps) (auto simp: word_step unat_Suc_pred [of n])
next
  case (2 y ys p q n)
  then show ?case
    by (cases "n = 0") (auto simp: strncmp.simps [of m p q n] strncmp.simps [of m p q 0] unat_Suc_pred [of n])
next
  case (3 x xs p q n)
  then show ?case
    by (cases "n = 0") (auto simp: strncmp.simps [of m p q n] strncmp.simps [of m p q 0] unat_Suc_pred [of n])
qed (simp add: strncmp.simps byte_diff_def)

subsection \<open>Searching\<close>

text \<open>The position of the first \<open>c\<close>, or the length.\<close>

definition first_pos :: "u8 \<Rightarrow> u8 list \<Rightarrow> nat" where
  "first_pos c xs = length (takeWhile (\<lambda>x. x \<noteq> c) xs)"

lemma first_pos_simps [simp]:
  "first_pos c [] = 0"
  "first_pos c (x # xs) = (if x = c then 0 else Suc (first_pos c xs))"
  by (simp_all add: first_pos_def)

lemma strfind_cstr [str_spec]:
  "cstr m s xs \<Longrightarrow> strfind m s c = Some (s + of_nat (first_pos c xs))"
  by (induction xs arbitrary: s) (subst strfind.simps, simp add: algebra_simps)+

lemma strchr_cstr [str_spec]:
  "cstr m s xs \<Longrightarrow> strchr m s c = Some (if c \<in> set xs then s + of_nat (first_pos c xs) else 0)"
  by (induction xs arbitrary: s) (subst strchr.simps, simp add: algebra_simps)+

text \<open>The first position at which \<open>ys\<close> occurs in \<open>xs\<close>.\<close>

definition occurs_at :: "u8 list \<Rightarrow> u8 list \<Rightarrow> nat \<Rightarrow> bool" where
  "occurs_at ys xs i \<longleftrightarrow> take (length ys) (drop i xs) = ys"

fun find_sub :: "u8 list \<Rightarrow> u8 list \<Rightarrow> nat option" where
  "find_sub ys [] = (if ys = [] then Some 0 else None)"
| "find_sub ys (x # xs) =
     (if occurs_at ys (x # xs) 0 then Some 0 else map_option Suc (find_sub ys xs))"

lemma find_sub_Some:
  "find_sub ys xs = Some i \<Longrightarrow> occurs_at ys xs i \<and> i \<le> length xs \<and> (\<forall>j<i. \<not> occurs_at ys xs j)"
proof (induction xs arbitrary: i)
  case Nil
  then show ?case by (simp add: occurs_at_def split: if_splits)
next
  case (Cons x xs)
  show ?case
  proof (cases "occurs_at ys (x # xs) 0")
    case True
    then show ?thesis using Cons.prems by simp
  next
    case False
    then obtain k where k: "find_sub ys xs = Some k" "i = Suc k" using Cons.prems by auto
    have "\<not> occurs_at ys (x # xs) j" if "j < Suc k" for j
      using that False Cons.IH [OF k(1)] by (cases j) (auto simp: occurs_at_def)
    then show ?thesis using Cons.IH [OF k(1)] k(2) by (auto simp: occurs_at_def)
  qed
qed

lemma find_sub_None: "ys \<noteq> [] \<Longrightarrow> find_sub ys xs = None \<longleftrightarrow> (\<forall>i. \<not> occurs_at ys xs i)"
proof (induction xs)
  case Nil
  then show ?case by (simp add: occurs_at_def)
next
  case (Cons x xs)
  have "(\<forall>i. \<not> occurs_at ys (x # xs) i) \<longleftrightarrow>
      \<not> occurs_at ys (x # xs) 0 \<and> (\<forall>i. \<not> occurs_at ys xs i)"
    by (subst all_nat_0_Suc) (auto simp: occurs_at_def)
  then show ?case using Cons by simp
qed

lemma strstr_scan_skip:
  "m p \<noteq> 0 \<Longrightarrow> m p \<noteq> c \<Longrightarrow> strstr_scan m p c = strstr_scan m (p + 1) c"
  by (subst strstr_scan.simps) simp

lemma strstr_loop_skip:
  "m p \<noteq> 0 \<Longrightarrow> m p \<noteq> c \<Longrightarrow> strstr_loop m p str c len = strstr_loop m (p + 1) str c len"
  by (subst (1 2) strstr_loop.simps) (simp add: strstr_scan_skip)

lemma strstr_loop_hit:
  "m p = c \<Longrightarrow> c \<noteq> 0 \<Longrightarrow> strstr_loop m p str c len =
    (if strncmp m (p + 1) str len \<noteq> 0 then strstr_loop m (p + 1) str c len else Some p)"
  by (subst strstr_loop.simps) (simp add: strstr_scan.simps [of m p])

lemma strstr_loop_cstr:
  assumes "cstr m str ys" and "c \<noteq> 0" and "len = of_nat (length ys)"
  shows "cstr m p xs \<Longrightarrow> strstr_loop m p str c len =
    Some (case find_sub (c # ys) xs of None \<Rightarrow> 0 | Some i \<Rightarrow> p + of_nat i)"
proof (induction xs arbitrary: p)
  case Nil
  then show ?case by (subst strstr_loop.simps) (simp add: strstr_scan.simps [of m p])
next
  case (Cons x xs)
  have len: "unat len = length ys"
    using cstr_short [OF assms(1)] by (simp add: assms(3) unat_of_nat)
  have z: "0 \<notin> set xs" "0 \<notin> set ys"
    using Cons.prems assms(1) by (auto dest: cstr_no_NUL)
  have "0 \<notin> set (take (length ys) xs)" using z(1) by (auto dest: in_set_takeD)
  then have cmp: "strncmp m (p + 1) str len = 0 \<longleftrightarrow> take (length ys) xs = ys"
    using Cons.prems assms(1) z(2)
    by (subst strncmp_cstr [of m "p + 1" xs str ys]) (simp_all add: len cmp_spec_eq_0)
  have tail: "strstr_loop m (p + 1) str c len =
      Some (case map_option Suc (find_sub (c # ys) xs) of None \<Rightarrow> 0 | Some i \<Rightarrow> p + of_nat i)"
    using Cons.IH [of "p + 1"] Cons.prems by (simp add: algebra_simps split: option.splits)
  show ?case
  proof (cases "x = c")
    case True
    then show ?thesis using Cons.prems assms(2) cmp tail
      by (subst strstr_loop_hit) (auto simp: occurs_at_def)
  next
    case False
    then show ?thesis using Cons.prems tail
      by (subst strstr_loop_skip) (auto simp: occurs_at_def)
  qed
qed

lemma strstr_cstr [str_spec]:
  assumes "cstr m inp xs" and "cstr m str ys" and "length ys < 2 ^ 31"
  shows "strstr m inp str = Some (case find_sub ys xs of None \<Rightarrow> 0 | Some i \<Rightarrow> inp + of_nat i)"
proof (cases ys)
  case Nil
  then show ?thesis using assms(2) by (cases xs) (simp_all add: strstr_def occurs_at_def)
next
  case (Cons c zs)
  then have "cstr m (str + 1) zs" "c \<noteq> 0" "m str = c" "length zs < 2 ^ 31"
    using assms(2,3) by auto
  then show ?thesis
    using strstr_loop_cstr [of m "str + 1" zs c, OF _ _ refl assms(1)] Cons
    by (simp add: strstr_def strlen_cstr scast_len)
qed

section \<open>Properties\<close>

text \<open>
  C29. \<^verbatim>\<open>strlcpy\<close> to a destination that does not overlap the source, for every size. It never stores outside
  the \<^verbatim>\<open>size\<close> bytes of the destination. For size 0 it changes nothing and returns 0. For every other size it
  leaves a NUL-terminated string there: the source, cut to \<^verbatim>\<open>size - 1\<close> bytes, and returns the number of bytes
  copied (not the length of the source, as the BSD function of that name does).
\<close>

theorem strlcpy_safe:
  assumes "cstr m src xs" and "apart dst (unat sz) src (Suc (length xs))" and "strlcpy m dst src sz = (r, m')"
  shows "(\<forall>a. a \<notin> span dst (unat sz) \<longrightarrow> m' a = m a) \<and>
    (if sz = 0 then r = 0 \<and> m' = m
     else unat r = min (length xs) (unat sz - 1) \<and> cstr m' dst (take (unat sz - 1) xs))"
proof (cases "sz = 0")
  case True
  then show ?thesis using assms(3) by (simp add: strlcpy_def)
next
  case False
  define k where "k = min (length xs) (unat sz - 1)"
  have pos: "0 < unat sz" using False by (simp add: unat_gt_0)
  then have k: "Suc k \<le> unat sz" "k \<le> length xs" "k < 2 ^ 64"
    using k_def unsigned_less [of sz, where ?'a = nat] by auto
  have "apart dst k src (Suc (length xs))"
    using apart_sub [OF assms(2), of k "Suc (length xs)"] k by simp
  then have eq: "r = of_nat k" "m' = store m dst (take k xs @ [0])"
    using assms(3) strlcpy_cstr [OF assms(1) False k_def] by simp_all
  have "unat r = k" using k by (simp add: eq unat_of_nat)
  have "0 \<notin> set (take k xs)" using cstr_no_NUL [OF assms(1)] by (auto dest: in_set_takeD)
  then have "cstr m' dst (take k xs)" using k by (simp add: eq cstr_store)
  moreover have "take k xs = take (unat sz - 1) xs" by (simp add: k_def min_def)
  moreover have "m' a = m a" if "a \<notin> span dst (unat sz)" for a
  proof -
    have "a \<notin> span dst (length (take k xs @ [0]))"
      using that span_mono [of "Suc k" "unat sz" dst] k by (auto simp: min_def)
    then show ?thesis unfolding eq by (rule store_outside)
  qed
  ultimately show ?thesis using False \<open>unat r = k\<close> by (simp add: k_def)
qed

theorem strlcpy_safe_witness:
  "cstr (snd (strlcpy (store (\<lambda>_. 7) 100 [65, 66, 67, 0]) 200 100 3)) 200 [65, 66] \<and>
   strlcpy (store (\<lambda>_. 7) 100 [65, 66, 67, 0]) 200 100 0 = (0, store (\<lambda>_. 7) 100 [65, 66, 67, 0])"
proof -
  let ?m = "store (\<lambda>_. 7) 100 [65, 66, 67, 0 :: u8]" and ?n = "Suc (length [65, 66, 67 :: u8])"
  have c: "cstr ?m 100 [65, 66, 67]" by simp
  have ap: "apart 200 (unat (3 :: u64)) 100 ?n" "apart 200 (unat (0 :: u64)) 100 ?n"
    by (auto simp: apart_def span_def word_less_nat_alt unat_sub_if')
  have "cstr (snd (strlcpy ?m 200 100 3)) 200 [65, 66]"
    using strlcpy_safe [OF c ap(1) prod.collapse [symmetric]] by (simp del: cstr.simps store.simps)
  moreover have "fst (strlcpy ?m 200 100 0) = 0" "snd (strlcpy ?m 200 100 0) = ?m"
    using strlcpy_safe [OF c ap(2) prod.collapse [symmetric]] by (simp_all del: cstr.simps store.simps)
  ultimately show ?thesis by (metis prod.collapse)
qed

text \<open>Strings as the type that \<^verbatim>\<open>strcmp\<close> orders: by unsigned bytes, a prefix before what it begins.\<close>

datatype cstring = CStr (chars: "u8 list")

instantiation cstring :: linorder
begin

definition less_cstring :: "cstring \<Rightarrow> cstring \<Rightarrow> bool" where
  "s < t \<longleftrightarrow> (chars s, chars t) \<in> lexord {(x, y). x < y}"

definition less_eq_cstring :: "cstring \<Rightarrow> cstring \<Rightarrow> bool" where
  "s \<le> t \<longleftrightarrow> s = t \<or> s < t" for s t :: cstring

instance
proof
  fix s t u :: cstring
  have tr: "trans {(x :: u8, y). x < y}" by (auto intro: transI)
  have total: "s < t \<or> s = t \<or> t < s"
    using lexord_linear [of "{(x :: u8, y). x < y}" "chars s" "chars t"]
    by (cases s; cases t) (auto simp: less_cstring_def less_linear)
  have trans: "a < b \<Longrightarrow> b < c \<Longrightarrow> a < c" for a b c :: cstring
    unfolding less_cstring_def using lexord_transI [OF tr] by (rule transD)
  have irr: "\<not> a < a" for a :: cstring 
    using lexord_irreflexive [of "{(x, y). x < y}" "chars a"] by (simp add: less_cstring_def)
  show "s < t \<longleftrightarrow> s \<le> t \<and> \<not> t \<le> s" unfolding less_eq_cstring_def by (metis trans irr)
  show "s \<le> s" by (simp add: less_eq_cstring_def)
  show "s \<le> t \<Longrightarrow> t \<le> u \<Longrightarrow> s \<le> u" unfolding less_eq_cstring_def by (metis trans)
  show "s \<le> t \<Longrightarrow> t \<le> s \<Longrightarrow> s = t" unfolding less_eq_cstring_def by (metis trans irr)
  show "s \<le> t \<or> t \<le> s" unfolding less_eq_cstring_def using total by metis
qed

end

lemma cmp_spec_negative: "sint (cmp_spec xs ys) < 0 \<longleftrightarrow> CStr xs < CStr ys"
  if "0 \<notin> set xs" and "0 \<notin> set ys"
  using cmp_spec_less [OF that] by (simp add: less_cstring_def)

text \<open>
  C30. \<^verbatim>\<open>strcmp\<close> returns on any two strings, and the sign of the result decides their order: it is zero exactly
  when they are equal, and otherwise tells which comes first in the lexicographic order of unsigned bytes.
\<close>

theorem strcmp_order:
  assumes "cstr m p xs" and "cstr m q ys"
  shows "\<exists>r. strcmp m p q = Some r \<and> (r = 0 \<longleftrightarrow> CStr xs = CStr ys) \<and>
    (sint r < 0 \<longleftrightarrow> CStr xs < CStr ys) \<and> (sint r > 0 \<longleftrightarrow> CStr xs > CStr ys)"
proof -
  note no_NUL = cstr_no_NUL [OF assms(1)] cstr_no_NUL [OF assms(2)]
  have "cmp_spec xs ys = 0 \<longleftrightarrow> CStr xs = CStr ys" using no_NUL by (simp add: cmp_spec_eq_0)
  moreover note cmp_spec_negative [OF no_NUL]
  moreover have "cmp_spec xs ys = 0 \<longleftrightarrow> sint (cmp_spec xs ys) = 0" by (simp add: signed_eq_0_iff)
  ultimately have "sint (cmp_spec xs ys) > 0 \<longleftrightarrow> CStr ys < CStr xs" by (metis less_irrefl linorder_less_linear less_trans)
  then show ?thesis
    using \<open>cmp_spec xs ys = 0 \<longleftrightarrow> CStr xs = CStr ys\<close> cmp_spec_negative [OF no_NUL] strcmp_cstr [OF assms] by simp
qed

theorem strcmp_order_witness:
  "\<exists>r. strcmp ((\<lambda>_. 0)(8 := 97, 16 := 200)) 8 16 = Some r \<and> r \<noteq> 0"
proof -
  let ?m = "(\<lambda>_. 0)(8 := 97, 16 := 200) :: mem"
  have "cstr ?m 8 [97]" "cstr ?m 16 [200]" by simp_all
  from strcmp_order [OF this] show ?thesis by auto
qed

text \<open>
  C31. \<^verbatim>\<open>strstr\<close> returns on any two strings (the second shorter than 2 GiB): the null pointer when
  the second occurs nowhere in the first, else the pointer to its first occurrence.
\<close>

theorem strstr_first:
  assumes "cstr m inp xs" and "cstr m str ys" and "length ys < 2 ^ 31"
  shows "(\<forall>i. \<not> occurs_at ys xs i) \<and> strstr m inp str = Some 0 \<or>
    (\<exists>i \<le> length xs. occurs_at ys xs i \<and> (\<forall>j < i. \<not> occurs_at ys xs j) \<and>
      strstr m inp str = Some (inp + of_nat i))"
proof (cases "find_sub ys xs")
  case None
  then have "ys \<noteq> []" by (cases xs) (auto simp: occurs_at_def)
  with None show ?thesis using strstr_cstr [OF assms] find_sub_None [of ys xs] by simp
next
  case (Some i)
  then show ?thesis using strstr_cstr [OF assms] find_sub_Some [OF Some] by auto
qed

theorem strstr_first_witness:
  "\<exists>p. strstr (store (\<lambda>_. 0) 100 [1, 2, 1, 3]) 100 102 = Some p"
proof -
  let ?m = "store (\<lambda>_. 0) 100 [1, 2, 1, 3] :: mem"
  have "cstr ?m 100 [1, 2, 1, 3]" "cstr ?m 102 [1, 3]" by simp_all
  from strstr_first [OF this] show ?thesis by auto
qed

text \<open>
  \<^verbatim>\<open>strcat\<close> after \<^verbatim>\<open>strcpy\<close> builds the concatenation: with a destination that does not touch
  the sources, the two calls return it and leave both strings, one behind the other, at it.
\<close>

lemma strcpy_strcat:
  assumes "cstr m p xs" and "cstr m q ys" and "length xs + length ys < 2 ^ 31"
    and "apart dst (length xs + length ys + 1) p (Suc (length xs))"
    and "apart dst (length xs + length ys + 1) q (Suc (length ys))"
  shows "\<exists>m1 m2. strcpy m dst p = Some (dst, m1) \<and> strcat m1 dst q = Some (dst, m2) \<and>
    cstr m2 dst (xs @ ys) \<and> (\<forall>a. a \<notin> span dst (length xs + length ys + 1) \<longrightarrow> m2 a = m a)"
proof -
  let ?n = "length xs + length ys + 1"
  let ?m1 = "store m dst (xs @ [0])" let ?d = "dst + of_nat (length xs)"
  let ?m2 = "store ?m1 ?d (ys @ [0])"
  have z: "0 \<notin> set xs" "0 \<notin> set ys" using assms(1,2) by (auto dest: cstr_no_NUL)
  have c1: "strcpy m dst p = Some (dst, ?m1)"
    using apart_sub [OF assms(4), of "Suc (length xs)" "Suc (length xs)"]
    by (intro strcpy_cstr [OF assms(1)]) simp
  have d1: "cstr ?m1 dst xs" using z assms(3) by (intro cstr_store) simp_all
  have q1: "cstr ?m1 q ys"
    using apart_sub [OF assms(5), of "Suc (length xs)" "Suc (length ys)"] assms(2)
    by (subst cstr_store_frame) (simp_all add: apart_def)
  have eq: "?m2 = store m dst (xs @ ys @ [0])"
  proof -
    have "store ?m1 ?d (ys @ [0]) = store (store m dst xs) ?d (ys @ [0])"
      by (cases ys) (simp_all add: store_append)
    then show ?thesis by (simp only: store_append)
  qed
  have "apart ?d (Suc (length ys)) q (Suc (length ys))"
  proof -
    have "span ?d (Suc (length ys)) \<subseteq> span dst ?n"
    proof
      fix a assume "a \<in> span ?d (Suc (length ys))"
      then have lt: "unat (a - dst - of_nat (length xs)) \<le> length ys"
        by (simp add: span_iff diff_diff_eq)
      have "a - dst = of_nat (unat (a - dst - of_nat (length xs)) + length xs)" by simp
      then have "unat (a - dst) \<le> unat (a - dst - of_nat (length xs)) + length xs"
        by (metis unat_of_nat take_bit_nat_less_eq_self mod_less_eq_dividend)
      with lt show "a \<in> span dst ?n" by (simp add: span_iff)
    qed
    then show ?thesis using assms(5) by (auto simp: apart_def)
  qed
  then have c2: "strcat ?m1 dst q = Some (dst, ?m2)"
    using assms(3) by (intro strcat_cstr [OF d1 q1]) simp_all
  have "cstr ?m2 dst (xs @ ys)"
    unfolding eq append_assoc [symmetric] using z assms(3) by (intro cstr_store) simp_all
  moreover have "?m2 a = m a" if "a \<notin> span dst ?n" for a
    unfolding eq using that by (intro store_outside) simp
  ultimately show ?thesis using c1 c2 by blast
qed

lemma strcpy_strcat_example:
  "\<exists>m1 m2. strcpy (store (\<lambda>_. 0) 100 [1, 2, 1, 3]) 500 100 = Some (500, m1) \<and>
    strcat m1 500 102 = Some (500, m2) \<and> cstr m2 500 ([1, 2, 1, 3] @ [1, 3])"
proof -
  let ?m = "store (\<lambda>_. 0) 100 [1, 2, 1, 3] :: mem"
  have c: "cstr ?m 100 [1, 2, 1, 3]" "cstr ?m 102 [1, 3]" by simp_all
  have len: "length [1, 2, 1, 3 :: u8] + length [1, 3 :: u8] < 2 ^ 31" by simp
  have "apart 500 (length [1, 2, 1, 3 :: u8] + length [1, 3 :: u8] + 1) 100
      (Suc (length [1, 2, 1, 3 :: u8]))"
    "apart 500 (length [1, 2, 1, 3 :: u8] + length [1, 3 :: u8] + 1) 102
      (Suc (length [1, 3 :: u8]))"
    by (auto simp: apart_def span_def word_less_nat_alt unat_sub_if')
  from strcpy_strcat [OF c len this] show ?thesis by blast
qed

end
