(* ===== verification/MemOps.thy ===== *)
theory MemOps
  imports CString
begin

text \<open>
  The routines of \<^verbatim>\<open>lib/string.c\<close> on runs of bytes, \<^verbatim>\<open>memset\<close> to \<^verbatim>\<open>memfind\<close>: both the versions
  built on the x86 string instructions (\<^verbatim>\<open>ASM\<close>, the ones the kernel runs) and the portable ones,
  with the lemmas that show what they store and that both versions agree.
\<close>

section \<open>Runs of bytes\<close>

text \<open>
  The x86 string instructions that the inline assembly uses: the count register is \<open>cx\<close>, and the
  pointers move down when the direction flag is set (\<^verbatim>\<open>std\<close>).
\<close>

definition le32 :: "u32 \<Rightarrow> u8 list" where
  "le32 x = [ucast x, ucast (drop_bit 8 x), ucast (drop_bit 16 x), ucast (drop_bit 24 x)]"

function rep_stosb :: "mem \<Rightarrow> addr \<Rightarrow> u8 \<Rightarrow> u64 \<Rightarrow> mem" where
  "rep_stosb m di al cx = (if cx = 0 then m else rep_stosb (m(di := al)) (di + 1) al (cx - 1))"
  by pat_completeness auto
termination
  by (relation "measure (\<lambda>(m, di, al, cx). unat cx)") (simp_all add: word_step)

function rep_stosl :: "mem \<Rightarrow> addr \<Rightarrow> u32 \<Rightarrow> u64 \<Rightarrow> mem" where
  "rep_stosl m di eax cx =
     (if cx = 0 then m else rep_stosl (store m di (le32 eax)) (di + 4) eax (cx - 1))"
  by pat_completeness auto
termination
  by (relation "measure (\<lambda>(m, di, eax, cx). unat cx)") (simp_all add: word_step)

function rep_movsb :: "bool \<Rightarrow> mem \<Rightarrow> addr \<Rightarrow> addr \<Rightarrow> u64 \<Rightarrow> mem" where
  "rep_movsb df m di si cx =
     (if cx = 0 then m
      else rep_movsb df (m(di := m si)) (if df then di - 1 else di + 1)
             (if df then si - 1 else si + 1) (cx - 1))"
  by pat_completeness auto
termination
  by (relation "measure (\<lambda>(df, m, di, si, cx). unat cx)") (simp_all add: word_step)

function rep_movsl :: "bool \<Rightarrow> mem \<Rightarrow> addr \<Rightarrow> addr \<Rightarrow> u64 \<Rightarrow> mem" where
  "rep_movsl df m di si cx =
     (if cx = 0 then m
      else rep_movsl df (store m di (bytes_at m si 4)) (if df then di - 4 else di + 4)
             (if df then si - 4 else si + 4) (cx - 1))"
  by pat_completeness auto
termination
  by (relation "measure (\<lambda>(df, m, di, si, cx). unat cx)") (simp_all add: word_step)

text \<open>\<^verbatim>\<open>(int64_t)v%4 == 0\<close> is C's remainder of the signed value.\<close>

definition aligned4 :: "addr \<Rightarrow> bool" where
  "aligned4 v \<longleftrightarrow> sint v smod 4 = 0"

definition memset :: "mem \<Rightarrow> addr \<Rightarrow> u32 \<Rightarrow> u64 \<Rightarrow> addr \<times> mem" where
  "memset m v c n =
     (if n = 0 then (v, m)
      else if aligned4 v \<and> n mod 4 = 0
      then let c1 = c AND 0xFF;
               c2 = push_bit 24 c1 OR push_bit 16 c1 OR push_bit 8 c1 OR c1
           in (v, rep_stosl m v c2 (n div 4))
      else (v, rep_stosb m v (ucast c) n))"

definition memmove :: "mem \<Rightarrow> addr \<Rightarrow> addr \<Rightarrow> u64 \<Rightarrow> addr \<times> mem" where
  "memmove m dst src n =
     (let s = src; d = dst
      in if s < d \<and> s + n > d
         then let s = s + n; d = d + n
              in if aligned4 s \<and> aligned4 d \<and> n mod 4 = 0
                 then (dst, rep_movsl True m (d - 4) (s - 4) (n div 4))
                 else (dst, rep_movsb True m (d - 1) (s - 1) n)
         else if aligned4 s \<and> aligned4 d \<and> n mod 4 = 0
              then (dst, rep_movsl False m d s (n div 4))
              else (dst, rep_movsb False m d s n))"

definition memcpy :: "mem \<Rightarrow> addr \<Rightarrow> addr \<Rightarrow> u64 \<Rightarrow> addr \<times> mem" where
  "memcpy m dst src n = memmove m dst src n"

text \<open>The portable versions, compiled when \<^verbatim>\<open>ASM\<close> is 0. \<^verbatim>\<open>memset\<close> counts in an \<^verbatim>\<open>int\<close>.\<close>

function memset_c_loop :: "mem \<Rightarrow> addr \<Rightarrow> u8 \<Rightarrow> u32 \<Rightarrow> mem" where
  "memset_c_loop m p c k =
     (if 0 \<le> sint (k - 1) then memset_c_loop (m(p := c)) (p + 1) c (k - 1) else m)"
  by pat_completeness auto
termination
  by (relation "measure (\<lambda>(m, p, c, k). if 0 \<le> sint (k - 1) then Suc (unat (k - 1)) else 0)")
    (use down_step in \<open>auto simp: algebra_simps\<close>)

definition memset_c :: "mem \<Rightarrow> addr \<Rightarrow> u32 \<Rightarrow> u64 \<Rightarrow> addr \<times> mem" where
  "memset_c m v c n = (v, memset_c_loop m v (ucast c) (ucast n))"

function copy_up :: "mem \<Rightarrow> addr \<Rightarrow> addr \<Rightarrow> u64 \<Rightarrow> mem" where
  "copy_up m d s n = (if n > 0 then copy_up (m(d := m s)) (d + 1) (s + 1) (n - 1) else m)"
  by pat_completeness auto
termination
  by (relation "measure (\<lambda>(m, d, s, n). unat n)") (simp_all add: word_step)

function copy_down :: "mem \<Rightarrow> addr \<Rightarrow> addr \<Rightarrow> u64 \<Rightarrow> mem" where
  "copy_down m d s n =
     (if n > 0 then let d' = d - 1; s' = s - 1 in copy_down (m(d' := m s')) d' s' (n - 1) else m)"
  by pat_completeness auto
termination
  by (relation "measure (\<lambda>(m, d, s, n). unat n)") (simp_all add: word_step)

definition memmove_c :: "mem \<Rightarrow> addr \<Rightarrow> addr \<Rightarrow> u64 \<Rightarrow> addr \<times> mem" where
  "memmove_c m dst src n =
     (if src < dst \<and> src + n > dst then (dst, copy_down m (dst + n) (src + n) n)
      else (dst, copy_up m dst src n))"

function memcmp :: "mem \<Rightarrow> addr \<Rightarrow> addr \<Rightarrow> u64 \<Rightarrow> u32" where
  "memcmp m s1 s2 n =
     (if n > 0
      then if m s1 \<noteq> m s2 then ucast (m s1) - ucast (m s2)
           else memcmp m (s1 + 1) (s2 + 1) (n - 1)
      else 0)"
  by pat_completeness auto
termination
  by (relation "measure (\<lambda>(m, s1, s2, n). unat n)") (simp_all add: word_step)

function memfind_loop :: "mem \<Rightarrow> addr \<Rightarrow> u8 \<Rightarrow> addr \<Rightarrow> addr" where
  "memfind_loop m s c ends =
     (if s < ends then if m s = c then s else memfind_loop m (s + 1) c ends else s)"
  by pat_completeness auto
termination
  by (relation "measure (\<lambda>(m, s, c, ends). unat ends - unat s)")
    (simp_all add: word_step)

definition memfind :: "mem \<Rightarrow> addr \<Rightarrow> u32 \<Rightarrow> u64 \<Rightarrow> addr" where
  "memfind m s c n = memfind_loop m s (ucast c) (s + n)"

section \<open>What the string instructions store\<close>

lemmas memops_loops [simp del] = rep_stosb.simps rep_stosl.simps rep_movsb.simps rep_movsl.simps
  memset_c_loop.simps copy_up.simps copy_down.simps memcmp.simps memfind_loop.simps

lemma rep_stosb_store: "rep_stosb m di al cx = store m di (replicate (unat cx) al)"
proof (induction cx arbitrary: m di rule: word_pred_induct)
  case zero
  then show ?case by (simp add: rep_stosb.simps)
next
  case (pred cx)
  then show ?case by (simp add: rep_stosb.simps [of m di al cx] unat_Suc_pred [of cx] del: fun_upd_apply)
qed

lemma length_le32 [simp]: "length (le32 x) = 4"
  by (simp add: le32_def)

lemma rep_stosl_store: "rep_stosl m di eax cx = store m di (concat (replicate (unat cx) (le32 eax)))"
proof (induction cx arbitrary: m di rule: word_pred_induct)
  case zero
  then show ?case by (simp add: rep_stosl.simps)
next
  case (pred cx)
  then show ?case
    by (simp add: rep_stosl.simps [of m di eax cx] unat_Suc_pred [of cx] store_append)
qed

text \<open>The four copies of a byte in a 32-bit word.\<close>

lemma le32_four_copies:
  fixes c :: u32
  defines "c1 \<equiv> c AND 0xFF"
  shows "le32 (push_bit 24 c1 OR push_bit 16 c1 OR push_bit 8 c1 OR c1) = replicate 4 (ucast c)"
proof -
  have c1: "c1 = take_bit 8 c" by (simp add: c1_def take_bit_eq_mask mask_eq_exp_minus_1)
  have "(ucast (drop_bit k (push_bit 24 c1 OR push_bit 16 c1 OR push_bit 8 c1 OR c1)) :: u8) = ucast c"
    if "k \<in> {0, 8, 16, 24}" for k
    using that unfolding c1 by (intro bit_word_eqI) (auto simp: bit_simps)
  from this [of 0] this [of 8] this [of 16] this [of 24] show ?thesis
    by (simp add: le32_def numeral_eq_Suc)
qed

lemma concat_replicate_replicate: "concat (replicate k (replicate j x)) = replicate (k * j) x"
  by (induction k) (auto simp: replicate_add)

lemma unat_div4: "(n :: u64) mod 4 = 0 \<Longrightarrow> unat (n div 4) * 4 = unat n"
proof -
  assume "n mod 4 = 0"
  then have "unat n mod 4 = 0" using unat_mod_distrib [of n 4] by simp
  then show ?thesis by (simp add: unat_div_distrib mod_0_imp_dvd)
qed

lemma memset_store [str_spec]: "memset m v c n = (v, store m v (replicate (unat n) (ucast c)))"
proof (cases "n = 0")
  case False
  show ?thesis
  proof (cases "aligned4 v \<and> n mod 4 = 0")
    case True
    then have "n mod 4 = 0" by simp
    with True False show ?thesis
      by (simp only: memset_def Let_def rep_stosl_store le32_four_copies concat_replicate_replicate
          unat_div4 if_False if_True simp_thms)
  next
    case False
    with \<open>n \<noteq> 0\<close> show ?thesis by (simp only: memset_def rep_stosb_store if_False)
  qed
qed (simp add: memset_def)

lemma memset_c_loop_store:
  "k < 2 ^ 31 \<Longrightarrow> memset_c_loop m p c (of_nat k) = store m p (replicate k c)"
proof (induction k arbitrary: m p)
  case 0
  then show ?case by (simp add: memset_c_loop.simps)
next
  case (Suc k)
  have "sint (of_nat k :: u32) = int k"
    using Suc.prems by (simp add: signed_of_nat signed_take_bit_int_eq_self)
  then show ?case using Suc by (subst memset_c_loop.simps) simp
qed

section \<open>Copies\<close>

lemma copy_up_movsb: "copy_up m d s n = rep_movsb False m d s n"
proof (induction n arbitrary: m d s rule: word_pred_induct)
  case zero
  then show ?case by (simp add: copy_up.simps rep_movsb.simps)
next
  case (pred n)
  then show ?case by (simp add: copy_up.simps [of m d s n] rep_movsb.simps [of False m d s n] word_step
        del: fun_upd_apply)
qed

lemma copy_down_movsb: "copy_down m (d + 1) (s + 1) n = rep_movsb True m d s n"
proof (induction n arbitrary: m d s rule: word_pred_induct)
  case zero
  then show ?case by (simp add: copy_down.simps rep_movsb.simps)
next
  case (pred n)
  from pred(2) [of "m(d := m s)" "d - 1" "s - 1"] pred(1) show ?case
    by (simp add: copy_down.simps [of m "d + 1" "s + 1" n] rep_movsb.simps [of True m d s n] word_step
        del: fun_upd_apply)
qed

text \<open>
  One \<^verbatim>\<open>movsl\<close> is four \<^verbatim>\<open>movsb\<close> when the two words do not overlap in part, which the alignment
  of both pointers rules out.
\<close>

definition no_part_overlap :: "addr \<Rightarrow> addr \<Rightarrow> bool" where
  "no_part_overlap d s \<longleftrightarrow> d - s \<notin> {1, 2, 3} \<and> s - d \<notin> {1, 2, 3}"

lemma aligned4_iff: "aligned4 v \<longleftrightarrow> 4 dvd uint v"
proof -
  have "take_bit 2 (sint v) = take_bit 2 (uint v)"
    unfolding sint_uint by (rule take_bit_signed_take_bit) simp
  then have "4 dvd sint v \<longleftrightarrow> 4 dvd uint v"
    using take_bit_eq_0_iff [of 2 "sint v"] take_bit_eq_0_iff [of 2 "uint v"] by simp
  moreover have "sint v smod 4 = 0 \<longleftrightarrow> 4 dvd sint v"
    unfolding signed_modulo_int_def dvd_eq_mod_eq_0 sgn_if by presburger
  ultimately show ?thesis by (simp add: aligned4_def)
qed

lemma dvd_uint_mod: "(4::int) dvd k mod 18446744073709551616 \<longleftrightarrow> 4 dvd k"
  by (rule dvd_mod_iff) simp

lemma aligned4_diff: "aligned4 d \<Longrightarrow> aligned4 s \<Longrightarrow> aligned4 (d - s)"
  by (simp add: aligned4_iff uint_word_ariths dvd_uint_mod dvd_diff)

lemma aligned4_add: "aligned4 d \<Longrightarrow> aligned4 s \<Longrightarrow> aligned4 (d + s)"
  by (simp add: aligned4_iff uint_word_ariths dvd_uint_mod dvd_diff)

lemma aligned4_mod: "aligned4 n \<longleftrightarrow> n mod 4 = 0"
  by (simp add: aligned4_iff word_uint_eq_iff uint_mod dvd_eq_mod_eq_0)

lemma aligned4_no_part_overlap: "aligned4 d \<Longrightarrow> aligned4 s \<Longrightarrow> no_part_overlap d s"
  using aligned4_diff [of d s] aligned4_diff [of s d]
  by (auto simp: no_part_overlap_def aligned4_iff)

text \<open>The byte copy with its count as a natural number.\<close>

fun movsb :: "bool \<Rightarrow> nat \<Rightarrow> mem \<Rightarrow> addr \<Rightarrow> addr \<Rightarrow> mem" where
  "movsb df 0 m di si = m"
| "movsb df (Suc k) m di si =
     movsb df k (m(di := m si)) (if df then di - 1 else di + 1) (if df then si - 1 else si + 1)"

lemma rep_movsb_nat: "rep_movsb df m di si cx = movsb df (unat cx) m di si"
proof (induction cx arbitrary: m di si rule: word_pred_induct)
  case zero
  then show ?case by (simp add: rep_movsb.simps)
next
  case (pred cx)
  then show ?case
    by (simp add: rep_movsb.simps [of df m di si cx] unat_Suc_pred [of cx] del: fun_upd_apply)
qed

lemma movsb_add4: "movsb df (k + 4) m d s = movsb df (Suc (Suc (Suc (Suc k)))) m d s"
proof -
  have "k + 4 = Suc (Suc (Suc (Suc k)))" by simp
  then show ?thesis by (simp only:)
qed

lemma movsl_up:
  assumes "no_part_overlap d s"
  shows "movsb False (k + 4) m d s = movsb False k (store m d (bytes_at m s 4)) (d + 4) (s + 4)"
proof -
  have "s + 1 \<noteq> d" "s + 2 \<noteq> d" "s + 2 \<noteq> d + 1" "s + 3 \<noteq> d" "s + 3 \<noteq> d + 1" "s + 3 \<noteq> d + 2"
    using assms by (auto simp: no_part_overlap_def algebra_simps)
  then show ?thesis unfolding movsb_add4 by (simp add: bytes_at_4 store_4 add.assoc)
qed

lemma movsl_down:
  assumes "no_part_overlap d s"
  shows "movsb True (k + 4) m (d + 3) (s + 3) =
    movsb True k (store m d (bytes_at m s 4)) (d - 1) (s - 1)"
proof -
  have "d + 1 \<noteq> s" "d + 2 \<noteq> s" "d + 2 \<noteq> s + 1" "d + 3 \<noteq> s" "d + 3 \<noteq> s + 1" "d + 3 \<noteq> s + 2"
    using assms by (auto simp: no_part_overlap_def algebra_simps)
  moreover have "(store m d (bytes_at m s 4)) = m(d + 3 := m (s + 3), d + 2 := m (s + 2), d + 1 := m (s + 1), d := m s)"
    by (rule ext) (simp add: bytes_at_4 store_4)
  ultimately show ?thesis unfolding movsb_add4 by (simp add: add.commute)
qed

lemma movsl_step_overlap:
  "no_part_overlap d s \<Longrightarrow> no_part_overlap (d + 4) (s + 4) \<and> no_part_overlap (d - 4) (s - 4)"
  by (simp add: no_part_overlap_def)

lemma rep_movsl_nat:
  "no_part_overlap d s \<Longrightarrow> rep_movsl df m d s cx =
    movsb df (unat cx * 4) m (if df then d + 3 else d) (if df then s + 3 else s)"
proof (induction cx arbitrary: m d s rule: word_pred_induct)
  case zero
  then show ?case by (simp add: rep_movsl.simps)
next
  case (pred cx)
  have four: "unat cx * 4 = unat (cx - 1) * 4 + 4"
    using unat_Suc_pred [OF pred(1)] by simp
  show ?case
    using pred(1,3) movsl_step_overlap [OF pred(3)] pred(2)
    unfolding four by (simp add: rep_movsl.simps [of df m d s cx] movsl_up movsl_down)
qed

lemma store_upd_commute:
  "q \<notin> span p (length xs) \<Longrightarrow> store (m(q := x)) p xs = (store m p xs)(q := x)"
proof (induction xs arbitrary: m p)
  case (Cons y ys)
  then have "q \<noteq> p" "q \<notin> span (p + 1) (length ys)" by (auto simp: span_Suc)
  with Cons.IH [of "p + 1" "m(p := y)"] show ?case
    by (simp add: fun_upd_twist [of p q] del: fun_upd_apply)
qed simp

lemma movsb_up_store:
  "d \<notin> span (s + 1) (n - 1) \<Longrightarrow> movsb False n m d s = store m d (bytes_at m s n)"
proof (induction n arbitrary: m d s)
  case (Suc k)
  have "d + 1 \<notin> span (s + 1 + 1) (k - 1)"
    using Suc.prems by (simp add: span_iff diff_diff_eq)
  moreover have "bytes_at (m(d := m s)) (s + 1) k = bytes_at m (s + 1) k"
    using Suc.prems by (intro bytes_at_upd) simp
  ultimately show ?case using Suc.IH [of "d + 1" "s + 1" "m(d := m s)"]
    by (simp del: fun_upd_apply)
qed simp

lemma movsb_down_store:
  "unat (d - s) + n \<le> 2 ^ 64 \<Longrightarrow>
   movsb True n m (d + of_nat n - 1) (s + of_nat n - 1) = store m d (bytes_at m s n)"
proof (induction n arbitrary: m)
  case (Suc k)
  define q where "q = d + of_nat k"
  have "unat (d - s + of_nat k) = unat (d - s) + k"
    using Suc.prems by (simp add: unat_word_ariths unat_of_nat)
  then have "q \<notin> span s k"
    by (simp add: q_def span_iff algebra_simps)
  then have rd: "bytes_at (m(q := m (s + of_nat k))) s k = bytes_at m s k"
    by (rule bytes_at_upd)
  have "q \<notin> span d k"
    using Suc.prems by (simp add: q_def span_iff unat_of_nat)
  then have wr: "store (m(q := m (s + of_nat k))) d (bytes_at m s k)
      = (store m d (bytes_at m s k))(q := m (s + of_nat k))"
    by (intro store_upd_commute) simp
  have "bytes_at m s (Suc k) = bytes_at m s k @ [m (s + of_nat k)]"
    using bytes_at_append [of m s k 1] by simp
  then have "store m d (bytes_at m s (Suc k)) = (store m d (bytes_at m s k))(q := m (s + of_nat k))"
    by (simp only: store_append length_bytes_at store.simps q_def)
  moreover have "movsb True (Suc k) m (d + of_nat (Suc k) - 1) (s + of_nat (Suc k) - 1)
      = movsb True k (m(q := m (s + of_nat k))) (d + of_nat k - 1) (s + of_nat k - 1)"
    by (simp add: q_def)
  ultimately show ?case
    using Suc.IH [of "m(q := m (s + of_nat k))"] Suc.prems by (simp only: rd wr)
qed simp

text \<open>
  Both versions of \<^verbatim>\<open>memmove\<close> are the byte copy in the direction that the overlap asks for,
  whatever the arguments.
\<close>

definition move_bytes :: "mem \<Rightarrow> addr \<Rightarrow> addr \<Rightarrow> u64 \<Rightarrow> mem" where
  "move_bytes m dst src n =
     (if src < dst \<and> src + n > dst then movsb True (unat n) m (dst + n - 1) (src + n - 1)
      else movsb False (unat n) m dst src)"

lemma memmove_move_bytes: "memmove m dst src n = (dst, move_bytes m dst src n)"
proof -
  have down: "rep_movsl True m (dst + n - 4) (src + n - 4) (n div 4)
      = movsb True (unat n) m (dst + n - 1) (src + n - 1)"
    if "aligned4 (src + n)" "aligned4 (dst + n)" "n mod 4 = 0"
  proof -
    have "no_part_overlap (dst + n - 4) (src + n - 4)"
      using aligned4_no_part_overlap [OF that(2,1)] movsl_step_overlap by blast
    then show ?thesis using unat_div4 [OF that(3)] by (simp add: rep_movsl_nat)
  qed
  have up: "rep_movsl False m dst src (n div 4) = movsb False (unat n) m dst src"
    if "aligned4 src" "aligned4 dst" "n mod 4 = 0"
    using aligned4_no_part_overlap [OF that(2,1)] unat_div4 [OF that(3)] by (simp add: rep_movsl_nat)
  show ?thesis
    by (simp add: memmove_def move_bytes_def Let_def up down rep_movsb_nat)
qed

lemma memmove_c_move_bytes: "memmove_c m dst src n = (dst, move_bytes m dst src n)"
  using copy_down_movsb [of m "dst + n - 1" "src + n - 1" n]
  by (simp add: memmove_c_def move_bytes_def copy_up_movsb rep_movsb_nat)

lemma move_bytes_store:
  assumes "unat src + unat n < 2 ^ 64" and "unat dst + unat n \<le> 2 ^ 64"
  shows "move_bytes m dst src n = store m dst (bytes_at m src (unat n))"
proof (cases "src < dst \<and> src + n > dst")
  case True
  then have "unat (dst - src) = unat dst - unat src"
    by (simp add: unat_sub word_le_nat_alt word_less_nat_alt)
  then have "unat (dst - src) + unat n \<le> 2 ^ 64" using assms(2) by simp
  from movsb_down_store [OF this, of m] True show ?thesis by (simp add: move_bytes_def)
next
  case False
  have sum: "unat (src + n) = unat src + unat n" using assms(1) by (simp add: unat_word_ariths)
  have "dst \<notin> span (src + 1) (unat n - 1)"
  proof (cases "dst \<le> src")
    case True
    show ?thesis
    proof (cases "dst = src")
      case True
      then show ?thesis using not_in_next_span [of "unat n - 1" src] assms(1) by simp
    next
      case False
      then have "unat (dst - src) = 2 ^ 64 + unat dst - unat src"
        using True by (auto simp: unat_sub_if' word_le_nat_alt word_unat_eq_iff)
      moreover have "unat (dst - src) = Suc (unat (dst - (src + 1)))"
        using False by (rule unat_minus_Suc)
      ultimately show ?thesis using assms(1) unat_gt_0 [of n] by (simp add: span_iff)
    qed
  next
    case False
    then have lt: "src < dst" by simp
    with \<open>\<not> (src < dst \<and> src + n > dst)\<close> have "unat src + unat n \<le> unat dst"
      using sum by (simp add: word_less_nat_alt)
    moreover have "unat (dst - src) = unat dst - unat src"
      using lt by (simp add: unat_sub word_le_nat_alt word_less_nat_alt)
    moreover have "unat (dst - src) = Suc (unat (dst - (src + 1)))"
      using lt by (intro unat_minus_Suc) auto
    ultimately show ?thesis by (simp add: span_iff)
  qed
  then have "movsb False (unat n) m dst src = store m dst (bytes_at m src (unat n))"
    by (rule movsb_up_store)
  with False show ?thesis by (simp only: move_bytes_def if_False)
qed

lemma memmove_store [str_spec]:
  "unat src + unat n < 2 ^ 64 \<Longrightarrow> unat dst + unat n \<le> 2 ^ 64 \<Longrightarrow>
   memmove m dst src n = (dst, store m dst (bytes_at m src (unat n)))"
  by (simp add: memmove_move_bytes move_bytes_store)

section \<open>Comparing and searching\<close>

lemma memmove_lookup:
  assumes "unat src + unat n < 2 ^ 64" and "unat dst + unat n \<le> 2 ^ 64"
  shows "fst (memmove m dst src n) = dst"
    and "snd (memmove m dst src n) a =
      (if a \<in> span dst (unat n) then m (src + (a - dst)) else m a)"
proof -
  have "unat n \<le> 2 ^ 64" using assms(2) by simp
  then show "fst (memmove m dst src n) = dst" and "snd (memmove m dst src n) a =
      (if a \<in> span dst (unat n) then m (src + (a - dst)) else m a)"
    by (simp_all add: memmove_store [OF assms] store_lookup bytes_at_nth span_iff)
qed

lemma memcmp_bytes [str_spec]:
  "memcmp m p q n = cmp_spec (bytes_at m p (unat n)) (bytes_at m q (unat n))"
proof (induction n arbitrary: p q rule: word_pred_induct)
  case zero
  then show ?case by (simp add: memcmp.simps)
next
  case (pred n)
  then show ?case
    by (simp add: memcmp.simps [of m p q n] word_step unat_Suc_pred [of n] byte_diff_def)
qed

lemma cmp_spec_eq_0_length: "length xs = length ys \<Longrightarrow> cmp_spec xs ys = 0 \<longleftrightarrow> xs = ys"
  by (induction xs ys rule: list_induct2) (auto simp: byte_diff_0_iff)

lemma cmp_spec_less_length:
  "length xs = length ys \<Longrightarrow>
   sint (cmp_spec xs ys) < 0 \<longleftrightarrow> (xs, ys) \<in> lexord {(x, y). x < y}"
  by (induction xs ys rule: list_induct2) (auto simp: sint_byte_diff word_less_def)

lemma memfind_loop_bytes:
  "unat ends = unat s + n \<Longrightarrow> memfind_loop m s c ends = s + of_nat (first_pos c (bytes_at m s n))"
proof (induction n arbitrary: s)
  case 0
  then show ?case by (simp add: memfind_loop.simps word_less_nat_alt)
next
  case (Suc n)
  then have lt: "s < ends" by (simp add: word_less_nat_alt)
  from Suc.IH [of "s + 1"] Suc.prems unat_Suc_less [OF lt] lt show ?case
    by (simp add: memfind_loop.simps [of m s c ends] add.assoc)
qed

lemma memfind_bytes [str_spec]:
  "unat s + unat n < 2 ^ 64 \<Longrightarrow>
   memfind m s c n = s + of_nat (first_pos (ucast c) (bytes_at m s (unat n)))"
  by (simp add: memfind_def memfind_loop_bytes unat_word_ariths)

section \<open>Properties\<close>

text \<open>
  C1. \<^verbatim>\<open>memmove\<close> copies correctly even when the two regions overlap: for regions that do not wrap
  around the address space, byte \<open>i\<close> of the destination holds afterwards what byte \<open>i\<close> of the
  source held before, every other byte of memory is unchanged, and the destination is returned.
\<close>

theorem memmove_overlap:
  assumes "unat src + unat n < 2 ^ 64" and "unat dst + unat n \<le> 2 ^ 64"
    and "memmove m dst src n = (r, m')"
  shows "r = dst \<and> m' a = (if a \<in> span dst (unat n) then m (src + (a - dst)) else m a)"
  using memmove_lookup [OF assms(1,2)] assms(3) by (metis fst_conv snd_conv)

theorem memmove_overlap_witness:
  "snd (memmove (\<lambda>a. ucast a) 101 100 8) 105 = 104"
proof -
  let ?m = "(\<lambda>a. ucast a) :: mem"
  have "memmove ?m 101 100 8 = (fst (memmove ?m 101 100 8), snd (memmove ?m 101 100 8))" by simp
  from memmove_overlap [OF _ _ this, of 105] show ?thesis by (simp add: span_iff)
qed

text \<open>
  C2. The \<^verbatim>\<open>memmove\<close> that the kernel runs (string instructions, by words when both pointers and the
  size are multiples of four, downwards when the destination overlaps the source from above)
  and the portable byte loops compute the same memory, for all arguments.
\<close>

theorem memmove_asm_eq_c: "memmove m dst src n = memmove_c m dst src n"
  by (simp add: memmove_move_bytes memmove_c_move_bytes)

text \<open>
  C34. \<^verbatim>\<open>memset\<close> stores the low byte of \<^verbatim>\<open>c\<close> in exactly the \<^verbatim>\<open>n\<close> bytes from \<^verbatim>\<open>v\<close> on, whether it
  takes the word or the byte path, for every size; and it agrees with the portable loop as long as
  the size fits the \<^verbatim>\<open>int\<close> that loop counts with.
\<close>

theorem memset_fills:
  "snd (memset m v c n) a = (if a \<in> span v (unat n) then ucast c else m a) \<and>
   (unat n < 2 ^ 31 \<longrightarrow> memset m v c n = memset_c m v c n)"
proof (intro conjI impI)
  have "unat n < 2 ^ 64" using unsigned_less [of n] by simp
  then show "snd (memset m v c n) a = (if a \<in> span v (unat n) then ucast c else m a)"
    by (simp add: memset_store store_lookup span_iff)
  assume small: "unat n < 2 ^ 31"
  have "(ucast n :: u32) = of_nat (unat n)" by simp
  then show "memset m v c n = memset_c m v c n"
    using memset_c_loop_store [OF small, of m v "ucast c"]
    by (simp only: memset_store memset_c_def)
qed

theorem memset_fills_witness:
  "snd (memset (\<lambda>_. 1) 4096 0x141 8) 4103 = 0x41 \<and>
   memset (\<lambda>_. 1) 4096 0x141 8 = memset_c (\<lambda>_. 1) 4096 0x141 8"
proof (rule conjI)
  note * = memset_fills [of "\<lambda>_. 1" 4096 "0x141" 8 4103]
  show "snd (memset (\<lambda>_. 1) 4096 0x141 8) 4103 = 0x41" using * [THEN conjunct1] by (simp add: span_iff)
  show "memset (\<lambda>_. 1) 4096 0x141 8 = memset_c (\<lambda>_. 1) 4096 0x141 8"
    by (rule * [THEN conjunct2, THEN mp]) simp
qed

end
