(* ===== verification/Printfmt.thy ===== *)
theory Printfmt
  imports CString
begin

text \<open>
  The formatted output of \<^verbatim>\<open>lib/printfmt.c\<close>. The character sink \<^verbatim>\<open>putch\<close> with its \<^verbatim>\<open>putdat\<close> is a
  state transformer \<open>u32 \<Rightarrow> 's \<Rightarrow> 's\<close>, so that \<^verbatim>\<open>cprintf\<close> (the console) and \<^verbatim>\<open>snprintf\<close> (a buffer in
  memory) run the same code. Format and string arguments are the contents of C strings (no NUL
  in them; the end of the list is the NUL). A variable argument is one 8-byte slot or a string
  pointer; \<open>None\<close> is the undefined behaviour of a missing or mistyped argument.
\<close>

section \<open>Numbers\<close>

text \<open>\<^verbatim>\<open>while (--width > 0) putch(padc, putdat);\<close>\<close>

function pad_loop :: "(u32 \<Rightarrow> 's \<Rightarrow> 's) \<Rightarrow> 's \<Rightarrow> u32 \<Rightarrow> u32 \<Rightarrow> 's" where
  "pad_loop putch s width padc =
     (let width' = width - 1
      in if 0 < sint width' then pad_loop putch (putch padc s) width' padc else s)"
  by pat_completeness auto
termination
  by (relation "measure (\<lambda>(putch, s, width, padc). if 0 < sint (width - 1) then Suc (unat (width - 1)) else 0)")
    (auto simp: down_step' down_step2)

text \<open>\<^verbatim>\<open>"0123456789abcdef"[i]\<close>; the literal has 16 characters and its NUL.\<close>

definition digit_char :: "u64 \<Rightarrow> u32" where
  "digit_char i =
     (if unat i < 16 then of_char (''0123456789abcdef'' ! unat i) else 0)"

text \<open>Base 1 recurses forever and base 0 traps: both are \<open>None\<close>.\<close>

partial_function (option) printnum ::
    "(u32 \<Rightarrow> 's \<Rightarrow> 's) \<Rightarrow> 's \<Rightarrow> u64 \<Rightarrow> u32 \<Rightarrow> u32 \<Rightarrow> u32 \<Rightarrow> 's option" where
  "printnum putch s num base width padc =
     Option.bind
       (if num \<ge> ucast base then printnum putch s (num div ucast base) base (width - 1) padc
        else Some (pad_loop putch s width padc))
       (\<lambda>s'. Some (putch (digit_char (num mod ucast base)) s'))"

section \<open>Strings\<close>

text \<open>\<^verbatim>\<open>for (; width > 0; width--) putch(c, putdat);\<close>\<close>

function pad_down :: "(u32 \<Rightarrow> 's \<Rightarrow> 's) \<Rightarrow> 's \<Rightarrow> u32 \<Rightarrow> u32 \<Rightarrow> 's" where
  "pad_down putch s width c =
     (if 0 < sint width then pad_down putch (putch c s) (width - 1) c else s)"
  by pat_completeness auto
termination
  by (relation "measure (\<lambda>(putch, s, width, c). if 0 < sint width then unat width else 0)")
    (auto simp: down_step' unat_gt_0)

text \<open>A \<^verbatim>\<open>char\<close> is signed: it is sign-extended when it becomes an \<^verbatim>\<open>int\<close>.\<close>

definition char_int :: "char \<Rightarrow> u32" where
  "char_int c = scast (of_char c :: u8)"

text \<open>\<^verbatim>\<open>strnlen(p, precision)\<close> on the contents of a string.\<close>

definition strnlen_int :: "string \<Rightarrow> u32 \<Rightarrow> u32" where
  "strnlen_int p precision = of_nat (min (length p) (unat (scast precision :: u64)))"

text \<open>
  \<^verbatim>\<open>for (; (ch = *p++) != '\0' && (precision < 0 || --precision >= 0); width--)\<close>; the loop gives
  back the state and \<^verbatim>\<open>width\<close>.
\<close>

fun str_loop :: "(u32 \<Rightarrow> 's \<Rightarrow> 's) \<Rightarrow> 's \<Rightarrow> string \<Rightarrow> u32 \<Rightarrow> u32 \<Rightarrow> bool \<Rightarrow> 's \<times> u32" where
  "str_loop putch s [] width precision altflag = (s, width)"
| "str_loop putch s (c # p) width precision altflag =
     (let ch = char_int c;
          precision' = (if sint precision < 0 then precision else precision - 1)
      in if sint precision < 0 \<or> 0 \<le> sint precision'
         then str_loop putch
                (if altflag \<and> (sint ch < 32 \<or> 126 < sint ch) then putch (of_char (CHR ''?'')) s
                 else putch ch s)
                p (width - 1) precision' altflag
         else (s, width))"

definition put_str ::
    "(u32 \<Rightarrow> 's \<Rightarrow> 's) \<Rightarrow> 's \<Rightarrow> string \<Rightarrow> u32 \<Rightarrow> u32 \<Rightarrow> char \<Rightarrow> bool \<Rightarrow> 's" where
  "put_str putch s p width precision padc altflag =
     (let (s1, width1) =
            (if 0 < sint width \<and> padc \<noteq> CHR ''-''
             then let w = width - strnlen_int p precision
                  in (pad_down putch s w (char_int padc), if 0 < sint w then 0 else w)
             else (s, width));
          (s2, width2) = str_loop putch s1 p width1 precision altflag
      in pad_down putch s2 width2 (of_char (CHR '' '')))"

section \<open>The format interpreter\<close>

datatype varg = VInt u64 | VStr "string option"

record flags =
  fl_padc :: char
  fl_width :: u32
  fl_precision :: u32
  fl_lflag :: u32
  fl_altflag :: bool

definition flags0 :: flags where
  "flags0 = \<lparr>fl_padc = CHR '' '', fl_width = -1, fl_precision = -1, fl_lflag = 0, fl_altflag = False\<rparr>"

text \<open>\<^verbatim>\<open>process_precision\<close>\<close>

definition process_precision :: "flags \<Rightarrow> u32 \<Rightarrow> flags" where
  "process_precision f p =
     (if sint (fl_width f) < 0 then f\<lparr>fl_width := p, fl_precision := -1\<rparr> else f\<lparr>fl_precision := p\<rparr>)"

text \<open>The loop of the width field; \<open>ch\<close> is the digit that was read, \<open>fmt\<close> the rest.\<close>

fun scan_width :: "u32 \<Rightarrow> char \<Rightarrow> string \<Rightarrow> u32 \<times> string" where
  "scan_width p ch [] = (p * 10 + of_char ch - 48, [])"
| "scan_width p ch (c # fmt) =
     (let p' = p * 10 + of_char ch - 48
      in if (of_char c :: nat) < 48 \<or> 57 < (of_char c :: nat) then (p', c # fmt)
         else scan_width p' c fmt)"

text \<open>\<^verbatim>\<open>getuint\<close> and \<^verbatim>\<open>getint\<close>: a 64-bit slot for \<^verbatim>\<open>lflag\<close> at least 1, an \<^verbatim>\<open>int\<close> else.\<close>

definition getuint :: "varg list \<Rightarrow> nat \<Rightarrow> (u64 \<times> varg list) option" where
  "getuint ap lf =
     (case ap of
        VInt x # ap' \<Rightarrow> Some (if lf \<ge> 2 then x else if lf > 0 then x else ucast (ucast x :: u32), ap')
      | _ \<Rightarrow> None)"

definition getint :: "varg list \<Rightarrow> nat \<Rightarrow> (u64 \<times> varg list) option" where
  "getint ap lf =
     (case ap of
        VInt x # ap' \<Rightarrow> Some (if lf \<ge> 2 then x else if lf > 0 then x else scast (ucast x :: u32), ap')
      | _ \<Rightarrow> None)"

text \<open>An \<^verbatim>\<open>int\<close> argument is the low half of its slot; a string argument is a pointer, maybe null.\<close>

definition va_int :: "varg list \<Rightarrow> (u32 \<times> varg list) option" where
  "va_int ap = (case ap of VInt x # ap' \<Rightarrow> Some (ucast x, ap') | _ \<Rightarrow> None)"

definition va_str :: "varg list \<Rightarrow> (string option \<times> varg list) option" where
  "va_str ap = (case ap of VStr p # ap' \<Rightarrow> Some (p, ap') | _ \<Rightarrow> None)"

lemma length_scan_width [termination_simp]: "length (snd (scan_width p ch fmt)) \<le> length fmt"
  by (induction p ch fmt rule: scan_width.induct) (auto simp: Let_def)

lemma scan_width_length_eq: "n \<le> length (snd (scan_width p ch fmt)) \<Longrightarrow> n \<le> length fmt"
  using length_scan_width le_trans by blast

text \<open>The body of \<^verbatim>\<open>case 'd'\<close> once the number is fetched.\<close>

definition put_dec ::
    "(u32 \<Rightarrow> 's \<Rightarrow> 's) \<Rightarrow> 's \<Rightarrow> u64 \<Rightarrow> u32 \<Rightarrow> u32 \<Rightarrow> 's option" where
  "put_dec putch s num width padc =
     (if sint num < 0 then printnum putch (putch (of_char (CHR ''-'')) s) (- num) 10 width padc
      else printnum putch s num 10 width padc)"

text \<open>
  The two loops: \<open>vpf\<close> copies text up to a \<^verbatim>\<open>%\<close>, \<open>vpf_dir\<close> is the switch, which each flag re-enters.
  \<open>esc\<close> is the format right behind the \<^verbatim>\<open>%\<close>, to which an unknown escape goes back. \<open>eh\<close> prints an
  error code: \<^verbatim>\<open>%e\<close> calls \<^verbatim>\<open>printfmt\<close> again, with formats that hold no \<^verbatim>\<open>%e\<close>.
\<close>

function (sequential) vpf ::
    "(u32 \<Rightarrow> 's \<Rightarrow> 's) \<Rightarrow> (u32 \<Rightarrow> 's \<Rightarrow> 's option) \<Rightarrow> 's \<Rightarrow> string \<Rightarrow> varg list \<Rightarrow> 's option"
  and vpf_dir ::
    "(u32 \<Rightarrow> 's \<Rightarrow> 's) \<Rightarrow> (u32 \<Rightarrow> 's \<Rightarrow> 's option) \<Rightarrow> 's \<Rightarrow> string \<Rightarrow> string \<Rightarrow> varg list \<Rightarrow> flags
      \<Rightarrow> 's option" where
  "vpf putch eh s [] ap = Some s"
| "vpf putch eh s (c # fmt) ap =
     (if c = CHR ''%'' then vpf_dir putch eh s fmt fmt ap flags0
      else vpf putch eh (putch (of_char c) s) fmt ap)"
| "vpf_dir putch eh s esc [] ap f = vpf putch eh (putch (of_char (CHR ''%'')) s) esc ap"
| "vpf_dir putch eh s esc (c # fmt) ap f =
     (if c = CHR ''-'' then vpf_dir putch eh s esc fmt ap (f\<lparr>fl_padc := CHR ''-''\<rparr>)
      else if c = CHR ''0'' then vpf_dir putch eh s esc fmt ap (f\<lparr>fl_padc := CHR ''0''\<rparr>)
      else if 49 \<le> (of_char c :: nat) \<and> (of_char c :: nat) \<le> 57 then
        vpf_dir putch eh s esc (snd (scan_width 0 c fmt)) ap
          (process_precision f (fst (scan_width 0 c fmt)))
      else if c = CHR ''*'' then
        (case va_int ap of
           None \<Rightarrow> None
         | Some (p, ap') \<Rightarrow> vpf_dir putch eh s esc fmt ap' (process_precision f p))
      else if c = CHR ''.'' then
        vpf_dir putch eh s esc fmt ap (if sint (fl_width f) < 0 then f\<lparr>fl_width := 0\<rparr> else f)
      else if c = CHR ''#'' then vpf_dir putch eh s esc fmt ap (f\<lparr>fl_altflag := True\<rparr>)
      else if c = CHR ''l'' then vpf_dir putch eh s esc fmt ap (f\<lparr>fl_lflag := fl_lflag f + 1\<rparr>)
      else if c = CHR ''c'' then
        (case va_int ap of
           None \<Rightarrow> None
         | Some (x, ap') \<Rightarrow> vpf putch eh (putch x s) fmt ap')
      else if c = CHR ''e'' then
        (case va_int ap of
           None \<Rightarrow> None
         | Some (err, ap') \<Rightarrow>
             (case eh err s of None \<Rightarrow> None | Some s' \<Rightarrow> vpf putch eh s' fmt ap'))
      else if c = CHR ''s'' then
        (case va_str ap of
           None \<Rightarrow> None
         | Some (p, ap') \<Rightarrow>
             vpf putch eh
               (put_str putch s (case p of None \<Rightarrow> ''(null)'' | Some t \<Rightarrow> t)
                  (fl_width f) (fl_precision f) (fl_padc f) (fl_altflag f)) fmt ap')
      else if c = CHR ''d'' then
        (case getint ap 3 of
           None \<Rightarrow> None
         | Some (num, ap') \<Rightarrow>
             (case put_dec putch s num (fl_width f) (char_int (fl_padc f)) of
                None \<Rightarrow> None
              | Some s' \<Rightarrow> vpf putch eh s' fmt ap'))
      else if c = CHR ''u'' \<or> c = CHR ''o'' \<or> c = CHR ''x'' then
        (case getuint ap 3 of
           None \<Rightarrow> None
         | Some (num, ap') \<Rightarrow>
             (case printnum putch s num
                     (if c = CHR ''u'' then 10 else if c = CHR ''o'' then 8 else 16)
                     (fl_width f) (char_int (fl_padc f)) of
                None \<Rightarrow> None
              | Some s' \<Rightarrow> vpf putch eh s' fmt ap'))
      else if c = CHR ''p'' then
        (case ap of
           VInt x # ap' \<Rightarrow>
             (case printnum putch (putch (of_char (CHR ''x'')) (putch (of_char (CHR ''0'')) s)) x 16
                     (fl_width f) (char_int (fl_padc f)) of
                None \<Rightarrow> None
              | Some s' \<Rightarrow> vpf putch eh s' fmt ap')
         | _ \<Rightarrow> None)
      else if c = CHR ''%'' then vpf putch eh (putch (of_char c) s) fmt ap
      else vpf putch eh (putch (of_char (CHR ''%'')) s) esc ap)"
  by pat_completeness auto
termination
  by (relation "measures
      [case_sum (\<lambda>(putch, eh, s, fmt, ap). length fmt)
                (\<lambda>(putch, eh, s, esc, fmt, ap, f). max (length esc) (length fmt)),
       case_sum (\<lambda>_. 0) (\<lambda>(putch, eh, s, esc, fmt, ap, f). Suc (length fmt))]")
    (auto simp: max_def less_Suc_eq_le length_scan_width intro: le_trans [OF length_scan_width]
      dest: scan_width_length_eq)

section \<open>Error codes\<close>

definition MAXERROR :: u32 where "MAXERROR = 8"

text \<open>The table; unset entries are null pointers.\<close>

definition error_string :: "nat \<Rightarrow> string option" where
  "error_string i =
     [None, Some ''unspecified error'', Some ''bad environment'', Some ''invalid parameter'',
      Some ''out of memory'', Some ''out of environments'', Some ''segmentation fault'', None] ! i"

text \<open>
  The body of \<^verbatim>\<open>case 'e'\<close>. The code still indexes the table when \<^verbatim>\<open>-err\<close> overflows (the most negative
  \<^verbatim>\<open>int\<close>): undefined.
\<close>

definition error_text :: "u32 \<Rightarrow> (string \<times> varg list) option" where
  "error_text err =
     (let err = (if sint err < 0 then - err else err)
      in if sint MAXERROR \<le> sint err then Some (''error %d'', [VInt (ucast err)])
         else if sint err < 0 then None
         else (case error_string (unat err) of
                 None \<Rightarrow> Some (''error %d'', [VInt (ucast err)])
               | Some p \<Rightarrow> Some (''%s'', [VStr (Some p)])))"

definition put_error :: "(u32 \<Rightarrow> 's \<Rightarrow> 's) \<Rightarrow> u32 \<Rightarrow> 's \<Rightarrow> 's option" where
  "put_error putch err s =
     (case error_text err of
        None \<Rightarrow> None
      | Some (fmt, ap) \<Rightarrow> vpf putch (\<lambda>_ _. None) s fmt ap)"

definition vprintfmt :: "(u32 \<Rightarrow> 's \<Rightarrow> 's) \<Rightarrow> 's \<Rightarrow> string \<Rightarrow> varg list \<Rightarrow> 's option" where
  "vprintfmt putch s fmt ap = vpf putch (put_error putch) s fmt ap"

definition printfmt :: "(u32 \<Rightarrow> 's \<Rightarrow> 's) \<Rightarrow> 's \<Rightarrow> string \<Rightarrow> varg list \<Rightarrow> 's option" where
  "printfmt putch s fmt ap = vprintfmt putch s fmt ap"

section \<open>Printing into a buffer\<close>

record sprintbuf =
  sb_buf :: addr
  sb_ebuf :: addr
  sb_cnt :: u32

definition sprintputch :: "u32 \<Rightarrow> mem \<times> sprintbuf \<Rightarrow> mem \<times> sprintbuf" where
  "sprintputch ch = (\<lambda>(m, b).
     let b = b\<lparr>sb_cnt := sb_cnt b + 1\<rparr>
     in if sb_buf b < sb_ebuf b
        then (m(sb_buf b := ucast ch), b\<lparr>sb_buf := sb_buf b + 1\<rparr>)
        else (m, b))"

definition E_INVAL :: u32 where "E_INVAL = 3"

definition vsnprintf :: "mem \<Rightarrow> addr \<Rightarrow> u32 \<Rightarrow> string \<Rightarrow> varg list \<Rightarrow> (u32 \<times> mem) option" where
  "vsnprintf m buf n fmt ap =
     (let b = \<lparr>sb_buf = buf, sb_ebuf = buf + scast n - 1, sb_cnt = 0\<rparr>
      in if buf = 0 \<or> sint n < 1 then Some (- E_INVAL, m)
         else (case vprintfmt sprintputch (m, b) fmt ap of
                 None \<Rightarrow> None
               | Some (m', b') \<Rightarrow> Some (sb_cnt b', m'(sb_buf b' := 0))))"

definition snprintf :: "mem \<Rightarrow> addr \<Rightarrow> u32 \<Rightarrow> string \<Rightarrow> varg list \<Rightarrow> (u32 \<times> mem) option" where
  "snprintf m buf n fmt ap = vsnprintf m buf n fmt ap"

section \<open>What the routines put out\<close>

lemmas printfmt_loops [simp del] = pad_loop.simps pad_down.simps vpf.simps vpf_dir.simps

lemma pad_down_fold: "pad_down putch s w c = fold putch (replicate (nat (sint w)) c) s"
proof (induction putch s w c rule: pad_down.induct)
  case (1 putch s w c)
  show ?case
  proof (cases "0 < sint w")
    case True
    then have "nat (sint w) = Suc (nat (sint (w - 1)))" by (simp add: sint_pred)
    then show ?thesis using 1 [OF True] by (subst pad_down.simps) (simp add: True)
  next
    case False
    then show ?thesis by (subst pad_down.simps) simp
  qed
qed

lemma pad_loop_down: "pad_loop putch s w c = pad_down putch s (w - 1) c"
proof (induction putch s w c rule: pad_loop.induct)
  case (1 putch s w c)
  then show ?case
    by (subst pad_loop.simps, subst pad_down.simps) (auto simp: Let_def)
qed

text \<open>The digits of a number, most significant first.\<close>

fun digits :: "nat \<Rightarrow> nat \<Rightarrow> nat list" where
  "digits b n = (if b < 2 \<or> n < b then [n] else digits b (n div b) @ [n mod b])"

declare digits.simps [simp del]

lemma digits_nonempty [simp]: "digits b n \<noteq> []"
  by (subst digits.simps) simp

lemma digits_less: "2 \<le> b \<Longrightarrow> d \<in> set (digits b n) \<Longrightarrow> d < b"
proof (induction b n rule: digits.induct)
  case (1 b n)
  show ?case
  proof (cases "n < b")
    case True
    with "1.prems" show ?thesis by (subst (asm) digits.simps) simp
  next
    case False
    with "1.prems" have "d \<in> set (digits b (n div b)) \<or> d = n mod b"
      by (subst (asm) digits.simps) auto
    with False 1 show ?thesis by auto
  qed
qed

definition num_text :: "u64 \<Rightarrow> u32 \<Rightarrow> u32 \<Rightarrow> u32 \<Rightarrow> u32 list" where
  "num_text num base width padc =
     (let ds = digits (unat base) (unat num)
      in replicate (nat (sint (width - of_nat (length ds)))) padc @ map (digit_char \<circ> of_nat) ds)"

lemma printnum_fold:
  assumes "2 \<le> unat base"
  shows "printnum putch s num base width padc = Some (fold putch (num_text num base width padc) s)"
proof (induction "unat num" arbitrary: s num width rule: less_induct)
  case less
  have b: "unat (ucast base :: u64) = unat base" by (simp add: unat_ucast_wider)
  have m: "num mod ucast base = of_nat (unat num mod unat base)"
  proof -
    have "of_nat (unat num mod unat base) = (of_nat (unat (num mod ucast base)) :: u64)"
      by (simp only: unat_mod_distrib b)
    then show ?thesis by simp
  qed
  show ?case
  proof (cases "num \<ge> ucast base")
    case True
    then have ge: "unat base \<le> unat num" using b by (simp add: word_le_nat_alt)
    have q: "unat (num div ucast base) = unat num div unat base" by (simp add: unat_div_distrib b)
    have "unat (num div ucast base) < unat num"
      using assms ge by (simp add: q)
    from less [OF this] True m show ?thesis
      using assms ge
      by (subst printnum.simps, subst num_text_def, subst digits.simps)
        (simp add: num_text_def q Let_def algebra_simps)
  next
    case False
    then have lt: "unat num < unat base" using b by (simp add: word_le_nat_alt)
    then show ?thesis using False m
      by (subst printnum.simps, subst num_text_def, subst digits.simps)
        (simp add: Let_def pad_loop_down pad_down_fold)
  qed
qed

text \<open>What \<^verbatim>\<open>%s\<close> shows of a string, and the padding around it.\<close>

definition shown :: "bool \<Rightarrow> char \<Rightarrow> u32" where
  "shown alt c =
     (if alt \<and> (sint (char_int c) < 32 \<or> 126 < sint (char_int c)) then of_char (CHR ''?'')
      else char_int c)"

definition cut :: "u32 \<Rightarrow> string \<Rightarrow> string" where
  "cut precision p = (if sint precision < 0 then p else take (nat (sint precision)) p)"

lemma str_loop_step:
  "str_loop putch s (c # p) w precision alt =
     (if sint precision < 0 then str_loop putch (putch (shown alt c) s) p (w - 1) precision alt
      else if 0 \<le> sint (precision - 1)
      then str_loop putch (putch (shown alt c) s) p (w - 1) (precision - 1) alt
      else (s, w))"
  by (auto simp: shown_def Let_def)

lemma str_loop_fold:
  "str_loop putch s p w precision alt =
     (fold putch (map (shown alt) (cut precision p)) s, w - of_nat (length (cut precision p)))"
proof (induction p arbitrary: s w precision)
  case Nil
  then show ?case by (simp add: cut_def)
next
  case (Cons c p)
  show ?case
  proof (cases "sint precision" "0 :: int" rule: linorder_cases)
    case less
    then show ?thesis
      by (simp add: str_loop_step Cons.IH cut_def algebra_simps del: str_loop.simps)
  next
    case equal
    then show ?thesis
      by (simp add: str_loop_step sint_pred cut_def del: str_loop.simps)
  next
    case greater
    then have "nat (sint precision) = Suc (nat (sint (precision - 1)))" by (simp add: sint_pred)
    with greater show ?thesis
      by (simp add: str_loop_step sint_pred Cons.IH cut_def algebra_simps del: str_loop.simps)
  qed
qed

definition str_text :: "string \<Rightarrow> u32 \<Rightarrow> u32 \<Rightarrow> char \<Rightarrow> bool \<Rightarrow> u32 list" where
  "str_text p width precision padc altflag =
     (let left = 0 < sint width \<and> padc \<noteq> CHR ''-'';
          w = width - strnlen_int p precision;
          width1 = (if left then (if 0 < sint w then 0 else w) else width);
          body = cut precision p
      in (if left then replicate (nat (sint w)) (char_int padc) else [])
         @ map (shown altflag) body
         @ replicate (nat (sint (width1 - of_nat (length body)))) (of_char (CHR '' '')))"

lemma put_str_fold:
  "put_str putch s p width precision padc altflag =
     fold putch (str_text p width precision padc altflag) s"
  by (simp add: put_str_def str_text_def Let_def str_loop_fold pad_down_fold)

section \<open>The sink\<close>

text \<open>
  The interface between the formatter and its users is the sink alone. Whatever maps the states
  of one sink to those of another and commutes with \<^verbatim>\<open>putch\<close> commutes with all of
  \<^verbatim>\<open>vprintfmt\<close>.
\<close>

locale sink_map =
  fixes put1 :: "u32 \<Rightarrow> 's \<Rightarrow> 's" and put2 :: "u32 \<Rightarrow> 't \<Rightarrow> 't" and h :: "'s \<Rightarrow> 't"
  assumes h_put: "h (put1 c s) = put2 c (h s)"
begin

lemma map_option_if:
  "(c \<Longrightarrow> map_option h a = a') \<Longrightarrow> (\<not> c \<Longrightarrow> map_option h b = b') \<Longrightarrow>
     map_option h (if c then a else b) = (if c then a' else b')"
  by simp

lemma map_option_arg:
  "(\<And>x y. a = Some (x, y) \<Longrightarrow> map_option h (f x y) = g x y) \<Longrightarrow>
     map_option h (case a of None \<Rightarrow> None | Some (x, y) \<Rightarrow> f x y) =
       (case a of None \<Rightarrow> None | Some (x, y) \<Rightarrow> g x y)"
  by (auto split: option.split)

lemma map_option_out:
  "map_option h a = b \<Longrightarrow> (\<And>s. a = Some s \<Longrightarrow> map_option h (f s) = g (h s)) \<Longrightarrow>
     map_option h (case a of None \<Rightarrow> None | Some s \<Rightarrow> f s) =
       (case b of None \<Rightarrow> None | Some t \<Rightarrow> g t)"
  by (auto split: option.split)

lemma h_fold: "h (fold put1 xs s) = fold put2 xs (h s)"
  by (induction xs arbitrary: s) (simp_all add: h_put)

lemma h_put_str: "h (put_str put1 s p w prec c alt) = put_str put2 (h s) p w prec c alt"
  by (simp add: put_str_fold h_fold)

lemma h_printnum:
  "2 \<le> unat base \<Longrightarrow>
     map_option h (printnum put1 s num base w c) = printnum put2 (h s) num base w c"
  by (simp add: printnum_fold h_fold)

lemma h_put_dec: "map_option h (put_dec put1 s num w c) = put_dec put2 (h s) num w c"
  by (simp add: put_dec_def h_printnum h_put)

lemma h_vpf_aux:
  assumes eh: "\<And>err s. map_option h (eh1 err s) = eh2 err (h s)"
  shows "putch = put1 \<Longrightarrow> eh = eh1 \<Longrightarrow>
           map_option h (vpf putch eh s fmt ap) = vpf put2 eh2 (h s) fmt ap"
    and "putch = put1 \<Longrightarrow> eh = eh1 \<Longrightarrow>
           map_option h (vpf_dir putch eh s esc fmt ap f) = vpf_dir put2 eh2 (h s) esc fmt ap f"
proof (induction putch eh s fmt ap and putch eh s esc fmt ap f rule: vpf_vpf_dir.induct)
  case (4 putch eh s esc c fmt ap f)
  have e: "eh1 err s = None \<Longrightarrow> eh2 err (h s) = None"
    "eh1 err s = Some s' \<Longrightarrow> eh2 err (h s) = Some (h s')" for err s'
    using eh [of err s] by auto
  note IH = "4.IH" [unfolded "4.prems"]
  show ?case
    unfolding vpf_dir.simps(2) "4.prems"
    apply (intro map_option_if)
                  apply (rule IH(1); (assumption | simp))
                 apply (rule IH(2); (assumption | simp))
                apply (rule IH(3); (assumption | simp))
               apply (auto split: option.split intro: IH(4))[1]
              apply (rule IH(5); (assumption | simp))
             apply (rule IH(6); (assumption | simp))
            apply (rule IH(7); (assumption | simp))
           apply (auto simp: h_put [symmetric] split: option.split intro: IH(8))[1]
          apply (auto simp: e split: option.split intro: IH(9))[1]
         apply (cases "va_str ap", simp, clarsimp simp: h_put_str [symmetric], rule IH(10);
          (assumption | simp))
        apply (rule map_option_arg, rule map_option_out [OF h_put_dec], rule IH(11);
          (assumption | simp))
       apply (rule map_option_arg, rule map_option_out [OF h_printnum], simp, rule IH(12);
          (assumption | simp))
      apply (simp add: h_put [symmetric] split: list.split varg.split, intro allI impI)
      apply (rule map_option_out [OF h_printnum], simp, rule IH(13); (assumption | simp))
     apply (subst h_put [symmetric])
     apply (rule IH(14); (assumption | simp))
    apply (subst h_put [symmetric])
    apply (rule IH(15); (assumption | simp))
    done
qed (simp_all add: vpf.simps vpf_dir.simps h_put)

lemmas h_vpf = h_vpf_aux(1) [OF _ refl refl]

lemma h_put_error: "map_option h (put_error put1 err s) = put_error put2 err (h s)"
  using h_vpf [of "\<lambda>_ _. None" "\<lambda>_ _. None"]
  by (simp add: put_error_def split: option.split prod.split)

lemma h_vprintfmt: "map_option h (vprintfmt put1 s fmt ap) = vprintfmt put2 (h s) fmt ap"
  by (simp add: vprintfmt_def h_vpf h_put_error)

end

text \<open>
  The reference sink collects the characters; it maps to every other sink by putting the
  collected characters out.
\<close>

definition collect :: "u32 \<Rightarrow> u32 list \<Rightarrow> u32 list" where
  "collect c out = out @ [c]"

definition format :: "string \<Rightarrow> varg list \<Rightarrow> u32 list option" where
  "format fmt ap = vprintfmt collect [] fmt ap"

interpretation replay: sink_map collect putch "\<lambda>out. fold putch out s0" for putch s0
  by unfold_locales (simp add: collect_def)

lemma vprintfmt_fold: "vprintfmt putch s fmt ap = map_option (\<lambda>out. fold putch out s) (format fmt ap)"
  using replay.h_vprintfmt [of putch s "[]" fmt ap] by (simp add: format_def)

lemma put_error_fold: "put_error putch err s = map_option (\<lambda>out. fold putch out s) (put_error collect err [])"
  using replay.h_put_error [of putch s err "[]"] by simp

section \<open>Formatting into a buffer\<close>

lemma fold_sprintputch:
  assumes "unat (sb_buf b) \<le> unat (sb_ebuf b)"
  shows "fold sprintputch out (m, b) =
    (let room = unat (sb_ebuf b) - unat (sb_buf b)
     in (store m (sb_buf b) (map ucast (take room out)),
         b\<lparr>sb_buf := sb_buf b + of_nat (min room (length out)),
           sb_cnt := sb_cnt b + of_nat (length out)\<rparr>))"
  using assms
proof (induction out arbitrary: m b)
  case Nil
  then show ?case by simp
next
  case (Cons c out)
  show ?case
  proof (cases "sb_buf b < sb_ebuf b")
    case True
    let ?b = "b\<lparr>sb_cnt := sb_cnt b + 1, sb_buf := sb_buf b + 1\<rparr>"
    have nxt: "unat (sb_buf b + 1) = Suc (unat (sb_buf b))" by (rule unat_Suc_less [OF True])
    have lt: "unat (sb_buf b) < unat (sb_ebuf b)" using True by (simp add: word_less_nat_alt)
    then have room: "unat (sb_ebuf b) - unat (sb_buf b) =
        Suc (unat (sb_ebuf b) - Suc (unat (sb_buf b)))" by simp
    have "fold sprintputch (c # out) (m, b) = fold sprintputch out (m(sb_buf b := ucast c), ?b)"
      using True by (simp add: sprintputch_def Let_def)
    also have "\<dots> = (let room = unat (sb_ebuf ?b) - unat (sb_buf ?b)
       in (store (m(sb_buf b := ucast c)) (sb_buf ?b) (map ucast (take room out)),
           ?b\<lparr>sb_buf := sb_buf ?b + of_nat (min room (length out)),
             sb_cnt := sb_cnt ?b + of_nat (length out)\<rparr>))"
      using lt nxt by (intro Cons.IH) simp
    finally show ?thesis using room nxt by (simp add: Let_def algebra_simps)
  next
    case False
    then have eq: "unat (sb_ebuf b) - unat (sb_buf b) = 0" by (simp add: word_less_nat_alt)
    have "fold sprintputch (c # out) (m, b) = fold sprintputch out (m, b\<lparr>sb_cnt := sb_cnt b + 1\<rparr>)"
      using False by (simp add: sprintputch_def Let_def)
    with Cons.prems eq show ?thesis
      by (simp add: Cons.IH Let_def algebra_simps)
  qed
qed

lemma snprintf_stores:
  assumes "buf \<noteq> 0" and "1 \<le> sint n" and "unat buf + nat (sint n) < 2 ^ 64"
    and "format fmt ap = Some out"
  shows "snprintf m buf n fmt ap =
    Some (of_nat (length out),
          store m buf (map ucast (take (nat (sint n) - 1) out) @ [0]))"
proof -
  have n1: "sint n = int (unat n)" using assms(2) by (simp add: sint_pos)
  have n2: "(scast n :: u64) = of_nat (unat n)" using assms(2) by (intro scast_pos) simp
  have n3: "1 \<le> unat n" using assms(2) n1 by linarith
  note n = n1 n2 n3
  have e: "buf + scast n - 1 = of_nat (unat buf + unat n - 1)"
    using n(2,3) by (simp add: of_nat_diff)
  then have ub: "unat (buf + scast n - 1) = unat buf + unat n - 1"
    using assms(3) n(1) by (simp only: e) (simp add: unat_of_nat)
  have out: "vprintfmt sprintputch (m, b) fmt ap = Some (fold sprintputch out (m, b))" for b
    using assms(4) by (simp add: vprintfmt_fold)
  show ?thesis
    using assms(1,2) n ub
    by (simp add: snprintf_def vsnprintf_def out fold_sprintputch store_append Let_def
        min.commute)
qed

text \<open>
  C12. \<^verbatim>\<open>snprintf\<close> with a buffer of \<^verbatim>\<open>n\<close> bytes stores the first \<open>n - 1\<close> characters of the output
  and a NUL behind them, changes nothing else, and returns the length of the whole output, as
  C99 asks, however long the output is. With a null buffer or a size below 1 it stores nothing and returns
  \<^verbatim>\<open>-E_INVAL\<close>, whatever the format.
\<close>

theorem snprintf_buffer:
  assumes "buf = 0 \<or> sint n < 1 \<or> unat buf + nat (sint n) < 2 ^ 64 \<and> format fmt ap = Some out"
  shows "snprintf m buf n fmt ap =
    (if buf = 0 \<or> sint n < 1 then Some (- 3, m)
     else Some (of_nat (length out), store m buf (map ucast (take (nat (sint n) - 1) out) @ [0])))"
  using assms snprintf_stores [of buf n fmt ap out m]
  by (cases "buf = 0 \<or> sint n < 1") (auto simp: snprintf_def vsnprintf_def E_INVAL_def Let_def)

theorem snprintf_buffer_witness:
  "snprintf (\<lambda>_. 0) 0x100 4 ''%d'' [VInt (- 12345)] =
    Some (6, store (\<lambda>_. 0) 0x100 [0x2d, 0x31, 0x32, 0]) \<and>
   snprintf (\<lambda>_. 0) 0x100 0 ''%d'' [] = Some (- 3, \<lambda>_. 0)"
proof -
  have "format ''%d'' [VInt (- 12345)] = Some (map of_char ''-12345'')"
    by (simp add: format_def vprintfmt_def vpf.simps vpf_dir.simps flags0_def getint_def
        put_dec_def printnum_fold num_text_def digits.simps digit_char_def collect_def)
  then show ?thesis
    using snprintf_buffer [of "0x100" 4 "''%d''" "[VInt (- 12345)]" "map of_char ''-12345''" "\<lambda>_. 0"]
      snprintf_buffer [of "0x100" 0 "''%d''" "[]" "[]" "\<lambda>_. 0"]
    by (simp del: store.simps)
qed

section \<open>What the directives print\<close>

lemma format_simps:
  "format ''%d'' [VInt num] = put_dec collect [] num (-1) 32"
  "format ''%u'' [VInt num] = printnum collect [] num 10 (-1) 32"
  "format ''%x'' [VInt num] = printnum collect [] num 16 (-1) 32"
  by (simp_all add: format_def vprintfmt_def vpf.simps vpf_dir.simps flags0_def getint_def
      getuint_def char_int_def split: option.split)

definition decimal :: "int \<Rightarrow> string" where
  "decimal v = (if v < 0 then ''-'' else []) @ map (\<lambda>d. ''0123456789'' ! d) (digits 10 (nat \<bar>v\<bar>))"

lemma fold_collect [simp]: "fold collect xs out = out @ xs"
  by (induction xs arbitrary: out) (simp_all add: collect_def)

lemma digit_char_dec: "d < 10 \<Longrightarrow> digit_char (of_nat d) = of_char (''0123456789'' ! d)"
proof -
  assume "d < 10"
  then have "d \<in> {0, 1, 2, 3, 4, 5, 6, 7, 8, 9}" by auto
  then show ?thesis by (auto simp: digit_char_def)
qed

lemma digits_pos: "1 \<le> length (digits b n)"
  using digits_nonempty [of b n] by (cases "digits b n") simp_all

lemma digits_length: "2 \<le> b \<Longrightarrow> n < 2 ^ k \<Longrightarrow> length (digits b n) \<le> max 1 k"
proof (induction b n arbitrary: k rule: digits.induct)
  case (1 b n)
  show ?case
  proof (cases "n < b")
    case True
    then show ?thesis by (subst digits.simps) simp
  next
    case False
    then have "n \<noteq> 0" "n \<noteq> 1" using "1.prems" by auto
    then obtain j where k: "k = Suc (Suc j)"
      using "1.prems"(2) by (cases k; cases "k - 1") (auto simp: less_Suc_eq)
    have "n div b \<le> n div 2" using "1.prems"(1) by (intro div_le_mono2) simp_all
    also have "\<dots> < 2 ^ Suc j" using "1.prems"(2) k by (intro less_mult_imp_div_less) simp
    finally have "length (digits b (n div b)) \<le> max 1 (Suc j)"
      using False "1.prems"(1) by (intro "1.IH") simp_all
    then show ?thesis using False "1.prems"(1) k by (subst digits.simps) simp
  qed
qed

lemma num_text_plain:
  assumes "2 \<le> unat base"
  shows "num_text num base (-1) c = map (digit_char \<circ> of_nat) (digits (unat base) (unat num))"
proof -
  define k where "k = length (digits (unat base) (unat num))"
  have "k \<le> 64"
    using digits_length [OF assms, of "unat num" 64] unsigned_less [of num] by (simp add: k_def)
  then have "- 1 - of_nat k = (of_int (- 1 - int k) :: u32)" by simp
  then have "sint (- 1 - of_nat k :: u32) = sint (of_int (- 1 - int k) :: u32)" by (simp only:)
  also have "\<dots> = - 1 - int k"
    unfolding signed_of_int using \<open>k \<le> 64\<close> by (simp add: signed_take_bit_int_eq_self)
  finally show ?thesis by (simp add: num_text_def Let_def k_def)
qed

lemma num_text_decimal:
  "num_text num 10 (-1) c = map of_char (map (\<lambda>d. ''0123456789'' ! d) (digits 10 (unat num)))"
  using digits_less [of 10 _ "unat num"] by (simp add: num_text_plain digit_char_dec)

lemma format_u: "format ''%u'' [VInt num] = Some (map of_char (decimal (uint num)))"
  by (simp add: format_simps printnum_fold num_text_decimal decimal_def)

lemma unat_minus_neg: "sint num < 0 \<Longrightarrow> unat (- num) = nat (- sint num)" for num :: u64
proof -
  assume neg: "sint num < 0"
  moreover have "- (2 ^ 63) \<le> sint num" using sint_ge [of num] by simp
  ultimately have "take_bit 64 (- sint num) = - sint num" by (intro take_bit_int_eq_self) simp_all
  moreover have "- num = of_int (- sint num)" by simp
  ultimately have "uint (- num) = - sint num" using neg by (simp only: unsigned_of_int) simp
  then show ?thesis by (metis nat_int uint_nat)
qed

lemma format_d_text: "format ''%d'' [VInt num] = Some (map of_char (decimal (sint num)))"
proof (cases "sint num < 0")
  case True
  then show ?thesis
    by (simp add: format_simps put_dec_def printnum_fold num_text_decimal decimal_def
        unat_minus_neg collect_def)
next
  case False
  then have "unat num = nat (sint num)"
    by (simp add: sint_pos)
  with False show ?thesis
    by (simp add: format_simps put_dec_def printnum_fold num_text_decimal decimal_def)
qed

text \<open>
  C14. \<^verbatim>\<open>%d\<close> prints the signed decimal numeral of its 64-bit argument, the most negative number
  included.
\<close>

theorem format_d: "format ''%d'' [VInt num] = Some (map of_char (decimal (sint num)))"
  by (rule format_d_text)

lemma sint_ucast32: "sint (ucast x :: u64) = uint x" for x :: u32
proof -
  have "uint x < 2 ^ LENGTH(32)" by (rule unsigned_less)
  moreover have "- (2 ^ 63) \<le> uint x" by (rule order_trans [of _ 0]) simp_all
  ultimately show ?thesis
    by (simp add: sint_uint unsigned_ucast_eq signed_take_bit_int_eq_self take_bit_int_eq_self)
qed

text \<open>
  \<^verbatim>\<open>getint\<close> is always asked for a \<^verbatim>\<open>long long\<close>, so that an \<^verbatim>\<open>int\<close> argument, which the caller passes
  zero-extended in a 64-bit slot, is printed as an unsigned number: \<^verbatim>\<open>%d\<close> of a negative \<^verbatim>\<open>int\<close>
  prints \<open>2\<^sup>3\<^sup>2\<close> more than its value and no sign.
\<close>

lemma format_d_int:
  "format ''%d'' [VInt (ucast (x :: u32))] =
     Some (map of_char (decimal (if sint x < 0 then sint x + 2 ^ 32 else sint x)))"
  by (simp add: format_d_text sint_ucast32 uint_of_sint32)

text \<open>The code and its negation give the same text; only the most negative \<^verbatim>\<open>int\<close> has none.\<close>

lemma put_error_sign:
  "put_error putch (- err) s = put_error putch err s \<and>
     (error_text err = None \<longleftrightarrow> err = 0x80000000)"
proof -
  have m: "err = 0x80000000 \<longleftrightarrow> sint err = - (2 ^ 31)"
    using signed_word_eqI [of err "0x80000000"] by auto
  have z: "sint err = 0 \<longleftrightarrow> err = 0" using signed_word_eqI [of err 0] by auto
  have "- (2 ^ 31) \<le> sint err" using sint_ge [of err] by simp
  then have neg: "sint (- err) = (if err = 0x80000000 then sint err else - sint err)"
    using m sint_lt [of err] by (auto simp: sint_word_ariths signed_take_bit_int_eq_self)
  have "error_text (- err) = error_text err"
    using neg m z by (auto simp: error_text_def Let_def split: option.split)
  moreover have "error_text err = None \<longleftrightarrow> sint err < 0 \<and> sint (- err) < 0"
    by (auto simp: error_text_def Let_def MAXERROR_def split: option.split)
  ultimately show ?thesis using neg m by (auto simp: put_error_def)
qed

lemma put_dec_plain: "put_dec collect out num (-1) 32 = Some (out @ map of_char (decimal (sint num)))"
proof (cases "sint num < 0")
  case True
  then show ?thesis
    by (simp add: put_dec_def printnum_fold num_text_decimal decimal_def unat_minus_neg collect_def)
next
  case False
  then have "unat num = nat (sint num)" by (simp add: sint_pos)
  with False show ?thesis by (simp add: put_dec_def printnum_fold num_text_decimal decimal_def)
qed

text \<open>The text for a code: the string of the table, or the number.\<close>

definition error_message :: "nat \<Rightarrow> string" where
  "error_message n =
     (case (if n < unat MAXERROR then error_string n else None) of
        Some p \<Rightarrow> p
      | None \<Rightarrow> ''error '' @ decimal (int n))"

lemma error_string_printed:
  assumes "n < 8" and "error_string n = Some p"
  shows "vpf collect (\<lambda>_ _. None) out ''%s'' [VStr (Some p)] = Some (out @ map of_char p)"
proof -
  have "n \<in> {0, 1, 2, 3, 4, 5, 6, 7}" using assms(1) by auto
  with assms(2) show ?thesis
    by (elim insertE; simp add: error_string_def; hypsubst;
        simp add: vpf.simps vpf_dir.simps flags0_def va_str_def put_str_fold str_text_def cut_def shown_def char_int_def)
qed

lemma put_error_message:
  assumes "0 \<le> sint err"
  shows "put_error collect err out = Some (out @ map of_char (error_message (unat err)))"
proof -
  have num: "sint (ucast err :: u64) = int (unat err)"
  proof -
    have "int (unat err) = uint err" by simp
    then show ?thesis by (simp only: sint_ucast32)
  qed
  have number: "vpf collect (\<lambda>_ _. None) out ''error %d'' [VInt (ucast err)] =
      Some (out @ map of_char (''error '' @ decimal (int (unat err))))"
    by (simp add: vpf.simps vpf_dir.simps flags0_def getint_def char_int_def put_dec_plain num [simplified] collect_def)
  have "sint MAXERROR = 8" by (simp add: MAXERROR_def)
  then have small: "sint MAXERROR \<le> sint err \<longleftrightarrow> \<not> unat err < 8" "\<not> sint err < 0"
    unfolding sint_pos [OF assms] by linarith+
  show ?thesis
  proof (cases "if unat err < 8 then error_string (unat err) else None")
    case None
    then show ?thesis
      using number small by (auto simp: put_error_def error_text_def error_message_def MAXERROR_def split: if_splits)
  next
    case (Some p)
    then have p: "unat err < 8" "error_string (unat err) = Some p" by (auto split: if_splits)
    then show ?thesis
      using error_string_printed [OF p] small
      by (simp add: put_error_def error_text_def error_message_def MAXERROR_def)
  qed
qed

text \<open>An \<^verbatim>\<open>int\<close> in its slot.\<close>

lemma int_slot: "(ucast (ucast x :: u64) :: u32) = x" for x :: u32
  by (rule bit_word_eqI) (simp add: bit_simps)

lemma put_error_text:
  "put_error collect err [] = (if err = 0x80000000 then None else Some (map of_char (error_message (nat \<bar>sint err\<bar>))))"
proof (cases "err = 0x80000000")
  case True
  then show ?thesis using put_error_sign [of collect err "[]"] by (simp add: put_error_def)
next
  case False
  define e where "e = (if sint err < 0 then - err else err)"
  have m: "err = 0x80000000 \<longleftrightarrow> sint err = - (2 ^ 31)"
    using signed_word_eqI [of err "0x80000000"] by auto
  have "sint e = \<bar>sint err\<bar>"
    using False m sint_ge [of err] sint_lt [of err]
    by (auto simp: e_def sint_word_ariths signed_take_bit_int_eq_self)
  then have e: "0 \<le> sint e" "unat e = nat \<bar>sint err\<bar>" using sint_pos [of e] by simp_all
  have "put_error collect err [] = put_error collect e []" using put_error_sign [of collect err "[]"] by (simp add: e_def)
  then show ?thesis using False put_error_message [OF e(1), of "[]"] e(2) by simp
qed

text \<open>
  C39. \<^verbatim>\<open>%e\<close> prints the message of an error code, for the code and its negation alike: the string of the table where
  it has one, and otherwise the number. Only the most negative \<^verbatim>\<open>int\<close>, whose negation overflows, has no defined result.
\<close>

theorem error_messages:
  "format ''%e'' [VInt (ucast (err :: u32))] =
     (if err = 0x80000000 then None else Some (map of_char (error_message (nat \<bar>sint err\<bar>))))"
  using put_error_text [of err]
  by (simp add: int_slot format_def vprintfmt_def vpf.simps vpf_dir.simps va_int_def flags0_def)

text \<open>
  The flag \<^verbatim>\<open>-\<close>, documented as padding on the right, pads numbers on the left with minus signs.
\<close>

lemma format_minus_flag:
  "format ''%-5d|'' [VInt 42] = Some (map of_char ''---42|'') \<and>
   format ''%5d|'' [VInt 42] = Some (map of_char ''   42|'') \<and>
   format ''%-5s|'' [VStr (Some ''ab'')] = Some (map of_char ''ab   |'')"
  by (simp add: format_def vprintfmt_def vpf.simps vpf_dir.simps flags0_def getint_def
        put_dec_def printnum_fold num_text_def digits.simps digit_char_def collect_def va_str_def
        process_precision_def replicate_numeral put_str_fold str_text_def cut_def shown_def char_int_def del: fold_replicate)

end
