(* ===== verification/Machine.thy ===== *)
theory Machine
  imports MemOps Printfmt
begin

text \<open>
  The machine as the drivers see it: the bytes that devices answer on \<^verbatim>\<open>inb\<close> (an oracle, indexed
  by the number of reads so far), the bytes written with \<^verbatim>\<open>outb\<close>, the memory, and the static
  variables of \<^verbatim>\<open>kern/console.c\<close>, \<^verbatim>\<open>kern/init.c\<close> and \<^verbatim>\<open>lib/readline.c\<close>.
\<close>

section \<open>State\<close>

text \<open>The input buffer \<^verbatim>\<open>cons\<close> of \<^verbatim>\<open>kern/console.c\<close>.\<close>

record ring =
  cbuf :: "u8 list"
  rpos :: u32
  wpos :: u32

record machine =
  dev :: "nat \<Rightarrow> u16 \<Rightarrow> u8"
  clk :: nat
  outs :: "(u16 \<times> u8) list"
  ram :: mem
  cga_probe :: u16
  serial_exists :: bool
  addr_6845 :: u32
  crt_buf :: addr
  crt_pos :: u16
  shift :: u32
  cons :: ring
  readline_buf :: addr
  panicstr :: "string option"

section \<open>Port I/O (inc/x86.h)\<close>

definition inb :: "u32 \<Rightarrow> machine \<Rightarrow> u8 \<times> machine" where
  "inb port M = (dev M (clk M) (ucast port), M\<lparr>clk := clk M + 1\<rparr>)"

definition outb :: "u32 \<Rightarrow> u8 \<Rightarrow> machine \<Rightarrow> machine" where
  "outb port data M = M\<lparr>outs := outs M @ [(ucast port, data)]\<rparr>"

section \<open>16-bit cells of memory\<close>

definition peek16 :: "mem \<Rightarrow> addr \<Rightarrow> u16" where
  "peek16 m a = ucast (m a) OR push_bit 8 (ucast (m (a + 1)))"

definition poke16 :: "mem \<Rightarrow> addr \<Rightarrow> u16 \<Rightarrow> mem" where
  "poke16 m a v = m(a := ucast v, a + 1 := ucast (drop_bit 8 v))"

lemma word_16_of_bytes: "ucast (ucast v :: u8) OR push_bit 8 (ucast (ucast (drop_bit 8 v) :: u8)) = v"
  for v :: u16
  by (rule bit_word_eqI) (auto simp: bit_simps)

lemma peek16_poke16_same [simp]: "peek16 (poke16 m a v) a = v"
  by (simp add: peek16_def poke16_def word_16_of_bytes)

lemma peek16_poke16_other:
  "a \<noteq> b \<Longrightarrow> a + 1 \<noteq> b \<Longrightarrow> a \<noteq> b + 1 \<Longrightarrow> peek16 (poke16 m a v) b = peek16 m b"
  by (auto simp: peek16_def poke16_def)

text \<open>What went out on one port.\<close>

definition sent :: "u16 \<Rightarrow> machine \<Rightarrow> u8 list" where
  "sent port M = map snd (filter (\<lambda>(p, _). p = port) (outs M))"

lemma sent_outb [simp]:
  "sent port (outb p d M) = sent port M @ (if ucast p = port then [d] else [])"
  by (simp add: sent_def outb_def)

section \<open>A machine at rest\<close>

text \<open>
  A machine whose transmitters are always ready and whose keyboard and serial receiver are
  silent, with the screen where \<^verbatim>\<open>cga_init\<close> puts it: the concrete state of the witnesses.
\<close>

definition quiet :: machine where
  "quiet = \<lparr>dev = \<lambda>_ port. if port = 0x3FD then 0x20 else if port = 0x379 then 0x80 else 0,
     clk = 0, outs = [], ram = \<lambda>_. 0, cga_probe = 0xA55A, serial_exists = True,
     addr_6845 = 0x3D4, crt_buf = 0x80040B8000, crt_pos = 0, shift = 0,
     cons = \<lparr>cbuf = replicate 512 0, rpos = 0, wpos = 0\<rparr>,
     readline_buf = 0x8004300000, panicstr = None\<rparr>"

end
