(* ===== verification/ConsoleOut.thy ===== *)
theory ConsoleOut
  imports Machine
begin

text \<open>
  The output half of \<^verbatim>\<open>kern/console.c\<close>: the serial port, the parallel port and the CGA text screen.
  The screen is memory-mapped; its cells are read and written in \<^verbatim>\<open>ram\<close> at \<^verbatim>\<open>crt_buf\<close>. The
  abstract screen is a list of \<^verbatim>\<open>CRT_SIZE\<close> cells and a position, and the driver refines it.
\<close>

section \<open>Serial and parallel ports\<close>

definition inb_skip :: "u32 \<Rightarrow> machine \<Rightarrow> machine" where
  "inb_skip port M = snd (inb port M)"

definition delay :: "machine \<Rightarrow> machine" where
  "delay M = inb_skip 0x84 (inb_skip 0x84 (inb_skip 0x84 (inb_skip 0x84 M)))"

text \<open>\<^verbatim>\<open>for (i = 0; !(inb(port) & mask) && i < 12800; i++) delay();\<close>\<close>

function wait_ready :: "u32 \<Rightarrow> u8 \<Rightarrow> u32 \<Rightarrow> machine \<Rightarrow> machine" where
  "wait_ready port rdy i M =
     (let (st, M1) = inb port M
      in if st AND rdy = 0 \<and> sint i < 12800 then wait_ready port rdy (i + 1) (delay M1) else M1)"
  by pat_completeness auto
termination
  by (relation "measure (\<lambda>(port, rdy, i, M). nat (12800 - sint i))") (auto simp: sint_succ)

definition COM1 :: u32 where "COM1 = 0x3F8"

definition serial_putc :: "u32 \<Rightarrow> machine \<Rightarrow> machine" where
  "serial_putc c M = outb COM1 (ucast c) (wait_ready (COM1 + 5) 0x20 0 M)"

definition serial_init :: "machine \<Rightarrow> machine" where
  "serial_init M =
     (let M = outb (COM1 + 2) 0 M;
          M = outb (COM1 + 3) 0x80 M;
          M = outb (COM1 + 0) (of_nat (115200 div 9600)) M;
          M = outb (COM1 + 1) 0 M;
          M = outb (COM1 + 3) (0x03 AND NOT 0x80) M;
          M = outb (COM1 + 4) 0 M;
          M = outb (COM1 + 1) 0x01 M;
          (st, M) = inb (COM1 + 5) M;
          M = M\<lparr>serial_exists := (st \<noteq> 0xFF)\<rparr>;
          M = inb_skip (COM1 + 2) M
      in inb_skip (COM1 + 0) M)"

definition lpt_putc :: "u32 \<Rightarrow> machine \<Rightarrow> machine" where
  "lpt_putc c M =
     (let M = wait_ready (0x378 + 1) 0x80 0 M;
          M = outb 0x378 (ucast c) M;
          M = outb (0x378 + 2) (0x08 OR 0x04 OR 0x01) M
      in outb (0x378 + 2) 0x08 M)"

section \<open>The CGA screen\<close>

definition MONO_BASE :: u32 where "MONO_BASE = 0x3B4"
definition MONO_BUF :: u64 where "MONO_BUF = 0xB0000"
definition CGA_BASE :: u32 where "CGA_BASE = 0x3D4"
definition CGA_BUF :: u64 where "CGA_BUF = 0xB8000"

definition CRT_ROWS :: nat where "CRT_ROWS = 25"
definition CRT_COLS :: nat where "CRT_COLS = 80"
definition CRT_SIZE :: nat where "CRT_SIZE = CRT_ROWS * CRT_COLS"

text \<open>
  \<^verbatim>\<open>cp\<close> is volatile: what the display memory answers after the test pattern was written is
  the machine's \<open>cga_probe\<close>.
\<close>

definition cga_init :: "machine \<Rightarrow> machine" where
  "cga_init M =
     (let cp = KERNBASE + CGA_BUF;
          was = peek16 (ram M) cp;
          M = M\<lparr>ram := poke16 (ram M) cp 0xA55A\<rparr>;
          (cp, M) =
            (if cga_probe M \<noteq> 0xA55A then (KERNBASE + MONO_BUF, M\<lparr>addr_6845 := MONO_BASE\<rparr>)
             else (cp, M\<lparr>ram := poke16 (ram M) cp was, addr_6845 := CGA_BASE\<rparr>));
          M = outb (addr_6845 M) 14 M;
          (hi, M) = inb (addr_6845 M + 1) M;
          M = outb (addr_6845 M) 15 M;
          (lo, M) = inb (addr_6845 M + 1) M;
          pos = push_bit 8 (ucast hi :: u32) OR ucast lo
      in M\<lparr>crt_buf := cp, crt_pos := ucast pos\<rparr>)"

definition crt_addr :: "machine \<Rightarrow> nat \<Rightarrow> addr" where
  "crt_addr M i = crt_buf M + of_nat (2 * i)"

definition crt_write :: "machine \<Rightarrow> nat \<Rightarrow> u16 \<Rightarrow> machine" where
  "crt_write M i v = M\<lparr>ram := poke16 (ram M) (crt_addr M i) v\<rparr>"

text \<open>\<^verbatim>\<open>for (i = CRT_SIZE - CRT_COLS; i < CRT_SIZE; i++) crt_buf[i] = 0x0700 | ' ';\<close>\<close>

definition crt_blank_last :: "machine \<Rightarrow> machine" where
  "crt_blank_last M = fold (\<lambda>i M. crt_write M i (0x0700 OR 32)) [CRT_SIZE - CRT_COLS..<CRT_SIZE] M"

definition crt_scroll :: "machine \<Rightarrow> machine" where
  "crt_scroll M =
     (if CRT_SIZE \<le> unat (crt_pos M)
      then let M = M\<lparr>ram := snd (memmove (ram M) (crt_buf M) (crt_addr M CRT_COLS)
                              (of_nat ((CRT_SIZE - CRT_COLS) * 2)))\<rparr>;
               M = crt_blank_last M
           in M\<lparr>crt_pos := crt_pos M - of_nat CRT_COLS\<rparr>
      else M)"

definition crt_cursor :: "machine \<Rightarrow> machine" where
  "crt_cursor M =
     (let M = outb (addr_6845 M) 14 M;
          M = outb (addr_6845 M + 1) (ucast (drop_bit 8 (crt_pos M))) M;
          M = outb (addr_6845 M) 15 M
      in outb (addr_6845 M + 1) (ucast (crt_pos M)) M)"

text \<open>\<^verbatim>\<open>if (!(c & ~0xFF)) c |= 0x0700;\<close>\<close>

definition crt_attr :: "u32 \<Rightarrow> u32" where
  "crt_attr c = (if c AND NOT 0xFF = 0 then c OR 0x0700 else c)"

lemma crt_attr_low [simp]: "crt_attr c AND 0xFF = c AND 0xFF"
proof -
  have "(c OR 0x0700) AND 0xFF = c AND 0xFF"
    by (simp add: bit.conj_disj_distrib2)
  then show ?thesis by (simp add: crt_attr_def)
qed

function cga_putc :: "u32 \<Rightarrow> machine \<Rightarrow> machine"
  and cons_putc :: "u32 \<Rightarrow> machine \<Rightarrow> machine" where
  "cga_putc ch M =
     (let c = crt_attr ch;
          M =
            (if c AND 0xFF = 8 then
               if crt_pos M > 0
               then let M = M\<lparr>crt_pos := crt_pos M - 1\<rparr>
                    in crt_write M (unat (crt_pos M)) (ucast ((c AND NOT 0xFF) OR 32))
               else M
             else if c AND 0xFF = 10 then
               let M = M\<lparr>crt_pos := crt_pos M + of_nat CRT_COLS\<rparr>
               in M\<lparr>crt_pos := crt_pos M - crt_pos M mod of_nat CRT_COLS\<rparr>
             else if c AND 0xFF = 13 then
               M\<lparr>crt_pos := crt_pos M - crt_pos M mod of_nat CRT_COLS\<rparr>
             else if c AND 0xFF = 9 then
               cons_putc 32 (cons_putc 32 (cons_putc 32 (cons_putc 32 (cons_putc 32 M))))
             else
               let M' = crt_write M (unat (crt_pos M)) (ucast c)
               in M'\<lparr>crt_pos := crt_pos M + 1\<rparr>)
      in crt_cursor (crt_scroll M))"
| "cons_putc ch M = cga_putc ch (lpt_putc ch (serial_putc ch M))"
  by pat_completeness auto
termination
  by (relation "measure (case_sum (\<lambda>(c, M). if c AND 0xFF = 9 then 2 else 0)
      (\<lambda>(c, M). if c AND 0xFF = 9 then 3 else 1))") auto

definition cputchar :: "u32 \<Rightarrow> machine \<Rightarrow> machine" where
  "cputchar c M = cons_putc c M"

definition iscons :: "u32 \<Rightarrow> u32" where "iscons fdnum = 1"


declare wait_ready.simps [simp del] cga_putc.simps [simp del] cons_putc.simps [simp del]

section \<open>What the ports and the screen see\<close>

text \<open>Everything but the clock is left alone by polling.\<close>

lemma wait_ready_clk: "\<exists>k. wait_ready port rdy i M = M\<lparr>clk := k\<rparr>"
proof (induction port rdy i M rule: wait_ready.induct)
  case (1 port rdy i M)
  obtain st M1 where io: "inb port M = (st, M1)" by (cases "inb port M")
  then have M1: "M1 = M\<lparr>clk := clk M + 1\<rparr>" by (simp add: inb_def)
  show ?case
  proof (cases "st AND rdy = 0 \<and> sint i < 12800")
    case True
    then obtain k where "wait_ready port rdy (i + 1) (delay M1) = (delay M1)\<lparr>clk := k\<rparr>"
      using 1 [OF io [symmetric] refl] io by auto
    with True io show ?thesis
      by (subst wait_ready.simps) (auto simp: M1 delay_def inb_skip_def inb_def)
  next
    case False
    with io M1 show ?thesis by (subst wait_ready.simps) auto
  qed
qed

definition clk_after :: "u32 \<Rightarrow> u8 \<Rightarrow> machine \<Rightarrow> nat" where
  "clk_after port rdy M = clk (wait_ready port rdy 0 M)"

lemma wait_ready_eq: "wait_ready port rdy 0 M = M\<lparr>clk := clk_after port rdy M\<rparr>"
  using wait_ready_clk [of port rdy 0 M] by (auto simp: clk_after_def)

section \<open>The abstract screen\<close>

type_synonym screen = "u16 list \<times> nat"

definition cells :: "machine \<Rightarrow> u16 list" where
  "cells M = map (\<lambda>i. peek16 (ram M) (crt_addr M i)) [0..<CRT_SIZE]"

definition screen_of :: "machine \<Rightarrow> screen" where
  "screen_of M = (cells M, unat (crt_pos M))"

definition scroll_up :: "screen \<Rightarrow> screen" where
  "scroll_up = (\<lambda>(cs, p).
     if CRT_SIZE \<le> p then (drop CRT_COLS cs @ replicate CRT_COLS 0x0720, p - CRT_COLS) else (cs, p))"

text \<open>One character that is no tab.\<close>

definition screen_put1 :: "u32 \<Rightarrow> screen \<Rightarrow> screen" where
  "screen_put1 ch = (\<lambda>(cs, p).
     let c = crt_attr ch; low = c AND 0xFF
     in scroll_up
          (if low = 8 then
             if 0 < p then (cs [p - 1 := ucast ((c AND NOT 0xFF) OR 32)], p - 1) else (cs, p)
           else if low = 10 then (cs, (p + CRT_COLS) div CRT_COLS * CRT_COLS)
           else if low = 13 then (cs, p div CRT_COLS * CRT_COLS)
           else (cs [p := ucast c], p + 1)))"

definition screen_put :: "u32 \<Rightarrow> screen \<Rightarrow> screen" where
  "screen_put ch s = (if ch AND 0xFF = 9 then (screen_put1 32 ^^ 5) s else screen_put1 ch s)"

text \<open>The invariant of the driver.\<close>

definition crt_ok :: "machine \<Rightarrow> bool" where
  "crt_ok M \<longleftrightarrow> unat (crt_pos M) < CRT_SIZE \<and> unat (crt_buf M) + 2 * CRT_SIZE < 2 ^ 64
     \<and> (addr_6845 M = MONO_BASE \<or> addr_6845 M = CGA_BASE)"

lemmas crt_consts = CRT_SIZE_def CRT_ROWS_def CRT_COLS_def

lemma unat_crt_addr:
  "unat (crt_buf M) + 2 * CRT_SIZE < 2 ^ 64 \<Longrightarrow> i < CRT_SIZE \<Longrightarrow>
     unat (crt_addr M i) = unat (crt_buf M) + 2 * i"
proof -
  assume a: "unat (crt_buf M) + 2 * CRT_SIZE < 2 ^ 64" "i < CRT_SIZE"
  have "crt_addr M i = of_nat (unat (crt_buf M) + 2 * i)" by (simp add: crt_addr_def)
  then have "unat (crt_addr M i) = unat (of_nat (unat (crt_buf M) + 2 * i) :: addr)" by (rule arg_cong)
  also have "\<dots> = unat (crt_buf M) + 2 * i" using a by (intro unat_of_nat64) simp
  finally show ?thesis .
qed

lemma crt_addr_apart:
  assumes "unat (crt_buf M) + 2 * CRT_SIZE < 2 ^ 64" and "i < CRT_SIZE" and "j < CRT_SIZE" and "i \<noteq> j"
  shows "crt_addr M i \<noteq> crt_addr M j \<and> crt_addr M i + 1 \<noteq> crt_addr M j"
proof -
  note u = unat_crt_addr [OF assms(1)]
  have "unat (crt_addr M i + 1) = Suc (unat (crt_addr M i))"
    using u [OF assms(2)] assms(1,2) by (simp add: unat_word_ariths)
  then have "unat (crt_addr M i) \<noteq> unat (crt_addr M j)"
    "unat (crt_addr M i + 1) \<noteq> unat (crt_addr M j)"
    using u [OF assms(2)] u [OF assms(3)] assms(4) by presburger+
  then show ?thesis by metis
qed

lemma crt_write_fields [simp]:
  "crt_buf (crt_write M i v) = crt_buf M" "crt_pos (crt_write M i v) = crt_pos M"
  "addr_6845 (crt_write M i v) = addr_6845 M" "crt_addr (crt_write M i v) = crt_addr M"
  "outs (crt_write M i v) = outs M"
  by (simp_all add: crt_write_def crt_addr_def fun_eq_iff)

lemma length_cells [simp]: "length (cells M) = CRT_SIZE"
  by (simp add: cells_def)

lemma nth_cells: "i < CRT_SIZE \<Longrightarrow> cells M ! i = peek16 (ram M) (crt_addr M i)"
  by (simp add: cells_def)

lemma cells_write:
  assumes "unat (crt_buf M) + 2 * CRT_SIZE < 2 ^ 64" and "i < CRT_SIZE"
  shows "cells (crt_write M i v) = (cells M) [i := v]"
proof (rule nth_equalityI)
  fix j assume "j < length (cells (crt_write M i v))"
  then have j: "j < CRT_SIZE" by simp
  show "cells (crt_write M i v) ! j = (cells M) [i := v] ! j"
  proof (cases "j = i")
    case True
    then show ?thesis using assms j by (simp add: cells_def crt_write_def crt_addr_def)
  next
    case False
    have "peek16 (poke16 (ram M) (crt_addr M i) v) (crt_addr M j) = peek16 (ram M) (crt_addr M j)"
      using crt_addr_apart [OF assms(1,2) j] crt_addr_apart [OF assms(1) j assms(2)] False
      by (intro peek16_poke16_other) auto
    then show ?thesis using False j by (simp add: cells_def crt_write_def crt_addr_def)
  qed
qed simp

lemma blank_fold:
  assumes "unat (crt_buf M) + 2 * CRT_SIZE < 2 ^ 64" and "j \<le> CRT_SIZE"
  shows "cells (fold (\<lambda>i M. crt_write M i v) [k..<j] M) =
           map (\<lambda>i. if k \<le> i \<and> i < j then v else cells M ! i) [0..<CRT_SIZE]
    \<and> crt_buf (fold (\<lambda>i M. crt_write M i v) [k..<j] M) = crt_buf M
    \<and> crt_pos (fold (\<lambda>i M. crt_write M i v) [k..<j] M) = crt_pos M
    \<and> addr_6845 (fold (\<lambda>i M. crt_write M i v) [k..<j] M) = addr_6845 M
    \<and> outs (fold (\<lambda>i M. crt_write M i v) [k..<j] M) = outs M"
  using assms(2)
proof (induction j)
  case 0
  then show ?case by (auto intro!: nth_equalityI)
next
  case (Suc j)
  show ?case
  proof (cases "k \<le> j")
    case True
    let ?M = "fold (\<lambda>i M. crt_write M i v) [k..<j] M"
    have IH: "cells ?M = map (\<lambda>i. if k \<le> i \<and> i < j then v else cells M ! i) [0..<CRT_SIZE]"
      "crt_buf ?M = crt_buf M" "crt_pos ?M = crt_pos M" "addr_6845 ?M = addr_6845 M"
      "outs ?M = outs M"
      using Suc by auto
    have "cells (crt_write ?M j v) = (cells ?M) [j := v]"
      using assms(1) Suc.prems IH(2) by (intro cells_write) simp_all
    then show ?thesis using True Suc.prems IH
      by (auto intro!: nth_equalityI simp: nth_list_update less_Suc_eq)
  next
    case False
    then show ?thesis by (auto intro!: nth_equalityI)
  qed
qed

lemma cells_move:
  assumes "unat (crt_buf M) + 2 * CRT_SIZE < 2 ^ 64" and "i < CRT_SIZE - CRT_COLS"
  shows "cells (M\<lparr>ram := snd (memmove (ram M) (crt_buf M) (crt_addr M CRT_COLS)
           (of_nat ((CRT_SIZE - CRT_COLS) * 2)))\<rparr>) ! i = cells M ! (i + CRT_COLS)"
proof -
  let ?n = "of_nat ((CRT_SIZE - CRT_COLS) * 2) :: u64"
  let ?m = "snd (memmove (ram M) (crt_buf M) (crt_addr M CRT_COLS) ?n)"
  have n: "unat ?n = (CRT_SIZE - CRT_COLS) * 2" by (simp add: crt_consts)
  have src: "unat (crt_addr M CRT_COLS) = unat (crt_buf M) + 2 * CRT_COLS"
    using assms(1) by (rule unat_crt_addr) (simp add: crt_consts)
  have moved: "?m (crt_buf M + of_nat k) = ram M (crt_addr M CRT_COLS + of_nat k)"
    if "k < (CRT_SIZE - CRT_COLS) * 2" for k
  proof -
    have "unat (of_nat k :: addr) = k"
      using that by (intro unat_of_nat64) (simp add: crt_consts)
    then have "crt_buf M + of_nat k \<in> span (crt_buf M) (unat ?n)" using that n by (simp add: span_iff)
    then show ?thesis
      using memmove_lookup(2) [of "crt_addr M CRT_COLS" ?n "crt_buf M" "ram M" "crt_buf M + of_nat k"]
        assms(1) n src by (simp add: crt_consts)
  qed
  have "?m (crt_addr M i) = ram M (crt_addr M (i + CRT_COLS))"
    using moved [of "2 * i"] assms(2) by (simp add: crt_addr_def algebra_simps)
  moreover have "?m (crt_addr M i + 1) = ram M (crt_addr M (i + CRT_COLS) + 1)"
    using moved [of "2 * i + 1"] assms(2) by (simp add: crt_addr_def algebra_simps)
  ultimately have "peek16 ?m (crt_addr M i) = peek16 (ram M) (crt_addr M (i + CRT_COLS))"
    by (simp add: peek16_def)
  moreover have "i < CRT_SIZE" "i + CRT_COLS < CRT_SIZE" using assms(2) by linarith+
  ultimately show ?thesis by (simp add: nth_cells crt_addr_def)
qed

lemma crt_scroll_screen:
  assumes "unat (crt_buf M) + 2 * CRT_SIZE < 2 ^ 64"
  shows "screen_of (crt_scroll M) = scroll_up (screen_of M)
    \<and> crt_buf (crt_scroll M) = crt_buf M \<and> addr_6845 (crt_scroll M) = addr_6845 M
    \<and> outs (crt_scroll M) = outs M"
proof (cases "CRT_SIZE \<le> unat (crt_pos M)")
  case False
  then show ?thesis by (simp add: crt_scroll_def scroll_up_def screen_of_def)
next
  case True
  let ?M = "M\<lparr>ram := snd (memmove (ram M) (crt_buf M) (crt_addr M CRT_COLS)
              (of_nat ((CRT_SIZE - CRT_COLS) * 2)))\<rparr>"
  have "unat (crt_buf ?M) + 2 * CRT_SIZE < 2 ^ 64" using assms by simp
  note b = blank_fold [OF this order_refl, where k = "CRT_SIZE - CRT_COLS" and v = "0x0700 OR 32",
      folded crt_blank_last_def]
  have "cells (crt_blank_last ?M) = drop CRT_COLS (cells M) @ replicate CRT_COLS 0x0720"
  proof (rule nth_equalityI)
    fix i assume "i < length (cells (crt_blank_last ?M))"
    then have i: "i < CRT_SIZE" by simp
    then show "cells (crt_blank_last ?M) ! i = (drop CRT_COLS (cells M) @ replicate CRT_COLS 0x0720) ! i"
      using b cells_move [OF assms, of i] by (auto simp: nth_append crt_consts add.commute)
  qed (simp add: crt_consts)
  moreover have "unat (crt_pos M - of_nat CRT_COLS) = unat (crt_pos M) - CRT_COLS"
    using True by (simp add: unat_sub word_le_nat_alt crt_consts)
  moreover have "cells (crt_blank_last ?M\<lparr>crt_pos := q\<rparr>) = cells (crt_blank_last ?M)" for q
    by (simp add: cells_def crt_addr_def)
  ultimately show ?thesis
    using True b by (simp add: crt_scroll_def scroll_up_def screen_of_def Let_def)
qed

lemma crt_cursor_fields [simp]:
  "screen_of (crt_cursor M) = screen_of M" "crt_buf (crt_cursor M) = crt_buf M"
  "crt_pos (crt_cursor M) = crt_pos M" "addr_6845 (crt_cursor M) = addr_6845 M"
  by (simp_all add: crt_cursor_def screen_of_def cells_def crt_addr_def outb_def Let_def)

lemma sent_crt_cursor:
  assumes "addr_6845 M = MONO_BASE \<or> addr_6845 M = CGA_BASE" and "port = 0x3F8 \<or> port = 0x378"
  shows "sent port (crt_cursor M) = sent port M"
  using assms by (auto simp: crt_cursor_def MONO_BASE_def CGA_BASE_def sent_def outb_def Let_def)

lemma unat_row_start: "unat (w - w mod of_nat CRT_COLS) = unat w div CRT_COLS * CRT_COLS" for w :: u16
proof -
  have c: "unat (of_nat CRT_COLS :: u16) = CRT_COLS" by (simp add: crt_consts)
  have m: "unat (w mod of_nat CRT_COLS) = unat w mod CRT_COLS"
    by (simp only: unat_mod_distrib c)
  then have "w mod of_nat CRT_COLS \<le> w" by (simp only: word_le_nat_alt mod_less_eq_dividend)
  then have "unat (w - w mod of_nat CRT_COLS) = unat w - unat w mod CRT_COLS"
    by (simp only: unat_sub m)
  then show ?thesis by (simp only: minus_mod_eq_div_mult)
qed

lemma screen_put1_pos: "p < CRT_SIZE \<Longrightarrow> snd (screen_put1 ch (cs, p)) < CRT_SIZE"
proof -
  have "p div 80 * 80 \<le> p" "(p + 80) div 80 * 80 \<le> p + 80" by simp_all
  then show "p < CRT_SIZE \<Longrightarrow> snd (screen_put1 ch (cs, p)) < CRT_SIZE"
    by (auto simp: screen_put1_def scroll_up_def Let_def crt_consts)
qed

text \<open>The part of \<^verbatim>\<open>cga_putc\<close> before the screen scrolls, for all characters but tab.\<close>

definition cga_step :: "u32 \<Rightarrow> machine \<Rightarrow> machine" where
  "cga_step c M =
     (if c AND 0xFF = 8 then
        if crt_pos M > 0
        then crt_write (M\<lparr>crt_pos := crt_pos M - 1\<rparr>) (unat (crt_pos M - 1)) (ucast ((c AND NOT 0xFF) OR 32))
        else M
      else if c AND 0xFF = 10 then
        M\<lparr>crt_pos := crt_pos M + of_nat CRT_COLS - (crt_pos M + of_nat CRT_COLS) mod of_nat CRT_COLS\<rparr>
      else if c AND 0xFF = 13 then M\<lparr>crt_pos := crt_pos M - crt_pos M mod of_nat CRT_COLS\<rparr>
      else (crt_write M (unat (crt_pos M)) (ucast c))\<lparr>crt_pos := crt_pos M + 1\<rparr>)"

lemma cga_putc_no_tab:
  "ch AND 0xFF \<noteq> 9 \<Longrightarrow> cga_putc ch M = crt_cursor (crt_scroll (cga_step (crt_attr ch) M))"
  by (subst cga_putc.simps) (simp add: cga_step_def Let_def)

lemma cells_pos [simp]: "cells (M\<lparr>crt_pos := q\<rparr>) = cells M"
  by (simp add: cells_def crt_addr_def)

lemma cga_step_screen:
  assumes "crt_ok M"
  shows "screen_put1 ch (screen_of M) = scroll_up (screen_of (cga_step (crt_attr ch) M))
    \<and> crt_buf (cga_step (crt_attr ch) M) = crt_buf M
    \<and> addr_6845 (cga_step (crt_attr ch) M) = addr_6845 M
    \<and> outs (cga_step (crt_attr ch) M) = outs M"
proof -
  have buf: "unat (crt_buf M) + 2 * CRT_SIZE < 2 ^ 64" and pos: "unat (crt_pos M) < CRT_SIZE"
    using assms by (simp_all add: crt_ok_def)
  have up: "unat (crt_pos M + 1) = unat (crt_pos M) + 1"
    and row: "unat (crt_pos M + of_nat CRT_COLS) = unat (crt_pos M) + CRT_COLS"
    using pos by (simp_all add: unat_word_ariths crt_consts)
  have down: "0 < crt_pos M \<Longrightarrow> unat (crt_pos M - 1) = unat (crt_pos M) - 1"
    by (simp add: unat_pred word_neq_0_conv)
  have dn: "crt_pos M > 0 \<longleftrightarrow> unat (crt_pos M) > 0" by (simp add: word_less_nat_alt)
  have w: "cells (crt_write (M\<lparr>crt_pos := q\<rparr>) i v) = (cells M) [i := v]" if "i < CRT_SIZE" for q i v
    using cells_write [of "M\<lparr>crt_pos := q\<rparr>" i v] buf that by simp
  have w': "cells (crt_write M i v) = (cells M) [i := v]" if "i < CRT_SIZE" for i v
    using cells_write [OF buf that] .
  show ?thesis
    using pos down dn
    by (auto simp: screen_put1_def cga_step_def screen_of_def Let_def w w' up row unat_row_start)
qed

lemma cga_putc_refines:
  assumes "crt_ok M" and "ch AND 0xFF \<noteq> 9"
  shows "screen_of (cga_putc ch M) = screen_put1 ch (screen_of M) \<and> crt_ok (cga_putc ch M)
    \<and> (port = 0x3F8 \<or> port = 0x378 \<longrightarrow> sent port (cga_putc ch M) = sent port M)"
proof -
  let ?M = "cga_step (crt_attr ch) M"
  note s = cga_step_screen [OF assms(1), of ch]
  then have "unat (crt_buf ?M) + 2 * CRT_SIZE < 2 ^ 64" using assms(1) by (simp add: crt_ok_def)
  note c = crt_scroll_screen [OF this]
  have scr: "screen_of (cga_putc ch M) = screen_put1 ch (screen_of M)"
    using s c by (simp add: cga_putc_no_tab [OF assms(2)])
  have "unat (crt_pos (cga_putc ch M)) < CRT_SIZE"
    using screen_put1_pos [of "unat (crt_pos M)" ch "cells M"] assms(1)
    unfolding scr [unfolded screen_of_def, symmetric] by (simp add: crt_ok_def)
  moreover have "sent port (crt_scroll ?M) = sent port M"
    using s c by (simp add: sent_def)
  ultimately show ?thesis
    using scr s c assms(1)
    by (auto simp: crt_ok_def cga_putc_no_tab [OF assms(2)] sent_crt_cursor)
qed

section \<open>The whole console\<close>

text \<open>The ports leave the screen alone and get their character.\<close>

lemma ports_put:
  "screen_of (lpt_putc ch (serial_putc ch M)) = screen_of M"
  "crt_ok (lpt_putc ch (serial_putc ch M)) = crt_ok M"
  "sent 0x3F8 (lpt_putc ch (serial_putc ch M)) = sent 0x3F8 M @ [ucast ch]"
  "sent 0x378 (lpt_putc ch (serial_putc ch M)) = sent 0x378 M @ [ucast ch]"
  by (simp_all add: lpt_putc_def serial_putc_def wait_ready_eq outb_def COM1_def screen_of_def
      cells_def crt_addr_def crt_ok_def sent_def Let_def)

lemma cons_putc_no_tab:
  assumes "crt_ok M" and "ch AND 0xFF \<noteq> 9"
  shows "screen_of (cons_putc ch M) = screen_put1 ch (screen_of M) \<and> crt_ok (cons_putc ch M)
    \<and> sent 0x3F8 (cons_putc ch M) = sent 0x3F8 M @ [ucast ch]
    \<and> sent 0x378 (cons_putc ch M) = sent 0x378 M @ [ucast ch]"
proof -
  have ok: "crt_ok (lpt_putc ch (serial_putc ch M))" using assms(1) by (simp add: ports_put)
  show ?thesis
    using cga_putc_refines [OF ok assms(2), where port = "0x3F8"]
      cga_putc_refines [OF ok assms(2), where port = "0x378"]
    by (simp add: cons_putc.simps ports_put)
qed

text \<open>The bytes that one call sends to a port: a tab is followed by five spaces.\<close>

definition port_bytes :: "u32 \<Rightarrow> u8 list" where
  "port_bytes ch = (if ch AND 0xFF = 9 then ucast ch # replicate 5 32 else [ucast ch])"

lemma scroll_up_id: "snd s < CRT_SIZE \<Longrightarrow> scroll_up s = s"
  by (auto simp: scroll_up_def split: prod.split)

lemma funpow_5: "(f ^^ 5) x = f (f (f (f (f x))))"
  by (simp add: numeral_eq_Suc)

lemma cons_putc_tab:
  assumes ok: "crt_ok M" and tab: "ch AND 0xFF = 9"
  shows "screen_of (cons_putc ch M) = (screen_put1 32 ^^ 5) (screen_of M) \<and> crt_ok (cons_putc ch M)
    \<and> sent 0x3F8 (cons_putc ch M) = sent 0x3F8 M @ port_bytes ch
    \<and> sent 0x378 (cons_putc ch M) = sent 0x378 M @ port_bytes ch"
proof -
  define M0 where "M0 = lpt_putc ch (serial_putc ch M)"
  define M1 where "M1 = cons_putc 32 M0"
  define M2 where "M2 = cons_putc 32 M1"
  define M3 where "M3 = cons_putc 32 M2"
  define M4 where "M4 = cons_putc 32 M3"
  define M5 where "M5 = cons_putc 32 M4"
  have sp: "(32::u32) AND 0xFF \<noteq> 9" by simp
  have ok0: "crt_ok M0" using ok by (simp add: M0_def ports_put)
  note s1 = cons_putc_no_tab [OF ok0 sp, folded M1_def]
  note s2 = cons_putc_no_tab [of M1, OF _ sp, folded M2_def]
  note s3 = cons_putc_no_tab [of M2, OF _ sp, folded M3_def]
  note s4 = cons_putc_no_tab [of M3, OF _ sp, folded M4_def]
  note s5 = cons_putc_no_tab [of M4, OF _ sp, folded M5_def]
  have ok5: "crt_ok M5" using s1 s2 s3 s4 s5 by blast
  have scr: "screen_of M5 = (screen_put1 32 ^^ 5) (screen_of M)"
    using s1 s2 s3 s4 s5 by (simp add: funpow_5 M0_def ports_put)
  have ser: "sent 0x3F8 M5 = sent 0x3F8 M @ port_bytes ch"
    and lpt: "sent 0x378 M5 = sent 0x378 M @ port_bytes ch"
    using s1 s2 s3 s4 s5 tab by (simp_all add: port_bytes_def replicate_numeral M0_def ports_put)
  have eq: "cons_putc ch M = crt_cursor (crt_scroll M5)"
    by (simp add: cons_putc.simps [of ch M] cga_putc.simps [of ch] tab Let_def
        M0_def M1_def M2_def M3_def M4_def M5_def)
  have id: "crt_scroll M5 = M5" using ok5 by (simp add: crt_scroll_def crt_ok_def)
  show ?thesis
    using ok5 scr ser lpt unfolding eq id by (auto simp: crt_ok_def sent_crt_cursor)
qed

lemma cons_putc_screen:
  "crt_ok M \<Longrightarrow> crt_ok (cons_putc ch M)
    \<and> screen_of (cons_putc ch M) = screen_put ch (screen_of M)
    \<and> sent 0x3F8 (cons_putc ch M) = sent 0x3F8 M @ port_bytes ch
    \<and> sent 0x378 (cons_putc ch M) = sent 0x378 M @ port_bytes ch"
  using cons_putc_no_tab [of M ch] cons_putc_tab [of M ch]
  by (cases "ch AND 0xFF = 9") (simp_all add: screen_put_def port_bytes_def)

text \<open>
  C3. \<^verbatim>\<open>cons_putc\<close> keeps the invariant of the text screen (the position is on it) and refines the
  abstract screen: a character, a backspace, a newline, a return or a tab changes the cells and
  the position as on a terminal of 25 lines of 80 columns that scrolls by one line. The serial
  and the parallel port get the character, and five more spaces for a tab.
\<close>

theorem cons_putc_refines:
  assumes "crt_ok M"
  shows "crt_ok (cons_putc ch M)
    \<and> screen_of (cons_putc ch M) = screen_put ch (screen_of M)
    \<and> sent 0x3F8 (cons_putc ch M) = sent 0x3F8 M @ port_bytes ch
    \<and> sent 0x378 (cons_putc ch M) = sent 0x378 M @ port_bytes ch"
  using cons_putc_screen [OF assms] .

lemma quiet_crt_ok: "crt_ok quiet"
  by (simp add: crt_ok_def quiet_def crt_consts CGA_BASE_def)

theorem cons_putc_refines_witness:
  "sent 0x3F8 (cons_putc 9 quiet) = [9, 32, 32, 32, 32, 32] \<and>
   screen_of (cons_putc 9 quiet) = screen_put 9 (screen_of quiet)"
  using cons_putc_refines [OF quiet_crt_ok, of 9]
  by (simp add: port_bytes_def replicate_numeral quiet_def sent_def)

end
