(* ===== verification/CPrintf.thy ===== *)
theory CPrintf
  imports ConsoleOut
begin

text \<open>
  \<^verbatim>\<open>kern/printf.c\<close>: formatted output to the console. The sink is \<^verbatim>\<open>putch\<close>, its \<^verbatim>\<open>putdat\<close> the counter
  \<^verbatim>\<open>cnt\<close> of the caller. \<^verbatim>\<open>*cnt++\<close> steps the pointer, not the counter.
\<close>

definition putch :: "u32 \<Rightarrow> machine \<times> u32 \<Rightarrow> machine \<times> u32" where
  "putch ch = (\<lambda>(M, cnt). (cputchar ch M, cnt))"

definition vcprintf :: "string \<Rightarrow> varg list \<Rightarrow> machine \<Rightarrow> (u32 \<times> machine) option" where
  "vcprintf fmt ap M =
     (case vprintfmt putch (M, 0) fmt ap of
        None \<Rightarrow> None
      | Some (M', cnt) \<Rightarrow> Some (cnt, M'))"

definition cprintf :: "string \<Rightarrow> varg list \<Rightarrow> machine \<Rightarrow> (u32 \<times> machine) option" where
  "cprintf fmt ap M = vcprintf fmt ap M"

text \<open>The calls that ignore the count.\<close>

definition print :: "string \<Rightarrow> varg list \<Rightarrow> machine \<Rightarrow> machine option" where
  "print fmt ap M = map_option snd (cprintf fmt ap M)"

lemma fold_putch: "fold putch out (M, cnt) = (fold cputchar out M, cnt)"
  by (induction out arbitrary: M) (simp_all add: putch_def)

lemma cprintf_fold: "cprintf fmt ap M = map_option (\<lambda>out. (0, fold cputchar out M)) (format fmt ap)"
  by (simp add: cprintf_def vcprintf_def vprintfmt_fold fold_putch split: option.split)

lemma print_fold: "print fmt ap M = map_option (\<lambda>out. fold cputchar out M) (format fmt ap)"
  by (simp add: print_def cprintf_fold option.map_comp comp_def)

lemma fold_cputchar:
  "crt_ok M \<Longrightarrow> crt_ok (fold cputchar out M)
     \<and> screen_of (fold cputchar out M) = fold screen_put out (screen_of M)
     \<and> sent 0x3F8 (fold cputchar out M) = sent 0x3F8 M @ concat (map port_bytes out)"
proof (induction out arbitrary: M)
  case (Cons c out)
  then show ?case using cons_putc_screen [of M c] by (simp add: cputchar_def)
qed simp

text \<open>
  C36. \<^verbatim>\<open>cprintf\<close> puts the formatted text on the screen and on the serial line, character by
  character, keeps the invariant of the screen, and always returns 0, whatever it printed: the
  count is never advanced.
\<close>

theorem cprintf_output:
  assumes "crt_ok M" and "format fmt ap = Some out"
  shows "\<exists>M'. cprintf fmt ap M = Some (0, M') \<and> crt_ok M'
    \<and> screen_of M' = fold screen_put out (screen_of M)
    \<and> sent 0x3F8 M' = sent 0x3F8 M @ concat (map port_bytes out)"
  using fold_cputchar [OF assms(1)] by (simp add: cprintf_fold assms(2))

theorem cprintf_output_witness:
  "\<exists>M'. cprintf ''%d'' [VInt 42] quiet = Some (0, M') \<and> sent 0x3F8 M' = [0x34, 0x32]"
proof -
  have "format ''%d'' [VInt 42] = Some [0x34, 0x32]"
    by (simp add: format_d_text decimal_def digits.simps)
  from cprintf_output [OF quiet_crt_ok this] show ?thesis
    by (auto simp: port_bytes_def quiet_def sent_def)
qed

end
