(* ===== verification/Fifo.thy ===== *)
theory Fifo
  imports Prelude
begin

text \<open>
  The contract of a bounded queue: what \<^verbatim>\<open>cons_intr\<close> and \<^verbatim>\<open>cons_getc\<close> of \<^verbatim>\<open>kern/console.c\<close> rely on.
  \<open>items\<close> is the abstract content, \<open>cap\<close> the number of items that fit.
\<close>

locale fifo =
  fixes ok :: "'q \<Rightarrow> bool" and items :: "'q \<Rightarrow> 'a list" and cap :: nat
    and put :: "'a \<Rightarrow> 'q \<Rightarrow> 'q" and get :: "'q \<Rightarrow> ('a \<times> 'q) option"
  assumes put_ok: "ok q \<Longrightarrow> ok (put x q)"
    and put_items: "ok q \<Longrightarrow> length (items q) < cap \<Longrightarrow> items (put x q) = items q @ [x]"
    and get_empty: "ok q \<Longrightarrow> items q = [] \<Longrightarrow> get q = None"
    and get_head: "ok q \<Longrightarrow> items q = x # xs \<Longrightarrow> \<exists>q'. get q = Some (x, q') \<and> ok q' \<and> items q' = xs"
begin

lemma puts_ok: "ok q \<Longrightarrow> ok (fold put xs q)"
  by (induction xs arbitrary: q) (simp_all add: put_ok)

lemma puts_items:
  "ok q \<Longrightarrow> length (items q) + length xs \<le> cap \<Longrightarrow> items (fold put xs q) = items q @ xs"
  by (induction xs arbitrary: q) (simp_all add: put_ok put_items)

lemma get_iff_empty: "ok q \<Longrightarrow> get q = None \<longleftrightarrow> items q = []"
  using get_head get_empty by (cases "items q") fastforce+

text \<open>Taking \<open>n\<close> items out.\<close>

primrec gets :: "nat \<Rightarrow> 'q \<Rightarrow> 'a list \<times> 'q" where
  "gets 0 q = ([], q)"
| "gets (Suc n) q =
     (case get q of None \<Rightarrow> ([], q) | Some (x, q') \<Rightarrow> (x # fst (gets n q'), snd (gets n q')))"

lemma gets_items:
  "ok q \<Longrightarrow> fst (gets n q) = take n (items q) \<and> items (snd (gets n q)) = drop n (items q)
     \<and> ok (snd (gets n q))"
proof (induction n arbitrary: q)
  case (Suc n)
  show ?case
  proof (cases "items q")
    case Nil
    then show ?thesis using Suc.prems get_empty by simp
  next
    case (Cons x xs)
    then obtain q' where "get q = Some (x, q')" "ok q'" "items q' = xs"
      using get_head [OF Suc.prems] by blast
    then show ?thesis using Suc.IH [of q'] Cons by simp
  qed
qed simp

text \<open>First in, first out: what was put comes back in its order.\<close>

lemma fifo_order:
  assumes "ok q" and "items q = []" and "length xs \<le> cap"
  shows "fst (gets (length xs) (fold put xs q)) = xs"
  using gets_items [OF puts_ok [OF assms(1)]] puts_items [OF assms(1)] assms(2,3) by simp

end

end
