(* ===== verification/ConsoleIn.thy ===== *)
theory ConsoleIn
  imports CPrintf Fifo
begin

text \<open>
  The input half of \<^verbatim>\<open>kern/console.c\<close>: the keyboard decoder with its tables and modifier state,
  the ring buffer that the interrupt routines fill, \<^verbatim>\<open>cons_getc\<close> and \<^verbatim>\<open>getchar\<close>. A routine that
  reads a device until it is silent may run forever and is a \<^theory_text>\<open>partial_function\<close>.
\<close>

section \<open>Keyboard tables\<close>

definition KEY_SHIFT :: u8 where "KEY_SHIFT = 1"
definition KEY_CTL :: u8 where "KEY_CTL = 2"
definition KEY_ALT :: u8 where "KEY_ALT = 4"
definition CAPSLOCK :: u8 where "CAPSLOCK = 8"
definition NUMLOCK :: u8 where "NUMLOCK = 16"
definition SCROLLLOCK :: u8 where "SCROLLLOCK = 32"
definition E0ESC :: u8 where "E0ESC = 64"

definition designated :: "(u8 \<times> u8) list \<Rightarrow> u8 \<Rightarrow> u8" where
  "designated ds d = (case map_of ds d of Some c \<Rightarrow> c | None \<Rightarrow> 0)"

definition shiftcode :: "u8 \<Rightarrow> u8" where
  "shiftcode = designated
     [(0x1D, KEY_CTL), (0x2A, KEY_SHIFT), (0x36, KEY_SHIFT), (0x38, KEY_ALT), (0x9D, KEY_CTL),
      (0xB8, KEY_ALT)]"

definition togglecode :: "u8 \<Rightarrow> u8" where
  "togglecode = designated [(0x3A, CAPSLOCK), (0x45, NUMLOCK), (0x46, SCROLLLOCK)]"

text \<open>A table: its leading rows, then the designated entries; everything else is \<^verbatim>\<open>NO\<close>.\<close>

definition keymap :: "u8 list \<Rightarrow> (u8 \<times> u8) list \<Rightarrow> u8 \<Rightarrow> u8" where
  "keymap rows ds d = (if unat d < length rows then rows ! unat d else designated ds d)"

definition keypad :: "(u8 \<times> u8) list" where
  "keypad = [(0xC8, 0xE2), (0xC9, 0xE6), (0xCB, 0xE4), (0xCD, 0xE5), (0xCF, 0xE1), (0xD0, 0xE3),
     (0xD1, 0xE7), (0xD2, 0xE8), (0xD3, 0xE9)]"

definition NO :: u8 where "NO = 0"

definition normalmap :: "u8 \<Rightarrow> u8" where
  "normalmap = keymap
     ([NO, 0x1B] @ lit ''123456'' @ lit ''7890-='' @ [8, 9]
      @ lit ''qwertyui'' @ lit ''op[]'' @ [10, NO] @ lit ''as''
      @ lit ''dfghjkl;'' @ [0x27, 0x60, NO, 0x5C] @ lit ''zxcv''
      @ lit ''bnm,./'' @ [NO] @ lit ''*'' @ [NO] @ lit '' '' @ replicate 6 NO
      @ replicate 7 NO @ lit ''7'' @ lit ''89-456+1''
      @ lit ''230.'' @ replicate 4 NO)
     ([(0xC7, 0xE0), (0x9C, 10), (0xB5, 0x2F)] @ keypad)"

definition shiftmap :: "u8 \<Rightarrow> u8" where
  "shiftmap = keymap
     ([NO, 0x1B] @ lit ''!@#$%^'' @ lit ''&*()_+'' @ [8, 9]
      @ lit ''QWERTYUI'' @ lit ''OP{}'' @ [10, NO] @ lit ''AS''
      @ lit ''DFGHJKL:'' @ [0x22, 0x7E, NO, 0x7C] @ lit ''ZXCV''
      @ lit ''BNM<>?'' @ [NO] @ lit ''*'' @ [NO] @ lit '' '' @ replicate 6 NO
      @ replicate 7 NO @ lit ''7'' @ lit ''89-456+1''
      @ lit ''230.'' @ replicate 4 NO)
     ([(0xC7, 0xE0), (0x9C, 10), (0xB5, 0x2F)] @ keypad)"

text \<open>\<^verbatim>\<open>#define C(x) (x - '@')\<close>, cut to a byte.\<close>

definition C :: "string \<Rightarrow> u8 list" where
  "C s = map (\<lambda>x. of_char x - 0x40) s"

definition ctlmap :: "u8 \<Rightarrow> u8" where
  "ctlmap = keymap
     (replicate 8 NO @ replicate 8 NO
      @ C ''QWERTYUI'' @ C ''OP'' @ [NO, NO, 13, NO] @ C ''AS''
      @ C ''DFGHJKL'' @ [NO] @ [NO, NO, NO, 0x5C - 0x40] @ C ''ZXCV''
      @ C ''BNM'' @ [NO, NO] @ C ''/'' @ [NO, NO])
     ([(0x97, 0xE0), (0xB5, 0x2F - 0x40)] @ keypad)"

text \<open>\<^verbatim>\<open>charcode[shift & (CTL | SHIFT)]\<close>\<close>

definition charcode :: "u8 \<Rightarrow> u8 \<Rightarrow> u8" where
  "charcode k = [normalmap, shiftmap, ctlmap, ctlmap] ! unat k"

section \<open>The decoder\<close>

text \<open>
  What \<^verbatim>\<open>kbd_proc_data\<close> makes of a byte and the state \<^verbatim>\<open>shift\<close>: the character, and the new state.
\<close>

definition kbd_case :: "u32 \<Rightarrow> u32 \<Rightarrow> u32" where
  "kbd_case sh c =
     (if sh AND ucast CAPSLOCK \<noteq> 0
      then if 97 \<le> sint c \<and> sint c \<le> 122 then c + (65 - 97)
           else if 65 \<le> sint c \<and> sint c \<le> 90 then c + (97 - 65)
           else c
      else c)"

definition kbd_press :: "u32 \<Rightarrow> u8 \<Rightarrow> u32 \<times> u32" where
  "kbd_press sh data =
     (let sh = sh OR ucast (shiftcode data);
          sh = sh XOR ucast (togglecode data);
          c = ucast (charcode (ucast (sh AND ucast (KEY_CTL OR KEY_SHIFT))) data)
      in (kbd_case sh c, sh))"

definition kbd_decode :: "u32 \<Rightarrow> u8 \<Rightarrow> u32 \<times> u32" where
  "kbd_decode sh data =
     (if data = 0xE0 then (0, sh OR ucast E0ESC)
      else if data AND 0x80 \<noteq> 0 then
        (let data = (if sh AND ucast E0ESC \<noteq> 0 then data else data AND 0x7F)
         in (0, sh AND NOT (ucast (shiftcode data OR E0ESC))))
      else if sh AND ucast E0ESC \<noteq> 0 then kbd_press (sh AND NOT (ucast E0ESC)) (data OR 0x80)
      else kbd_press sh data)"

text \<open>The bytes that are no key presses return before the test for Ctrl-Alt-Del.\<close>

definition is_press :: "u8 \<Rightarrow> bool" where
  "is_press data \<longleftrightarrow> data \<noteq> 0xE0 \<and> data AND 0x80 = 0"

definition kbd_proc_data :: "machine \<Rightarrow> (u32 \<times> machine) option" where
  "kbd_proc_data M =
     (let (st, M) = inb 0x64 M
      in if st AND 1 = 0 then Some (-1, M)
         else let (data, M) = inb 0x60 M;
                  (c, sh) = kbd_decode (shift M) data;
                  M = M\<lparr>shift := sh\<rparr>
              in if is_press data \<and> NOT sh AND ucast (KEY_CTL OR KEY_ALT) = 0 \<and> c = 0xE9
                 then (case print (''Rebooting!'' @ [CHR 10]) [] M of
                         None \<Rightarrow> None
                       | Some M \<Rightarrow> Some (c, outb 0x92 3 M))
                 else Some (c, M))"

definition serial_proc_data :: "machine \<Rightarrow> (u32 \<times> machine) option" where
  "serial_proc_data M =
     (let (st, M) = inb (COM1 + 5) M
      in if st AND 1 = 0 then Some (-1, M)
         else let (data, M) = inb (COM1 + 0) M in Some (ucast data, M))"

section \<open>The ring buffer\<close>

definition CONSBUFSIZE :: nat where "CONSBUFSIZE = 512"

text \<open>\<^verbatim>\<open>cons.buf[cons.wpos++] = c; if (cons.wpos == CONSBUFSIZE) cons.wpos = 0;\<close>\<close>

definition ring_put :: "u8 \<Rightarrow> ring \<Rightarrow> ring" where
  "ring_put c r =
     (let r = r\<lparr>cbuf := (cbuf r) [unat (wpos r) := c], wpos := wpos r + 1\<rparr>
      in if wpos r = of_nat CONSBUFSIZE then r\<lparr>wpos := 0\<rparr> else r)"

text \<open>The second half of \<^verbatim>\<open>cons_getc\<close>.\<close>

definition ring_get :: "ring \<Rightarrow> (u8 \<times> ring) option" where
  "ring_get r =
     (if rpos r \<noteq> wpos r
      then let c = cbuf r ! unat (rpos r);
               r = r\<lparr>rpos := rpos r + 1\<rparr>;
               r = (if rpos r = of_nat CONSBUFSIZE then r\<lparr>rpos := 0\<rparr> else r)
           in Some (c, r)
      else None)"

definition push :: "u32 \<Rightarrow> machine \<Rightarrow> machine" where
  "push c M = M\<lparr>cons := ring_put (ucast c) (cons M)\<rparr>"

partial_function (option) cons_intr ::
    "(machine \<Rightarrow> (u32 \<times> machine) option) \<Rightarrow> machine \<Rightarrow> machine option" where
  "cons_intr proc M =
     Option.bind (proc M) (\<lambda>(c, M).
       if c = -1 then Some M
       else cons_intr proc (if c = 0 then M else push c M))"

definition serial_intr :: "machine \<Rightarrow> machine option" where
  "serial_intr M = (if serial_exists M then cons_intr serial_proc_data M else Some M)"

definition kbd_intr :: "machine \<Rightarrow> machine option" where
  "kbd_intr M = cons_intr kbd_proc_data M"

definition cons_getc :: "machine \<Rightarrow> (u32 \<times> machine) option" where
  "cons_getc M =
     Option.bind (serial_intr M) (\<lambda>M.
     Option.bind (kbd_intr M) (\<lambda>M.
       case ring_get (cons M) of
         Some (c, r) \<Rightarrow> Some (ucast c, M\<lparr>cons := r\<rparr>)
       | None \<Rightarrow> Some (0, M)))"

partial_function (option) getchar :: "machine \<Rightarrow> (u32 \<times> machine) option" where
  "getchar M =
     Option.bind (cons_getc M) (\<lambda>(c, M). if c = 0 then getchar M else Some (c, M))"

definition kbd_init :: "machine \<Rightarrow> machine" where
  "kbd_init M = M"

definition cons_init :: "machine \<Rightarrow> machine option" where
  "cons_init M =
     (let M = serial_init (kbd_init (cga_init M))
      in if \<not> serial_exists M then print (''Serial port does not exist!'' @ [CHR 10]) [] M
         else Some M)"

section \<open>The ring buffer is a queue\<close>

definition ring_ok :: "ring \<Rightarrow> bool" where
  "ring_ok r \<longleftrightarrow>
     length (cbuf r) = CONSBUFSIZE \<and> unat (rpos r) < CONSBUFSIZE \<and> unat (wpos r) < CONSBUFSIZE"

definition ring_count :: "ring \<Rightarrow> nat" where
  "ring_count r = (unat (wpos r) + CONSBUFSIZE - unat (rpos r)) mod CONSBUFSIZE"

definition ring_items :: "ring \<Rightarrow> u8 list" where
  "ring_items r = map (\<lambda>k. cbuf r ! ((unat (rpos r) + k) mod CONSBUFSIZE)) [0..<ring_count r]"

lemma length_ring_items [simp]: "length (ring_items r) = ring_count r"
  by (simp add: ring_items_def)

lemma unat_pos_succ: "unat p < CONSBUFSIZE \<Longrightarrow> unat (p + 1) = Suc (unat p)" for p :: u32
  by (simp add: unat_word_ariths CONSBUFSIZE_def)

lemma pos_wrap: "unat p < CONSBUFSIZE \<Longrightarrow> p + 1 = of_nat CONSBUFSIZE \<longleftrightarrow> Suc (unat p) = CONSBUFSIZE"
  for p :: u32
proof -
  assume p: "unat p < CONSBUFSIZE"
  have "p + 1 = of_nat CONSBUFSIZE \<longleftrightarrow> unat (p + 1) = unat (of_nat CONSBUFSIZE :: u32)"
    by (rule word_unat_eq_iff)
  moreover have "unat (of_nat CONSBUFSIZE :: u32) = CONSBUFSIZE" by (simp add: CONSBUFSIZE_def)
  ultimately show ?thesis using unat_pos_succ [OF p] by simp
qed

lemma ring_put_fields:
  assumes "ring_ok r"
  shows "cbuf (ring_put c r) = (cbuf r) [unat (wpos r) := c]"
    and "rpos (ring_put c r) = rpos r"
    and "unat (wpos (ring_put c r)) = Suc (unat (wpos r)) mod CONSBUFSIZE"
  using assms pos_wrap [of "wpos r"] unat_pos_succ [of "wpos r"]
  by (auto simp: ring_put_def ring_ok_def Let_def)

lemma ring_put_ok: "ring_ok r \<Longrightarrow> ring_ok (ring_put c r)"
  using ring_put_fields [of r c] by (simp add: ring_ok_def CONSBUFSIZE_def)

lemma ring_put_items:
  assumes "ring_ok r" and "ring_count r < 511"
  shows "ring_items (ring_put c r) = ring_items r @ [c]"
proof -
  let ?n = "ring_count r" and ?r = "unat (rpos r)" and ?w = "unat (wpos r)"
  have b: "?r < 512" "?w < 512" "length (cbuf r) = 512"
    using assms(1) by (simp_all add: ring_ok_def CONSBUFSIZE_def)
  have n: "?n = (?w + 512 - ?r) mod 512" by (simp add: ring_count_def CONSBUFSIZE_def)
  have at: "(?r + ?n) mod 512 = ?w" using b n by (simp add: mod_simps)
  have "ring_count (ring_put c r) = (Suc ?w mod 512 + 512 - ?r) mod 512"
    by (simp add: ring_count_def ring_put_fields [OF assms(1)] CONSBUFSIZE_def)
  also have "\<dots> = Suc ?n"
    using b assms(2) n by (cases "Suc ?w = 512"; cases "?r \<le> ?w") (auto simp: mod_if)
  finally have n': "ring_count (ring_put c r) = Suc ?n" .
  have other: "(?r + k) mod 512 \<noteq> ?w" if "k < ?n" for k
  proof -
    have "?n < 512" by (simp add: n)
    then have "(?r + k) mod 512 \<noteq> (?r + ?n) mod 512"
      using that b(1) by (auto simp: mod_if split: if_splits)
    then show ?thesis using at by simp
  qed
  have kept: "(cbuf r) [?w := c] ! ((?r + k) mod 512) = cbuf r ! ((?r + k) mod 512)" if "k < ?n" for k
    using other [OF that] by (metis nth_list_update_neq)
  show ?thesis
    using b at
    by (auto simp: kept ring_items_def n' ring_put_fields [OF assms(1)] CONSBUFSIZE_def)
qed

lemma ring_put_full:
  assumes "ring_ok r" and "ring_count r = 511"
  shows "ring_items (ring_put c r) = []"
proof -
  let ?r = "unat (rpos r)" and ?w = "unat (wpos r)"
  have b: "?r < 512" "?w < 512" using assms(1) by (simp_all add: ring_ok_def CONSBUFSIZE_def)
  have "(?w + 512 - ?r) mod 512 = 511" using assms(2) by (simp add: ring_count_def CONSBUFSIZE_def)
  then have "(Suc ?w mod 512 + 512 - ?r) mod 512 = 0"
    using b by (cases "Suc ?w = 512"; cases "?r \<le> ?w") (auto simp: mod_if split: if_splits)
  then have "ring_count (ring_put c r) = 0"
    by (simp add: ring_count_def ring_put_fields [OF assms(1)] CONSBUFSIZE_def)
  then show ?thesis by (simp add: ring_items_def)
qed

lemma ring_get_none: "ring_ok r \<Longrightarrow> ring_items r = [] \<Longrightarrow> ring_get r = None"
proof -
  assume ok: "ring_ok r" and e: "ring_items r = []"
  then have "ring_count r = 0" using length_ring_items [of r] by simp
  then have "unat (rpos r) = unat (wpos r)"
    using ok by (cases "unat (rpos r) \<le> unat (wpos r)")
      (auto simp: ring_count_def ring_ok_def CONSBUFSIZE_def mod_if split: if_splits)
  then have "rpos r = wpos r" by (simp add: word_unat_eq_iff)
  then show ?thesis by (simp add: ring_get_def)
qed

lemma ring_get_some:
  assumes "ring_ok r" and "ring_items r = x # xs"
  shows "\<exists>r'. ring_get r = Some (x, r') \<and> ring_ok r' \<and> ring_items r' = xs"
proof -
  let ?n = "ring_count r" and ?r = "unat (rpos r)" and ?w = "unat (wpos r)"
  have b: "?r < 512" "?w < 512" "length (cbuf r) = 512"
    using assms(1) by (simp_all add: ring_ok_def CONSBUFSIZE_def)
  have n: "?n = Suc (length xs)" using assms(2) length_ring_items [of r] by simp
  then have ne: "rpos r \<noteq> wpos r" by (auto simp: ring_count_def CONSBUFSIZE_def)
  define r' where "r' = (if Suc ?r = 512 then r\<lparr>rpos := 0\<rparr> else r\<lparr>rpos := rpos r + 1\<rparr>)"
  have u: "unat (rpos r') = Suc ?r mod 512"
    using b unat_pos_succ [of "rpos r"] by (auto simp: r'_def CONSBUFSIZE_def)
  have f: "cbuf r' = cbuf r" "wpos r' = wpos r" by (simp_all add: r'_def)
  have g: "ring_get r = Some (cbuf r ! ?r, r')"
    using ne b pos_wrap [of "rpos r"] by (auto simp: ring_get_def r'_def Let_def CONSBUFSIZE_def)
  have "ring_count r' = length xs"
    using n b by (cases "Suc ?r = 512"; cases "?r \<le> ?w")
      (auto simp: ring_count_def u f CONSBUFSIZE_def mod_if split: if_splits)
  moreover have "x # xs = cbuf r ! ?r # map (\<lambda>k. cbuf r ! ((?r + Suc k) mod 512)) [0..<length xs]"
    using assms(2) b
    by (simp add: ring_items_def n CONSBUFSIZE_def upt_conv_Cons map_Suc_upt [symmetric]
        comp_def del: upt_Suc)
  moreover have "(Suc ?r mod 512 + k) mod 512 = (?r + Suc k) mod 512" for k by (simp add: mod_simps)
  ultimately have "x = cbuf r ! ?r" and "ring_items r' = xs"
    by (simp_all add: ring_items_def u f CONSBUFSIZE_def)
  moreover have "ring_ok r'" using b u f by (simp add: ring_ok_def CONSBUFSIZE_def)
  ultimately show ?thesis using g by simp
qed

interpretation consq: fifo ring_ok ring_items 511 ring_put ring_get
  by unfold_locales (simp_all add: ring_put_ok ring_put_items ring_get_none ring_get_some)

section \<open>Polling a device\<close>

text \<open>
  \<open>polls proc M cs M'\<close>: \<^verbatim>\<open>(*proc)()\<close> gives the values \<open>cs\<close> and then -1, each value other than 0
  being put into the ring.
\<close>

inductive polls ::
    "(machine \<Rightarrow> (u32 \<times> machine) option) \<Rightarrow> machine \<Rightarrow> u32 list \<Rightarrow> machine \<Rightarrow> bool"
  for proc where
  silent: "proc M = Some (-1, M') \<Longrightarrow> polls proc M [] M'"
| char: "proc M = Some (c, M1) \<Longrightarrow> c \<noteq> -1 \<Longrightarrow> polls proc (if c = 0 then M1 else push c M1) cs M'
    \<Longrightarrow> polls proc M (c # cs) M'"

inductive_cases polls_NilE: "polls proc M [] M'"
inductive_cases polls_ConsE: "polls proc M (c # cs) M'"

lemma polls_cons_intr: "polls proc M cs M' \<Longrightarrow> cons_intr proc M = Some M'"
proof (induction rule: polls.induct)
  case (silent M M')
  then show ?case by (subst cons_intr.simps) simp
next
  case (char M c M1 cs M')
  then show ?case by (subst cons_intr.simps) simp
qed

lemma cons_intr_polls:
  assumes "cons_intr proc M = Some M'"
  shows "\<exists>cs. polls proc M cs M'"
proof (rule cons_intr.raw_induct [OF _ assms, of "\<lambda>proc M M'. \<exists>cs. polls proc M cs M'"])
  fix rec :: "(machine \<Rightarrow> (u32 \<times> machine) option) \<Rightarrow> machine \<Rightarrow> machine option" and proc M M'
  assume IH: "\<And>proc M M'. rec proc M = Some M' \<Longrightarrow> \<exists>cs. polls proc M cs M'"
    and body: "Option.bind (proc M) (\<lambda>(c, M). if c = -1 then Some M
        else rec proc (if c = 0 then M else push c M)) = Some M'"
  obtain c M1 where p: "proc M = Some (c, M1)" using body by (cases "proc M") auto
  show "\<exists>cs. polls proc M cs M'"
  proof (cases "c = -1")
    case True
    then show ?thesis using body p by (auto intro: polls.silent)
  next
    case False
    then have "rec proc (if c = 0 then M1 else push c M1) = Some M'" using body p by simp
    then obtain cs where "polls proc (if c = 0 then M1 else push c M1) cs M'" using IH by blast
    then show ?thesis using p False by (blast intro: polls.char)
  qed
qed

lemma cons_intr_iff: "cons_intr proc M = Some M' \<longleftrightarrow> (\<exists>cs. polls proc M cs M')"
  using polls_cons_intr cons_intr_polls by blast

definition keeps_cons :: "(machine \<Rightarrow> (u32 \<times> machine) option) \<Rightarrow> bool" where
  "keeps_cons proc \<longleftrightarrow> (\<forall>M c M'. proc M = Some (c, M') \<longrightarrow> cons M' = cons M)"

lemma polls_ring:
  assumes "polls proc M cs M'" and "keeps_cons proc"
  shows "cons M' = fold ring_put (map ucast (filter (\<lambda>c. c \<noteq> 0) cs)) (cons M)"
  using assms
proof (induction rule: polls.induct)
  case (silent M M')
  then show ?case by (simp add: keeps_cons_def)
next
  case (char M c M1 cs M')
  then have "cons M1 = cons M" by (auto simp: keeps_cons_def)
  with char show ?case by (simp add: push_def)
qed

lemma serial_keeps_cons: "keeps_cons serial_proc_data"
  by (auto simp: keeps_cons_def serial_proc_data_def inb_def Let_def split: if_splits)

text \<open>Output leaves the input ring and the oracle of the devices alone.\<close>

lemma cputchar_keeps: "cons (cputchar c M) = cons M \<and> dev (cputchar c M) = dev M"
proof -
  define kept where "kept M = (cons M, dev M)" for M :: machine
  have w: "kept (wait_ready p b i M) = kept M" for p b i M
    using wait_ready_clk [of p b i M] by (auto simp: kept_def)
  have f: "kept (fold (\<lambda>i M. crt_write M i v) xs M) = kept M" for v xs M
    by (induction xs arbitrary: M) (simp_all add: crt_write_def kept_def)
  have s: "kept (crt_scroll M) = kept M" for M
    using f by (simp add: crt_scroll_def crt_blank_last_def Let_def kept_def)
  have "kept (crt_cursor M) = kept M" for M by (simp add: crt_cursor_def outb_def Let_def kept_def)
  then have "kept (cga_putc c M) = kept M" and "kept (cons_putc c M) = kept M"
  proof (induction c M and c M rule: cga_putc_cons_putc.induct)
    case (1 c M)
    then show ?case
      using s by (subst cga_putc.simps) (auto simp: crt_write_def Let_def kept_def)
  next
    case (2 c M)
    then show ?case
      using w by (subst cons_putc.simps) (simp add: lpt_putc_def serial_putc_def outb_def Let_def kept_def)
  qed
  then show ?thesis by (simp add: cputchar_def kept_def)
qed

lemma cons_cputchar [simp]: "cons (cputchar c M) = cons M" "dev (cputchar c M) = dev M"
  using cputchar_keeps [of c M] by simp_all

lemma cons_print: "print fmt ap M = Some M' \<Longrightarrow> cons M' = cons M"
proof -
  have "cons (fold cputchar out M) = cons M" for out
    by (induction out arbitrary: M) simp_all
  then show "print fmt ap M = Some M' \<Longrightarrow> cons M' = cons M" by (auto simp: print_fold)
qed

lemma kbd_keeps_cons: "keeps_cons kbd_proc_data"
  by (auto simp: keeps_cons_def kbd_proc_data_def inb_def outb_def Let_def
      split: if_splits prod.splits option.splits dest!: cons_print)

section \<open>Properties\<close>

text \<open>
  C4. The ring is a first-in first-out queue of 511 characters: \<^verbatim>\<open>cons_getc\<close> takes the oldest
  one, a put appends; but putting into a full ring makes it empty, since nothing tests for
  \<^verbatim>\<open>wpos\<close> running into \<^verbatim>\<open>rpos\<close>.
\<close>

theorem ring_queue:
  assumes "ring_ok r"
  shows "ring_ok (ring_put c r)
    \<and> ring_items (ring_put c r) = (if length (ring_items r) < 511 then ring_items r @ [c] else [])
    \<and> (case ring_get r of
         None \<Rightarrow> ring_items r = []
       | Some (x, r') \<Rightarrow> ring_ok r' \<and> ring_items r = x # ring_items r')"
proof -
  have "ring_count r < 512" by (simp add: ring_count_def CONSBUFSIZE_def)
  moreover have "case ring_get r of None \<Rightarrow> ring_items r = []
      | Some (x, r') \<Rightarrow> ring_ok r' \<and> ring_items r = x # ring_items r'"
    using consq.get_iff_empty [OF assms] ring_get_some [OF assms] by (cases "ring_items r") fastforce+
  ultimately show ?thesis
    using assms ring_put_ok ring_put_items ring_put_full by (auto simp: less_Suc_eq)
qed

theorem ring_queue_witness:
  "ring_items (ring_put 65 (cons quiet)) = [65] \<and> ring_get (cons quiet) = None"
proof -
  have "ring_ok (cons quiet)" by (simp add: ring_ok_def quiet_def CONSBUFSIZE_def)
  moreover have "ring_items (cons quiet) = []" by (simp add: ring_items_def ring_count_def quiet_def CONSBUFSIZE_def)
  ultimately show ?thesis using ring_queue [of "cons quiet" 65] by (auto split: option.splits)
qed

text \<open>
  C37. An interrupt routine appends to the ring, in their order, the characters its device gives
  until it is silent, without the zeros, as long as they fit.
\<close>

theorem cons_intr_fifo:
  assumes "cons_intr proc M = Some M'" and "proc = serial_proc_data \<or> proc = kbd_proc_data"
    and "ring_ok (cons M)"
  shows "\<exists>cs. polls proc M cs M' \<and> ring_ok (cons M')
    \<and> (length (ring_items (cons M)) + length (filter (\<lambda>c. c \<noteq> 0) cs) \<le> 511 \<longrightarrow>
       ring_items (cons M') = ring_items (cons M) @ map ucast (filter (\<lambda>c. c \<noteq> 0) cs))"
proof -
  obtain cs where cs: "polls proc M cs M'" using cons_intr_polls [OF assms(1)] by blast
  have "keeps_cons proc" using assms(2) serial_keeps_cons kbd_keeps_cons by auto
  note r = polls_ring [OF cs this]
  show ?thesis
    using cs consq.puts_ok [OF assms(3)] consq.puts_items [OF assms(3)] unfolding r
    by (intro exI [of _ cs]) simp
qed

text \<open>A serial receiver that holds one character.\<close>

definition typed_A :: machine where
  "typed_A = quiet\<lparr>dev := \<lambda>k port. if port = 0x3FD then (if k < 2 then 1 else 0)
     else if port = 0x3F8 then 65 else 0\<rparr>"

lemma typed_A_polls: "polls serial_proc_data typed_A [65] (push 65 typed_A\<lparr>clk := 3\<rparr>)"
proof (rule polls.char [of _ _ _ "typed_A\<lparr>clk := 2\<rparr>"])
  show "polls serial_proc_data (if (65::u32) = 0 then typed_A\<lparr>clk := 2\<rparr> else push 65 (typed_A\<lparr>clk := 2\<rparr>)) []
      (push 65 typed_A\<lparr>clk := 3\<rparr>)"
    by (rule polls.silent)
      (simp add: serial_proc_data_def inb_def COM1_def typed_A_def quiet_def push_def)
qed (simp_all add: serial_proc_data_def inb_def COM1_def typed_A_def quiet_def)

theorem cons_intr_fifo_witness:
  "\<exists>M' cs. cons_intr serial_proc_data typed_A = Some M' \<and> polls serial_proc_data typed_A cs M'
     \<and> ring_ok (cons M')"
proof -
  have "ring_ok (cons typed_A)" by (simp add: ring_ok_def typed_A_def quiet_def CONSBUFSIZE_def)
  from cons_intr_fifo [OF polls_cons_intr [OF typed_A_polls] _ this] polls_cons_intr [OF typed_A_polls]
  show ?thesis by blast
qed

lemma cons_getc_range: "cons_getc M = Some (c, M') \<Longrightarrow> 0 \<le> sint c \<and> sint c \<le> 255"
proof -
  have "0 \<le> sint (ucast (x :: u8) :: u32) \<and> sint (ucast x :: u32) \<le> 255" for x
  proof -
    have "uint x < 2 ^ LENGTH(8)" by (rule unsigned_less)
    moreover have "0 \<le> uint x" by simp
    moreover have "- (2 ^ 31) \<le> uint x" by (rule order_trans [of _ 0]) simp_all
    ultimately have "sint (ucast x :: u32) = uint x"
      by (simp add: sint_uint unsigned_ucast_eq signed_take_bit_int_eq_self take_bit_int_eq_self)
    then show ?thesis using \<open>uint x < 2 ^ LENGTH(8)\<close> by simp
  qed
  then show "cons_getc M = Some (c, M') \<Longrightarrow> 0 \<le> sint c \<and> sint c \<le> 255"
    by (auto simp: cons_getc_def bind_eq_Some_conv split: option.splits)
qed

lemma getchar_chars:
  assumes "getchar M = Some r"
  shows "1 \<le> sint (fst r) \<and> sint (fst r) \<le> 255"
proof (rule getchar.raw_induct [OF _ assms, of "\<lambda>M r. 1 \<le> sint (fst r) \<and> sint (fst r) \<le> 255"])
  fix rec :: "machine \<Rightarrow> (u32 \<times> machine) option" and M r
  assume IH: "\<And>M r. rec M = Some r \<Longrightarrow> 1 \<le> sint (fst r) \<and> sint (fst r) \<le> 255"
    and body: "Option.bind (cons_getc M) (\<lambda>(c, M). if c = 0 then rec M else Some (c, M)) = Some r"
  from body obtain c M1 where g: "cons_getc M = Some (c, M1)" by (cases "cons_getc M") auto
  show "1 \<le> sint (fst r) \<and> sint (fst r) \<le> 255"
  proof (cases "c = 0")
    case True
    then show ?thesis using body g IH [of M1 r] by simp
  next
    case False
    then have "sint c \<noteq> 0" using signed_word_eqI [of c 0] by auto
    then show ?thesis using body g cons_getc_range [OF g] False by auto
  qed
qed

text \<open>
  \<^verbatim>\<open>getchar\<close>, when it returns, returns a character from 1 to 255: never 0, and never a negative
  value, so that the error branch of \<^verbatim>\<open>readline\<close> is dead.
\<close>

lemma getchar_range: "getchar M = Some (c, M') \<Longrightarrow> 1 \<le> sint c \<and> sint c \<le> 255"
  using getchar_chars [of M "(c, M')"] by simp

lemma typed_A_getchar: "\<exists>M'. getchar typed_A = Some (65, M')"
proof -
  let ?M = "push 65 typed_A\<lparr>clk := 3\<rparr>"
  have s: "serial_intr typed_A = Some ?M"
    using polls_cons_intr [OF typed_A_polls] by (simp add: serial_intr_def typed_A_def quiet_def)
  have k: "kbd_intr ?M = Some (?M\<lparr>clk := 4\<rparr>)"
    unfolding kbd_intr_def
    by (subst cons_intr.simps) (simp add: kbd_proc_data_def inb_def push_def typed_A_def quiet_def)
  have g: "ring_get (cons (push 65 typed_A)) =
      Some (65, \<lparr>cbuf = (replicate 512 0) [0 := 65], rpos = 1, wpos = 1\<rparr>)"
    by (simp add: ring_get_def push_def ring_put_def typed_A_def quiet_def CONSBUFSIZE_def Let_def)
  show ?thesis
    by (subst getchar.simps) (simp add: cons_getc_def s k g)
qed

lemma getchar_range_example:
  "\<exists>M'. getchar typed_A = Some (65, M') \<and> 1 \<le> sint (65 :: u32) \<and> sint (65 :: u32) \<le> 255"
  using typed_A_getchar getchar_range by blast

definition letter_keys :: "u8 list" where
  "letter_keys = [0x10, 0x11, 0x12, 0x13, 0x14, 0x15, 0x16, 0x17, 0x18, 0x19, 0x1E, 0x1F, 0x20, 0x21,
     0x22, 0x23, 0x24, 0x25, 0x26, 0x2C, 0x2D, 0x2E, 0x2F, 0x30, 0x31, 0x32]"

lemmas key_consts = KEY_SHIFT_def KEY_CTL_def KEY_ALT_def CAPSLOCK_def NUMLOCK_def SCROLLLOCK_def
  E0ESC_def

lemma letter_key_codes:
  "list_all (\<lambda>k. k \<noteq> 0xE0 \<and> k AND 0x80 = 0 \<and> shiftcode k = 0 \<and> togglecode k = 0) letter_keys"
  "map normalmap letter_keys = lit ''qwertyuiopasdfghjklzxcvbnm''"
  "map shiftmap letter_keys = lit ''QWERTYUIOPASDFGHJKLZXCVBNM''"
  by (simp_all add: letter_keys_def shiftcode_def togglecode_def designated_def normalmap_def
      shiftmap_def keymap_def lit_def NO_def)

lemma letter_key_tables:
  assumes "k \<in> set letter_keys"
  shows "k \<noteq> 0xE0 \<and> k AND 0x80 = 0 \<and> shiftcode k = 0 \<and> togglecode k = 0
     \<and> normalmap k = shiftmap k + 32 \<and> shiftmap k \<in> set (lit ''ABCDEFGHIJKLMNOPQRSTUVWXYZ'')"
proof -
  have "map normalmap letter_keys = map (\<lambda>k. shiftmap k + 32) letter_keys"
    using letter_key_codes(2) arg_cong [OF letter_key_codes(3), of "map (\<lambda>c. c + 32)"]
    by (simp add: comp_def lit_def)
  then have "normalmap k = shiftmap k + 32" using assms by (simp only: map_eq_conv)
  moreover have "shiftmap k \<in> set (map shiftmap letter_keys)" using assms by simp
  then have "shiftmap k \<in> set (lit ''ABCDEFGHIJKLMNOPQRSTUVWXYZ'')"
    unfolding letter_key_codes(3) by (auto simp: lit_def)
  ultimately show ?thesis using assms letter_key_codes(1) by (simp add: list_all_iff)
qed

lemma capital_range:
  "S \<in> set (lit ''ABCDEFGHIJKLMNOPQRSTUVWXYZ'') \<Longrightarrow>
     65 \<le> sint (ucast S :: u32) \<and> sint (ucast S :: u32) \<le> 90
     \<and> ucast (S + 32) = (ucast S + 32 :: u32)
     \<and> 97 \<le> sint (ucast S + 32 :: u32) \<and> sint (ucast S + 32 :: u32) \<le> 122"
  by (auto simp: lit_def)

lemma key_bit_cases:
  "ucast (sh AND ucast (KEY_CTL OR KEY_SHIFT)) =
     (if sh AND ucast KEY_SHIFT \<noteq> 0 then 1 else 0 :: u8)" if "sh AND ucast KEY_CTL = 0" for sh :: u32
proof -
  have "sh AND 3 = (sh AND 1) OR (sh AND 2)" by (simp flip: bit.conj_disj_distrib)
  moreover have "sh AND 1 = 0 \<or> sh AND 1 = 1" by (simp add: and_one_eq mod2_eq_if)
  ultimately show ?thesis using that by (auto simp: key_consts)
qed

text \<open>
  The keyboard decoder for the letter keys: with neither Ctrl held nor an \<^verbatim>\<open>E0\<close> prefix pending, a key
  press gives the capital letter exactly when one of Shift and Caps Lock is on, and leaves the
  modifier state alone.
\<close>

lemma kbd_letter:
  assumes "k \<in> set letter_keys" and "sh AND ucast KEY_CTL = 0" and "sh AND ucast E0ESC = 0"
  shows "kbd_decode sh k =
    (if (sh AND ucast KEY_SHIFT \<noteq> 0) \<noteq> (sh AND ucast CAPSLOCK \<noteq> 0)
     then ucast (shiftmap k) else ucast (shiftmap k) + 32, sh)"
proof -
  note t = letter_key_tables [OF assms(1)]
  note r = capital_range [of "shiftmap k"]
  show ?thesis
    using t assms(2,3) r
    by (auto simp: kbd_decode_def kbd_press_def Let_def key_bit_cases charcode_def kbd_case_def)
qed

lemma kbd_letter_example:
  "kbd_decode 8 0x1E = (0x41, 8) \<and> kbd_decode 9 0x1E = (0x61, 9)"
proof -
  have m: "(0x1E :: u8) \<in> set letter_keys" by (simp add: letter_keys_def)
  have s: "shiftmap 0x1E = 0x41" by (simp add: shiftmap_def keymap_def lit_def NO_def)
  show ?thesis
    using kbd_letter [OF m, of 8] kbd_letter [OF m, of 9] by (simp add: key_consts s)
qed

text \<open>
  C38. A modifier key counts while it is held and a lock key flips once per stroke: after the press
  and the release of a key with no prefix pending, the modifier state has the bits of
  \<^verbatim>\<open>togglecode\<close> flipped, those of \<^verbatim>\<open>shiftcode\<close> cleared, and no prefix is pending. (Key 0x60
  is excepted: its release code is the prefix byte.)
\<close>

theorem kbd_stroke:
  assumes "k AND 0x80 = 0" and "k \<noteq> 0x60" and "sh AND ucast E0ESC = 0"
  shows "snd (kbd_decode (snd (kbd_decode sh k)) (k OR 0x80)) =
    (sh XOR ucast (togglecode k)) AND NOT (ucast (shiftcode k OR E0ESC))"
proof -
  have "k AND 0xFF = (k AND 0x7F) OR (k AND 0x80)" by (simp flip: bit.conj_disj_distrib)
  moreover have "(0xFF :: u8) = - 1" by simp
  then have "k AND 0xFF = k" by (simp only: and.right_neutral)
  ultimately have k7: "k AND 0x7F = k" using assms(1) by simp
  have kb: "(k OR 0x80) AND 0x7F = k" "(k OR 0x80) AND 0x80 \<noteq> 0"
    by (simp_all add: bit.conj_disj_distrib2 assms(1) k7)
  have ne: "k \<noteq> 0xE0" "k OR 0x80 \<noteq> 0xE0"
    using assms(1,2) kb(1) by auto
  have "shiftcode k \<in> {0, 1, 2, 4}" "togglecode k \<in> {0, 8, 16, 32}"
    by (auto simp: shiftcode_def togglecode_def designated_def key_consts)
  then have tab: "(ucast (shiftcode k) :: u32) AND 64 = 0" "(ucast (togglecode k) :: u32) AND 64 = 0"
    by auto
  define s1 where "s1 = (sh OR ucast (shiftcode k)) XOR ucast (togglecode k)"
  have s1: "snd (kbd_decode sh k) = s1"
    using assms ne by (simp add: kbd_decode_def kbd_press_def s1_def Let_def)
  have "s1 AND 64 = 0"
    using assms(3) tab by (simp add: s1_def E0ESC_def bit.conj_xor_distrib2 bit.conj_disj_distrib2)
  then have "snd (kbd_decode s1 (k OR 0x80)) = s1 AND NOT (ucast (shiftcode k OR E0ESC))"
    using kb ne by (simp add: kbd_decode_def E0ESC_def Let_def)
  also have "\<dots> = (sh XOR ucast (togglecode k)) AND NOT (ucast (shiftcode k OR E0ESC))"
    unfolding s1_def by (rule bit_word_eqI) (auto simp: bit_simps)
  finally show ?thesis by (simp add: s1)
qed

theorem kbd_stroke_witness: "snd (kbd_decode (snd (kbd_decode 0 0x3A)) 0xBA) = 8"
  using kbd_stroke [of "0x3A" 0] by (simp add: key_consts togglecode_def shiftcode_def designated_def)

end
