(* ===== verification/Frame.thy ===== *)
theory Frame
  imports ConsoleIn
begin

text \<open>
  What the console leaves alone: output and input change the memory only inside the text screen,
  and keep the invariant of the screen.
\<close>

definition frame0 :: "machine \<Rightarrow> machine \<Rightarrow> bool" where
  "frame0 M M' \<longleftrightarrow> crt_buf M' = crt_buf M \<and> readline_buf M' = readline_buf M
     \<and> (\<forall>a. a \<notin> span (crt_buf M) (2 * CRT_SIZE) \<longrightarrow> ram M' a = ram M a)"

definition frame :: "machine \<Rightarrow> machine \<Rightarrow> bool" where
  "frame M M' \<longleftrightarrow> (crt_ok M \<longrightarrow> crt_ok M' \<and> frame0 M M')"

lemma frame0_refl [simp]: "frame0 M M"
  by (simp add: frame0_def)

lemma frame0_trans: "frame0 M M1 \<Longrightarrow> frame0 M1 M2 \<Longrightarrow> frame0 M M2"
  by (simp add: frame0_def)

lemma frame_refl [simp]: "frame M M"
  by (simp add: frame_def)

lemma frame_trans: "frame M M1 \<Longrightarrow> frame M1 M2 \<Longrightarrow> frame M M2"
  unfolding frame_def by (blast intro: frame0_trans)

lemma frame_fields [simp]:
  "frame M (M\<lparr>clk := k\<rparr>)" "frame M (M\<lparr>shift := sh\<rparr>)" "frame M (M\<lparr>cons := r\<rparr>)"
  "frame M (outb p d M)"
  by (simp_all add: frame_def frame0_def crt_ok_def outb_def)

lemma crt_addr_span:
  assumes "i < CRT_SIZE"
  shows "crt_addr M i \<in> span (crt_buf M) (2 * CRT_SIZE) \<and> crt_addr M i + 1 \<in> span (crt_buf M) (2 * CRT_SIZE)"
proof -
  have "crt_buf M + of_nat (2 * i) \<in> span (crt_buf M) (2 * CRT_SIZE)"
    using assms by (intro span_memI) (simp_all add: crt_consts)
  moreover have "crt_buf M + of_nat (2 * i + 1) \<in> span (crt_buf M) (2 * CRT_SIZE)"
    using assms by (intro span_memI) (simp_all add: crt_consts)
  ultimately show ?thesis by (simp add: crt_addr_def add_ac)
qed

lemma frame0_write: "i < CRT_SIZE \<Longrightarrow> frame0 M (crt_write M i v)"
  using crt_addr_span [of i M] by (auto simp: frame0_def crt_write_def poke16_def)

lemma frame0_blank: "frame0 M (fold (\<lambda>i M. crt_write M i v) xs M)" if "\<forall>i \<in> set xs. i < CRT_SIZE"
  using that
proof (induction xs arbitrary: M)
  case (Cons i xs)
  then show ?case using frame0_trans [OF frame0_write [of i M v]] by simp
qed simp

lemma frame0_move:
  assumes "unat (crt_buf M) + 2 * CRT_SIZE < 2 ^ 64"
  shows "frame0 M (M\<lparr>ram := snd (memmove (ram M) (crt_buf M) (crt_addr M CRT_COLS)
           (of_nat ((CRT_SIZE - CRT_COLS) * 2)))\<rparr>)"
proof -
  have n: "unat (of_nat ((CRT_SIZE - CRT_COLS) * 2) :: u64) = (CRT_SIZE - CRT_COLS) * 2"
    by (simp add: crt_consts)
  have src: "unat (crt_addr M CRT_COLS) = unat (crt_buf M) + 2 * CRT_COLS"
    using assms by (rule unat_crt_addr) (simp add: crt_consts)
  have b: "unat (crt_addr M CRT_COLS) + unat (of_nat ((CRT_SIZE - CRT_COLS) * 2) :: u64) < 2 ^ 64"
    "unat (crt_buf M) + unat (of_nat ((CRT_SIZE - CRT_COLS) * 2) :: u64) \<le> 2 ^ 64"
    using assms unfolding n src by (simp_all add: crt_consts)
  have "span (crt_buf M) ((CRT_SIZE - CRT_COLS) * 2) \<subseteq> span (crt_buf M) (2 * CRT_SIZE)"
    by (rule span_mono) (simp add: crt_consts)
  then show ?thesis
    unfolding frame0_def using memmove_lookup(2) [OF b, of "ram M", unfolded n] by auto
qed

lemma frame0_scroll:
  assumes "unat (crt_buf M) + 2 * CRT_SIZE < 2 ^ 64"
  shows "frame0 M (crt_scroll M)"
proof -
  have f: "frame0 M1 (M1\<lparr>crt_pos := q\<rparr>)" for M1 q by (simp add: frame0_def)
  have b: "frame0 M1 (crt_blank_last M1)" for M1
    unfolding crt_blank_last_def by (rule frame0_blank) simp
  show ?thesis
    using frame0_trans [OF frame0_move [OF assms] frame0_trans [OF b f]]
    by (simp add: crt_scroll_def Let_def)
qed

lemma frame0_cga_step:
  assumes "crt_ok M"
  shows "frame0 M (cga_step c M)"
proof -
  have f: "frame0 M1 (M1\<lparr>crt_pos := q\<rparr>)" for M1 q by (simp add: frame0_def)
  have pos: "unat (crt_pos M) < CRT_SIZE" using assms by (simp add: crt_ok_def)
  have "crt_pos M > 0 \<Longrightarrow> unat (crt_pos M - 1) < CRT_SIZE"
    using pos by (simp add: unat_pred word_neq_0_conv)
  then show ?thesis
    using frame0_trans [OF frame0_write [OF pos] f] frame0_trans [OF f frame0_write] f
    by (simp add: cga_step_def)
qed

lemma frame_cga_putc: "ch AND 0xFF \<noteq> 9 \<Longrightarrow> frame M (cga_putc ch M)"
  unfolding frame_def
proof (intro impI conjI)
  assume c: "ch AND 0xFF \<noteq> 9" and ok: "crt_ok M"
  show "crt_ok (cga_putc ch M)" using cga_putc_refines [OF ok c] by simp
  have f: "frame0 M1 (crt_cursor M1)" for M1
    by (simp add: frame0_def crt_cursor_def outb_def Let_def)
  let ?M = "cga_step (crt_attr ch) M"
  have "unat (crt_buf ?M) + 2 * CRT_SIZE < 2 ^ 64"
    using cga_step_screen [OF ok, of ch] ok by (simp add: crt_ok_def)
  from frame0_trans [OF frame0_trans [OF frame0_cga_step [OF ok] frame0_scroll [OF this]] f]
  show "frame0 M (cga_putc ch M)" by (simp add: cga_putc_no_tab [OF c])
qed

lemma frame_ports: "frame M (lpt_putc ch (serial_putc ch M))"
  by (simp add: frame_def frame0_def lpt_putc_def serial_putc_def wait_ready_eq outb_def crt_ok_def
      Let_def)

lemma frame_cons_putc: "frame M (cons_putc ch M)"
proof (cases "ch AND 0xFF = 9")
  case False
  then show ?thesis using frame_trans [OF frame_ports frame_cga_putc] by (simp add: cons_putc.simps)
next
  case True
  have sp: "frame M (cons_putc 32 M)" for M
    using frame_trans [OF frame_ports frame_cga_putc] by (simp add: cons_putc.simps [of 32])
  let ?M = "cons_putc 32 (cons_putc 32 (cons_putc 32 (cons_putc 32 (cons_putc 32
      (lpt_putc ch (serial_putc ch M))))))"
  have f: "frame M ?M" by (intro frame_trans [OF _ sp] frame_ports)
  have c: "frame0 M1 (crt_cursor M1)" for M1
    by (simp add: frame0_def crt_cursor_def outb_def Let_def)
  have eq: "cons_putc ch M = crt_cursor (crt_scroll ?M)"
    by (simp add: cons_putc.simps [of ch M] cga_putc.simps [of ch] True Let_def)
  show ?thesis unfolding frame_def
  proof (intro impI conjI)
    assume ok: "crt_ok M"
    show "crt_ok (cons_putc ch M)" using cons_putc_screen [OF ok] by simp
    have "crt_ok ?M" "frame0 M ?M" using f ok by (simp_all add: frame_def)
    then have "frame0 M (crt_scroll ?M)"
      by (intro frame0_trans [OF _ frame0_scroll]) (simp_all add: crt_ok_def)
    then show "frame0 M (cons_putc ch M)" unfolding eq by (rule frame0_trans [OF _ c])
  qed
qed

lemma frame_cputchar: "frame M (cputchar ch M)"
  by (simp add: cputchar_def frame_cons_putc)

lemma frame_print: "print fmt ap M = Some M' \<Longrightarrow> frame M M'"
proof -
  have "frame M (fold cputchar out M)" for out
  proof (induction out arbitrary: M)
    case (Cons c out)
    then show ?case using frame_trans [OF frame_cputchar [of M c] Cons.IH] by simp
  qed simp
  then show "print fmt ap M = Some M' \<Longrightarrow> frame M M'" by (auto simp: print_fold)
qed

section \<open>Input\<close>

definition frames :: "(machine \<Rightarrow> (u32 \<times> machine) option) \<Rightarrow> bool" where
  "frames proc \<longleftrightarrow> (\<forall>M c M'. proc M = Some (c, M') \<longrightarrow> frame M M')"

lemma frame_inb: "frame M (snd (inb p M))"
  by (simp add: inb_def)

lemma frames_serial: "frames serial_proc_data"
  unfolding frames_def serial_proc_data_def
  by (auto simp: Let_def inb_def split: if_splits intro: frame_trans [OF frame_fields(1)])

lemma frames_kbd: "frames kbd_proc_data"
  unfolding frames_def
proof (intro allI impI)
  fix M c M' assume a: "kbd_proc_data M = Some (c, M')"
  have f: "frame M (M\<lparr>clk := k, shift := sh\<rparr>)" for k sh
    by (simp add: frame_def frame0_def crt_ok_def)
  have "frame M (outb 0x92 3 M1)" if "print fmt ap (M\<lparr>clk := k, shift := sh\<rparr>) = Some M1" for fmt ap k sh M1
    using frame_trans [OF f frame_trans [OF frame_print [OF that] frame_fields(4)]] .
  then show "frame M M'"
    using a f by (auto simp: kbd_proc_data_def inb_def Let_def split: if_splits prod.splits option.splits)
qed

lemma frame_polls: "polls proc M cs M' \<Longrightarrow> frames proc \<Longrightarrow> frame M M'"
proof (induction rule: polls.induct)
  case (silent M M')
  then show ?case by (simp add: frames_def)
next
  case (char M c M1 cs M')
  have "frame M1 (push c M1)" by (simp add: push_def)
  then have "frame M (if c = 0 then M1 else push c M1)"
    using char.hyps(1) char.prems frame_trans [of M M1 "push c M1"] by (auto simp: frames_def)
  then show ?case using char frame_trans by blast
qed

lemma frames_cons_getc: "frames cons_getc"
  unfolding frames_def
proof (intro allI impI)
  fix M c M' assume "cons_getc M = Some (c, M')"
  then obtain M1 M2 where s: "serial_intr M = Some M1" and k: "kbd_intr M1 = Some M2"
    and g: "(case ring_get (cons M2) of Some (c, r) \<Rightarrow> Some (ucast c, M2\<lparr>cons := r\<rparr>)
       | None \<Rightarrow> Some (0, M2)) = Some (c, M')"
    unfolding cons_getc_def bind_eq_Some_conv by blast
  have "frame M M1"
    using s cons_intr_polls frame_polls [OF _ frames_serial] by (fastforce simp: serial_intr_def split: if_splits)
  moreover have "frame M1 M2"
    using k cons_intr_polls frame_polls [OF _ frames_kbd] by (fastforce simp: kbd_intr_def)
  moreover have "frame M2 M'" using g by (auto split: option.splits)
  ultimately show "frame M M'" using frame_trans by blast
qed

lemma frame_getchar:
  assumes "getchar M = Some r"
  shows "frame M (snd r)"
proof (rule getchar.raw_induct [OF _ assms, of "\<lambda>M r. frame M (snd r)"])
  fix rec :: "machine \<Rightarrow> (u32 \<times> machine) option" and M r
  assume IH: "\<And>M r. rec M = Some r \<Longrightarrow> frame M (snd r)"
    and body: "Option.bind (cons_getc M) (\<lambda>(c, M). if c = 0 then rec M else Some (c, M)) = Some r"
  from body obtain c M1 where g: "cons_getc M = Some (c, M1)" by (cases "cons_getc M") auto
  have "frame M M1" using g frames_cons_getc by (simp add: frames_def)
  moreover have "frame M1 (snd r)" using body g IH by (auto split: if_splits)
  ultimately show "frame M (snd r)" by (rule frame_trans)
qed

end
