(* ===== verification/Readline.thy ===== *)
theory Readline
  imports Frame
begin

text \<open>
  \<^verbatim>\<open>lib/readline.c\<close>: the line editor of the monitor. The static buffer is in \<^verbatim>\<open>ram\<close> at
  \<open>readline_buf\<close>. The run of the editor is also given as a step relation, one step for each
  character typed, and the contents of the buffer refine the editing of a list.
\<close>

section \<open>The routine\<close>

definition BUFLEN :: nat where "BUFLEN = 1024"

definition buf_write :: "u32 \<Rightarrow> u8 \<Rightarrow> machine \<Rightarrow> machine" where
  "buf_write i x M = M\<lparr>ram := (ram M)(readline_buf M + scast i := x)\<rparr>"

definition echo :: "u32 \<Rightarrow> machine \<Rightarrow> machine" where
  "echo c M = (if iscons 0 \<noteq> 0 then cputchar c M else M)"

partial_function (option) readline_loop :: "u32 \<Rightarrow> machine \<Rightarrow> (addr \<times> machine) option" where
  "readline_loop i M =
     Option.bind (getchar M) (\<lambda>(c, M).
       if sint c < 0 then
         Option.bind (print (''read error: %e'' @ [CHR 10]) [VInt (ucast c)] M) (\<lambda>M. Some (0, M))
       else if (c = 8 \<or> c = 0x7F) \<and> 0 < sint i then readline_loop (i - 1) (echo 8 M)
       else if 32 \<le> sint c \<and> sint i < int BUFLEN - 1 then
         readline_loop (i + 1) (buf_write i (ucast c) (echo c M))
       else if c = 10 \<or> c = 13 then
         Some (readline_buf M, buf_write i 0 (echo 10 M))
       else readline_loop i M)"

definition readline :: "string option \<Rightarrow> machine \<Rightarrow> (addr \<times> machine) option" where
  "readline prompt M =
     Option.bind (case prompt of None \<Rightarrow> Some M | Some p \<Rightarrow> print ''%s'' [VStr (Some p)] M)
       (\<lambda>M. readline_loop 0 M)"

section \<open>The editor as a step relation\<close>

inductive rl_step :: "u32 \<times> machine \<Rightarrow> u32 \<Rightarrow> u32 \<times> machine \<Rightarrow> bool" where
  erase: "getchar M = Some (c, M1) \<Longrightarrow> c = 8 \<or> c = 0x7F \<Longrightarrow> 0 < sint i \<Longrightarrow>
     rl_step (i, M) c (i - 1, echo 8 M1)"
| insert: "getchar M = Some (c, M1) \<Longrightarrow> \<not> ((c = 8 \<or> c = 0x7F) \<and> 0 < sint i) \<Longrightarrow> 32 \<le> sint c \<Longrightarrow>
     sint i < int BUFLEN - 1 \<Longrightarrow> rl_step (i, M) c (i + 1, buf_write i (ucast c) (echo c M1))"
| ignore: "getchar M = Some (c, M1) \<Longrightarrow> \<not> ((c = 8 \<or> c = 0x7F) \<and> 0 < sint i) \<Longrightarrow>
     \<not> (32 \<le> sint c \<and> sint i < int BUFLEN - 1) \<Longrightarrow> c \<noteq> 10 \<Longrightarrow> c \<noteq> 13 \<Longrightarrow> rl_step (i, M) c (i, M1)"

inductive rl_run :: "u32 \<times> machine \<Rightarrow> u32 list \<Rightarrow> u32 \<times> machine \<Rightarrow> bool" where
  none: "rl_run s [] s"
| more: "rl_step s c s1 \<Longrightarrow> rl_run s1 cs s2 \<Longrightarrow> rl_run s (c # cs) s2"

inductive_cases rl_stepE: "rl_step (i, M) c s"

text \<open>The call ends at a newline or a return.\<close>

definition rl_end :: "u32 \<times> machine \<Rightarrow> addr \<times> machine \<Rightarrow> bool" where
  "rl_end = (\<lambda>(i, M) (p, M'). \<exists>c M1. getchar M = Some (c, M1) \<and> (c = 10 \<or> c = 13)
     \<and> p = readline_buf M1 \<and> M' = buf_write i 0 (echo 10 M1))"

lemma readline_loop_run:
  assumes "readline_loop i M = Some r"
  shows "\<exists>cs s. rl_run (i, M) cs s \<and> rl_end s r"
proof (rule readline_loop.raw_induct [OF _ assms, of "\<lambda>i M r. \<exists>cs s. rl_run (i, M) cs s \<and> rl_end s r"])
  fix rec :: "u32 \<Rightarrow> machine \<Rightarrow> (addr \<times> machine) option" and i M r
  assume IH: "\<And>i M r. rec i M = Some r \<Longrightarrow> \<exists>cs s. rl_run (i, M) cs s \<and> rl_end s r"
    and body: "Option.bind (getchar M) (\<lambda>(c, M).
       if sint c < 0 then
         Option.bind (print (''read error: %e'' @ [CHR 10]) [VInt (ucast c)] M) (\<lambda>M. Some (0, M))
       else if (c = 8 \<or> c = 0x7F) \<and> 0 < sint i then rec (i - 1) (echo 8 M)
       else if 32 \<le> sint c \<and> sint i < int BUFLEN - 1 then
         rec (i + 1) (buf_write i (ucast c) (echo c M))
       else if c = 10 \<or> c = 13 then
         Some (readline_buf M, buf_write i 0 (echo 10 M))
       else rec i M) = Some r"
  from body obtain c M1 where g: "getchar M = Some (c, M1)" by (cases "getchar M") auto
  have pos: "\<not> sint c < 0" using getchar_chars [OF g] by simp
  have step: "\<exists>cs s. rl_run (i, M) cs s \<and> rl_end s r"
    if "rl_step (i, M) c (j, M2)" and "rec j M2 = Some r" for j M2
    using IH [OF that(2)] that(1) by (blast intro: rl_run.more)
  consider "(c = 8 \<or> c = 0x7F) \<and> 0 < sint i"
    | "\<not> ((c = 8 \<or> c = 0x7F) \<and> 0 < sint i)" "32 \<le> sint c \<and> sint i < int BUFLEN - 1"
    | "\<not> ((c = 8 \<or> c = 0x7F) \<and> 0 < sint i)" "\<not> (32 \<le> sint c \<and> sint i < int BUFLEN - 1)"
      "c = 10 \<or> c = 13"
    | "\<not> ((c = 8 \<or> c = 0x7F) \<and> 0 < sint i)" "\<not> (32 \<le> sint c \<and> sint i < int BUFLEN - 1)"
      "c \<noteq> 10" "c \<noteq> 13"
    by blast
  then show "\<exists>cs s. rl_run (i, M) cs s \<and> rl_end s r"
  proof cases
    case 1
    then show ?thesis using body g pos by (intro step [OF rl_step.erase [OF g]]) auto
  next
    case 2
    then have "rec (i + 1) (buf_write i (ucast c) (echo c M1)) = Some r" using body g pos by auto
    then show ?thesis using 2 by (intro step [OF rl_step.insert [OF g]]) auto
  next
    case 3
    then have "r = (readline_buf M1, buf_write i 0 (echo 10 M1))" using body g pos by auto
    then have "rl_end (i, M) r" using g 3 by (auto simp: rl_end_def)
    then show ?thesis by (blast intro: rl_run.none)
  next
    case 4
    then have "rec i M1 = Some r" using body g pos by auto
    then show ?thesis using 4 by (intro step [OF rl_step.ignore [OF g]]) auto
  qed
qed

section \<open>The edited line\<close>

definition edit :: "u32 \<Rightarrow> u8 list \<Rightarrow> u8 list" where
  "edit c line =
     (if (c = 8 \<or> c = 0x7F) \<and> line \<noteq> [] then butlast line
      else if 32 \<le> sint c \<and> length line < BUFLEN - 1 then line @ [ucast c]
      else line)"

text \<open>The static buffer does not lie in the text screen.\<close>

definition buf_apart :: "machine \<Rightarrow> bool" where
  "buf_apart M \<longleftrightarrow> span (readline_buf M) BUFLEN \<inter> span (crt_buf M) (2 * CRT_SIZE) = {}"

definition rl_rep :: "u32 \<times> machine \<Rightarrow> u8 list \<Rightarrow> bool" where
  "rl_rep = (\<lambda>(i, M) line. length line < BUFLEN \<and> i = of_nat (length line) \<and> 0 \<notin> set line
     \<and> bytes_at (ram M) (readline_buf M) (length line) = line \<and> crt_ok M \<and> buf_apart M)"

lemma frame_echo: "frame M (echo c M)"
  by (simp add: echo_def frame_cputchar)

lemma rl_rep_frame:
  assumes "rl_rep (i, M) line" and "frame M M'"
  shows "rl_rep (i, M') line \<and> readline_buf M' = readline_buf M"
proof -
  have f: "crt_ok M'" "crt_buf M' = crt_buf M" "readline_buf M' = readline_buf M"
    "\<And>a. a \<notin> span (crt_buf M) (2 * CRT_SIZE) \<Longrightarrow> ram M' a = ram M a"
    using assms by (auto simp: rl_rep_def frame_def frame0_def)
  have "span (readline_buf M) (length line) \<subseteq> span (readline_buf M) BUFLEN"
    using assms(1) by (intro span_mono) (simp add: rl_rep_def)
  then have "bytes_at (ram M') (readline_buf M) (length line) = bytes_at (ram M) (readline_buf M) (length line)"
    using assms(1) f(4) by (intro bytes_at_cong) (auto simp: rl_rep_def buf_apart_def)
  then show ?thesis using assms(1) f by (simp add: rl_rep_def buf_apart_def)
qed

lemma sint_len: "k < BUFLEN \<Longrightarrow> sint (of_nat k :: u32) = int k"
proof -
  assume "k < BUFLEN"
  then have "k < 2 ^ 31" by (simp add: BUFLEN_def)
  then show ?thesis
    by (simp add: sint_uint unsigned_of_nat take_bit_int_eq_self signed_take_bit_eq_if_positive
        bit_iff_odd take_bit_nat_eq_self)
qed

lemma not_in_span_end: "n < 2 ^ 64 \<Longrightarrow> p + of_nat n \<notin> span p n"
  by (simp add: span_iff unat_of_nat64 del: of_nat_numeral)

lemma buf_write_bytes:
  assumes "rl_rep (i, M) line"
  shows "bytes_at (ram (buf_write i x M)) (readline_buf M) (Suc (length line)) = line @ [x]"
proof -
  have n: "length line < 2 ^ 31" "i = of_nat (length line)"
    using assms by (simp_all add: rl_rep_def BUFLEN_def)
  have at: "readline_buf M + scast i = readline_buf M + of_nat (length line)"
    using n by (simp add: scast_len)
  have "bytes_at (ram (buf_write i x M)) (readline_buf M) (length line) = line"
    using assms n not_in_span_end [of "length line" "readline_buf M"]
    by (simp add: rl_rep_def buf_write_def scast_len bytes_at_upd)
  then show ?thesis
    using bytes_at_append [of "ram (buf_write i x M)" "readline_buf M" "length line" 1] at
    by (simp add: buf_write_def)
qed

lemma rl_rep_insert:
  assumes "rl_rep (i, M) line" and "length line < BUFLEN - 1" and "x \<noteq> 0"
  shows "rl_rep (i + 1, buf_write i x M) (line @ [x])"
proof -
  have "crt_ok (buf_write i x M)" "buf_apart (buf_write i x M)"
    "readline_buf (buf_write i x M) = readline_buf M"
    using assms(1) by (simp_all add: rl_rep_def buf_write_def crt_ok_def buf_apart_def)
  then show ?thesis
    using assms buf_write_bytes [OF assms(1), of x] by (simp add: rl_rep_def BUFLEN_def)
qed

lemma ucast_char_nonzero: "32 \<le> sint c \<Longrightarrow> sint c \<le> 255 \<Longrightarrow> (ucast c :: u8) \<noteq> 0" for c :: u32
proof
  assume c: "32 \<le> sint c" "sint c \<le> 255" and z: "(ucast c :: u8) = 0"
  have u: "sint c = int (unat c)" using c(1) by (intro sint_pos) simp
  then have lt: "unat c < 256" using c(2) by linarith
  have "unat (ucast c :: u8) = take_bit 8 (unat c)" by (simp add: unsigned_ucast_eq)
  also have "\<dots> = unat c" using lt by (simp add: take_bit_nat_eq_self)
  finally show False using z u c(1) by simp
qed

lemma rl_step_rep:
  assumes "rl_step s c s'" and "rl_rep s line"
  shows "rl_rep s' (edit c line) \<and> readline_buf (snd s') = readline_buf (snd s)"
  using assms
proof (induction rule: rl_step.induct)
  case (erase M c M1 i)
  have "frame M (echo 8 M1)" using frame_trans [OF frame_getchar [OF erase(1)] frame_echo] by simp
  note r = rl_rep_frame [OF erase.prems this]
  from erase.prems have i: "i = of_nat (length line)" "length line < BUFLEN" by (simp_all add: rl_rep_def)
  then have ne: "line \<noteq> []" using erase(3) sint_len [of "length line"] by auto
  then obtain l x where l: "line = l @ [x]" by (metis append_butlast_last_id)
  have "bytes_at (ram (echo 8 M1)) (readline_buf (echo 8 M1)) (length l + 1) = l @ [x]"
    using r unfolding rl_rep_def l by (auto simp del: bytes_at.simps)
  then have "bytes_at (ram (echo 8 M1)) (readline_buf (echo 8 M1)) (length l) = l"
    unfolding bytes_at_append by (simp del: bytes_at.simps)
  then have "rl_rep (i - 1, echo 8 M1) l"
    using r i by (simp add: rl_rep_def l)
  then show ?case using ne erase(2) r by (simp add: edit_def l)
next
  case (insert M c M1 i)
  have "frame M (echo c M1)" using frame_trans [OF frame_getchar [OF insert(1)] frame_echo] by simp
  note r = rl_rep_frame [OF insert.prems this]
  from insert.prems have i: "i = of_nat (length line)" "length line < BUFLEN" by (simp_all add: rl_rep_def)
  then have len: "length line < BUFLEN - 1" using insert(4) sint_len [of "length line"] by simp
  have "(ucast c :: u8) \<noteq> 0"
    using insert(3) getchar_chars [OF insert(1)] by (intro ucast_char_nonzero) simp_all
  from rl_rep_insert [OF conjunct1 [OF r] len this] show ?case
    using insert(2,3) len i r sint_len [of "length line"] by (auto simp: edit_def buf_write_def)
next
  case (ignore M c M1 i)
  have "frame M M1" using frame_getchar [OF ignore(1)] by simp
  note r = rl_rep_frame [OF ignore.prems this]
  from ignore.prems have i: "i = of_nat (length line)" "length line < BUFLEN" by (simp_all add: rl_rep_def)
  then have "edit c line = line"
    using ignore(2,3) sint_len [of "length line"] by (auto simp: edit_def BUFLEN_def)
  then show ?case using r by simp
qed

lemma rl_run_rep:
  "rl_run s cs s' \<Longrightarrow> rl_rep s line \<Longrightarrow>
     rl_rep s' (fold edit cs line) \<and> readline_buf (snd s') = readline_buf (snd s)"
proof (induction arbitrary: line rule: rl_run.induct)
  case (more s c s1 cs s2)
  note st = rl_step_rep [OF more(1,4)]
  from more.IH [OF conjunct1 [OF st]] st show ?case by simp
qed simp

lemma rl_end_cstr:
  assumes "rl_end s (p, M')" and "rl_rep s line"
  shows "cstr (ram M') p line \<and> p = readline_buf (snd s) \<and> crt_ok M'"
proof -
  obtain i M where s: "s = (i, M)" by (cases s)
  obtain c M1 where g: "getchar M = Some (c, M1)" and p: "p = readline_buf M1"
    and M': "M' = buf_write i 0 (echo 10 M1)"
    using assms(1) by (auto simp: rl_end_def s)
  have f1: "frame M M1" using frame_getchar [OF g] by simp
  note r1 = rl_rep_frame [OF assms(2) [unfolded s] f1]
  note r2 = rl_rep_frame [OF conjunct1 [OF r1] frame_echo, of 10]
  have "bytes_at (ram M') p (Suc (length line)) = line @ [0]"
    using buf_write_bytes [OF conjunct1 [OF r2], of 0] r1 r2 by (simp add: M' p del: bytes_at.simps)
  moreover have "0 \<notin> set line" using assms(2) by (simp add: rl_rep_def s)
  moreover have "crt_ok M'" using r2 by (simp add: rl_rep_def M' buf_write_def crt_ok_def)
  ultimately show ?thesis using r1 by (simp add: cstr_bytes s p del: bytes_at.simps)
qed

text \<open>
  C8. \<^verbatim>\<open>readline\<close>, whatever comes in while it runs, returns its buffer with a NUL-terminated line of at
  most 1023 characters: the result of editing the characters \<open>cs\<close> that \<^verbatim>\<open>getchar\<close> gave one after the other
  before the newline, in which a backspace or a
  delete removes the last character, printable characters are appended while they fit, and
  everything else is ignored.
\<close>

theorem readline_edits:
  assumes "readline prompt M = Some (p, M')" and "crt_ok M" and "buf_apart M"
  shows "\<exists>M0 cs s. rl_run (0, M0) cs s \<and> rl_end s (p, M') \<and> p = readline_buf M \<and>
    cstr (ram M') p (fold edit cs []) \<and> length (fold edit cs []) < BUFLEN \<and> crt_ok M'"
proof -
  obtain M0 where f: "frame M M0" and l: "readline_loop 0 M0 = Some (p, M')"
  proof (cases prompt)
    case None
    then show ?thesis using assms(1) that [of M] by (simp add: readline_def)
  next
    case (Some x)
    then obtain M0 where "print ''%s'' [VStr (Some x)] M = Some M0" "readline_loop 0 M0 = Some (p, M')"
      using assms(1) by (auto simp: readline_def bind_eq_Some_conv)
    then show ?thesis using that frame_print by blast
  qed
  have "rl_rep (0, M) []" using assms(2,3) by (simp add: rl_rep_def BUFLEN_def)
  note r0 = rl_rep_frame [OF this f]
  obtain cs s where run: "rl_run (0, M0) cs s" and e: "rl_end s (p, M')"
    using readline_loop_run [OF l] by blast
  note r = rl_run_rep [OF run conjunct1 [OF r0]]
  have "length (fold edit cs []) < BUFLEN" using r by (cases s) (simp add: rl_rep_def)
  moreover note line = rl_end_cstr [OF e conjunct1 [OF r]]
  moreover have "p = readline_buf M" using line r r0 by simp
  ultimately show ?thesis using run e by blast
qed

text \<open>A quiet machine with a newline waiting in the ring.\<close>

definition newline_waiting :: machine where
  "newline_waiting = quiet\<lparr>cons := \<lparr>cbuf = (replicate 512 0) [0 := 10], rpos = 0, wpos = 1\<rparr>\<rparr>"

lemma newline_waiting_apart: "buf_apart newline_waiting"
proof -
  have "False" if "unat (x - 0x8004300000) < 1024" and "unat (x - 0x80040B8000) < 4000" for x :: addr
  proof -
    define y where "y = x - 0x8004300000"
    have "x - 0x80040B8000 = y + 0x248000" by (simp add: y_def)
    then have "unat (x - 0x80040B8000) = unat (y + 0x248000)" by (rule arg_cong)
    also have "\<dots> = unat y + 0x248000"
      using that(1) [folded y_def] by (simp add: unat_word_ariths(1))
    finally show False using that(2) by simp
  qed
  then show ?thesis
    by (auto simp: buf_apart_def newline_waiting_def quiet_def span_iff BUFLEN_def crt_consts)
qed

theorem readline_edits_witness:
  "\<exists>M' cs. readline None newline_waiting = Some (0x8004300000, M') \<and> cstr (ram M') 0x8004300000 (fold edit cs [])"
proof -
  let ?M = "newline_waiting\<lparr>clk := 2, cons := \<lparr>cbuf = (replicate 512 0) [0 := 10], rpos = 1, wpos = 1\<rparr>\<rparr>"
  have s: "serial_intr newline_waiting = Some (newline_waiting\<lparr>clk := 1\<rparr>)"
    unfolding serial_intr_def
    by (subst cons_intr.simps) (simp add: serial_proc_data_def inb_def COM1_def newline_waiting_def quiet_def)
  have k: "kbd_intr (newline_waiting\<lparr>clk := Suc 0\<rparr>) = Some (newline_waiting\<lparr>clk := 2\<rparr>)"
    unfolding kbd_intr_def
    by (subst cons_intr.simps) (simp add: kbd_proc_data_def inb_def newline_waiting_def quiet_def)
  have "ring_get (cons newline_waiting) =
      Some (10, \<lparr>cbuf = (replicate 512 0) [0 := 10], rpos = 1, wpos = 1\<rparr>)"
    by (simp add: ring_get_def newline_waiting_def quiet_def CONSBUFSIZE_def)
  then have "getchar newline_waiting = Some (10, ?M)"
    by (subst getchar.simps) (simp add: cons_getc_def s k)
  then have r: "readline None newline_waiting = Some (0x8004300000, buf_write 0 0 (echo 10 ?M))"
    by (simp add: readline_def readline_loop.simps [of 0 newline_waiting] BUFLEN_def)
      (simp add: newline_waiting_def quiet_def)
  have "crt_ok newline_waiting" using quiet_crt_ok by (simp add: newline_waiting_def crt_ok_def)
  moreover note newline_waiting_apart
  ultimately have "\<exists>cs. cstr (ram (buf_write 0 0 (echo 10 ?M))) 0x8004300000 (fold edit cs [])"
    using readline_edits [OF r] by blast
  then show ?thesis using r by blast
qed

end
