(* ===== verification/DwarfDefs.thy ===== *)
theory DwarfDefs
  imports Prelude
begin

text \<open>
  The numbers of \<^verbatim>\<open>kern/dwarf_define.h\<close> and \<^verbatim>\<open>kern/dwarf_error.h\<close> that the DWARF reader uses, by
  the names of the code. Each group has a bundle of its definitions.
\<close>

section \<open>Tags\<close>

definition DW_TAG_formal_parameter :: u64 where "DW_TAG_formal_parameter = 0x05"
definition DW_TAG_subprogram :: u64 where "DW_TAG_subprogram = 0x2e"

lemmas dw_tag_defs =
  DW_TAG_formal_parameter_def DW_TAG_subprogram_def

section \<open>Children\<close>

definition DW_CHILDREN_no :: u8 where "DW_CHILDREN_no = 0x00"
definition DW_CHILDREN_yes :: u8 where "DW_CHILDREN_yes = 0x01"

lemmas dw_children_defs =
  DW_CHILDREN_no_def DW_CHILDREN_yes_def

section \<open>Attributes\<close>

definition DW_AT_sibling :: u64 where "DW_AT_sibling = 0x01"
definition DW_AT_name :: u64 where "DW_AT_name = 0x03"
definition DW_AT_byte_size :: u64 where "DW_AT_byte_size = 0x0b"
definition DW_AT_stmt_list :: u64 where "DW_AT_stmt_list = 0x10"
definition DW_AT_low_pc :: u64 where "DW_AT_low_pc = 0x11"
definition DW_AT_high_pc :: u64 where "DW_AT_high_pc = 0x12"
definition DW_AT_comp_dir :: u64 where "DW_AT_comp_dir = 0x1b"
definition DW_AT_type :: u64 where "DW_AT_type = 0x49"

lemmas dw_at_defs =
  DW_AT_sibling_def DW_AT_name_def DW_AT_byte_size_def DW_AT_stmt_list_def DW_AT_low_pc_def
  DW_AT_high_pc_def DW_AT_comp_dir_def DW_AT_type_def

section \<open>Forms\<close>

definition DW_FORM_addr :: u64 where "DW_FORM_addr = 0x01"
definition DW_FORM_block2 :: u64 where "DW_FORM_block2 = 0x03"
definition DW_FORM_block4 :: u64 where "DW_FORM_block4 = 0x04"
definition DW_FORM_data2 :: u64 where "DW_FORM_data2 = 0x05"
definition DW_FORM_data4 :: u64 where "DW_FORM_data4 = 0x06"
definition DW_FORM_data8 :: u64 where "DW_FORM_data8 = 0x07"
definition DW_FORM_string :: u64 where "DW_FORM_string = 0x08"
definition DW_FORM_block :: u64 where "DW_FORM_block = 0x09"
definition DW_FORM_block1 :: u64 where "DW_FORM_block1 = 0x0a"
definition DW_FORM_data1 :: u64 where "DW_FORM_data1 = 0x0b"
definition DW_FORM_flag :: u64 where "DW_FORM_flag = 0x0c"
definition DW_FORM_sdata :: u64 where "DW_FORM_sdata = 0x0d"
definition DW_FORM_strp :: u64 where "DW_FORM_strp = 0x0e"
definition DW_FORM_udata :: u64 where "DW_FORM_udata = 0x0f"
definition DW_FORM_ref_addr :: u64 where "DW_FORM_ref_addr = 0x10"
definition DW_FORM_ref1 :: u64 where "DW_FORM_ref1 = 0x11"
definition DW_FORM_ref2 :: u64 where "DW_FORM_ref2 = 0x12"
definition DW_FORM_ref4 :: u64 where "DW_FORM_ref4 = 0x13"
definition DW_FORM_ref8 :: u64 where "DW_FORM_ref8 = 0x14"
definition DW_FORM_ref_udata :: u64 where "DW_FORM_ref_udata = 0x15"
definition DW_FORM_indirect :: u64 where "DW_FORM_indirect = 0x16"
definition DW_FORM_sec_offset :: u64 where "DW_FORM_sec_offset = 0x17"
definition DW_FORM_exprloc :: u64 where "DW_FORM_exprloc = 0x18"
definition DW_FORM_flag_present :: u64 where "DW_FORM_flag_present = 0x19"
definition DW_FORM_ref_sig8 :: u64 where "DW_FORM_ref_sig8 = 0x20"

lemmas dw_form_defs =
  DW_FORM_addr_def DW_FORM_block2_def DW_FORM_block4_def DW_FORM_data2_def DW_FORM_data4_def
  DW_FORM_data8_def DW_FORM_string_def DW_FORM_block_def DW_FORM_block1_def DW_FORM_data1_def
  DW_FORM_flag_def DW_FORM_sdata_def DW_FORM_strp_def DW_FORM_udata_def DW_FORM_ref_addr_def
  DW_FORM_ref1_def DW_FORM_ref2_def DW_FORM_ref4_def DW_FORM_ref8_def DW_FORM_ref_udata_def
  DW_FORM_indirect_def DW_FORM_sec_offset_def DW_FORM_exprloc_def DW_FORM_flag_present_def
  DW_FORM_ref_sig8_def

section \<open>Line number opcodes\<close>

definition DW_LNS_copy :: u8 where "DW_LNS_copy = 0x01"
definition DW_LNS_advance_pc :: u8 where "DW_LNS_advance_pc = 0x02"
definition DW_LNS_advance_line :: u8 where "DW_LNS_advance_line = 0x03"
definition DW_LNS_set_file :: u8 where "DW_LNS_set_file = 0x04"
definition DW_LNS_set_column :: u8 where "DW_LNS_set_column = 0x05"
definition DW_LNS_negate_stmt :: u8 where "DW_LNS_negate_stmt = 0x06"
definition DW_LNS_set_basic_block :: u8 where "DW_LNS_set_basic_block = 0x07"
definition DW_LNS_const_add_pc :: u8 where "DW_LNS_const_add_pc = 0x08"
definition DW_LNS_fixed_advance_pc :: u8 where "DW_LNS_fixed_advance_pc = 0x09"
definition DW_LNS_set_prologue_end :: u8 where "DW_LNS_set_prologue_end = 0x0a"
definition DW_LNS_set_epilogue_begin :: u8 where "DW_LNS_set_epilogue_begin = 0x0b"
definition DW_LNS_set_isa :: u8 where "DW_LNS_set_isa = 0x0c"
definition DW_LNE_end_sequence :: u8 where "DW_LNE_end_sequence = 0x01"
definition DW_LNE_set_address :: u8 where "DW_LNE_set_address = 0x02"
definition DW_LNE_define_file :: u8 where "DW_LNE_define_file = 0x03"

lemmas dw_lns_defs =
  DW_LNS_copy_def DW_LNS_advance_pc_def DW_LNS_advance_line_def DW_LNS_set_file_def
  DW_LNS_set_column_def DW_LNS_negate_stmt_def DW_LNS_set_basic_block_def
  DW_LNS_const_add_pc_def DW_LNS_fixed_advance_pc_def DW_LNS_set_prologue_end_def
  DW_LNS_set_epilogue_begin_def DW_LNS_set_isa_def DW_LNE_end_sequence_def
  DW_LNE_set_address_def DW_LNE_define_file_def

section \<open>Call frame instructions\<close>

definition DW_CFA_advance_loc :: u8 where "DW_CFA_advance_loc = 0x40"
definition DW_CFA_offset :: u8 where "DW_CFA_offset = 0x80"
definition DW_CFA_restore :: u8 where "DW_CFA_restore = 0xc0"
definition DW_CFA_nop :: u8 where "DW_CFA_nop = 0x00"
definition DW_CFA_set_loc :: u8 where "DW_CFA_set_loc = 0x01"
definition DW_CFA_advance_loc1 :: u8 where "DW_CFA_advance_loc1 = 0x02"
definition DW_CFA_advance_loc2 :: u8 where "DW_CFA_advance_loc2 = 0x03"
definition DW_CFA_advance_loc4 :: u8 where "DW_CFA_advance_loc4 = 0x04"
definition DW_CFA_offset_extended :: u8 where "DW_CFA_offset_extended = 0x05"
definition DW_CFA_restore_extended :: u8 where "DW_CFA_restore_extended = 0x06"
definition DW_CFA_undefined :: u8 where "DW_CFA_undefined = 0x07"
definition DW_CFA_same_value :: u8 where "DW_CFA_same_value = 0x08"
definition DW_CFA_register :: u8 where "DW_CFA_register = 0x09"
definition DW_CFA_remember_state :: u8 where "DW_CFA_remember_state = 0x0a"
definition DW_CFA_restore_state :: u8 where "DW_CFA_restore_state = 0x0b"
definition DW_CFA_def_cfa :: u8 where "DW_CFA_def_cfa = 0x0c"
definition DW_CFA_def_cfa_register :: u8 where "DW_CFA_def_cfa_register = 0x0d"
definition DW_CFA_def_cfa_offset :: u8 where "DW_CFA_def_cfa_offset = 0x0e"
definition DW_CFA_def_cfa_expression :: u8 where "DW_CFA_def_cfa_expression = 0x0f"
definition DW_CFA_expression :: u8 where "DW_CFA_expression = 0x10"
definition DW_CFA_offset_extended_sf :: u8 where "DW_CFA_offset_extended_sf = 0x11"
definition DW_CFA_def_cfa_sf :: u8 where "DW_CFA_def_cfa_sf = 0x12"
definition DW_CFA_def_cfa_offset_sf :: u8 where "DW_CFA_def_cfa_offset_sf = 0x13"
definition DW_CFA_val_offset :: u8 where "DW_CFA_val_offset = 0x14"
definition DW_CFA_val_offset_sf :: u8 where "DW_CFA_val_offset_sf = 0x15"
definition DW_CFA_val_expression :: u8 where "DW_CFA_val_expression = 0x16"

lemmas dw_cfa_defs =
  DW_CFA_advance_loc_def DW_CFA_offset_def DW_CFA_restore_def DW_CFA_nop_def
  DW_CFA_set_loc_def DW_CFA_advance_loc1_def DW_CFA_advance_loc2_def DW_CFA_advance_loc4_def
  DW_CFA_offset_extended_def DW_CFA_restore_extended_def DW_CFA_undefined_def
  DW_CFA_same_value_def DW_CFA_register_def DW_CFA_remember_state_def DW_CFA_restore_state_def
  DW_CFA_def_cfa_def DW_CFA_def_cfa_register_def DW_CFA_def_cfa_offset_def
  DW_CFA_def_cfa_expression_def DW_CFA_expression_def DW_CFA_offset_extended_sf_def
  DW_CFA_def_cfa_sf_def DW_CFA_def_cfa_offset_sf_def DW_CFA_val_offset_def
  DW_CFA_val_offset_sf_def DW_CFA_val_expression_def

section \<open>Pointer encodings\<close>

definition DW_EH_PE_absptr :: u8 where "DW_EH_PE_absptr = 0x00"
definition DW_EH_PE_uleb128 :: u8 where "DW_EH_PE_uleb128 = 0x01"
definition DW_EH_PE_udata2 :: u8 where "DW_EH_PE_udata2 = 0x02"
definition DW_EH_PE_udata4 :: u8 where "DW_EH_PE_udata4 = 0x03"
definition DW_EH_PE_udata8 :: u8 where "DW_EH_PE_udata8 = 0x04"
definition DW_EH_PE_sleb128 :: u8 where "DW_EH_PE_sleb128 = 0x09"
definition DW_EH_PE_sdata2 :: u8 where "DW_EH_PE_sdata2 = 0x0a"
definition DW_EH_PE_sdata4 :: u8 where "DW_EH_PE_sdata4 = 0x0b"
definition DW_EH_PE_sdata8 :: u8 where "DW_EH_PE_sdata8 = 0x0c"
definition DW_EH_PE_pcrel :: u8 where "DW_EH_PE_pcrel = 0x10"
definition DW_EH_PE_textrel :: u8 where "DW_EH_PE_textrel = 0x20"
definition DW_EH_PE_datarel :: u8 where "DW_EH_PE_datarel = 0x30"
definition DW_EH_PE_funcrel :: u8 where "DW_EH_PE_funcrel = 0x40"
definition DW_EH_PE_aligned :: u8 where "DW_EH_PE_aligned = 0x50"
definition DW_EH_PE_omit :: u8 where "DW_EH_PE_omit = 0xff"

lemmas dw_eh_defs =
  DW_EH_PE_absptr_def DW_EH_PE_uleb128_def DW_EH_PE_udata2_def DW_EH_PE_udata4_def
  DW_EH_PE_udata8_def DW_EH_PE_sleb128_def DW_EH_PE_sdata2_def DW_EH_PE_sdata4_def
  DW_EH_PE_sdata8_def DW_EH_PE_pcrel_def DW_EH_PE_textrel_def DW_EH_PE_datarel_def
  DW_EH_PE_funcrel_def DW_EH_PE_aligned_def DW_EH_PE_omit_def

section \<open>Results\<close>

text \<open>Results are \<^verbatim>\<open>int\<close>: \<^verbatim>\<open>DW_DLV_NO_ENTRY\<close> is -1, the error codes count from 0.\<close>

definition DW_DLV_NO_ENTRY :: u32 where "DW_DLV_NO_ENTRY = -1"
definition DW_DLV_OK :: u32 where "DW_DLV_OK = 0"
definition DW_DLV_ERROR :: u32 where "DW_DLV_ERROR = 1"
definition DW_DLE_NONE :: u32 where "DW_DLE_NONE = 0"
definition DW_DLE_ERROR :: u32 where "DW_DLE_ERROR = 1"
definition DW_DLE_ARGUMENT :: u32 where "DW_DLE_ARGUMENT = 2"
definition DW_DLE_NO_ENTRY :: u32 where "DW_DLE_NO_ENTRY = 4"
definition DW_DLE_MEMORY :: u32 where "DW_DLE_MEMORY = 5"
definition DW_DLE_VERSION_STAMP_ERROR :: u32 where "DW_DLE_VERSION_STAMP_ERROR = 8"
definition DW_DLE_ATTR_FORM_BAD :: u32 where "DW_DLE_ATTR_FORM_BAD = 14"
definition DW_DLE_DEBUG_LINE_LENGTH_BAD :: u32 where "DW_DLE_DEBUG_LINE_LENGTH_BAD = 15"
definition DW_DLE_LINE_FILE_NUM_BAD :: u32 where "DW_DLE_LINE_FILE_NUM_BAD = 16"
definition DW_DLE_DIR_INDEX_BAD :: u32 where "DW_DLE_DIR_INDEX_BAD = 17"
definition DW_DLE_DEBUG_FRAME_LENGTH_BAD :: u32 where "DW_DLE_DEBUG_FRAME_LENGTH_BAD = 18"
definition DW_DLE_NO_CIE_FOR_FDE :: u32 where "DW_DLE_NO_CIE_FOR_FDE = 19"
definition DW_DLE_FRAME_AUGMENTATION_UNKNOWN :: u32 where "DW_DLE_FRAME_AUGMENTATION_UNKNOWN = 20"
definition DW_DLE_FRAME_INSTR_EXEC_ERROR :: u32 where "DW_DLE_FRAME_INSTR_EXEC_ERROR = 21"
definition DW_DLE_FRAME_VERSION_BAD :: u32 where "DW_DLE_FRAME_VERSION_BAD = 22"
definition DW_DLE_FRAME_TABLE_COL_BAD :: u32 where "DW_DLE_FRAME_TABLE_COL_BAD = 23"
definition DW_DLE_DF_REG_NUM_TOO_HIGH :: u32 where "DW_DLE_DF_REG_NUM_TOO_HIGH = 24"
definition DW_DLE_PC_NOT_IN_FDE_RANGE :: u32 where "DW_DLE_PC_NOT_IN_FDE_RANGE = 25"

lemmas dw_result_defs =
  DW_DLV_NO_ENTRY_def DW_DLV_OK_def DW_DLV_ERROR_def
  DW_DLE_NONE_def
  DW_DLE_ERROR_def
  DW_DLE_ARGUMENT_def
  DW_DLE_NO_ENTRY_def
  DW_DLE_MEMORY_def
  DW_DLE_VERSION_STAMP_ERROR_def
  DW_DLE_ATTR_FORM_BAD_def
  DW_DLE_DEBUG_LINE_LENGTH_BAD_def
  DW_DLE_LINE_FILE_NUM_BAD_def
  DW_DLE_DIR_INDEX_BAD_def
  DW_DLE_DEBUG_FRAME_LENGTH_BAD_def
  DW_DLE_NO_CIE_FOR_FDE_def
  DW_DLE_FRAME_AUGMENTATION_UNKNOWN_def
  DW_DLE_FRAME_INSTR_EXEC_ERROR_def
  DW_DLE_FRAME_VERSION_BAD_def
  DW_DLE_FRAME_TABLE_COL_BAD_def
  DW_DLE_DF_REG_NUM_TOO_HIGH_def
  DW_DLE_PC_NOT_IN_FDE_RANGE_def

end
