(* ===== verification/DwarfRead.thy ===== *)
theory DwarfRead
  imports Memory DwarfDefs
begin

text \<open>
  The primitive readers of \<^verbatim>\<open>kern/libdwarf_rw.c\<close>: fixed-size integers of either byte order, the
  variable-length encodings LEB128, strings and blocks. A reader gives the value and the
  new offset (or pointer). \<open>bytes_to_read\<close> is a number; sizes other than 1, 2, 4 and 8 read 0 and
  do not move. The LEB128 readers shift an \<^verbatim>\<open>int\<close>: the count is taken modulo 32, as the x86 shift
  instruction does, and the 32-bit result is sign-extended before it is joined to the value.
\<close>

section \<open>Fixed-size integers\<close>

definition src_byte :: "mem \<Rightarrow> addr \<Rightarrow> nat \<Rightarrow> u64" where
  "src_byte m src k = ucast (m (src + of_nat k))"

text \<open>The switch with its fall-through cases.\<close>

definition lsb_value :: "mem \<Rightarrow> addr \<Rightarrow> nat \<Rightarrow> u64" where
  "lsb_value m src n =
     (if n = 8
      then push_bit 32 (src_byte m src 4) OR push_bit 40 (src_byte m src 5)
           OR push_bit 48 (src_byte m src 6) OR push_bit 56 (src_byte m src 7) else 0)
     OR (if n = 8 \<or> n = 4
         then push_bit 16 (src_byte m src 2) OR push_bit 24 (src_byte m src 3) else 0)
     OR (if n = 8 \<or> n = 4 \<or> n = 2 then push_bit 8 (src_byte m src 1) else 0)
     OR src_byte m src 0"

definition msb_value :: "mem \<Rightarrow> addr \<Rightarrow> nat \<Rightarrow> u64" where
  "msb_value m src n =
     (if n = 1 then src_byte m src 0
      else if n = 2 then src_byte m src 1 OR push_bit 8 (src_byte m src 0)
      else if n = 4 then
        src_byte m src 3 OR push_bit 8 (src_byte m src 2)
        OR push_bit 16 (src_byte m src 1) OR push_bit 24 (src_byte m src 0)
      else
        src_byte m src 7 OR push_bit 8 (src_byte m src 6)
        OR push_bit 16 (src_byte m src 5) OR push_bit 24 (src_byte m src 4)
        OR push_bit 32 (src_byte m src 3) OR push_bit 40 (src_byte m src 2)
        OR push_bit 48 (src_byte m src 1) OR push_bit 56 (src_byte m src 0))"

definition size_ok :: "nat \<Rightarrow> bool" where
  "size_ok n \<longleftrightarrow> n = 1 \<or> n = 2 \<or> n = 4 \<or> n = 8"

definition read_lsb :: "mem \<Rightarrow> addr \<Rightarrow> u64 \<Rightarrow> nat \<Rightarrow> u64 \<times> u64" where
  "read_lsb m data off n =
     (if size_ok n then (lsb_value m (data + off) n, off + of_nat n) else (0, off))"

definition decode_lsb :: "mem \<Rightarrow> addr \<Rightarrow> nat \<Rightarrow> u64 \<times> addr" where
  "decode_lsb m data n =
     (if size_ok n then (lsb_value m data n, data + of_nat n) else (0, data))"

definition read_msb :: "mem \<Rightarrow> addr \<Rightarrow> u64 \<Rightarrow> nat \<Rightarrow> u64 \<times> u64" where
  "read_msb m data off n =
     (if size_ok n then (msb_value m (data + off) n, off + of_nat n) else (0, off))"

definition decode_msb :: "mem \<Rightarrow> addr \<Rightarrow> nat \<Rightarrow> u64 \<times> addr" where
  "decode_msb m data n =
     (if size_ok n then (msb_value m data n, data + of_nat n) else (0, data))"

section \<open>LEB128\<close>

text \<open>\<^verbatim>\<open>((b & 0x7f) << shift)\<close> in \<^verbatim>\<open>int\<close>, widened to 64 bits.\<close>

definition leb_chunk :: "u8 \<Rightarrow> u32 \<Rightarrow> u64" where
  "leb_chunk b sh = scast (push_bit (unat sh mod 32) (ucast (b AND 0x7F) :: u32))"

text \<open>The loop: value, shift, last byte and next position. It runs on while bit 7 is set.\<close>

partial_function (option) leb_loop :: "mem \<Rightarrow> addr \<Rightarrow> u64 \<Rightarrow> u32 \<Rightarrow> (u64 \<times> u32 \<times> u8 \<times> addr) option" where
  "leb_loop m src ret sh =
     (let b = m src; ret = ret OR leb_chunk b sh; sh = sh + 7
      in if b AND 0x80 \<noteq> 0 then leb_loop m (src + 1) ret sh else Some (ret, sh, b, src + 1))"

text \<open>\<^verbatim>\<open>if (shift < 32 && (b & 0x40) != 0) ret |= (-1 << shift);\<close>\<close>

definition sleb_extend :: "u64 \<Rightarrow> u32 \<Rightarrow> u8 \<Rightarrow> u64" where
  "sleb_extend ret sh b =
     (if sint sh < 32 \<and> b AND 0x40 \<noteq> 0
      then ret OR scast (push_bit (unat sh) (- 1 :: u32)) else ret)"

definition decode_uleb128 :: "mem \<Rightarrow> addr \<Rightarrow> (u64 \<times> addr) option" where
  "decode_uleb128 m dp = map_option (\<lambda>(ret, sh, b, src). (ret, src)) (leb_loop m dp 0 0)"

definition decode_sleb128 :: "mem \<Rightarrow> addr \<Rightarrow> (u64 \<times> addr) option" where
  "decode_sleb128 m dp =
     map_option (\<lambda>(ret, sh, b, src). (sleb_extend ret sh b, src)) (leb_loop m dp 0 0)"

text \<open>The readers with an offset count it up by one for each byte.\<close>

definition read_uleb128 :: "mem \<Rightarrow> addr \<Rightarrow> u64 \<Rightarrow> (u64 \<times> u64) option" where
  "read_uleb128 m data off =
     map_option (\<lambda>(ret, sh, b, src). (ret, src - data)) (leb_loop m (data + off) 0 0)"

definition read_sleb128 :: "mem \<Rightarrow> addr \<Rightarrow> u64 \<Rightarrow> (u64 \<times> u64) option" where
  "read_sleb128 m data off =
     map_option (\<lambda>(ret, sh, b, src). (sleb_extend ret sh b, src - data)) (leb_loop m (data + off) 0 0)"

section \<open>Strings and blocks\<close>

function string_end :: "mem \<Rightarrow> addr \<Rightarrow> u64 \<Rightarrow> u64 \<Rightarrow> addr \<times> u64" where
  "string_end m src off sz =
     (if m src \<noteq> 0 \<and> off < sz then string_end m (src + 1) (off + 1) sz else (src, off))"
  by pat_completeness auto
termination
  by (relation "measure (\<lambda>(m, src, off, sz). unat sz - unat off)") (auto simp: word_step)

definition read_string :: "mem \<Rightarrow> addr \<Rightarrow> u64 \<Rightarrow> u64 \<Rightarrow> addr \<times> u64" where
  "read_string m data sz off =
     (let (src, off') = string_end m (data + off) off sz
      in (data + off, if m src = 0 \<and> off' < sz then off' + 1 else off'))"

definition read_block :: "addr \<Rightarrow> u64 \<Rightarrow> u64 \<Rightarrow> addr \<times> u64" where
  "read_block data off len = (data + off, off + len)"

declare string_end.simps [simp del]

section \<open>Encodings\<close>

text \<open>The bytes of a word in either order.\<close>

definition le_bytes :: "nat \<Rightarrow> u64 \<Rightarrow> u8 list" where
  "le_bytes n w = map (\<lambda>k. ucast (drop_bit (8 * k) w)) [0..<n]"

definition be_bytes :: "nat \<Rightarrow> u64 \<Rightarrow> u8 list" where
  "be_bytes n w = rev (le_bytes n w)"

text \<open>The unsigned LEB128 encoding of a number.\<close>

fun uleb128 :: "nat \<Rightarrow> u8 list" where
  "uleb128 v = (if v < 128 then [of_nat v] else of_nat (128 + v mod 128) # uleb128 (v div 128))"

declare uleb128.simps [simp del]

text \<open>The signed one: seven bits to a byte, until the rest is a sign.\<close>

function sleb128 :: "int \<Rightarrow> u8 list" where
  "sleb128 v =
     (if - 64 \<le> v \<and> v < 64 then [word_of_int (v mod 128)]
      else word_of_int (v mod 128 + 128) # sleb128 (v div 128))"
  by pat_completeness auto
termination
  by (relation "measure (\<lambda>v. nat \<bar>v\<bar>)") auto

declare sleb128.simps [simp del]

section \<open>Fixed-size round trips\<close>

definition byte_of :: "u64 \<Rightarrow> nat \<Rightarrow> u64" where
  "byte_of w k = take_bit 8 (drop_bit (8 * k) w)"

lemma byte_join: "take_bit (8 * k) w OR push_bit (8 * k) (byte_of w k) = take_bit (8 * Suc k) w"
  for w :: u64
  unfolding byte_of_def by (rule bit_word_eqI) (auto simp: bit_simps)

lemma byte_join_at:
  "a = 8 * k \<Longrightarrow> c = 8 * Suc k \<Longrightarrow> take_bit a w OR push_bit a (byte_of w k) = take_bit c w"
  by (simp only: byte_join)

lemma byte_join_0: "byte_of w 0 = take_bit 8 w"
  by (simp add: byte_of_def)

lemma byte_join_1: "take_bit 8 w OR push_bit 8 (byte_of w 1) = take_bit 16 w" for w :: u64
  by (rule byte_join_at) simp_all

lemma byte_join_2: "take_bit 16 w OR push_bit 16 (byte_of w 2) = take_bit 24 w" for w :: u64
  by (rule byte_join_at) simp_all

lemma byte_join_3: "take_bit 24 w OR push_bit 24 (byte_of w 3) = take_bit 32 w" for w :: u64
  by (rule byte_join_at) simp_all

lemma byte_join_4: "take_bit 32 w OR push_bit 32 (byte_of w 4) = take_bit 40 w" for w :: u64
  by (rule byte_join_at) simp_all

lemma byte_join_5: "take_bit 40 w OR push_bit 40 (byte_of w 5) = take_bit 48 w" for w :: u64
  by (rule byte_join_at) simp_all

lemma byte_join_6: "take_bit 48 w OR push_bit 48 (byte_of w 6) = take_bit 56 w" for w :: u64
  by (rule byte_join_at) simp_all

lemma byte_join_7: "take_bit 56 w OR push_bit 56 (byte_of w 7) = take_bit 64 w" for w :: u64
  by (rule byte_join_at) simp_all

lemmas byte_joins = byte_join_0 byte_join_1 byte_join_2 byte_join_3 byte_join_4 byte_join_5
  byte_join_6 byte_join_7

lemma ucast_low_byte: "(ucast (ucast x :: u8) :: u64) = take_bit 8 x" for x :: u64
  by (rule bit_word_eqI) (simp add: bit_simps)

lemma src_byte_le:
  assumes "bytes_at m src n = le_bytes n w" and "k < n"
  shows "src_byte m src k = byte_of w k"
proof -
  have "m (src + of_nat k) = ucast (drop_bit (8 * k) w)"
    using bytes_at_nth [OF assms(2), of m src] assms by (simp add: le_bytes_def)
  then show ?thesis by (simp add: src_byte_def byte_of_def ucast_low_byte)
qed

lemma src_byte_be:
  assumes "bytes_at m src n = be_bytes n w" and "k < n"
  shows "src_byte m src k = byte_of w (n - 1 - k)"
proof -
  have "m (src + of_nat k) = ucast (drop_bit (8 * (n - 1 - k)) w)"
    using bytes_at_nth [OF assms(2), of m src] assms
    by (simp add: be_bytes_def le_bytes_def rev_nth)
  then show ?thesis by (simp add: src_byte_def byte_of_def ucast_low_byte)
qed

lemma lsb_value_le:
  assumes "size_ok n" and "bytes_at m src n = le_bytes n w"
  shows "lsb_value m src n = take_bit (8 * n) w"
proof -
  note b = src_byte_le [OF assms(2)]
  note ac = or.assoc or.commute or.left_commute
  consider "n = 1" | "n = 2" | "n = 4" | "n = 8" using assms(1) by (auto simp: size_ok_def)
  then show ?thesis
  proof cases
    case 1
    then show ?thesis using b by (simp add: lsb_value_def byte_joins)
  next
    case 2
    then show ?thesis using b byte_joins(2) [of w] by (simp add: lsb_value_def byte_joins(1) or.commute)
  next
    case 3
    have "lsb_value m src n = ((byte_of w 0 OR push_bit 8 (byte_of w 1)) OR push_bit 16 (byte_of w 2))
        OR push_bit 24 (byte_of w 3)"
      using 3 b by (simp add: lsb_value_def) (simp only: ac)
    then show ?thesis using 3 by (simp only: byte_joins) simp
  next
    case 4
    have "lsb_value m src n = ((((((byte_of w 0 OR push_bit 8 (byte_of w 1)) OR push_bit 16 (byte_of w 2))
        OR push_bit 24 (byte_of w 3)) OR push_bit 32 (byte_of w 4)) OR push_bit 40 (byte_of w 5))
        OR push_bit 48 (byte_of w 6)) OR push_bit 56 (byte_of w 7)"
      using 4 b by (simp add: lsb_value_def) (simp only: ac)
    then show ?thesis using 4 by (simp only: byte_joins) simp
  qed
qed

text \<open>The big-endian value is the little-endian value of the reversed bytes.\<close>

lemma msb_value_be:
  assumes "size_ok n" and "bytes_at m src n = be_bytes n w"
  shows "msb_value m src n = take_bit (8 * n) w"
proof -
  note b = src_byte_be [OF assms(2)]
  note ac = or.assoc or.commute or.left_commute
  consider "n = 1" | "n = 2" | "n = 4" | "n = 8" using assms(1) by (auto simp: size_ok_def)
  then show ?thesis
  proof cases
    case 1
    then show ?thesis using b by (simp add: msb_value_def byte_joins)
  next
    case 2
    then show ?thesis using b byte_joins(2) [of w] by (simp add: msb_value_def byte_joins(1))
  next
    case 3
    have "msb_value m src n = ((byte_of w 0 OR push_bit 8 (byte_of w 1)) OR push_bit 16 (byte_of w 2))
        OR push_bit 24 (byte_of w 3)"
      using 3 b by (simp add: msb_value_def) (simp only: ac)
    then show ?thesis using 3 by (simp only: byte_joins) simp
  next
    case 4
    have "msb_value m src n = ((((((byte_of w 0 OR push_bit 8 (byte_of w 1)) OR push_bit 16 (byte_of w 2))
        OR push_bit 24 (byte_of w 3)) OR push_bit 32 (byte_of w 4)) OR push_bit 40 (byte_of w 5))
        OR push_bit 48 (byte_of w 6)) OR push_bit 56 (byte_of w 7)"
      using 4 b by (simp add: msb_value_def) (simp only: ac)
    then show ?thesis using 4 by (simp only: byte_joins) simp
  qed
qed

lemma take_bit_small: "unat w < 2 ^ k \<Longrightarrow> take_bit k w = w" for w :: u64
  by (metis take_bit_nat_eq_self unsigned_take_bit_eq word_unat_eq_iff)

text \<open>
  C6. The integer readers invert the encodings: from the bytes of a number in little-endian order
  \<^verbatim>\<open>_dwarf_read_lsb\<close> reads the number, from those in big-endian order \<^verbatim>\<open>_dwarf_read_msb\<close> does, for
  all four sizes, and the offset moves behind them. The readers with a pointer agree with them.
\<close>

theorem read_roundtrip:
  assumes "size_ok n" and "unat w < 2 ^ (8 * n)"
  shows "(bytes_at m (data + off) n = le_bytes n w \<longrightarrow>
      read_lsb m data off n = (w, off + of_nat n) \<and>
      decode_lsb m (data + off) n = (w, data + off + of_nat n)) \<and>
    (bytes_at m (data + off) n = be_bytes n w \<longrightarrow>
      read_msb m data off n = (w, off + of_nat n) \<and>
      decode_msb m (data + off) n = (w, data + off + of_nat n))"
  using assms(1) lsb_value_le [OF assms(1)] msb_value_be [OF assms(1)] take_bit_small [OF assms(2)]
  by (simp add: read_lsb_def read_msb_def decode_lsb_def decode_msb_def)

theorem read_roundtrip_witness:
  "read_lsb (store (\<lambda>_. 0) 100 [0x78, 0x56, 0x34, 0x12]) 90 10 4 = (0x12345678, 14) \<and>
   read_msb (store (\<lambda>_. 0) 100 [0x12, 0x34, 0x56, 0x78]) 90 10 4 = (0x12345678, 14)"
proof -
  have l: "le_bytes 4 0x12345678 = [0x78, 0x56, 0x34, 0x12]" by code_simp
  have b: "be_bytes 4 0x12345678 = [0x12, 0x34, 0x56, 0x78]" by code_simp
  have s: "size_ok 4" "unat (0x12345678 :: u64) < 2 ^ (8 * 4)" by (simp_all add: size_ok_def)
  show ?thesis
    using read_roundtrip [OF s, of "store (\<lambda>_. 0) 100 [0x78, 0x56, 0x34, 0x12]" 90 10]
      read_roundtrip [OF s, of "store (\<lambda>_. 0) 100 [0x12, 0x34, 0x56, 0x78]" 90 10]
    unfolding l b by (simp add: bytes_at_4 store_4)
qed

section \<open>The contract of the readers\<close>

text \<open>
  \<^verbatim>\<open>dbg->read\<close> and \<^verbatim>\<open>dbg->decode\<close> are set to the readers of one byte order. What their callers rely on: each
  reads back what was encoded in its order, and moves behind it. The callers read headers, one field after the other.
\<close>

locale number_reader =
  fixes code :: "nat \<Rightarrow> u64 \<Rightarrow> u8 list" and rd :: "mem \<Rightarrow> addr \<Rightarrow> u64 \<Rightarrow> nat \<Rightarrow> u64 \<times> u64"
    and dec :: "mem \<Rightarrow> addr \<Rightarrow> nat \<Rightarrow> u64 \<times> addr"
  assumes code_length: "length (code n w) = n"
    and rd_code: "holds_at m (data + off) (code n w) \<Longrightarrow> size_ok n \<Longrightarrow> unat w < 2 ^ (8 * n) \<Longrightarrow>
      rd m data off n = (w, off + of_nat n)"
    and dec_code: "holds_at m p (code n w) \<Longrightarrow> size_ok n \<Longrightarrow> unat w < 2 ^ (8 * n) \<Longrightarrow>
      dec m p n = (w, p + of_nat n)"
begin

text \<open>A header: numbers with their sizes.\<close>

definition fields :: "(nat \<times> u64) list \<Rightarrow> u8 list" where
  "fields fs = concat (map (\<lambda>(n, w). code n w) fs)"

lemma fields_Nil [simp]: "fields [] = []"
  by (simp add: fields_def)

lemma fields_Cons [simp]: "fields ((n, w) # fs) = code n w @ fields fs"
  by (simp add: fields_def)

lemma fields_append: "fields (fs @ gs) = fields fs @ fields gs"
  by (simp add: fields_def)

lemma length_fields [simp]: "length (fields fs) = sum_list (map fst fs)"
  by (induction fs) (auto simp: code_length)

text \<open>One field of a header.\<close>

lemma rd_field:
  assumes "holds_at m (data + off) (fields (fs @ (n, w) # gs))" and "size_ok n" and "unat w < 2 ^ (8 * n)"
  shows "rd m data (off + of_nat (sum_list (map fst fs))) n = (w, off + of_nat (sum_list (map fst fs) + n))"
proof -
  have "holds_at m (data + (off + of_nat (sum_list (map fst fs)))) (code n w)"
    using assms(1) by (simp add: fields_append holds_at_append add.assoc)
  from rd_code [OF this assms(2,3)] show ?thesis by (simp add: add.assoc)
qed

end

lemma enc_lengths [simp]: "length (le_bytes n w) = n" "length (be_bytes n w) = n"
  by (simp_all add: be_bytes_def le_bytes_def)

interpretation lsb: number_reader le_bytes read_lsb decode_lsb
  by unfold_locales
    (simp_all add: holds_at_def read_lsb_def decode_lsb_def lsb_value_le take_bit_small)

interpretation msb: number_reader be_bytes read_msb decode_msb
  by unfold_locales
    (simp_all add: holds_at_def read_msb_def decode_msb_def msb_value_be take_bit_small)

section \<open>LEB128 round trip\<close>

lemma low7: "b AND 0x7F = take_bit 7 b" for b :: u8
  by (simp add: take_bit_eq_mask mask_eq_exp_minus_1)

lemma last_byte:
  "v < 128 \<Longrightarrow> (of_nat v :: u8) AND 0x80 = 0 \<and> (of_nat v :: u8) AND 0x7F = of_nat v"
proof -
  assume v: "v < 128"
  have t: "take_bit 7 (of_nat v :: u8) = of_nat v"
    using v by (simp flip: of_nat_take_bit add: take_bit_nat_eq_self)
  have "take_bit 7 (of_nat v :: u8) AND 0x80 = 0"
    unfolding low7 [symmetric] and.assoc by simp
  then show ?thesis using t by (simp add: low7)
qed

lemma cont_byte:
  "(of_nat (128 + v mod 128) :: u8) AND 0x80 \<noteq> 0 \<and> (of_nat (128 + v mod 128) :: u8) AND 0x7F = of_nat (v mod 128)"
proof -
  define w where "w = v mod 128"
  have w: "w < 128" by (simp add: w_def)
  have "(0x80 :: u8) AND of_nat w = 0" using last_byte [OF w] by (simp add: and.commute)
  then have e: "(of_nat (128 + w) :: u8) = 0x80 OR of_nat w"
    using disjunctive_add_eq_or [of "0x80 :: u8" "of_nat w"] by simp
  have "(0x80 OR of_nat w :: u8) AND 0x80 = 0x80"
    by (rule bit_word_eqI) (auto simp: bit_simps)
  moreover have "(0x80 OR of_nat w :: u8) AND 0x7F = of_nat w"
    using last_byte [OF w] by (simp add: bit.conj_disj_distrib2)
  ultimately show ?thesis unfolding e w_def [symmetric] by simp
qed

lemma leb_chunk_value:
  assumes "b AND 0x7F = of_nat c" and "c < 128" and "sh < 32" and "c * 2 ^ sh < 2 ^ 31"
  shows "leb_chunk b (of_nat sh) = of_nat (c * 2 ^ sh)"
proof -
  have "unat (of_nat sh :: u32) mod 32 = sh" using assms(3) by (simp add: unat_of_nat32)
  moreover have "(ucast (of_nat c :: u8) :: u32) = of_nat c"
    using assms(2) by (simp add: word_unat_eq_iff unat_ucast_wider unat_of_nat take_bit_nat_eq_self)
  ultimately have "leb_chunk b (of_nat sh) = scast (of_nat (c * 2 ^ sh) :: u32)"
    by (simp add: leb_chunk_def assms(1) push_bit_eq_mult)
  also have "\<dots> = of_nat (c * 2 ^ sh)"
    using assms(4) by (rule scast_len)
  finally show ?thesis .
qed

lemma or_disjoint_add: "r < 2 ^ k \<Longrightarrow> (of_nat r :: u64) OR of_nat (c * 2 ^ k) = of_nat (r + c * 2 ^ k)"
proof -
  assume "r < 2 ^ k"
  then have "(of_nat r :: u64) = take_bit k (of_nat r)"
    by (simp flip: of_nat_take_bit add: take_bit_nat_eq_self)
  moreover have "(of_nat (c * 2 ^ k) :: u64) = push_bit k (of_nat c)" by (simp add: push_bit_eq_mult)
  moreover have "take_bit k x AND push_bit k y = 0" for x y :: u64
    by (rule bit_word_eqI) (auto simp: bit_simps)
  ultimately have "(of_nat r :: u64) AND of_nat (c * 2 ^ k) = 0" by metis
  then show ?thesis using disjunctive_add_eq_or [of "of_nat r :: u64" "of_nat (c * 2 ^ k)"] by simp
qed

lemma leb_loop_uleb:
  assumes "bytes_at m p (length (uleb128 v)) = uleb128 v" and "7 * i < 32" and "r < 2 ^ (7 * i)"
    and "r + v * 2 ^ (7 * i) < 2 ^ 31"
  shows "\<exists>sh b. leb_loop m p (of_nat r) (of_nat (7 * i)) =
    Some (of_nat (r + v * 2 ^ (7 * i)), sh, b, p + of_nat (length (uleb128 v)))"
  using assms
proof (induction v arbitrary: p r i rule: uleb128.induct)
  case (1 v)
  show ?case
  proof (cases "v < 128")
    case True
    then have u: "uleb128 v = [of_nat v]" by (subst uleb128.simps) simp
    have mp: "m p = of_nat v" using "1.prems"(1) by (simp add: u)
    have c: "leb_chunk (of_nat v) (of_nat (7 * i)) = of_nat (v * 2 ^ (7 * i))"
      using True "1.prems"(2,4) last_byte [OF True] by (intro leb_chunk_value) simp_all
    show ?thesis
      using or_disjoint_add [OF "1.prems"(3), of v] last_byte [OF True]
      by (subst leb_loop.simps) (simp add: mp c u Let_def del: of_nat_add of_nat_mult of_nat_power)
  next
    case False
    let ?c = "v mod 128"
    have u: "uleb128 v = of_nat (128 + ?c) # uleb128 (v div 128)"
      using False by (subst uleb128.simps) simp
    have mp: "m p = of_nat (128 + ?c)" and rest: "bytes_at m (p + 1) (length (uleb128 (v div 128))) = uleb128 (v div 128)"
      using "1.prems"(1) by (simp_all add: u)
    have split: "r + ?c * 2 ^ (7 * i) + v div 128 * 2 ^ (7 * Suc i) = r + v * 2 ^ (7 * i)"
    proof -
      define P :: nat where "P = 2 ^ (7 * i)"
      have P: "2 ^ (7 * Suc i) = 128 * P" by (simp add: P_def power_add)
      have "v * P = (v div 128 * 128 + ?c) * P" by simp
      also have "\<dots> = v div 128 * (128 * P) + ?c * P" by (simp only: add_mult_distrib mult.assoc)
      finally show ?thesis unfolding P P_def [symmetric] by linarith
    qed
    have small: "?c * 2 ^ (7 * i) < 2 ^ 31" using "1.prems"(4) split by linarith
    have c: "leb_chunk (of_nat (128 + ?c)) (of_nat (7 * i)) = of_nat (?c * 2 ^ (7 * i))"
      using "1.prems"(2) small cont_byte by (intro leb_chunk_value) auto
    have r': "r + ?c * 2 ^ (7 * i) < 2 ^ (7 * Suc i)"
    proof -
      have "?c * 2 ^ (7 * i) \<le> 127 * 2 ^ (7 * i)" by (intro mult_le_mono1) simp
      moreover have "(2 :: nat) ^ (7 * Suc i) = 128 * 2 ^ (7 * i)" by (simp add: power_add)
      ultimately show ?thesis using "1.prems"(3) by linarith
    qed
    have i': "7 * Suc i < 32"
    proof (rule ccontr)
      assume "\<not> ?thesis"
      then have "(2::nat) ^ 31 \<le> 2 ^ (7 * Suc i)" by (intro power_increasing) simp_all
      also have "\<dots> \<le> v div 128 * 2 ^ (7 * Suc i)" using False by simp
      finally show False using "1.prems"(4) split by linarith
    qed
    obtain sh b where IH: "leb_loop m (p + 1) (of_nat (r + ?c * 2 ^ (7 * i))) (of_nat (7 * Suc i)) =
        Some (of_nat (r + ?c * 2 ^ (7 * i) + v div 128 * 2 ^ (7 * Suc i)), sh, b,
              p + 1 + of_nat (length (uleb128 (v div 128))))"
      using "1.IH" [OF False rest i' r'] "1.prems"(4) split by auto
    have "(of_nat (7 * i) :: u32) + 7 = of_nat (7 * Suc i)" by simp
    then have "leb_loop m p (of_nat r) (of_nat (7 * i)) =
        leb_loop m (p + 1) (of_nat (r + ?c * 2 ^ (7 * i))) (of_nat (7 * Suc i))"
      using or_disjoint_add [OF "1.prems"(3), of ?c] cont_byte [of v]
      by (subst leb_loop.simps) (simp only: mp c Let_def not_False_eq_True if_True)
    then show ?thesis using IH split u by (simp only: length_Cons of_nat_Suc add.assoc) auto
  qed
qed

lemma read_uleb128_holds:
  "holds_at m (data + off) (uleb128 v) \<Longrightarrow> v < 2 ^ 31 \<Longrightarrow>
     read_uleb128 m data off = Some (of_nat v, off + of_nat (length (uleb128 v)))"
  using leb_loop_uleb [of m "data + off" v 0 0] by (auto simp: read_uleb128_def holds_at_def)

lemma decode_uleb128_bytes:
  "bytes_at m p (length (uleb128 v)) = uleb128 v \<Longrightarrow> v < 2 ^ 31 \<Longrightarrow>
     decode_uleb128 m p = Some (of_nat v, p + of_nat (length (uleb128 v)))"
  using leb_loop_uleb [of m p v 0 0] by (auto simp: decode_uleb128_def)

text \<open>
  C5. \<^verbatim>\<open>_dwarf_decode_uleb128\<close> and \<^verbatim>\<open>_dwarf_read_uleb128\<close> invert the LEB128 encoding of every number below
  \<open>2\<^sup>3\<^sup>1\<close>, and leave the pointer or the offset behind it.
\<close>

theorem uleb128_roundtrip:
  assumes "bytes_at m (data + off) (length (uleb128 v)) = uleb128 v" and "v < 2 ^ 31"
  shows "decode_uleb128 m (data + off) = Some (of_nat v, data + off + of_nat (length (uleb128 v)))
    \<and> read_uleb128 m data off = Some (of_nat v, off + of_nat (length (uleb128 v)))"
  using leb_loop_uleb [of m "data + off" v 0 0] assms
  by (auto simp: decode_uleb128_def read_uleb128_def)

theorem uleb128_roundtrip_witness:
  "decode_uleb128 (store (\<lambda>_. 0) 100 [0xE5, 0x8E, 0x26]) 100 = Some (624485, 103)"
proof -
  have u: "uleb128 624485 = [0xE5, 0x8E, 0x26]" by (simp add: uleb128.simps)
  have "bytes_at (store (\<lambda>_. 0) 100 [0xE5, 0x8E, 0x26]) (100 + 0) (length (uleb128 624485)) = uleb128 624485"
    unfolding u by simp
  from uleb128_roundtrip [OF this] show ?thesis by (simp add: u)
qed

text \<open>
  The LEB128 readers are wrong from \<open>2\<^sup>3\<^sup>1\<close> on: the fifth byte is shifted in an \<^verbatim>\<open>int\<close> and
  sign-extended, so the upper half of the result is all ones; from \<open>2\<^sup>3\<^sup>5\<close> on the shift count
  wraps, and high bits land at the bottom of the number.
\<close>

lemma uleb128_overflow:
  "uleb128 (2 ^ 31) = [0x80, 0x80, 0x80, 0x80, 0x08] \<and>
   decode_uleb128 (store (\<lambda>_. 0) 100 (uleb128 (2 ^ 31))) 100 = Some (0xFFFFFFFF80000000, 105) \<and>
   decode_uleb128 (store (\<lambda>_. 0) 100 (uleb128 (2 ^ 35))) 100 = Some (8, 106)"
proof -
  have u: "uleb128 (2 ^ 31) = [0x80, 0x80, 0x80, 0x80, 0x08]"
    "uleb128 (2 ^ 35) = [0x80, 0x80, 0x80, 0x80, 0x80, 0x01]"
    by (simp_all add: uleb128.simps)
  show ?thesis
    unfolding u by (simp add: decode_uleb128_def leb_loop.simps Let_def leb_chunk_def)
qed


section \<open>Signed LEB128 round trip\<close>

lemma bit_40: "b AND 0x40 \<noteq> 0 \<longleftrightarrow> bit b 6" for b :: u8
  using and_exp_eq_0_iff_not_bit [of b 6] by simp

lemma bit_leb_chunk:
  assumes "s < 32" and "n < 64"
  shows "bit (leb_chunk b (of_nat s)) n \<longleftrightarrow>
    (if n < 32 then s \<le> n \<and> n - s < 7 \<and> bit b (n - s) else 31 - s < 7 \<and> bit b (31 - s))"
proof -
  have s: "unat (of_nat s :: u32) mod 32 = s" using assms(1) by (simp add: unat_of_nat32)
  show ?thesis
    using assms unfolding leb_chunk_def low7 s by (auto simp: bit_simps)
qed

lemma sleb_byte:
  shows "bit (word_of_int (v mod 128) :: u8) k \<longleftrightarrow> k < 7 \<and> bit v k"
    and "bit (word_of_int (v mod 128 + 128) :: u8) k \<longleftrightarrow> k = 7 \<or> k < 7 \<and> bit v k"
proof -
  have "v mod 128 = take_bit 7 v" by (simp add: take_bit_eq_mod)
  then show "bit (word_of_int (v mod 128) :: u8) k \<longleftrightarrow> k < 7 \<and> bit v k"
    by (auto simp: bit_simps)
  have 128: "bit (128 :: int) n \<longleftrightarrow> n = 7" for n
  proof -
    have "(128 :: int) = 2 ^ 7" by simp
    then show ?thesis by (simp only: bit_exp_iff) auto
  qed
  have "take_bit 7 v + 128 = take_bit 7 v OR 128"
    by (rule disjunctive_add_eq_or, rule bit_eqI) (auto simp: bit_and_iff bit_take_bit_iff 128)
  then have "v mod 128 + 128 = take_bit 7 v OR 128" by (simp add: take_bit_eq_mod)
  then show "bit (word_of_int (v mod 128 + 128) :: u8) k \<longleftrightarrow> k = 7 \<or> k < 7 \<and> bit v k"
    by (auto simp: bit_word_of_int_iff bit_or_iff bit_take_bit_iff 128)
qed

lemma bit_small_int:
  fixes v :: int
  assumes "- (2 ^ k) \<le> v" and "v < 2 ^ k" and "k \<le> n"
  shows "bit v n \<longleftrightarrow> v < 0"
proof -
  have "signed_take_bit k v = v" using assms by (intro signed_take_bit_int_eq_self) simp_all
  then have "bit v n = bit (signed_take_bit k v) n" "v < 0 \<longleftrightarrow> bit v k"
    using signed_take_bit_negative_iff [of k v] by simp_all
  then show ?thesis using assms(3) by (simp add: bit_signed_take_bit_iff min_def)
qed

lemma sleb_last:
  assumes v: "- (2 ^ 31) \<le> v" "v < 2 ^ 31" and i: "i \<le> 4" and u: "u = drop_bit (7 * i) v" "- 64 \<le> u" "u < 64"
    and b: "b = word_of_int (u mod 128)"
  shows "sleb_extend (take_bit (7 * i) (word_of_int v) OR leb_chunk b (of_nat (7 * i))) (of_nat (7 * i) + 7) b = word_of_int v"
proof -
  have bb: "bit b k \<longleftrightarrow> k < 7 \<and> bit v (7 * i + k)" for k
    unfolding b sleb_byte(1) u(1) by (simp add: bit_drop_bit_eq)
  have neg: "bit v n \<longleftrightarrow> v < 0" if "7 * i + 6 \<le> n" for n
  proof -
    have "bit u (n - 7 * i) \<longleftrightarrow> u < 0" using bit_small_int [of 6 u "n - 7 * i"] u(2,3) that by simp
    then show ?thesis using that by (simp add: u(1) bit_drop_bit_eq)
  qed
  have top: "bit v n \<longleftrightarrow> v < 0" if "31 \<le> n" for n using bit_small_int [OF v that] .
  have s: "7 * i < 32" using i by simp
  define r :: u64 where "r = take_bit (7 * i) (word_of_int v) OR leb_chunk b (of_nat (7 * i))"
  have rb: "bit r n \<longleftrightarrow> (if n < 7 * i + 7 then bit v n else 7 * i = 28 \<and> v < 0)" if n: "n < 64" for n
  proof -
    have c: "bit (leb_chunk b (of_nat (7 * i))) n \<longleftrightarrow>
        (if n < 32 then 7 * i \<le> n \<and> n < 7 * i + 7 \<and> bit v n else 24 < 7 * i \<and> v < 0)"
      using s top [of 31] by (subst bit_leb_chunk [OF s n]) (auto simp: bb)
    have "7 * i \<noteq> 28 \<Longrightarrow> \<not> 24 < 7 * i" using i by presburger
    then show ?thesis
      unfolding r_def bit_or_iff c using i n top [of n]
      by (auto simp: bit_take_bit_iff bit_word_of_int_iff)
  qed
  have sh: "sint (of_nat (7 * i) + 7 :: u32) = int (7 * i + 7)" "unat (of_nat (7 * i) + 7 :: u32) = 7 * i + 7"
  proof -
    have "(of_nat (7 * i) + 7 :: u32) = of_nat (7 * i + 7)" by simp
    moreover have "unat (of_nat (7 * i + 7) :: u32) = 7 * i + 7" using i by (intro unat_of_nat32) simp
    ultimately show "unat (of_nat (7 * i) + 7 :: u32) = 7 * i + 7" by (simp only:)
    consider "i = 0" | "i = 1" | "i = 2" | "i = 3" | "i = 4" using i by linarith
    then show "sint (of_nat (7 * i) + 7 :: u32) = int (7 * i + 7)" by cases simp_all
  qed
  have ext: "bit (scast (push_bit k (- 1 :: u32)) :: u64) n \<longleftrightarrow> k \<le> n" if "k < 32" "n < 64" for k n
    using that by (auto simp: bit_simps)
  have b6: "b AND 0x40 \<noteq> 0 \<longleftrightarrow> v < 0" unfolding bit_40 using neg [of "7 * i + 6"] by (simp add: bb)
  have eq: "sleb_extend r (of_nat (7 * i) + 7) b =
      (if 7 * i + 7 < 32 \<and> v < 0 then r OR scast (push_bit (7 * i + 7) (- 1 :: u32)) else r)"
  proof -
    have "int (7 * i + 7) < 32 \<longleftrightarrow> 7 * i + 7 < 32" by presburger
    then show ?thesis unfolding sleb_extend_def sh b6 by (simp only:)
  qed
  show ?thesis
  unfolding r_def [symmetric]
  proof (rule bit_word_eqI)
    fix n assume "n < LENGTH(64)"
    then have n: "n < 64" by simp
    have w: "bit (word_of_int v :: u64) n \<longleftrightarrow> bit v n" using n by (simp add: bit_word_of_int_iff)
    have "7 * i + 7 < 32 \<or> 7 * i = 28" using i by presburger
    then show "bit (sleb_extend r (of_nat (7 * i) + 7) b) n \<longleftrightarrow> bit (word_of_int v :: u64) n"
    proof
      assume *: "7 * i + 7 < 32"
      show ?thesis
        unfolding eq w using * neg [of n]
        unfolding if_distrib [of "\<lambda>w. bit w n"] bit_or_iff rb [OF n] ext [OF * n] by auto
    next
      assume "7 * i = 28"
      then show ?thesis
        unfolding eq w if_distrib [of "\<lambda>w. bit w n"] bit_or_iff rb [OF n] using top [of n] by auto
    qed
  qed
qed

lemma sleb_more:
  assumes "i < 4" and u: "u = drop_bit (7 * i) v" and b: "b = word_of_int (u mod 128 + 128)"
  shows "take_bit (7 * i) (word_of_int v) OR leb_chunk b (of_nat (7 * i)) = take_bit (7 * Suc i) (word_of_int v :: u64)"
proof (rule bit_word_eqI)
  fix n assume "n < LENGTH(64)"
  then have n: "n < 64" by simp
  have bb: "k < 7 \<Longrightarrow> bit b k \<longleftrightarrow> bit v (7 * i + k)" for k
    unfolding b sleb_byte(2) u by (auto simp: bit_drop_bit_eq)
  have c: "bit (leb_chunk b (of_nat (7 * i))) n \<longleftrightarrow> 7 * i \<le> n \<and> n < 7 * Suc i \<and> bit v n"
    using assms(1) n bb [of "n - 7 * i"] by (subst bit_leb_chunk) auto
  show "bit (take_bit (7 * i) (word_of_int v) OR leb_chunk b (of_nat (7 * i))) n \<longleftrightarrow>
      bit (take_bit (7 * Suc i) (word_of_int v :: u64)) n"
    unfolding bit_or_iff c using n by (auto simp: bit_take_bit_iff bit_word_of_int_iff)
qed

lemma leb_loop_sleb:
  assumes "- (2 ^ 31) \<le> v" and "v < 2 ^ 31" and "i \<le> 4" and "u = drop_bit (7 * i) v"
    and "bytes_at m p (length (sleb128 u)) = sleb128 u"
  shows "\<exists>r sh b. leb_loop m p (take_bit (7 * i) (word_of_int v)) (of_nat (7 * i)) =
      Some (r, sh, b, p + of_nat (length (sleb128 u))) \<and> sleb_extend r sh b = word_of_int v"
  using assms(3-)
proof (induction u arbitrary: p i rule: sleb128.induct)
  case (1 u)
  show ?case
  proof (cases "- 64 \<le> u \<and> u < 64")
    case True
    then have s: "sleb128 u = [word_of_int (u mod 128)]" by (subst sleb128.simps) simp
    have mp: "m p = word_of_int (u mod 128)" using "1.prems"(3) by (simp add: s)
    have "\<not> bit (word_of_int (u mod 128) :: u8) 7" by (simp add: sleb_byte)
    then have "(word_of_int (u mod 128) :: u8) AND 0x80 = 0"
      using and_exp_eq_0_iff_not_bit [of "word_of_int (u mod 128) :: u8" 7] by simp
    then show ?thesis
      using sleb_last [OF assms(1,2) "1.prems"(1,2) _ _ refl] True
      by (subst leb_loop.simps) (simp add: mp s Let_def)
  next
    case False
    then have s: "sleb128 u = word_of_int (u mod 128 + 128) # sleb128 (u div 128)"
      by (subst sleb128.simps) simp
    have i: "i < 4"
    proof (rule ccontr)
      assume "\<not> i < 4"
      then have "u = v div 2 ^ 28" using "1.prems"(1,2) by (simp add: drop_bit_eq_div)
      moreover have "- (2 ^ 31) div 2 ^ 28 \<le> v div 2 ^ 28" "v div 2 ^ 28 \<le> 2 ^ 31 div 2 ^ 28"
        using assms(1,2) by (intro zdiv_mono1; simp)+
      ultimately show False using False by simp
    qed
    have "(2 :: int) ^ (7 * Suc i) = 2 ^ (7 * i) * 128" by (simp add: power_add)
    then have u': "u div 128 = drop_bit (7 * Suc i) v"
      unfolding "1.prems"(2) drop_bit_eq_div by (simp only: zdiv_zmult2_eq zero_le_numeral)
    have mp: "m p = word_of_int (u mod 128 + 128)"
      and rest: "bytes_at m (p + 1) (length (sleb128 (u div 128))) = sleb128 (u div 128)"
      using "1.prems"(3) by (simp_all add: s)
    have "bit (word_of_int (u mod 128 + 128) :: u8) 7" unfolding sleb_byte by simp
    then have "(word_of_int (u mod 128 + 128) :: u8) AND 0x80 \<noteq> 0"
      using and_exp_eq_0_iff_not_bit [of "word_of_int (u mod 128 + 128) :: u8" 7] by simp
    moreover have "(of_nat (7 * i) :: u32) + 7 = of_nat (7 * Suc i)" by simp
    ultimately have "leb_loop m p (take_bit (7 * i) (word_of_int v)) (of_nat (7 * i)) =
        leb_loop m (p + 1) (take_bit (7 * Suc i) (word_of_int v)) (of_nat (7 * Suc i))"
      using sleb_more [OF i "1.prems"(2) refl]
      by (subst leb_loop.simps) (simp only: mp Let_def not_False_eq_True if_True)
    then show ?thesis
      using "1.IH" [OF False _ u' rest] i by (simp only: s length_Cons of_nat_Suc add.assoc)
  qed
qed

lemma read_sleb128_holds:
  "holds_at m (data + off) (sleb128 v) \<Longrightarrow> - (2 ^ 31) \<le> v \<Longrightarrow> v < 2 ^ 31 \<Longrightarrow>
     read_sleb128 m data off = Some (word_of_int v, off + of_nat (length (sleb128 v)))"
  using leb_loop_sleb [of v 0 v m "data + off"] by (auto simp: read_sleb128_def holds_at_def)

lemma decode_sleb128_bytes:
  assumes "bytes_at m p (length (sleb128 v)) = sleb128 v" and "- (2 ^ 31) \<le> v" and "v < 2 ^ 31"
  shows "decode_sleb128 m p = Some (word_of_int v, p + of_nat (length (sleb128 v)))"
  using leb_loop_sleb [OF assms(2,3), of 0 v m p] assms(1) by (auto simp: decode_sleb128_def)

text \<open>
  C32. \<^verbatim>\<open>_dwarf_decode_sleb128\<close> and \<^verbatim>\<open>_dwarf_read_sleb128\<close> invert the signed LEB128 encoding of every
  32-bit number, by the sign bit of the last byte for the shorter encodings and by the sign
  extension of the shifted \<^verbatim>\<open>int\<close> for the five-byte ones.
\<close>

theorem sleb128_roundtrip:
  assumes "bytes_at m (data + off) (length (sleb128 v)) = sleb128 v" and "- (2 ^ 31) \<le> v" and "v < 2 ^ 31"
  shows "decode_sleb128 m (data + off) = Some (word_of_int v, data + off + of_nat (length (sleb128 v)))
    \<and> read_sleb128 m data off = Some (word_of_int v, off + of_nat (length (sleb128 v)))"
  using leb_loop_sleb [OF assms(2,3), of 0 v m "data + off"] assms(1)
  by (auto simp: decode_sleb128_def read_sleb128_def)

theorem sleb128_roundtrip_witness:
  "decode_sleb128 (store (\<lambda>_. 0) 100 [0xC0, 0xBB, 0x78]) 100 = Some (- 123456, 103)"
proof -
  have u: "sleb128 (- 123456) = [0xC0, 0xBB, 0x78]" by (simp add: sleb128.simps)
  have "bytes_at (store (\<lambda>_. 0) 100 [0xC0, 0xBB, 0x78]) (100 + 0) (length (sleb128 (- 123456))) = sleb128 (- 123456)"
    unfolding u by simp
  from sleb128_roundtrip [OF this] show ?thesis by (simp add: u)
qed

end
