(* ===== verification/Disk.thy ===== *)
theory Disk
  imports Memory
begin

text \<open>
  The IDE disk as both loaders (\<^verbatim>\<open>boot/main.c\<close>, \<^verbatim>\<open>kern/elf_rw.c\<close>) drive it: a status register that is
  polled, the command registers, and the sector that the drive then transfers. The drive is not
  part of the program: its status and the map from command registers to sectors are fields of
  the state that nothing changes. The contract that the loaders rely on is a locale.
\<close>

section \<open>The drive\<close>

record diskm =
  dmem :: mem
  dclk :: nat
  dstat :: "nat \<Rightarrow> u8"
  dsect :: "u8 list \<Rightarrow> nat \<Rightarrow> u8"

definition SECTSIZE :: nat where "SECTSIZE = 512"

text \<open>\<^verbatim>\<open>while ((inb(0x1F7) & 0xC0) != 0x40);\<close>\<close>

partial_function (option) waitdisk :: "diskm \<Rightarrow> diskm option" where
  "waitdisk D =
     (let st = dstat D (dclk D); D = D\<lparr>dclk := dclk D + 1\<rparr>
      in if st AND 0xC0 \<noteq> 0x40 then waitdisk D else Some D)"

text \<open>
  The six \<^verbatim>\<open>outb\<close> of a read command (registers 0x1F2 to 0x1F7), and \<^verbatim>\<open>insl(0x1F0, dst, SECTSIZE/4)\<close>.
\<close>

definition ide_command :: "u64 \<Rightarrow> u8 list" where
  "ide_command sector =
     [1, ucast sector, ucast (drop_bit 8 sector), ucast (drop_bit 16 sector),
      ucast (drop_bit 24 sector) OR 0xE0, 0x20]"

definition insl :: "(nat \<Rightarrow> u8) \<Rightarrow> addr \<Rightarrow> nat \<Rightarrow> mem \<Rightarrow> mem" where
  "insl data dst cnt m = store m dst (map data [0..<4 * cnt])"

definition readsect :: "addr \<Rightarrow> u64 \<Rightarrow> diskm \<Rightarrow> diskm option" where
  "readsect dst sector D =
     Option.bind (waitdisk D) (\<lambda>D.
     Option.bind (waitdisk D) (\<lambda>D.
     Some (D\<lparr>dmem := insl (dsect D (ide_command sector)) dst (SECTSIZE div 4) (dmem D)\<rparr>)))"

text \<open>The bytes of a sector.\<close>

definition sector_of :: "diskm \<Rightarrow> u64 \<Rightarrow> u8 list" where
  "sector_of D s = map (dsect D (ide_command s)) [0..<SECTSIZE]"

section \<open>The contract of a sector reader\<close>

text \<open>
  \<open>ok\<close> describes the states from which the reader returns; \<open>img\<close> is the disk. A read stores one
  sector and keeps the rest.
\<close>

locale sector_reader =
  fixes ok :: "'d \<Rightarrow> bool" and mem_of :: "'d \<Rightarrow> mem" and img :: "'d \<Rightarrow> u64 \<Rightarrow> u8 list"
    and rd :: "addr \<Rightarrow> u64 \<Rightarrow> 'd \<Rightarrow> 'd option"
  assumes img_len: "length (img d s) = SECTSIZE"
    and rd_stores: "ok d \<Longrightarrow> \<exists>d'. rd dst s d = Some d' \<and> ok d' \<and> img d' = img d
      \<and> mem_of d' = store (mem_of d) dst (img d s)"
begin

text \<open>Reading \<open>n\<close> sectors one after the other.\<close>

primrec reads :: "nat \<Rightarrow> addr \<Rightarrow> u64 \<Rightarrow> 'd \<Rightarrow> 'd option" where
  "reads 0 dst s d = Some d"
| "reads (Suc n) dst s d = Option.bind (rd dst s d) (reads n (dst + 512) (s + 1))"

lemma reads_snoc:
  "Option.bind (reads n dst s d) (rd (dst + of_nat (n * 512)) (s + of_nat n)) = reads (Suc n) dst s d"
proof (induction n arbitrary: dst s d)
  case (Suc n)
  have "Option.bind (reads n (dst + 512) (s + 1) d')
      (rd (dst + of_nat (Suc n * 512)) (s + of_nat (Suc n))) = reads (Suc n) (dst + 512) (s + 1) d'" for d'
    using Suc.IH [of "dst + 512" "s + 1" d'] by (simp add: algebra_simps)
  then show ?case by (cases "rd dst s d") simp_all
next
  case 0
  show ?case by (cases "rd dst s d") simp_all
qed

text \<open>The run of bytes that \<open>n\<close> sectors hold.\<close>

primrec sectors :: "'d \<Rightarrow> nat \<Rightarrow> u64 \<Rightarrow> u8 list" where
  "sectors d 0 s = []"
| "sectors d (Suc n) s = img d s @ sectors d n (s + 1)"

lemma length_sectors [simp]: "length (sectors d n s) = n * SECTSIZE"
  by (induction n arbitrary: s) (simp_all add: img_len)

lemma sectors_cong: "img d' = img d \<Longrightarrow> sectors d' n s = sectors d n s"
  by (induction n arbitrary: s) simp_all

lemma sectors_nth:
  "k < n * SECTSIZE \<Longrightarrow> sectors d n s ! k = img d (s + of_nat (k div SECTSIZE)) ! (k mod SECTSIZE)"
proof (induction n arbitrary: s k)
  case (Suc n)
  show ?case
  proof (cases "k < SECTSIZE")
    case True
    then show ?thesis by (simp add: nth_append img_len)
  next
    case False
    then have "k - SECTSIZE < n * SECTSIZE" using Suc.prems by simp
    moreover have "k div SECTSIZE = Suc ((k - SECTSIZE) div SECTSIZE)"
      "(k - SECTSIZE) mod SECTSIZE = k mod SECTSIZE"
      using False by (simp_all add: SECTSIZE_def le_div_geq le_mod_geq)
    ultimately show ?thesis
      using False Suc.IH [of "k - SECTSIZE" "s + 1"] by (simp add: nth_append img_len add_ac)
  qed
qed simp

lemma reads_store:
  "ok d \<Longrightarrow> \<exists>d'. reads n dst s d = Some d' \<and> ok d' \<and> img d' = img d
     \<and> mem_of d' = store (mem_of d) dst (sectors d n s)"
proof (induction n arbitrary: d dst s)
  case (Suc n)
  obtain d1 where d1: "rd dst s d = Some d1" "ok d1" "img d1 = img d"
    "mem_of d1 = store (mem_of d) dst (img d s)"
    using rd_stores [OF Suc.prems] by blast
  obtain d2 where "reads n (dst + 512) (s + 1) d1 = Some d2" "ok d2" "img d2 = img d1"
    "mem_of d2 = store (mem_of d1) (dst + 512) (sectors d1 n (s + 1))"
    using Suc.IH [OF d1(2)] by blast
  then show ?case
    using d1 sectors_cong [OF d1(3)] by (simp add: store_append img_len SECTSIZE_def)
qed simp

text \<open>A byte of the run is where it belongs, and nothing else changes.\<close>

lemma reads_lookup:
  assumes "ok d" and "n * SECTSIZE \<le> 2 ^ 64"
  shows "\<exists>d'. reads n dst s d = Some d' \<and> ok d' \<and> img d' = img d
    \<and> (\<forall>k < n * SECTSIZE. mem_of d' (dst + of_nat k) = img d (s + of_nat (k div SECTSIZE)) ! (k mod SECTSIZE))
    \<and> (\<forall>a. a \<notin> span dst (n * SECTSIZE) \<longrightarrow> mem_of d' a = mem_of d a)"
proof -
  obtain d' where d': "reads n dst s d = Some d'" "ok d'" "img d' = img d"
    "mem_of d' = store (mem_of d) dst (sectors d n s)"
    using reads_store [OF assms(1)] by blast
  have at: "mem_of d' a = (if a \<in> span dst (n * SECTSIZE) then sectors d n s ! unat (a - dst) else mem_of d a)"
    for a
    using store_lookup [of "sectors d n s" "mem_of d" dst a] assms(2) d'(4) by simp
  have "mem_of d' (dst + of_nat k) = img d (s + of_nat (k div SECTSIZE)) ! (k mod SECTSIZE)"
    if "k < n * SECTSIZE" for k
  proof -
    have "k < 2 ^ 64" using that assms(2) by simp
    then have "unat (of_nat k :: addr) = k" by (rule unat_of_nat64)
    then show ?thesis using that sectors_nth [OF that] by (simp add: at span_iff)
  qed
  then show ?thesis using d' at by auto
qed

end

text \<open>The number of sectors that hold \<open>k\<close> bytes.\<close>

lemma sectors_needed:
  "(k + (SECTSIZE - 1)) div SECTSIZE * SECTSIZE < k + SECTSIZE"
  "k \<le> (k + (SECTSIZE - 1)) div SECTSIZE * SECTSIZE"
  using mod_less_divisor [of SECTSIZE "k + (SECTSIZE - 1)"]
    div_mult_mod_eq [of "k + (SECTSIZE - 1)" SECTSIZE]
  unfolding SECTSIZE_def by linarith+

section \<open>The drive meets the contract\<close>

text \<open>A drive that is ready on every poll.\<close>

definition drive_ready :: "diskm \<Rightarrow> bool" where
  "drive_ready D \<longleftrightarrow> (\<forall>k. dstat D k AND 0xC0 = 0x40)"

lemma waitdisk_ready: "drive_ready D \<Longrightarrow> waitdisk D = Some (D\<lparr>dclk := dclk D + 1\<rparr>)"
  by (subst waitdisk.simps) (simp add: drive_ready_def Let_def)

lemma readsect_stores:
  assumes "drive_ready D"
  shows "\<exists>D'. readsect dst s D = Some D' \<and> drive_ready D' \<and> sector_of D' = sector_of D
    \<and> dmem D' = store (dmem D) dst (sector_of D s)"
proof -
  have "drive_ready (D\<lparr>dclk := k\<rparr>)" for k using assms by (simp add: drive_ready_def)
  then show ?thesis
    using assms
    by (simp add: readsect_def waitdisk_ready drive_ready_def sector_of_def fun_eq_iff insl_def
        SECTSIZE_def)
qed

interpretation ide: sector_reader drive_ready dmem sector_of readsect
  by unfold_locales (simp add: sector_of_def, erule readsect_stores)

text \<open>
  The image of the kernel on the disk: it starts in sector 1, behind the boot sector.
\<close>

definition disk_image :: "diskm \<Rightarrow> nat \<Rightarrow> u8" where
  "disk_image D n = sector_of D (of_nat (n div SECTSIZE) + 1) ! (n mod SECTSIZE)"

lemma ide_image:
  assumes "drive_ready D" and "n * SECTSIZE \<le> 2 ^ 64" and "off mod SECTSIZE = 0"
  shows "\<exists>D'. ide.reads n dst (of_nat (off div SECTSIZE) + 1) D = Some D' \<and> drive_ready D'
    \<and> sector_of D' = sector_of D
    \<and> (\<forall>k < n * SECTSIZE. dmem D' (dst + of_nat k) = disk_image D (off + k))
    \<and> (\<forall>a. a \<notin> span dst (n * SECTSIZE) \<longrightarrow> dmem D' a = dmem D a)"
proof -
  have img: "sector_of D (of_nat (off div SECTSIZE) + 1 + of_nat (k div SECTSIZE)) ! (k mod SECTSIZE)
      = disk_image D (off + k)" for k
  proof -
    have "(off + k) div SECTSIZE = off div SECTSIZE + k div SECTSIZE"
      using assms(3) by (metis div_plus_div_distrib_dvd_left dvd_eq_mod_eq_0)
    moreover have "(off + k) mod SECTSIZE = k mod SECTSIZE"
      using assms(3) by (metis add_0 mod_add_left_eq)
    ultimately show ?thesis by (simp add: disk_image_def add_ac)
  qed
  show ?thesis
    using ide.reads_lookup [OF assms(1,2), of dst "of_nat (off div SECTSIZE) + 1"]
    unfolding img by blast
qed

section \<open>Copies of the file\<close>

definition elf_file :: "diskm \<Rightarrow> mem" where
  "elf_file D a = disk_image D (unat a)"

text \<open>The \<open>n\<close> bytes of the file from \<open>q\<close> on lie at \<open>p\<close>.\<close>

definition copied :: "mem \<Rightarrow> addr \<Rightarrow> diskm \<Rightarrow> u64 \<Rightarrow> nat \<Rightarrow> bool" where
  "copied m p D q n \<longleftrightarrow> (\<forall>k<n. m (p + of_nat k) = elf_file D (q + of_nat k))"

definition agree :: "nat \<Rightarrow> mem \<Rightarrow> mem \<Rightarrow> bool" where
  "agree lim m m' \<longleftrightarrow> (\<forall>a. unat a < lim \<longrightarrow> m a = m' a)"

lemma elf_file_cong: "sector_of D' = sector_of D \<Longrightarrow> elf_file D' = elf_file D"
  by (simp add: elf_file_def disk_image_def fun_eq_iff)

lemma copied_cong: "sector_of D' = sector_of D \<Longrightarrow> copied m p D' q n = copied m p D q n"
  unfolding copied_def by (simp only: elf_file_cong [of D' D])

lemma copied_0 [simp]: "copied m p D q 0"
  by (simp add: copied_def)

lemma copied_bytes: "copied m p D q n \<Longrightarrow> bytes_at m p n = bytes_at (elf_file D) q n"
  by (rule nth_equalityI) (simp_all add: copied_def bytes_at_nth)

lemma copied_sub:
  "copied m p D q n \<Longrightarrow> j + l \<le> n \<Longrightarrow> copied m (p + of_nat j) D (q + of_nat j) l"
  unfolding copied_def
proof (intro allI impI)
  fix k assume c: "\<forall>k<n. m (p + of_nat k) = elf_file D (q + of_nat k)" and "j + l \<le> n" "k < l"
  have "j + k < n" using \<open>j + l \<le> n\<close> \<open>k < l\<close> by simp
  from c [rule_format, OF this]
  show "m (p + of_nat j + of_nat k) = elf_file D (q + of_nat j + of_nat k)" by (simp add: add.assoc)
qed

lemma copied_agree:
  assumes "copied m p D q n" and "agree lim m m'" and "n = 0 \<or> unat p + n \<le> lim" and "lim \<le> 2 ^ 64"
  shows "copied m' p D q n"
  unfolding copied_def
proof (intro allI impI)
  fix k assume k: "k < n"
  then have "unat p + k < lim" using assms(3) by simp
  moreover from this have "unat (p + of_nat k) = unat p + k" using assms(4) by (intro unat_plus_nat) simp
  ultimately have "m (p + of_nat k) = m' (p + of_nat k)" using assms(2) by (simp add: agree_def)
  then show "m' (p + of_nat k) = elf_file D (q + of_nat k)"
    using assms(1) k by (simp add: copied_def)
qed

lemma agree_mono: "agree lim m m' \<Longrightarrow> lim' \<le> lim \<Longrightarrow> agree lim' m m'"
  by (simp add: agree_def)

lemma agree_trans: "agree lim m m' \<Longrightarrow> agree lim m' m'' \<Longrightarrow> agree lim m m''"
  by (simp add: agree_def)

lemma copied_cstr:
  assumes "copied m p D q (Suc (length xs))"
  shows "cstr m p xs = cstr (elf_file D) q xs"
  using copied_bytes [OF assms] by (simp only: cstr_bytes)

text \<open>Nothing changes outside the addresses from \<open>lo\<close> to \<open>hi\<close>.\<close>

definition kept :: "nat \<Rightarrow> nat \<Rightarrow> mem \<Rightarrow> mem \<Rightarrow> bool" where
  "kept lo hi m m' \<longleftrightarrow> (\<forall>a. unat a < lo \<or> hi \<le> unat a \<longrightarrow> m' a = m a)"

lemma kept_agree: "kept lo hi m m' \<Longrightarrow> agree lo m m'"
  by (simp add: kept_def agree_def)

lemma kept_refl: "kept lo hi m m"
  by (simp add: kept_def)

lemma kept_trans: "kept lo mid m m' \<Longrightarrow> kept mid hi m' m'' \<Longrightarrow> lo \<le> mid \<Longrightarrow> mid \<le> hi \<Longrightarrow> kept lo hi m m''"
  by (auto simp: kept_def)

section \<open>A concrete disk\<close>

text \<open>A ready drive whose bytes count up in each sector: the concrete disk of the witnesses.\<close>

definition counting_disk :: diskm where
  "counting_disk = \<lparr>dmem = \<lambda>_. 0, dclk = 0, dstat = \<lambda>_. 0x40, dsect = \<lambda>_ k. of_nat k\<rparr>"

lemma counting_disk_ready: "drive_ready counting_disk"
  by (simp add: drive_ready_def counting_disk_def)

lemma counting_disk_image: "disk_image counting_disk n = of_nat (n mod SECTSIZE)"
  by (simp add: disk_image_def sector_of_def counting_disk_def SECTSIZE_def)

text \<open>A small disk with the kernel image \<open>f\<close>; the number of the sector fits into one register.\<close>

definition nat_disk :: "(nat \<Rightarrow> u8) \<Rightarrow> mem \<Rightarrow> diskm" where
  "nat_disk f m = \<lparr>dmem = m, dclk = 0, dstat = \<lambda>_. 0x40, dsect = \<lambda>cmd k. f ((unat (cmd ! 1) - 1) * 512 + k)\<rparr>"

lemma nat_disk_image: "n < 130560 \<Longrightarrow> disk_image (nat_disk f m) n = f n"
proof -
  assume n: "n < 130560"
  then have "n div 512 < 255" by simp
  then have "unat (ucast (of_nat (n div 512) + 1 :: u64) :: u8) = n div 512 + 1"
    using unat_of_nat64 [of "n div 512 + 1"]
    by (simp add: unsigned_ucast_eq take_bit_nat_eq_self_iff add.commute)
  then show ?thesis
    by (simp add: disk_image_def sector_of_def nat_disk_def ide_command_def SECTSIZE_def)
qed

end
