(* ===== verification/ElfRw.thy ===== *)
theory ElfRw
  imports Disk CString
begin

text \<open>
  \<^verbatim>\<open>kern/elf_rw.c\<close>: reading the section headers of the kernel image from the disk and placing the
  DWARF sections in memory behind the kernel. The table \<^verbatim>\<open>section_info\<close> is a list of five records.
  A failed \<^verbatim>\<open>assert\<close> panics and never returns: \<open>None\<close>. So is an index beyond \<^verbatim>\<open>secthdr_ptr[20]\<close>.
\<close>

section \<open>Data\<close>

record dsection =
  ds_name :: string
  ds_data :: addr
  ds_addr :: u64
  ds_size :: u64

definition DEBUG_INFO :: nat where "DEBUG_INFO = 0"
definition DEBUG_ABBREV :: nat where "DEBUG_ABBREV = 1"
definition DEBUG_FRAME :: nat where "DEBUG_FRAME = 2"
definition DEBUG_LINE :: nat where "DEBUG_LINE = 3"
definition DEBUG_STR :: nat where "DEBUG_STR = 4"

definition section_info0 :: "dsection list" where
  "section_info0 =
     map (\<lambda>n. \<lparr>ds_name = n, ds_data = 0, ds_addr = 0, ds_size = 0\<rparr>)
       [''.debug_info'', ''.debug_abbrev'', ''.eh_frame'', ''.debug_line'', ''.debug_str'']"

definition KELFHDR :: u64 where "KELFHDR = 0x10000 + KERNBASE"

text \<open>\<^verbatim>\<open>USTABDATA\<close> of \<^verbatim>\<open>inc/memlayout.h\<close> is \<^verbatim>\<open>PTSIZE\<close>.\<close>

definition USTABDATA :: u64 where "USTABDATA = 512 * 4096"

definition OFFSET_CORRECT :: "u64 \<Rightarrow> u64" where
  "OFFSET_CORRECT x = x - ROUNDDOWN x (of_nat SECTSIZE)"

text \<open>Little-endian fields of the headers.\<close>

definition field16 :: "mem \<Rightarrow> addr \<Rightarrow> u64" where
  "field16 m a = foldr (\<lambda>b acc. ucast b OR push_bit 8 acc) (bytes_at m a 2) 0"

definition field32 :: "mem \<Rightarrow> addr \<Rightarrow> u64" where
  "field32 m a = foldr (\<lambda>b acc. ucast b OR push_bit 8 acc) (bytes_at m a 4) 0"

definition field64 :: "mem \<Rightarrow> addr \<Rightarrow> u64" where
  "field64 m a = foldr (\<lambda>b acc. ucast b OR push_bit 8 acc) (bytes_at m a 8) 0"

text \<open>\<^verbatim>\<open>Elf64\<close> and \<^verbatim>\<open>Secthdr64\<close> of \<^verbatim>\<open>kern/dwarf_elf.h\<close>.\<close>

definition e_shoff :: "mem \<Rightarrow> addr \<Rightarrow> u64" where "e_shoff m e = field64 m (e + 40)"
definition e_shentsize :: "mem \<Rightarrow> addr \<Rightarrow> u64" where "e_shentsize m e = field16 m (e + 58)"
definition e_shnum :: "mem \<Rightarrow> addr \<Rightarrow> u64" where "e_shnum m e = field16 m (e + 60)"
definition e_shstrndx :: "mem \<Rightarrow> addr \<Rightarrow> u64" where "e_shstrndx m e = field16 m (e + 62)"
definition sh_name :: "mem \<Rightarrow> addr \<Rightarrow> u64" where "sh_name m h = field32 m h"
definition sh_addr :: "mem \<Rightarrow> addr \<Rightarrow> u64" where "sh_addr m h = field64 m (h + 16)"
definition sh_offset :: "mem \<Rightarrow> addr \<Rightarrow> u64" where "sh_offset m h = field64 m (h + 24)"
definition sh_size :: "mem \<Rightarrow> addr \<Rightarrow> u64" where "sh_size m h = field64 m (h + 32)"

section \<open>Section table\<close>

definition find_section :: "dsection list \<Rightarrow> string \<Rightarrow> dsection option" where
  "find_section si name = find (\<lambda>s. ds_name s = name) si"

definition set_section :: "nat \<Rightarrow> addr \<Rightarrow> u64 \<Rightarrow> dsection list \<Rightarrow> dsection list" where
  "set_section i data sz si =
     si [i := (si ! i)\<lparr>ds_data := data, ds_addr := data, ds_size := sz\<rparr>]"

text \<open>The chain of \<^verbatim>\<open>strcmp\<close> in both routines: which section a header names.\<close>

definition which_section :: "mem \<Rightarrow> addr \<Rightarrow> nat option" where
  "which_section m name =
     (if cstr m name (lit ''.debug_info'') then Some DEBUG_INFO
      else if cstr m name (lit ''.debug_abbrev'') then Some DEBUG_ABBREV
      else if cstr m name (lit ''.debug_line'') then Some DEBUG_LINE
      else if cstr m name (lit ''.eh_frame'') then Some DEBUG_FRAME
      else if cstr m name (lit ''.debug_str'') then Some DEBUG_STR
      else None)"

text \<open>\<^verbatim>\<open>find_debug_sections\<close>: \<open>debug_address\<close> moves on for every section found, \<^verbatim>\<open>.eh_frame\<close> included.\<close>

primrec find_debug_loop ::
    "nat \<Rightarrow> mem \<Rightarrow> addr \<Rightarrow> addr \<Rightarrow> u64 \<Rightarrow> dsection list \<Rightarrow> dsection list" where
  "find_debug_loop 0 m strtab sh da si = si"
| "find_debug_loop (Suc n) m strtab sh da si =
     (case which_section m (strtab + sh_name m sh) of
        None \<Rightarrow> find_debug_loop n m strtab (sh + 64) da si
      | Some i \<Rightarrow>
          find_debug_loop n m strtab (sh + 64) (da + sh_size m sh)
            (set_section i (if i = DEBUG_FRAME then sh_addr m sh else da) (sh_size m sh) si))"

definition find_debug_sections :: "mem \<Rightarrow> addr \<Rightarrow> dsection list \<Rightarrow> dsection list" where
  "find_debug_sections m elf si =
     (let sh = elf + e_shoff m elf;
          shstr_tab = sh + 64 * e_shstrndx m elf
      in find_debug_loop (unat (e_shnum m elf)) m (elf + sh_offset m shstr_tab) sh USTABDATA si)"

section \<open>Reading from the disk\<close>

text \<open>The loop carries \<^verbatim>\<open>pa\<close>, \<^verbatim>\<open>offset\<close> and \<^verbatim>\<open>*kvoffset\<close>.\<close>

partial_function (option) kreadseg_loop ::
    "u64 \<Rightarrow> u64 \<Rightarrow> u64 \<Rightarrow> u64 \<Rightarrow> diskm \<Rightarrow> (u64 \<times> u64 \<times> u64 \<times> diskm) option" where
  "kreadseg_loop pa end_pa offset kv D =
     (if pa < end_pa
      then Option.bind (readsect pa offset D)
             (kreadseg_loop (pa + of_nat SECTSIZE) end_pa (offset + 1) (kv + of_nat SECTSIZE))
      else Some (pa, offset, kv, D))"

text \<open>\<^verbatim>\<open>readseg\<close>: the new value of \<^verbatim>\<open>*kvoffset\<close> and the state.\<close>

definition kreadseg :: "u64 \<Rightarrow> u64 \<Rightarrow> u64 \<Rightarrow> u64 \<Rightarrow> diskm \<Rightarrow> (u64 \<times> diskm) option" where
  "kreadseg pa count offset kv D =
     (let orgoff = offset; end_pa = pa + count
      in if pa mod of_nat SECTSIZE \<noteq> 0 then None
         else
           let pa = pa AND NOT (of_nat SECTSIZE - 1); offset = offset div of_nat SECTSIZE + 1
           in Option.bind (kreadseg_loop pa end_pa offset kv D) (\<lambda>(pa, offset, kv, D).
              Option.bind
                (if orgoff mod of_nat SECTSIZE + count > of_nat SECTSIZE
                 then map_option (Pair (kv + of_nat SECTSIZE)) (readsect pa offset D)
                 else Some (kv, D)) (\<lambda>(kv, D).
              if kv mod of_nat SECTSIZE = 0 then Some (kv, D) else None)))"

text \<open>The loop of \<^verbatim>\<open>read_section_headers\<close> over the headers.\<close>

fun read_sections_loop ::
    "addr list \<Rightarrow> addr \<Rightarrow> addr \<Rightarrow> u64 \<Rightarrow> dsection list \<Rightarrow> diskm
      \<Rightarrow> (u64 \<times> dsection list \<times> diskm) option" where
  "read_sections_loop [] nametab kvbase kv si D = Some (kv, si, D)"
| "read_sections_loop (h # hs) nametab kvbase kv si D =
     (if kv mod of_nat SECTSIZE \<noteq> 0 then None
      else case which_section (dmem D) (nametab + sh_name (dmem D) h) of
          None \<Rightarrow> read_sections_loop hs nametab kvbase kv si D
        | Some i \<Rightarrow>
            if i = DEBUG_FRAME
            then read_sections_loop hs nametab kvbase kv
                   (set_section i (sh_addr (dmem D) h) (sh_size (dmem D) h) si) D
            else Option.bind
                   (kreadseg (kvbase + kv) (sh_size (dmem D) h) (sh_offset (dmem D) h) kv D)
                   (\<lambda>(kv', D). read_sections_loop hs nametab kvbase kv'
                      (set_section i (kvbase + kv + OFFSET_CORRECT (sh_offset (dmem D) h))
                         (sh_size (dmem D) h) si) D))"

definition read_section_headers ::
    "u64 \<Rightarrow> u64 \<Rightarrow> dsection list \<Rightarrow> diskm \<Rightarrow> (u64 \<times> dsection list \<times> diskm) option" where
  "read_section_headers elfhdr to_va si D =
     (let kvbase = ROUNDUP to_va (of_nat SECTSIZE);
          offset = (if elfhdr = KELFHDR then e_shoff (dmem D) elfhdr
                    else e_shoff (dmem D) elfhdr + (elfhdr - KERNBASE));
          n = e_shnum (dmem D) elfhdr;
          sz = e_shentsize (dmem D) elfhdr
      in Option.bind (kreadseg kvbase (scast (ucast (n * sz) :: u32)) offset 0 D) (\<lambda>(kv, D).
         let secthdr = kvbase + (offset - ROUNDDOWN offset (of_nat SECTSIZE));
             ptrs = map (\<lambda>i. secthdr + 64 * of_nat i) [0..<unat n];
             strndx = e_shstrndx (dmem D) elfhdr
         in if 20 < unat n \<or> unat n \<le> unat strndx then None
            else
              let sec_name = ptrs ! unat strndx; temp = kv; off = sh_offset (dmem D) sec_name
              in Option.bind (kreadseg (kvbase + kv) (sh_size (dmem D) sec_name) off kv D) (\<lambda>(kv, D).
                 let nametab = kvbase + temp + OFFSET_CORRECT (sh_offset (dmem D) sec_name)
                 in map_option (\<lambda>(kv, si, D). (kvbase + kv, si, D))
                      (read_sections_loop ptrs nametab kvbase kv si D))))"

section \<open>What a segment read does\<close>

lemma sector_aligned: "unat pa mod SECTSIZE = 0 \<Longrightarrow> pa AND NOT (of_nat SECTSIZE - 1) = pa" for pa :: u64
proof -
  assume a: "unat pa mod SECTSIZE = 0"
  have "pa AND 0x1FF = pa mod 0x200"
    using take_bit_eq_mask [of 9 pa] by (simp add: take_bit_eq_mod mask_eq_exp_minus_1)
  also have "\<dots> = 0" using a by (simp add: word_unat_eq_iff unat_mod_distrib SECTSIZE_def)
  finally have "pa AND 0x1FF = 0" .
  moreover have "pa = (pa AND 0x1FF) OR (pa AND NOT 0x1FF)"
    by (rule bit_word_eqI) (auto simp: bit_simps)
  ultimately show ?thesis by (simp add: SECTSIZE_def)
qed

lemma kreadseg_loop_reads:
  assumes "unat e \<le> unat pa + n * SECTSIZE" and "n = 0 \<or> unat pa + (n - 1) * SECTSIZE < unat e"
    and "unat pa + n * SECTSIZE < 2 ^ 64"
  shows "kreadseg_loop pa e s kv D =
    map_option (\<lambda>D. (pa + of_nat (n * SECTSIZE), s + of_nat n, kv + of_nat (n * SECTSIZE), D))
      (ide.reads n pa s D)"
  using assms
proof (induction n arbitrary: pa s kv D)
  case 0
  then show ?case by (subst kreadseg_loop.simps) (simp add: word_less_nat_alt)
next
  case (Suc n)
  have pa: "unat (pa + of_nat SECTSIZE) = unat pa + SECTSIZE"
    using Suc.prems(3) by (simp add: unat_word_ariths SECTSIZE_def)
  have less: "pa < e" using Suc.prems(2) by (simp add: word_less_nat_alt)
  have "kreadseg_loop (pa + of_nat SECTSIZE) e (s + 1) (kv + of_nat SECTSIZE) D' =
      map_option (\<lambda>D. (pa + of_nat SECTSIZE + of_nat (n * SECTSIZE), s + 1 + of_nat n,
        kv + of_nat SECTSIZE + of_nat (n * SECTSIZE), D))
      (ide.reads n (pa + of_nat SECTSIZE) (s + 1) D')" for D'
    using Suc.prems pa by (intro Suc.IH) (auto simp: SECTSIZE_def)
  then show ?case
    using less
    by (subst kreadseg_loop.simps)
      (cases "readsect pa s D"; simp add: SECTSIZE_def algebra_simps)
qed

text \<open>All sectors that a call reads: those of \<^verbatim>\<open>count\<close>, and one more when the data straddles.\<close>

definition sectors_read :: "u64 \<Rightarrow> u64 \<Rightarrow> nat" where
  "sectors_read offset count =
     (unat count + (SECTSIZE - 1)) div SECTSIZE
     + (if SECTSIZE < unat offset mod SECTSIZE + unat count then 1 else 0)"

lemma sectors_read_bounds:
  "unat count \<noteq> 0 \<Longrightarrow> unat offset mod SECTSIZE + unat count \<le> sectors_read offset count * SECTSIZE"
  "sectors_read offset count * SECTSIZE < unat count + 2 * SECTSIZE"
proof -
  have r: "unat offset mod SECTSIZE < SECTSIZE" by (simp add: SECTSIZE_def)
  show "sectors_read offset count * SECTSIZE < unat count + 2 * SECTSIZE"
  proof -
    have "(if SECTSIZE < unat offset mod SECTSIZE + unat count then 1 else 0) * SECTSIZE \<le> SECTSIZE"
      by simp
    then show ?thesis
      using sectors_needed(1) [of "unat count"] unfolding sectors_read_def add_mult_distrib by linarith
  qed
  show "unat offset mod SECTSIZE + unat count \<le> sectors_read offset count * SECTSIZE"
    if "unat count \<noteq> 0"
  proof (cases "SECTSIZE < unat offset mod SECTSIZE + unat count")
    case True
    then show ?thesis using sectors_needed(2) [of "unat count"] r by (simp add: sectors_read_def)
  next
    case False
    have "1 \<le> (unat count + (SECTSIZE - 1)) div SECTSIZE" using that by (simp add: SECTSIZE_def)
    then have "SECTSIZE \<le> (unat count + (SECTSIZE - 1)) div SECTSIZE * SECTSIZE"
      by (metis mult_le_mono1 mult_1)
    then show ?thesis using False unfolding sectors_read_def add_mult_distrib by linarith
  qed
qed

lemma mod_sector_word: "unat w mod SECTSIZE = 0 \<longleftrightarrow> w mod of_nat SECTSIZE = 0" for w :: u64
  by (simp add: word_unat_eq_iff unat_mod_distrib SECTSIZE_def)

lemma kreadseg_reads:
  assumes "drive_ready D" and "unat pa mod SECTSIZE = 0" and "unat kv mod SECTSIZE = 0"
    and "unat pa + unat count + 2 * SECTSIZE < 2 ^ 64"
  shows "kreadseg pa count offset kv D =
    map_option (Pair (kv + of_nat (sectors_read offset count * SECTSIZE)))
      (ide.reads (sectors_read offset count) pa (of_nat (unat offset div SECTSIZE) + 1) D)"
proof -
  define n where "n = (unat count + (SECTSIZE - 1)) div SECTSIZE"
  define s where "s = (of_nat (unat offset div SECTSIZE) + 1 :: u64)"
  have s: "offset div of_nat SECTSIZE + 1 = s"
  proof -
    have "of_nat (unat (offset div of_nat SECTSIZE)) = offset div (of_nat SECTSIZE :: u64)" by simp
    moreover have "unat (offset div of_nat SECTSIZE) = unat offset div SECTSIZE"
      by (simp add: unat_div_distrib SECTSIZE_def)
    ultimately show ?thesis unfolding s_def by simp
  qed
  have e: "unat (pa + count) = unat pa + unat count" using assms(4) by (simp add: unat_word_ariths)
  have n: "n * SECTSIZE < unat count + SECTSIZE" "unat count \<le> n * SECTSIZE"
    unfolding n_def by (rule sectors_needed)+
  have loop: "kreadseg_loop pa (pa + count) s kv D =
    map_option (\<lambda>D. (pa + of_nat (n * SECTSIZE), s + of_nat n, kv + of_nat (n * SECTSIZE), D))
      (ide.reads n pa s D)"
  proof (rule kreadseg_loop_reads)
    show "unat (pa + count) \<le> unat pa + n * SECTSIZE" using e n by simp
    show "n = 0 \<or> unat pa + (n - 1) * SECTSIZE < unat (pa + count)"
      using e n by (cases n) simp_all
    show "unat pa + n * SECTSIZE < 2 ^ 64" using n assms(4) by simp
  qed
  have kv: "(kv + of_nat (k * SECTSIZE)) mod of_nat SECTSIZE = 0" for k
  proof -
    have m: "w mod 0x200 = take_bit 9 w" for w :: u64 by (simp add: take_bit_eq_mod)
    have "kv mod 0x200 = 0" using assms(3) unfolding mod_sector_word by (simp add: SECTSIZE_def)
    then have "kv = kv div 0x200 * 0x200" using div_mult_mod_eq [of kv "0x200"] by simp
    then have "kv + of_nat (k * SECTSIZE) = push_bit 9 (kv div 0x200 + of_nat k)"
      by (simp add: SECTSIZE_def push_bit_eq_mult algebra_simps)
    then show ?thesis by (simp add: SECTSIZE_def m take_bit_push_bit)
  qed
  have straddle: "offset mod of_nat SECTSIZE + count > of_nat SECTSIZE \<longleftrightarrow>
      SECTSIZE < unat offset mod SECTSIZE + unat count"
  proof -
    have "unat offset mod SECTSIZE < SECTSIZE" by (simp add: SECTSIZE_def)
    then have "unat (offset mod of_nat SECTSIZE + count) = unat offset mod SECTSIZE + unat count"
      using assms(4) by (simp add: unat_word_ariths unat_mod_distrib SECTSIZE_def)
    then show ?thesis by (simp add: word_less_nat_alt SECTSIZE_def)
  qed
  have al: "pa mod of_nat SECTSIZE = 0" using assms(2) by (simp add: mod_sector_word)
  show ?thesis
  proof (cases "SECTSIZE < unat offset mod SECTSIZE + unat count")
    case True
    have sr: "sectors_read offset count = Suc n" using True by (simp add: sectors_read_def n_def)
    have c: "offset mod of_nat SECTSIZE + count > of_nat SECTSIZE" using True straddle by simp
    have kv1: "kv + of_nat (n * SECTSIZE) + of_nat SECTSIZE = kv + of_nat (Suc n * SECTSIZE)" by simp
    have snoc: "ide.reads (Suc n) pa s D =
        Option.bind (ide.reads n pa s D) (readsect (pa + of_nat (n * SECTSIZE)) (s + of_nat n))"
      unfolding ide.reads_snoc [symmetric] by (simp add: SECTSIZE_def)
    have "kreadseg pa count offset kv D =
        Option.bind (ide.reads (Suc n) pa s D) (\<lambda>D. Some (kv + of_nat (Suc n * SECTSIZE), D))"
    proof (cases "ide.reads n pa s D")
      case None
      then show ?thesis
        unfolding snoc kreadseg_def Let_def by (simp only: al sector_aligned [OF assms(2)] s loop) simp
    next
      case (Some D1)
      then show ?thesis
        unfolding snoc kreadseg_def Let_def
        by (cases "readsect (pa + of_nat (n * SECTSIZE)) (s + of_nat n) D1")
          (simp_all only: al sector_aligned [OF assms(2)] s loop option.map bind.simps prod.case c
            kv1 kv if_True simp_thms if_False)
    qed
    then show ?thesis
      unfolding sr s_def [symmetric] by (cases "ide.reads (Suc n) pa s D") (simp_all only: option.map bind.simps)
  next
    case False
    then have "sectors_read offset count = n" by (simp add: sectors_read_def n_def)
    then show ?thesis
      unfolding kreadseg_def Let_def
      using False al straddle loop kv sector_aligned [OF assms(2)] s
      by (cases "ide.reads n pa s D") (simp_all add: s_def)
  qed
qed

text \<open>
  With a ready drive, an aligned address and an aligned \<^verbatim>\<open>kvoffset\<close>, \<^verbatim>\<open>readseg\<close> of the ELF reader returns
  with the \<^verbatim>\<open>count\<close> bytes of the kernel image from \<^verbatim>\<open>offset\<close> on in memory, as far behind \<^verbatim>\<open>pa\<close> as \<^verbatim>\<open>offset\<close> is
  into its sector; its rule for one more sector is enough for data that straddles sectors. \<^verbatim>\<open>kvoffset\<close>
  stays aligned and moves past everything written.
\<close>

lemma kreadseg_loads:
  assumes "drive_ready D" and "unat pa mod SECTSIZE = 0" and "unat kv mod SECTSIZE = 0"
    and "unat pa + unat count + 2 * SECTSIZE < 2 ^ 64"
  obtains n D' where "kreadseg pa count offset kv D = Some (kv + of_nat (n * SECTSIZE), D')"
    and "drive_ready D'" and "sector_of D' = sector_of D"
    and "\<And>k. k < unat count \<Longrightarrow>
      dmem D' (pa + of_nat (unat offset mod SECTSIZE + k)) = disk_image D (unat offset + k)"
    and "\<And>a. unat a < unat pa \<or> unat pa + n * SECTSIZE \<le> unat a \<Longrightarrow> dmem D' a = dmem D a"
    and "n * SECTSIZE < unat count + 2 * SECTSIZE"
    and "unat count \<noteq> 0 \<Longrightarrow> unat offset mod SECTSIZE + unat count \<le> n * SECTSIZE"
proof -
  define n where "n = sectors_read offset count"
  define off where "off = unat offset - unat offset mod SECTSIZE"
  have off: "off mod SECTSIZE = 0" "off div SECTSIZE = unat offset div SECTSIZE"
    "off + unat offset mod SECTSIZE = unat offset"
    unfolding off_def by (simp_all add: SECTSIZE_def minus_mod_eq_mult_div)
  have ub: "n * SECTSIZE < unat count + 2 * SECTSIZE" unfolding n_def by (rule sectors_read_bounds)
  then have "n * SECTSIZE \<le> 2 ^ 64" using assms(4) by linarith
  from ide_image [OF assms(1) this off(1), of pa] obtain D' where
    D': "ide.reads n pa (of_nat (unat offset div SECTSIZE) + 1) D = Some D'" "drive_ready D'"
      "sector_of D' = sector_of D"
    and inside: "\<And>k. k < n * SECTSIZE \<Longrightarrow> dmem D' (pa + of_nat k) = disk_image D (off + k)"
    and outside: "\<And>a. a \<notin> span pa (n * SECTSIZE) \<Longrightarrow> dmem D' a = dmem D a"
    unfolding off(2) by blast
  have run: "kreadseg pa count offset kv D = Some (kv + of_nat (n * SECTSIZE), D')"
    unfolding kreadseg_reads [OF assms] n_def [symmetric] D' by simp
  have enough: "unat offset mod SECTSIZE + unat count \<le> n * SECTSIZE" if "unat count \<noteq> 0"
    using sectors_read_bounds(1) [OF that] unfolding n_def .
  have bytes: "dmem D' (pa + of_nat (unat offset mod SECTSIZE + k)) = disk_image D (unat offset + k)"
    if "k < unat count" for k
  proof -
    have "unat offset mod SECTSIZE + k < n * SECTSIZE" using enough that by linarith
    from inside [OF this] show ?thesis by (simp only: add.assoc [symmetric] off(3))
  qed
  have rest: "dmem D' a = dmem D a" if "unat a < unat pa \<or> unat pa + n * SECTSIZE \<le> unat a" for a
  proof -
    have "unat pa + n * SECTSIZE \<le> 2 ^ 64" using ub assms(4) by linarith
    then have "a \<notin> span pa (n * SECTSIZE)" using that by (subst span_interval) auto
    then show ?thesis by (rule outside)
  qed
  show thesis using that [OF run D'(2,3)] bytes rest ub enough by blast
qed

end
