(* ===== verification/DwarfInfo.thy ===== *)
theory DwarfInfo
  imports DwarfRead ElfRw
begin

text \<open>
  The tree of debugging entries: \<^verbatim>\<open>kern/libdwarf_rw.c\<close> from \<^verbatim>\<open>_dwarf_init\<close> to \<^verbatim>\<open>dwarf_child\<close>. The
  sections lie in a memory that the readers do not change; \<open>si\<close> is the table \<^verbatim>\<open>section_info\<close>. A
  routine gives its \<^verbatim>\<open>int\<close> result with the structures it fills. \<open>None\<close> stands for a run that
  does not end, a failed \<^verbatim>\<open>assert\<close>, or a write beyond a fixed array.
\<close>

section \<open>Structures (kern/dwarf.h)\<close>

record attrdef =
  ad_attrib :: u64
  ad_form :: u64
  ad_offset :: u64

record abbrev =
  ab_entry :: u64
  ab_tag :: u64
  ab_children :: u8
  ab_offset :: u64
  ab_length :: u64
  ab_attrdef :: "attrdef list"

record cu =
  cu_length :: u64
  cu_version :: u16
  cu_addr_size :: u8
  cu_abbrev_offset :: u64
  cu_length_size :: u8
  cu_dwarf_size :: u8
  cu_next_offset :: u64
  cu_die_offset :: u64
  cu_offset :: u64

record dwdebug =
  curr_off_dbginfo :: u64
  dbg_info_offset_elf :: u64
  dbg_info_size :: u64
  dbg_msb :: bool
  dbg_pointer_size :: u8
  dbg_eh_offset :: u64
  dbg_eh_size :: u64
  dbg_frame_rule_table_size :: u16
  dbg_frame_rule_initial_value :: u16
  dbg_frame_cfa_value :: u16
  dbg_frame_same_value :: u16
  dbg_frame_undefined_value :: u16

text \<open>An attribute: the two words of the union, and the block.\<close>

record dwattr =
  at_attrib :: u64
  at_form :: u64
  at_indirect :: bool
  at_u0 :: u64
  at_u1 :: u64
  at_block :: "u64 \<times> addr"

record die =
  die_offset :: u64
  die_next_off :: u64
  die_abnum :: u64
  die_tag :: u64
  die_ab :: abbrev
  die_name :: addr
  die_attr :: "dwattr list"

definition NATTRDEF :: nat where "NATTRDEF = 32"
definition NATTRVAL :: nat where "NATTRVAL = 120"

section \<open>Opening\<close>

definition elf_is_msb :: "mem \<Rightarrow> addr \<Rightarrow> bool" where
  "elf_is_msb m obj \<longleftrightarrow> m (obj + 5) = 2"

definition elf_get_pointer_size :: "mem \<Rightarrow> addr \<Rightarrow> u8" where
  "elf_get_pointer_size m obj = (if m (obj + 4) = 1 then 4 else 8)"

definition frame_params_init :: "dwdebug \<Rightarrow> dwdebug" where
  "frame_params_init d = d\<lparr>dbg_frame_rule_table_size := 66, dbg_frame_rule_initial_value := 1035,
     dbg_frame_cfa_value := 1436, dbg_frame_same_value := 1035, dbg_frame_undefined_value := 1034\<rparr>"

definition dwarf_init :: "mem \<Rightarrow> addr \<Rightarrow> dwdebug" where
  "dwarf_init m obj = frame_params_init
     \<lparr>curr_off_dbginfo = 0, dbg_info_offset_elf = 0, dbg_info_size = 0, dbg_msb = elf_is_msb m obj,
      dbg_pointer_size = elf_get_pointer_size m obj, dbg_eh_offset = 0, dbg_eh_size = 0,
      dbg_frame_rule_table_size = 0, dbg_frame_rule_initial_value = 0, dbg_frame_cfa_value = 0,
      dbg_frame_same_value = 0, dbg_frame_undefined_value = 0\<rparr>"

text \<open>\<^verbatim>\<open>dbg->read\<close> and \<^verbatim>\<open>dbg->decode\<close>.\<close>

definition dread :: "dwdebug \<Rightarrow> mem \<Rightarrow> addr \<Rightarrow> u64 \<Rightarrow> nat \<Rightarrow> u64 \<times> u64" where
  "dread d m data off n = (if dbg_msb d then read_msb m data off n else read_lsb m data off n)"

definition ddecode :: "dwdebug \<Rightarrow> mem \<Rightarrow> addr \<Rightarrow> nat \<Rightarrow> u64 \<times> addr" where
  "ddecode d m p n = (if dbg_msb d then decode_msb m p n else decode_lsb m p n)"

text \<open>\<^verbatim>\<open>_dwarf_find_section_enhanced\<close>; a section that is not there is a null pointer.\<close>

definition find_section_enhanced :: "dsection list \<Rightarrow> dsection \<Rightarrow> (u32 \<times> dsection) option" where
  "find_section_enhanced si ds =
     map_option (\<lambda>s. (0, ds\<lparr>ds_data := ds_data s, ds_addr := ds_addr s, ds_size := ds_size s\<rparr>))
       (find_section si (ds_name ds))"

section \<open>Compilation units\<close>

text \<open>\<^verbatim>\<open>length\<close> has 32 bits; it is also used for the 64-bit format, which it cuts.\<close>

definition get_next_cu :: "mem \<Rightarrow> dwdebug \<Rightarrow> cu \<Rightarrow> u32 \<times> dwdebug \<times> cu" where
  "get_next_cu m d c =
     (if curr_off_dbginfo d > dbg_info_size d then (-1, d, c)
      else
        let offset = curr_off_dbginfo d; c = c\<lparr>cu_offset := offset\<rparr>;
            info = dbg_info_offset_elf d;
            (l, offset) = dread d m info offset 4;
            len = (ucast l :: u32);
            (len, offset, dwarf_size) =
              (if len = 0xFFFFFFFF
               then let (l, offset) = dread d m info offset 8 in (ucast l :: u32, offset, 8 :: u8)
               else (len, offset, 4));
            d = d\<lparr>curr_off_dbginfo := offset + ucast len\<rparr>;
            (v, offset) = dread d m info offset 2;
            (ab, offset) = dread d m info offset (unat dwarf_size);
            (sz, offset) = dread d m info offset 1;
            c = c\<lparr>cu_dwarf_size := dwarf_size, cu_next_offset := curr_off_dbginfo d,
                  cu_length := ucast len, cu_length_size := (if dwarf_size = 4 then 4 else 12),
                  cu_version := ucast v, cu_abbrev_offset := ab, cu_addr_size := ucast sz\<rparr>
        in if cu_version c < 2 \<or> cu_version c > 4 then (-1, d, c)
           else (0, d, c\<lparr>cu_die_offset := offset\<rparr>))"

section \<open>Abbreviations\<close>

text \<open>
  The attribute definitions up to the pair whose attribute is 0. More than \<^verbatim>\<open>NATTRDEF\<close> of them
  would be stored beyond the array.
\<close>

partial_function (option) abbrev_attrs :: "mem \<Rightarrow> addr \<Rightarrow> u64 \<Rightarrow> attrdef list \<Rightarrow> (attrdef list \<times> u64) option" where
  "abbrev_attrs m data off defs =
     Option.bind (read_uleb128 m data off) (\<lambda>(attr, off1).
     Option.bind (read_uleb128 m data off1) (\<lambda>(form, off2).
       if attr = 0 then Some (defs, off2)
       else if NATTRDEF \<le> length defs then None
       else abbrev_attrs m data off2
              (defs @ [\<lparr>ad_attrib = attr, ad_form = form, ad_offset = off\<rparr>])))"

definition abbrev_parse ::
    "mem \<Rightarrow> dwdebug \<Rightarrow> u64 \<Rightarrow> abbrev \<Rightarrow> dsection \<Rightarrow> (u32 \<times> u64 \<times> abbrev) option" where
  "abbrev_parse m d off ab ds =
     (if off \<ge> ds_size ds then Some (DW_DLE_NO_ENTRY, off, ab)
      else
        Option.bind (read_uleb128 m (ds_data ds) off) (\<lambda>(entry, off1).
          if entry = 0 then Some (DW_DLE_NONE, off1, ab\<lparr>ab_entry := 0\<rparr>)
          else
            Option.bind (read_uleb128 m (ds_data ds) off1) (\<lambda>(tag, off2).
            let (children, off3) = dread d m (ds_data ds) off2 1
            in map_option (\<lambda>(defs, off4).
                 (DW_DLV_OK, off4,
                  \<lparr>ab_entry = entry, ab_tag = tag, ab_children = ucast children, ab_offset = off,
                   ab_length = off4 - off, ab_attrdef = defs\<rparr>))
                 (abbrev_attrs m (ds_data ds) off3 []))))"

partial_function (option) abbrev_find_loop ::
    "mem \<Rightarrow> dwdebug \<Rightarrow> dsection \<Rightarrow> u64 \<Rightarrow> u64 \<Rightarrow> abbrev \<Rightarrow> (u32 \<times> abbrev) option" where
  "abbrev_find_loop m d ds entry off ab =
     (if off < ds_size ds
      then Option.bind (abbrev_parse m d off ab ds) (\<lambda>(ret, off, ab).
             if ret \<noteq> DW_DLE_NONE then Some (ret, ab)
             else if ab_entry ab = entry then Some (DW_DLE_NONE, ab)
             else if ab_entry ab = 0 then Some (DW_DLE_NO_ENTRY, ab)
             else abbrev_find_loop m d ds entry off ab)
      else Some (DW_DLE_NO_ENTRY, ab))"

definition abbrev_find ::
    "mem \<Rightarrow> dsection list \<Rightarrow> dwdebug \<Rightarrow> cu \<Rightarrow> u64 \<Rightarrow> abbrev \<Rightarrow> (u32 \<times> abbrev) option" where
  "abbrev_find m si d c entry ab =
     (if entry = 0 then Some (DW_DLE_NO_ENTRY, ab)
      else Option.bind (find_section si ''.debug_abbrev'') (\<lambda>ds.
             abbrev_find_loop m d ds entry (cu_abbrev_offset c) ab))"

section \<open>Attributes\<close>

text \<open>
  The switch on the form: the two words of the union and the new offset; the inner \<open>None\<close> is the
  error branch. \<^verbatim>\<open>DW_FORM_indirect\<close> is the caller's.
\<close>

definition attr_value ::
    "mem \<Rightarrow> dsection list \<Rightarrow> dwdebug \<Rightarrow> cu \<Rightarrow> dsection \<Rightarrow> u64 \<Rightarrow> u64 \<Rightarrow> ((u64 \<times> u64) option \<times> u64) option" where
  "attr_value m si d c ds off form =
     (let data = ds_data ds;
          num = (\<lambda>n. let (x, off') = dread d m data off n in Some (Some (x, 0), off'));
          block = (\<lambda>(x, off'). let (p, off'') = read_block data off' x in (Some (x, p), off''))
      in if form = DW_FORM_addr then num (unat (cu_addr_size c))
         else if form = DW_FORM_block \<or> form = DW_FORM_exprloc then
           map_option block (read_uleb128 m data off)
         else if form = DW_FORM_block1 then Some (block (dread d m data off 1))
         else if form = DW_FORM_block2 then Some (block (dread d m data off 2))
         else if form = DW_FORM_block4 then Some (block (dread d m data off 4))
         else if form = DW_FORM_data1 \<or> form = DW_FORM_flag \<or> form = DW_FORM_ref1 then num 1
         else if form = DW_FORM_data2 \<or> form = DW_FORM_ref2 then num 2
         else if form = DW_FORM_data4 \<or> form = DW_FORM_ref4 then num 4
         else if form = DW_FORM_data8 \<or> form = DW_FORM_ref8 then num 8
         else if form = DW_FORM_ref_addr then
           (if cu_version c = 2 then num (unat (cu_addr_size c))
            else if cu_version c = 3 then num (unat (cu_dwarf_size c))
            else Some (Some (0, 0), off))
         else if form = DW_FORM_ref_udata \<or> form = DW_FORM_udata then
           map_option (\<lambda>(x, off'). (Some (x, 0), off')) (read_uleb128 m data off)
         else if form = DW_FORM_sdata then
           map_option (\<lambda>(x, off'). (Some (x, 0), off')) (read_sleb128 m data off)
         else if form = DW_FORM_sec_offset then num (unat (cu_dwarf_size c))
         else if form = DW_FORM_string then
           (let (p, off') = read_string m data (ds_size ds) off in Some (Some (p, 0), off'))
         else if form = DW_FORM_strp then
           (let (x, off') = dread d m data off (unat (cu_dwarf_size c))
            in map_option (\<lambda>str. (Some (x, ds_data str + x), off')) (find_section si ''.debug_str''))
         else if form = DW_FORM_ref_sig8 then Some (block (8, off))
         else if form = DW_FORM_flag_present then Some (Some (1, 0), off)
         else Some (None, off))"

partial_function (option) attr_init ::
    "mem \<Rightarrow> dsection list \<Rightarrow> dwdebug \<Rightarrow> cu \<Rightarrow> u64 \<Rightarrow> die \<Rightarrow> attrdef \<Rightarrow> u64 \<Rightarrow> bool
      \<Rightarrow> (u32 \<times> u64 \<times> die) option" where
  "attr_init m si d c off die ad form indirect =
     Option.bind (find_section si ''.debug_info'') (\<lambda>ds.
       if form = DW_FORM_indirect then
         Option.bind (read_uleb128 m (ds_data ds) off) (\<lambda>(form, off).
           attr_init m si d c off die ad form True)
       else
         Option.bind (attr_value m si d c ds off form) (\<lambda>(v, off).
           case v of
             None \<Rightarrow> Some (DW_DLE_ATTR_FORM_BAD, off, die)
           | Some (u0, u1) \<Rightarrow>
               let at = \<lparr>at_attrib = ad_attrib ad, at_form = ad_form ad, at_indirect = indirect,
                         at_u0 = u0, at_u1 = u1,
                         at_block = (if form = DW_FORM_block \<or> form = DW_FORM_block1
                                        \<or> form = DW_FORM_block2 \<or> form = DW_FORM_block4
                                     then (u0, u1) else (0, 0))\<rparr>;
                   die = (if at_attrib at = DW_AT_name
                          then if at_form at = DW_FORM_strp then die\<lparr>die_name := u1\<rparr>
                               else if at_form at = DW_FORM_string then die\<lparr>die_name := u0\<rparr>
                               else die
                          else die)
               in if NATTRVAL \<le> length (die_attr die) then None
                  else Some (DW_DLE_NONE, off, die\<lparr>die_attr := die_attr die @ [at]\<rparr>)))"

text \<open>\<^verbatim>\<open>for (i = 0; i < ab.ab_atnum; i++)\<close>\<close>

fun attr_inits ::
    "mem \<Rightarrow> dsection list \<Rightarrow> dwdebug \<Rightarrow> cu \<Rightarrow> u64 \<Rightarrow> die \<Rightarrow> attrdef list \<Rightarrow> (u32 \<times> u64 \<times> die) option" where
  "attr_inits m si d c off die [] = Some (DW_DLE_NONE, off, die)"
| "attr_inits m si d c off die (ad # ads) =
     Option.bind (attr_init m si d c off die ad (ad_form ad) False) (\<lambda>(ret, off, die).
       if ret \<noteq> DW_DLE_NONE then Some (ret, off, die) else attr_inits m si d c off die ads)"

section \<open>Walking the tree\<close>

text \<open>\<open>level\<close> is an \<^verbatim>\<open>int\<close>; the loop also ends with the unit or the section.\<close>

partial_function (option) search_die ::
    "mem \<Rightarrow> dsection list \<Rightarrow> dwdebug \<Rightarrow> cu \<Rightarrow> bool \<Rightarrow> u64 \<Rightarrow> u32 \<Rightarrow> die \<Rightarrow> (u32 \<times> die) option" where
  "search_die m si d c search_sibling offset level die =
     (if offset < cu_next_offset c \<and> offset < dbg_info_size d
      then Option.bind (read_uleb128 m (dbg_info_offset_elf d) offset) (\<lambda>(abnum, off1).
             if abnum = 0
             then if level = 0 \<or> \<not> search_sibling then Some (DW_DLE_NO_ENTRY, die)
                  else search_die m si d c search_sibling off1 (level - 1) die
             else
               Option.bind (abbrev_find m si d c abnum (die_ab die)) (\<lambda>(ret, ab).
                 if ret \<noteq> DW_DLE_NONE then Some (ret, die)
                 else
                   Option.bind
                     (attr_inits m si d c off1
                        (die\<lparr>die_offset := offset, die_abnum := abnum, die_ab := ab,
                              die_attr := [], die_tag := ab_tag ab\<rparr>) (ab_attrdef ab))
                     (\<lambda>(ret, off2, die).
                        if ret \<noteq> DW_DLE_NONE then Some (ret, die)
                        else
                          let die = die\<lparr>die_next_off := off2\<rparr>
                          in if search_sibling \<and> 0 < sint level
                             then search_die m si d c search_sibling off2
                                    (if ab_children ab = DW_CHILDREN_yes then level + 1 else level) die
                             else Some (DW_DLE_NONE, die))))
      else Some (DW_DLE_NO_ENTRY, die))"

definition search_die_within_cu ::
    "mem \<Rightarrow> dsection list \<Rightarrow> dwdebug \<Rightarrow> cu \<Rightarrow> u64 \<Rightarrow> die \<Rightarrow> bool \<Rightarrow> (u32 \<times> die) option" where
  "search_die_within_cu m si d c offset die search_sibling =
     search_die m si d c search_sibling offset 1 die"

text \<open>An offset beyond the unit gives success and leaves the result as it was.\<close>

definition offdie :: "mem \<Rightarrow> dsection list \<Rightarrow> dwdebug \<Rightarrow> u64 \<Rightarrow> die \<Rightarrow> cu \<Rightarrow> (u32 \<times> die) option" where
  "offdie m si d offset die c =
     (if offset < cu_next_offset c then search_die_within_cu m si d c offset die False
      else Some (DW_DLV_OK, die))"

definition attr_find :: "die \<Rightarrow> u64 \<Rightarrow> dwattr option" where
  "attr_find die attr = find (\<lambda>a. at_attrib a = attr) (die_attr die)"

definition dlv_result :: "u32 \<Rightarrow> u32" where
  "dlv_result ret =
     (if ret = DW_DLE_NO_ENTRY then DW_DLV_NO_ENTRY
      else if ret \<noteq> DW_DLE_NONE then DW_DLV_ERROR else DW_DLV_OK)"

text \<open>\<^verbatim>\<open>die == NULL\<close> asks for the first entry of the unit.\<close>

definition siblingof ::
    "mem \<Rightarrow> dsection list \<Rightarrow> dwdebug \<Rightarrow> die option \<Rightarrow> die \<Rightarrow> cu \<Rightarrow> (u32 \<times> die) option" where
  "siblingof m si d die ret_die c =
     (case die of
        None \<Rightarrow> offdie m si d (cu_die_offset c) ret_die c
      | Some di \<Rightarrow>
          let (offset, sib) =
                (if ab_children (die_ab di) = DW_CHILDREN_no then (die_next_off di, False)
                 else case attr_find di DW_AT_sibling of
                        Some at \<Rightarrow>
                          (if at_form at \<noteq> DW_FORM_ref_addr then at_u0 at + cu_offset c else at_u0 at, False)
                      | None \<Rightarrow> (die_next_off di, True))
          in map_option (\<lambda>(ret, die). (dlv_result ret, die))
               (search_die_within_cu m si d c offset ret_die sib))"

definition child :: "mem \<Rightarrow> dsection list \<Rightarrow> dwdebug \<Rightarrow> cu \<Rightarrow> die \<Rightarrow> die \<Rightarrow> (u32 \<times> die) option" where
  "child m si d c die ret_die =
     (if ab_children (die_ab die) = DW_CHILDREN_no then Some (DW_DLE_NO_ENTRY, ret_die)
      else map_option (\<lambda>(ret, die). (dlv_result ret, die))
             (search_die_within_cu m si d c (die_next_off die) ret_die False))"

section \<open>Abbreviation tables\<close>

text \<open>An abbreviation as the producer writes it: code, tag, children flag, attributes with forms.\<close>

type_synonym abbrev_spec = "nat \<times> nat \<times> u8 \<times> (nat \<times> nat) list"

fun encode_attrs :: "(nat \<times> nat) list \<Rightarrow> u8 list" where
  "encode_attrs [] = uleb128 0 @ uleb128 0"
| "encode_attrs ((a, f) # ads) = uleb128 a @ uleb128 f @ encode_attrs ads"

fun encode_abbrev :: "abbrev_spec \<Rightarrow> u8 list" where
  "encode_abbrev (e, t, ch, ads) = uleb128 e @ uleb128 t @ [ch] @ encode_attrs ads"

definition encode_abbrevs :: "abbrev_spec list \<Rightarrow> u8 list" where
  "encode_abbrevs as = concat (map encode_abbrev as) @ uleb128 0"

fun abbrev_fits :: "abbrev_spec \<Rightarrow> bool" where
  "abbrev_fits (e, t, ch, ads) \<longleftrightarrow> 0 < e \<and> e < 2 ^ 31 \<and> t < 2 ^ 31 \<and> length ads \<le> NATTRDEF
     \<and> (\<forall>(a, f) \<in> set ads. 0 < a \<and> a < 2 ^ 31 \<and> f < 2 ^ 31)"

definition abbrev_matches :: "abbrev \<Rightarrow> abbrev_spec \<Rightarrow> bool" where
  "abbrev_matches ab = (\<lambda>(e, t, ch, ads).
     ab_entry ab = of_nat e \<and> ab_tag ab = of_nat t \<and> ab_children ab = ch
     \<and> map (\<lambda>d. (ad_attrib d, ad_form d)) (ab_attrdef ab) = map (\<lambda>(a, f). (of_nat a, of_nat f)) ads)"

lemma of_nat_zero31: "a < 2 ^ 31 \<Longrightarrow> (of_nat a :: u64) = 0 \<longleftrightarrow> a = 0"
  using unat_of_nat64 [of a] by (auto simp: unat_eq_0)

lemma of_nat_eq31:
  assumes "a < 2 ^ 31" and "b < 2 ^ 31"
  shows "(of_nat a :: u64) = of_nat b \<longleftrightarrow> a = b"
proof
  have lim: "a < 2 ^ 64" "b < 2 ^ 64" using assms by simp_all
  assume "(of_nat a :: u64) = of_nat b"
  then have "unat (of_nat a :: u64) = unat (of_nat b :: u64)" by (rule arg_cong)
  then show "a = b" unfolding unat_of_nat64 [OF lim(1)] unat_of_nat64 [OF lim(2)] .
next
  assume "a = b"
  then show "(of_nat a :: u64) = of_nat b" by (rule arg_cong)
qed

lemma abbrev_attrs_encode:
  assumes "holds_at m (data + off) (encode_attrs ads)"
    and "\<forall>(a, f) \<in> set ads. 0 < a \<and> a < 2 ^ 31 \<and> f < 2 ^ 31" and "length defs + length ads \<le> NATTRDEF"
  shows "\<exists>new. abbrev_attrs m data off defs = Some (defs @ new, off + of_nat (length (encode_attrs ads)))
    \<and> map (\<lambda>d. (ad_attrib d, ad_form d)) new = map (\<lambda>(a, f). (of_nat a, of_nat f)) ads"
  using assms
proof (induction ads arbitrary: off defs rule: encode_attrs.induct)
  case 1
  then have "holds_at m (data + off) (uleb128 0)"
    "holds_at m (data + (off + of_nat (length (uleb128 0)))) (uleb128 0)"
    by (simp_all add: holds_at_append add.assoc)
  then show ?case by (subst abbrev_attrs.simps) (simp add: read_uleb128_holds add.assoc)
next
  case (2 a f ads)
  let ?o1 = "off + of_nat (length (uleb128 a))"
  let ?o2 = "?o1 + of_nat (length (uleb128 f))"
  let ?d = "\<lparr>ad_attrib = of_nat a, ad_form = of_nat f, ad_offset = off\<rparr>"
  have h: "holds_at m (data + off) (uleb128 a)" "holds_at m (data + ?o1) (uleb128 f)"
    "holds_at m (data + ?o2) (encode_attrs ads)"
    using 2(2) by (simp_all add: holds_at_append add.assoc)
  have af: "a < 2 ^ 31" "f < 2 ^ 31" "(of_nat a :: u64) \<noteq> 0" using 2(3) by (auto simp: of_nat_zero31)
  obtain new where new: "abbrev_attrs m data ?o2 (defs @ [?d]) =
      Some ((defs @ [?d]) @ new, ?o2 + of_nat (length (encode_attrs ads)))"
    "map (\<lambda>d. (ad_attrib d, ad_form d)) new = map (\<lambda>(a, f). (of_nat a, of_nat f)) ads"
    using 2(1) [of ?o2 "defs @ [?d]"] h(3) 2(3,4) by auto
  show ?case
    using new af 2(4)
    by (intro exI [of _ "?d # new"], subst abbrev_attrs.simps)
      (simp add: read_uleb128_holds [OF h(1) af(1)] read_uleb128_holds [OF h(2) af(2)] add.assoc)
qed

lemma dread_byte: "dread d m data off (Suc 0) = (ucast (m (data + off)), off + 1)"
  by (simp add: dread_def read_msb_def read_lsb_def size_ok_def lsb_value_def msb_value_def src_byte_def)

lemma u8_u64_u8 [simp]: "ucast (ucast x :: u64) = x" for x :: u8
  by (rule bit_word_eqI) (auto simp: bit_simps)

lemma abbrev_parse_encode:
  assumes "holds_at m (ds_data ds + off) (encode_abbrev sp)" and "abbrev_fits sp" and "off < ds_size ds"
  shows "\<exists>ab'. abbrev_parse m d off ab ds = Some (DW_DLV_OK, off + of_nat (length (encode_abbrev sp)), ab')
    \<and> abbrev_matches ab' sp \<and> ab_offset ab' = off"
proof -
  obtain e t ch ads where sp: "sp = (e, t, ch, ads)" by (cases sp)
  let ?o1 = "off + of_nat (length (uleb128 e))"
  let ?o2 = "?o1 + of_nat (length (uleb128 t))"
  have h: "holds_at m (ds_data ds + off) (uleb128 e)" "holds_at m (ds_data ds + ?o1) (uleb128 t)"
    "m (ds_data ds + ?o2) = ch" "holds_at m (ds_data ds + (?o2 + 1)) (encode_attrs ads)"
    using assms(1) by (simp_all add: sp holds_at_append holds_at_Cons add.assoc)
  have lim: "e < 2 ^ 31" "t < 2 ^ 31" "(of_nat e :: u64) \<noteq> 0"
    using assms(2) by (auto simp: sp of_nat_zero31)
  have off: "\<not> ds_size ds \<le> off" using assms(3) by simp
  have ch: "dread d m (ds_data ds) ?o2 1 = (ucast ch, ?o2 + 1)"
    using dread_byte [of d m "ds_data ds" ?o2] h(3) by simp
  obtain new where new: "abbrev_attrs m (ds_data ds) (?o2 + 1) [] =
      Some (new, ?o2 + 1 + of_nat (length (encode_attrs ads)))"
    "map (\<lambda>d. (ad_attrib d, ad_form d)) new = map (\<lambda>(a, f). (of_nat a, of_nat f)) ads"
    using abbrev_attrs_encode [OF h(4), of "[]"] assms(2) by (auto simp: sp)
  have len: "off + of_nat (length (encode_abbrev sp)) = ?o2 + 1 + of_nat (length (encode_attrs ads))"
    by (simp add: sp)
  show ?thesis
    unfolding len abbrev_parse_def read_uleb128_holds [OF h(1) lim(1)] read_uleb128_holds [OF h(2) lim(2)]
    by (simp only: off if_False bind.bind_lunit lim(3) read_uleb128_holds [OF h(2) lim(2)] ch new(1) Let_def
        prod.case option.map option.inject prod.inject) (simp add: abbrev_matches_def sp new(2))
qed

lemma abbrev_parse_end:
  assumes "holds_at m (ds_data ds + off) (uleb128 0)" and "off < ds_size ds"
  shows "abbrev_parse m d off ab ds = Some (DW_DLE_NONE, off + 1, ab\<lparr>ab_entry := 0\<rparr>)"
proof -
  have "read_uleb128 m (ds_data ds) off = Some (0, off + 1)"
    using read_uleb128_holds [OF assms(1)] by (simp add: uleb128.simps)
  then show ?thesis using assms(2) by (simp add: abbrev_parse_def leD)
qed

lemma uleb128_not_Nil [simp]: "uleb128 v \<noteq> []"
  by (subst uleb128.simps) simp

lemma off_in_section:
  fixes off sz :: u64
  assumes "unat off + n \<le> unat sz" and "0 < n"
  shows "off < sz" "n < 2 ^ 64" "unat (off + of_nat n) = unat off + n"
proof -
  have s: "unat sz < 2 ^ 64" using unsigned_less [of sz] by simp
  show "off < sz" using assms by (simp add: word_less_nat_alt)
  show n: "n < 2 ^ 64" using assms s by linarith
  show "unat (off + of_nat n) = unat off + n"
    using assms s n by (intro trans [OF unat_add_lem [THEN iffD1]]) (simp_all add: unat_of_nat64)
qed

lemma length_in_section:
  fixes off sz :: u64
  assumes "unat off + 4 + n \<le> unat sz"
  shows "\<not> of_nat n > sz - (off + 4)"
proof -
  have s: "unat sz < 2 ^ 64" using unsigned_less [of sz] by simp
  have u: "unat (off + 4) = unat off + 4" using assms s by (simp add: unat_word_ariths)
  then have "off + 4 \<le> sz" using assms by (simp add: word_le_nat_alt)
  then have "unat (sz - (off + 4)) = unat sz - (unat off + 4)" by (simp add: unat_sub u)
  moreover have "unat (of_nat n :: u64) = n" using assms s by (intro unat_of_nat64) linarith
  ultimately show ?thesis using assms by (simp add: not_less word_le_nat_alt)
qed

lemma abbrev_find_loop_step:
  assumes "off < ds_size ds" and "abbrev_parse m d off ab ds = Some (DW_DLE_NONE, off', ab')"
  shows "abbrev_find_loop m d ds w off ab =
    (if ab_entry ab' = w then Some (DW_DLE_NONE, ab')
     else if ab_entry ab' = 0 then Some (DW_DLE_NO_ENTRY, ab')
     else abbrev_find_loop m d ds w off' ab')"
  using assms by (subst abbrev_find_loop.simps) simp

lemma DLV_OK_DLE_NONE: "DW_DLV_OK = DW_DLE_NONE"
  by (simp add: dw_result_defs)

lemma abbrev_find_loop_table:
  assumes "holds_at m (ds_data ds + off) (encode_abbrevs as)" and "\<forall>sp \<in> set as. abbrev_fits sp"
    and "unat off + length (encode_abbrevs as) \<le> unat (ds_size ds)" and "0 < e" and "e < 2 ^ 31"
  shows "\<exists>ret ab'. abbrev_find_loop m d ds (of_nat e) off ab = Some (ret, ab') \<and>
    (case find (\<lambda>sp. fst sp = e) as of
       Some sp \<Rightarrow> ret = DW_DLE_NONE \<and> abbrev_matches ab' sp
     | None \<Rightarrow> ret = DW_DLE_NO_ENTRY)"
  using assms
proof (induction as arbitrary: off ab)
  case Nil
  then have h: "holds_at m (ds_data ds + off) (uleb128 0)" by (simp add: encode_abbrevs_def)
  have lt: "off < ds_size ds"
    by (rule off_in_section(1) [of off "length (uleb128 0)"]) (use Nil(3) in \<open>simp_all add: encode_abbrevs_def\<close>)
  have "(of_nat e :: u64) \<noteq> 0" unfolding of_nat_zero31 [OF Nil(5)] using Nil(4) by (rule gr_implies_not_zero)
  then show ?case
    unfolding abbrev_find_loop_step [OF lt abbrev_parse_end [OF h lt]] by auto
next
  case (Cons sp as)
  obtain n where n: "n = length (encode_abbrev sp)" by simp
  have split: "encode_abbrevs (sp # as) = encode_abbrev sp @ encode_abbrevs as"
    by (simp add: encode_abbrevs_def)
  have h: "holds_at m (ds_data ds + off) (encode_abbrev sp)"
    "holds_at m (ds_data ds + (off + of_nat n)) (encode_abbrevs as)"
    using Cons.prems(1) by (simp_all add: split holds_at_append n add.assoc)
  have n0: "0 < n" by (cases sp) (simp add: n)
  have room: "unat off + n \<le> unat (ds_size ds)" using Cons.prems(3) by (simp add: split n)
  note in_sec = off_in_section [OF room n0]
  have fits: "abbrev_fits sp" "\<forall>sp \<in> set as. abbrev_fits sp" using Cons.prems(2) by simp_all
  obtain ab1 where p: "abbrev_parse m d off ab ds = Some (DW_DLV_OK, off + of_nat n, ab1)"
      and mt: "abbrev_matches ab1 sp"
    using abbrev_parse_encode [OF h(1) fits(1) in_sec(1)] n by blast
  note step = abbrev_find_loop_step [OF in_sec(1) p [unfolded DLV_OK_DLE_NONE]]
  have e': "0 < fst sp" "fst sp < 2 ^ 31" using fits(1) by (cases sp, simp)+
  have entry: "ab_entry ab1 = of_nat (fst sp)"
    using mt by (simp add: abbrev_matches_def split: prod.splits)
  have nz: "(of_nat (fst sp) :: u64) \<noteq> 0" unfolding of_nat_zero31 [OF e'(2)] using e'(1) by (rule gr_implies_not_zero)
  have room': "unat (off + of_nat n) + length (encode_abbrevs as) \<le> unat (ds_size ds)"
    using Cons.prems(3) in_sec(3) by (simp only: split n length_append)
  note step = step [of "of_nat e", unfolded entry of_nat_eq31 [OF e'(2) Cons.prems(5)]]
  show ?case
  proof (cases "fst sp = e")
    case True
    then have "abbrev_find_loop m d ds (of_nat e) off ab = Some (DW_DLE_NONE, ab1)"
      by (rule trans [OF step if_P])
    then show ?thesis using True mt by auto
  next
    case False
    then have "abbrev_find_loop m d ds (of_nat e) off ab = abbrev_find_loop m d ds (of_nat e) (off + of_nat n) ab1"
      by (rule trans [OF step trans [OF if_not_P if_not_P [OF nz]]])
    moreover have "find (\<lambda>sp. fst sp = e) (sp # as) = find (\<lambda>sp. fst sp = e) as" using False by simp
    ultimately show ?thesis
      using Cons.IH [OF h(2) fits(2) room' Cons.prems(4,5), of ab1] by (simp only:)
  qed
qed

text \<open>
  C16. A table of abbreviations as a producer writes it, of codes, tags and forms below \<open>2\<^sup>3\<^sup>1\<close>, at
  most \<^verbatim>\<open>NATTRDEF\<close> attributes to an entry, inside its section: \<^verbatim>\<open>_dwarf_abbrev_find\<close> returns, and
  with the first entry of the code asked for, its tag, its children flag and every attribute and
  form in order, or with \<^verbatim>\<open>DW_DLE_NO_ENTRY\<close> when the table has no such code.
\<close>

theorem abbrev_find_table:
  assumes "find_section si ''.debug_abbrev'' = Some ds"
    and "holds_at m (ds_data ds + cu_abbrev_offset c) (encode_abbrevs as)"
    and "\<forall>sp \<in> set as. abbrev_fits sp"
    and "unat (cu_abbrev_offset c) + length (encode_abbrevs as) \<le> unat (ds_size ds)"
    and "0 < e" and "e < 2 ^ 31"
  shows "\<exists>ret ab'. abbrev_find m si d c (of_nat e) ab = Some (ret, ab') \<and>
    (case find (\<lambda>sp. fst sp = e) as of
       Some sp \<Rightarrow> ret = DW_DLE_NONE \<and> abbrev_matches ab' sp
     | None \<Rightarrow> ret = DW_DLE_NO_ENTRY)"
proof -
  have "(of_nat e :: u64) \<noteq> 0" using assms(5,6) by (simp add: of_nat_zero31)
  then show ?thesis
    using abbrev_find_loop_table [OF assms(2-6), of d ab] assms(1) by (simp add: abbrev_find_def)
qed

theorem abbrev_find_table_witness:
  "\<forall>d ab. \<exists>ab'. abbrev_find
      (store (\<lambda>_. 0) 100 [1, 0x11, 1, 3, 8, 0, 0, 2, 0x2E, 0, 0, 0, 0])
      [\<lparr>ds_name = ''.debug_abbrev'', ds_data = 100, ds_addr = 100, ds_size = 13\<rparr>] d
      \<lparr>cu_length = 0, cu_version = 2, cu_addr_size = 8, cu_abbrev_offset = 0, cu_length_size = 4,
       cu_dwarf_size = 4, cu_next_offset = 100, cu_die_offset = 11, cu_offset = 0\<rparr>
      2 ab = Some (DW_DLE_NONE, ab') \<and> ab_entry ab' = 2 \<and> ab_tag ab' = 0x2E \<and> ab_attrdef ab' = []"
proof (intro allI)
  fix d ab
  let ?m = "store (\<lambda>_. 0) 100 [1, 0x11, 1, 3, 8, 0, 0, 2, 0x2E, 0, 0, 0, 0]"
  let ?ds = "\<lparr>ds_name = ''.debug_abbrev'', ds_data = 100, ds_addr = 100, ds_size = 13\<rparr>"
  let ?c = "\<lparr>cu_length = 0, cu_version = 2, cu_addr_size = 8, cu_abbrev_offset = 0, cu_length_size = 4,
       cu_dwarf_size = 4, cu_next_offset = 100, cu_die_offset = 11, cu_offset = 0\<rparr>"
  let ?as = "[(1, 0x11, 1, [(3, 8)]), (2, 0x2E, 0, [])] :: abbrev_spec list"
  have e: "encode_abbrevs ?as = [1, 0x11, 1, 3, 8, 0, 0, 2, 0x2E, 0, 0, 0, 0]"
    by (simp add: encode_abbrevs_def uleb128.simps)
  have "find_section [?ds] ''.debug_abbrev'' = Some ?ds" by (simp add: find_section_def)
  moreover have "holds_at ?m (ds_data ?ds + cu_abbrev_offset ?c) (encode_abbrevs ?as)"
    unfolding e by (simp add: holds_at_def)
  moreover have "\<forall>sp \<in> set ?as. abbrev_fits sp" by (simp add: NATTRDEF_def)
  moreover have "unat (cu_abbrev_offset ?c) + length (encode_abbrevs ?as) \<le> unat (ds_size ?ds)"
    unfolding e by simp
  ultimately have "\<exists>ret ab'. abbrev_find ?m [?ds] d ?c (of_nat 2) ab = Some (ret, ab') \<and>
    (case find (\<lambda>sp. fst sp = 2) ?as of
       Some sp \<Rightarrow> ret = DW_DLE_NONE \<and> abbrev_matches ab' sp | None \<Rightarrow> ret = DW_DLE_NO_ENTRY)"
    by (rule abbrev_find_table) simp_all
  then show "\<exists>ab'. abbrev_find ?m [?ds] d ?c 2 ab = Some (DW_DLE_NONE, ab') \<and>
      ab_entry ab' = 2 \<and> ab_tag ab' = 0x2E \<and> ab_attrdef ab' = []"
    by (auto simp: abbrev_matches_def)
qed

section \<open>Unit headers\<close>

text \<open>A number in the byte order of the file, and the header of a unit in the 32-bit format.\<close>

definition enc :: "dwdebug \<Rightarrow> nat \<Rightarrow> u64 \<Rightarrow> u8 list" where
  "enc d n w = (if dbg_msb d then be_bytes n w else le_bytes n w)"

definition cu_header :: "dwdebug \<Rightarrow> u64 \<Rightarrow> u64 \<Rightarrow> u64 \<Rightarrow> u64 \<Rightarrow> u8 list" where
  "cu_header d len ver abo asz = enc d 4 len @ enc d 2 ver @ enc d 4 abo @ enc d 1 asz"

lemma length_enc [simp]: "length (enc d n w) = n"
  by (simp add: enc_def be_bytes_def le_bytes_def)

lemma enc_update [simp]: "enc (d\<lparr>curr_off_dbginfo := x\<rparr>) = enc d"
  by (intro ext) (simp add: enc_def)

text \<open>Both byte orders meet the contract, so every \<^verbatim>\<open>dbg\<close> does.\<close>

interpretation dbg: number_reader "enc d" "dread d" "ddecode d" for d :: dwdebug
proof
  show "dread d m data off n = (w, off + of_nat n)"
    if "holds_at m (data + off) (enc d n w)" "size_ok n" "unat w < 2 ^ (8 * n)" for m data off n w
    using that lsb.rd_code msb.rd_code by (simp add: dread_def enc_def split: if_splits)
  show "ddecode d m p n = (w, p + of_nat n)"
    if "holds_at m p (enc d n w)" "size_ok n" "unat w < 2 ^ (8 * n)" for m p n w
    using that lsb.dec_code msb.dec_code by (simp add: ddecode_def enc_def split: if_splits)
qed simp

lemmas dread_enc = dbg.rd_code and ddecode_enc = dbg.dec_code

lemma dread_update [simp]: "dread (d\<lparr>curr_off_dbginfo := x\<rparr>) = dread d"
  by (intro ext) (simp add: dread_def)

text \<open>The header, field by field.\<close>

lemma get_next_cu_enc:
  assumes h: "holds_at m (dbg_info_offset_elf d + curr_off_dbginfo d) (cu_header d len ver abo asz)"
    and le: "curr_off_dbginfo d \<le> dbg_info_size d"
    and lim: "len < 0xFFFFFFFF" "2 \<le> ver" "ver \<le> 4" "unat abo < 2 ^ 32" "unat asz < 2 ^ 8"
  shows "get_next_cu m d c =
    (0, d\<lparr>curr_off_dbginfo := curr_off_dbginfo d + 4 + len\<rparr>,
     \<lparr>cu_length = len, cu_version = ucast ver, cu_addr_size = ucast asz, cu_abbrev_offset = abo,
      cu_length_size = 4, cu_dwarf_size = 4, cu_next_offset = curr_off_dbginfo d + 4 + len,
      cu_die_offset = curr_off_dbginfo d + 11, cu_offset = curr_off_dbginfo d\<rparr>)"
proof -
  let ?o = "curr_off_dbginfo d" and ?i = "dbg_info_offset_elf d"
  have len: "unat len < 2 ^ 32" using lim(1) by (simp add: word_less_nat_alt)
  have hd: "holds_at m (?i + ?o) (dbg.fields d (fs @ g # gs))"
    if "[(4, len), (2, ver), (4, abo), (1, asz)] = fs @ g # gs" for fs g gs
    using h unfolding that [symmetric] by (simp add: cu_header_def)
  have r: "dread d m ?i ?o 4 = (len, ?o + 4)" "dread d m ?i (?o + 4) 2 = (ver, ?o + 6)"
    "dread d m ?i (?o + 6) 4 = (abo, ?o + 10)" "dread d m ?i (?o + 10) 1 = (asz, ?o + 11)"
    using dbg.rd_field [OF hd [of "[]"]] dbg.rd_field [OF hd [of "[(4, len)]"]]
      dbg.rd_field [OF hd [of "[(4, len), (2, ver)]"]] dbg.rd_field [OF hd [of "[(4, len), (2, ver), (4, abo)]"]] lim len
    by (simp_all add: size_ok_def word_le_nat_alt)
  have len32: "(ucast len :: u32) \<noteq> 0xFFFFFFFF" "ucast (ucast len :: u32) = len"
  proof -
    have u: "unat (ucast len :: u32) = unat len" using len by (simp add: ucast_narrow)
    have "unat len < 0xFFFFFFFF" using lim(1) by (simp add: word_less_nat_alt)
    then show "(ucast len :: u32) \<noteq> 0xFFFFFFFF" using u by (auto dest: arg_cong [of _ _ unat])
    show "ucast (ucast len :: u32) = len"
      by (rule word_unat_eq_iff [THEN iffD2]) (simp add: unat_ucast_wider u)
  qed
  have ver: "\<not> (ucast ver :: u16) < 2" "\<not> (ucast ver :: u16) > 4"
    using lim(2,3) by (simp_all add: word_less_nat_alt word_le_nat_alt ucast_narrow)
  show ?thesis
    using le len32 ver by (simp add: get_next_cu_def r r(4) [unfolded One_nat_def] Let_def leD)
qed

end
