(* ===== verification/DwarfDie.thy ===== *)
theory DwarfDie
  imports DwarfInfo
begin

text \<open>
  The contract of the entry reader of \<^verbatim>\<open>kern/libdwarf_rw.c\<close>: entries (DIEs) and whole trees of them as a
  producer writes them, and what \<^verbatim>\<open>_dwarf_attr_init\<close>, \<^verbatim>\<open>dwarf_offdie\<close>, \<^verbatim>\<open>dwarf_child\<close> and
  \<^verbatim>\<open>dwarf_siblingof\<close> make of them.
\<close>

section \<open>Attribute values\<close>

datatype die_val =
    VAddr u64 | VNum nat u64 | VUdata nat | VSdata int | VString "u8 list" | VStrp u64 | VOffset u64
  | VPresent | VBlock1 "u8 list" | VExprloc "u8 list"

fun val_forms :: "die_val \<Rightarrow> u64 list" where
  "val_forms (VAddr w) = [DW_FORM_addr]"
| "val_forms (VNum n w) =
     (if n = 1 then [DW_FORM_data1, DW_FORM_flag, DW_FORM_ref1]
      else if n = 2 then [DW_FORM_data2, DW_FORM_ref2]
      else if n = 4 then [DW_FORM_data4, DW_FORM_ref4] else [DW_FORM_data8, DW_FORM_ref8])"
| "val_forms (VUdata n) = [DW_FORM_udata, DW_FORM_ref_udata]"
| "val_forms (VSdata i) = [DW_FORM_sdata]"
| "val_forms (VString xs) = [DW_FORM_string]"
| "val_forms (VStrp w) = [DW_FORM_strp]"
| "val_forms (VOffset w) = [DW_FORM_sec_offset]"
| "val_forms VPresent = [DW_FORM_flag_present]"
| "val_forms (VBlock1 bs) = [DW_FORM_block1]"
| "val_forms (VExprloc bs) = [DW_FORM_exprloc]"

fun val_bytes :: "dwdebug \<Rightarrow> cu \<Rightarrow> die_val \<Rightarrow> u8 list" where
  "val_bytes d c (VAddr w) = enc d (unat (cu_addr_size c)) w"
| "val_bytes d c (VNum n w) = enc d n w"
| "val_bytes d c (VUdata n) = uleb128 n"
| "val_bytes d c (VSdata i) = sleb128 i"
| "val_bytes d c (VString xs) = xs @ [0]"
| "val_bytes d c (VStrp w) = enc d (unat (cu_dwarf_size c)) w"
| "val_bytes d c (VOffset w) = enc d (unat (cu_dwarf_size c)) w"
| "val_bytes d c VPresent = []"
| "val_bytes d c (VBlock1 bs) = of_nat (length bs) # bs"
| "val_bytes d c (VExprloc bs) = uleb128 (length bs) @ bs"

definition fits_in :: "nat \<Rightarrow> u64 \<Rightarrow> bool" where
  "fits_in n w \<longleftrightarrow> size_ok n \<and> unat w < 2 ^ (8 * n)"

text \<open>Values in the range of the readers; a string ends inside its section.\<close>

fun val_ok :: "cu \<Rightarrow> u64 \<Rightarrow> u64 \<Rightarrow> die_val \<Rightarrow> bool" where
  "val_ok c sz off (VAddr w) = fits_in (unat (cu_addr_size c)) w"
| "val_ok c sz off (VNum n w) = fits_in n w"
| "val_ok c sz off (VUdata n) = (n < 2 ^ 31)"
| "val_ok c sz off (VSdata i) = (- (2 ^ 31) \<le> i \<and> i < 2 ^ 31)"
| "val_ok c sz off (VString xs) = (0 \<notin> set xs \<and> unat off + length xs < unat sz)"
| "val_ok c sz off (VStrp w) = fits_in (unat (cu_dwarf_size c)) w"
| "val_ok c sz off (VOffset w) = fits_in (unat (cu_dwarf_size c)) w"
| "val_ok c sz off VPresent = True"
| "val_ok c sz off (VBlock1 bs) = (length bs < 256)"
| "val_ok c sz off (VExprloc bs) = (length bs < 2 ^ 31)"

text \<open>The two words of the union, for a value at address \<open>p\<close>.\<close>

fun val_words :: "dsection \<Rightarrow> addr \<Rightarrow> die_val \<Rightarrow> u64 \<times> u64" where
  "val_words str p (VAddr w) = (w, 0)"
| "val_words str p (VNum n w) = (w, 0)"
| "val_words str p (VUdata n) = (of_nat n, 0)"
| "val_words str p (VSdata i) = (word_of_int i, 0)"
| "val_words str p (VString xs) = (p, 0)"
| "val_words str p (VStrp w) = (w, ds_data str + w)"
| "val_words str p (VOffset w) = (w, 0)"
| "val_words str p VPresent = (1, 0)"
| "val_words str p (VBlock1 bs) = (of_nat (length bs), p + 1)"
| "val_words str p (VExprloc bs) = (of_nat (length bs), p + of_nat (length (uleb128 (length bs))))"

lemma string_end_cstr:
  "holds_at m p (xs @ [0]) \<Longrightarrow> 0 \<notin> set xs \<Longrightarrow> unat off + length xs < unat sz \<Longrightarrow>
   string_end m p off sz = (p + of_nat (length xs), off + of_nat (length xs))"
proof (induction xs arbitrary: p off)
  case Nil
  then show ?case by (subst string_end.simps) (simp add: holds_at_Cons)
next
  case (Cons x xs)
  have le: "unat off + 1 \<le> unat sz" using Cons.prems(3) by simp
  have "unat (off + 1) = unat off + 1" using off_in_section(3) [OF le] by simp
  then have "string_end m (p + 1) (off + 1) sz = (p + 1 + of_nat (length xs), off + 1 + of_nat (length xs))"
    using Cons.prems by (intro Cons.IH) (simp_all add: holds_at_Cons)
  moreover have "off < sz" using off_in_section(1) [OF le] by simp
  ultimately show ?case
    using Cons.prems by (subst string_end.simps) (simp add: holds_at_Cons algebra_simps)
qed

lemma read_string_cstr:
  assumes "holds_at m (data + off) (xs @ [0])" and "0 \<notin> set xs" and "unat off + length xs < unat sz"
  shows "read_string m data sz off = (data + off, off + of_nat (length xs + 1))"
proof -
  have e: "m (data + off + of_nat (length xs)) = 0" using assms(1) by (simp add: holds_at_append holds_at_Cons)
  have s: "unat sz < 2 ^ 64" using unsigned_less [of sz] by simp
  have "unat (off + of_nat (length xs)) = unat off + length xs"
    using assms(3) s by (simp add: unat_word_ariths unat_of_nat64)
  then have "off + of_nat (length xs) < sz" using assms(3) by (simp add: word_less_nat_alt)
  then show ?thesis using string_end_cstr [OF assms] e by (simp add: read_string_def add.assoc)
qed

lemma dread_num:
  "holds_at m (data + off) (enc d n w) \<Longrightarrow> fits_in n w \<Longrightarrow> dread d m data off n = (w, off + of_nat n)"
  by (simp add: fits_in_def dread_enc)

lemma attr_value_val:
  assumes h: "holds_at m (ds_data ds + off) (val_bytes d c v)" and ok: "val_ok c (ds_size ds) off v"
    and form: "form \<in> set (val_forms v)" and str: "find_section si ''.debug_str'' = Some str"
  shows "attr_value m si d c ds off form =
    Some (Some (val_words str (ds_data ds + off) v), off + of_nat (length (val_bytes d c v)))"
proof (cases v)
  case (VNum n w)
  then have "n = 1 \<or> n = 2 \<or> n = 4 \<or> n = 8" using ok by (simp add: fits_in_def size_ok_def)
  moreover have "dread d m (ds_data ds) off n = (w, off + of_nat n)"
    using VNum h ok by (intro dread_num) simp_all
  ultimately show ?thesis
    using VNum form by (auto simp: attr_value_def Let_def dw_form_defs)
next
  case (VBlock1 bs)
  then have b: "dread d m (ds_data ds) off 1 = (of_nat (length bs), off + 1)"
    using h ok dread_byte [of d m "ds_data ds" off]
    by (simp add: holds_at_Cons unsigned_of_nat take_bit_nat_eq_self)
  show ?thesis
    using VBlock1 form b by (simp add: attr_value_def Let_def dw_form_defs read_block_def add.assoc)
qed (use h ok form str in \<open>auto simp: attr_value_def Let_def dw_form_defs dread_num read_uleb128_holds
      read_sleb128_holds read_string_cstr read_block_def add.assoc holds_at_append\<close>)

section \<open>Attributes\<close>

type_synonym attr_spec = "nat \<times> nat \<times> die_val"

definition attr_of :: "dsection \<Rightarrow> addr \<Rightarrow> attr_spec \<Rightarrow> dwattr" where
  "attr_of str p = (\<lambda>(a, f, v).
     \<lparr>at_attrib = of_nat a, at_form = of_nat f, at_indirect = False, at_u0 = fst (val_words str p v),
      at_u1 = snd (val_words str p v),
      at_block = (if of_nat f = DW_FORM_block1 then val_words str p v else (0, 0))\<rparr>)"

definition add_attr :: "dwattr \<Rightarrow> die \<Rightarrow> die" where
  "add_attr at die =
     (if at_attrib at = DW_AT_name \<and> at_form at = DW_FORM_strp then die\<lparr>die_name := at_u1 at\<rparr>
      else if at_attrib at = DW_AT_name \<and> at_form at = DW_FORM_string then die\<lparr>die_name := at_u0 at\<rparr>
      else die)\<lparr>die_attr := die_attr die @ [at]\<rparr>"

fun attrs_at :: "dwdebug \<Rightarrow> cu \<Rightarrow> dsection \<Rightarrow> addr \<Rightarrow> attr_spec list \<Rightarrow> dwattr list" where
  "attrs_at d c str p [] = []"
| "attrs_at d c str p ((a, f, v) # avs) =
     attr_of str p (a, f, v) # attrs_at d c str (p + of_nat (length (val_bytes d c v))) avs"

definition attr_bytes :: "dwdebug \<Rightarrow> cu \<Rightarrow> attr_spec list \<Rightarrow> u8 list" where
  "attr_bytes d c avs = concat (map (\<lambda>(a, f, v). val_bytes d c v) avs)"

fun attrs_ok :: "dwdebug \<Rightarrow> cu \<Rightarrow> u64 \<Rightarrow> u64 \<Rightarrow> attr_spec list \<Rightarrow> bool" where
  "attrs_ok d c sz off [] = True"
| "attrs_ok d c sz off ((a, f, v) # avs) =
     (val_ok c sz off v \<and> of_nat f \<in> set (val_forms v) \<and>
      attrs_ok d c sz (off + of_nat (length (val_bytes d c v))) avs)"

lemma val_forms_direct:
  "form \<in> set (val_forms v) \<Longrightarrow> form \<noteq> DW_FORM_indirect \<and> form \<noteq> DW_FORM_block \<and> form \<noteq> DW_FORM_block2 \<and> form \<noteq> DW_FORM_block4"
  by (cases v) (auto simp: dw_form_defs split: if_splits)

lemma attr_init_val:
  assumes "holds_at m (ds_data ds + off) (val_bytes d c v)" and "val_ok c (ds_size ds) off v"
    and "of_nat f \<in> set (val_forms v)" and "find_section si ''.debug_str'' = Some str"
    and "find_section si ''.debug_info'' = Some ds" and "length (die_attr die) < NATTRVAL"
    and "ad_attrib ad = of_nat a" and "ad_form ad = of_nat f"
  shows "attr_init m si d c off die ad (ad_form ad) False =
    Some (DW_DLE_NONE, off + of_nat (length (val_bytes d c v)), add_attr (attr_of str (ds_data ds + off) (a, f, v)) die)"
proof -
  note word = attr_value_val [OF assms(1-4)] and direct = val_forms_direct [OF assms(3)]
  show ?thesis
    using assms(5-8) direct
    by (subst attr_init.simps) (auto simp: word attr_of_def add_attr_def Let_def split: prod.splits)
qed

lemma length_add_attr [simp]: "length (die_attr (add_attr at die)) = Suc (length (die_attr die))"
  by (simp add: add_attr_def)

lemma attr_inits_vals:
  assumes "holds_at m (ds_data ds + off) (attr_bytes d c avs)" and "attrs_ok d c (ds_size ds) off avs"
    and "find_section si ''.debug_str'' = Some str" and "find_section si ''.debug_info'' = Some ds"
    and "length (die_attr die) + length avs \<le> NATTRVAL"
    and "map (\<lambda>ad. (ad_attrib ad, ad_form ad)) ads = map (\<lambda>(a, f, v). (of_nat a, of_nat f)) avs"
  shows "attr_inits m si d c off die ads =
    Some (DW_DLE_NONE, off + of_nat (length (attr_bytes d c avs)),
      fold add_attr (attrs_at d c str (ds_data ds + off) avs) die)"
  using assms
proof (induction avs arbitrary: off die ads)
  case Nil
  then show ?case by (simp add: attr_bytes_def)
next
  case (Cons av avs)
  obtain a f v where av: "av = (a, f, v)" by (cases av)
  obtain ad ads' where ads: "ads = ad # ads'" "ad_attrib ad = of_nat a" "ad_form ad = of_nat f"
      and rest: "map (\<lambda>ad. (ad_attrib ad, ad_form ad)) ads' = map (\<lambda>(a, f, v). (of_nat a, of_nat f)) avs"
    using Cons.prems(6) by (auto simp: av map_eq_Cons_conv)
  let ?o = "off + of_nat (length (val_bytes d c v))" and ?die = "add_attr (attr_of str (ds_data ds + off) (a, f, v)) die"
  have split: "attr_bytes d c (av # avs) = val_bytes d c v @ attr_bytes d c avs" by (simp add: attr_bytes_def av)
  have h: "holds_at m (ds_data ds + off) (val_bytes d c v)" "holds_at m (ds_data ds + ?o) (attr_bytes d c avs)"
    using Cons.prems(1) by (simp_all add: split holds_at_append add.assoc)
  have first: "attr_init m si d c off die ad (ad_form ad) False = Some (DW_DLE_NONE, ?o, ?die)"
    using Cons.prems(2,5) by (intro attr_init_val h(1) Cons.prems(3,4) ads(2,3)) (simp_all add: av)
  have "attr_inits m si d c ?o ?die ads' = Some (DW_DLE_NONE, ?o + of_nat (length (attr_bytes d c avs)),
      fold add_attr (attrs_at d c str (ds_data ds + ?o) avs) ?die)"
    using Cons.prems(2,5) by (intro Cons.IH h(2) Cons.prems(3,4) rest) (simp_all add: av)
  then show ?case by (simp add: ads(1) first split [unfolded av] av add.assoc)
qed

section \<open>Entries\<close>

text \<open>A tree of entries: code of the abbreviation, attributes, children.\<close>

datatype die_tree = Node nat "attr_spec list" "die_tree list"

definition abbrev_of :: "abbrev_spec list \<Rightarrow> nat \<Rightarrow> abbrev_spec option" where
  "abbrev_of as e = find (\<lambda>sp. fst sp = e) as"

definition has_children :: "abbrev_spec list \<Rightarrow> nat \<Rightarrow> bool" where
  "has_children as e = (case abbrev_of as e of Some (e, t, ch, ads) \<Rightarrow> ch = DW_CHILDREN_yes | None \<Rightarrow> False)"

definition head_bytes :: "dwdebug \<Rightarrow> cu \<Rightarrow> nat \<Rightarrow> attr_spec list \<Rightarrow> u8 list" where
  "head_bytes d c e avs = uleb128 e @ attr_bytes d c avs"

fun tree_bytes :: "dwdebug \<Rightarrow> cu \<Rightarrow> abbrev_spec list \<Rightarrow> die_tree \<Rightarrow> u8 list"
  and forest_bytes :: "dwdebug \<Rightarrow> cu \<Rightarrow> abbrev_spec list \<Rightarrow> die_tree list \<Rightarrow> u8 list" where
  "tree_bytes d c as (Node e avs ts) =
     head_bytes d c e avs @ (if has_children as e then forest_bytes d c as ts @ [0] else [])"
| "forest_bytes d c as [] = []"
| "forest_bytes d c as (t # ts) = tree_bytes d c as t @ forest_bytes d c as ts"

text \<open>An entry fits its abbreviation and the readers; its children flag is one of the two of DWARF.\<close>

definition head_ok :: "dwdebug \<Rightarrow> cu \<Rightarrow> abbrev_spec list \<Rightarrow> u64 \<Rightarrow> nat \<Rightarrow> attr_spec list \<Rightarrow> bool" where
  "head_ok d c as off e avs \<longleftrightarrow>
     0 < e \<and> e < 2 ^ 31 \<and> attrs_ok d c (dbg_info_size d) (off + of_nat (length (uleb128 e))) avs \<and>
     (case abbrev_of as e of
        Some (e', t, ch, ads) \<Rightarrow> map (\<lambda>(a, f, v). (a, f)) avs = ads \<and> (ch = DW_CHILDREN_yes \<or> ch = DW_CHILDREN_no)
      | None \<Rightarrow> False)"

fun tree_ok :: "dwdebug \<Rightarrow> cu \<Rightarrow> abbrev_spec list \<Rightarrow> u64 \<Rightarrow> die_tree \<Rightarrow> bool"
  and forest_ok :: "dwdebug \<Rightarrow> cu \<Rightarrow> abbrev_spec list \<Rightarrow> u64 \<Rightarrow> die_tree list \<Rightarrow> bool" where
  "tree_ok d c as off (Node e avs ts) =
     (head_ok d c as off e avs \<and> forest_ok d c as (off + of_nat (length (head_bytes d c e avs))) ts)"
| "forest_ok d c as off [] = True"
| "forest_ok d c as off (t # ts) =
     (tree_ok d c as off t \<and> forest_ok d c as (off + of_nat (length (tree_bytes d c as t))) ts)"

text \<open>
  The sections of a unit: its abbreviations \<open>as\<close>, the strings, and the entries, which \<^verbatim>\<open>dbg\<close> also knows.
\<close>

definition unit_env :: "mem \<Rightarrow> dsection list \<Rightarrow> dwdebug \<Rightarrow> cu \<Rightarrow> abbrev_spec list \<Rightarrow> dsection \<Rightarrow> bool" where
  "unit_env m si d c as str \<longleftrightarrow>
     (\<exists>ds abd. find_section si ''.debug_info'' = Some ds \<and> ds_data ds = dbg_info_offset_elf d \<and>
        ds_size ds = dbg_info_size d \<and> find_section si ''.debug_str'' = Some str \<and>
        find_section si ''.debug_abbrev'' = Some abd \<and>
        holds_at m (ds_data abd + cu_abbrev_offset c) (encode_abbrevs as) \<and> (\<forall>sp \<in> set as. abbrev_fits sp) \<and>
        unat (cu_abbrev_offset c) + length (encode_abbrevs as) \<le> unat (ds_size abd) \<and>
        cu_next_offset c \<le> dbg_info_size d)"

text \<open>A name is taken from the attributes, or is the one that the structure had before.\<close>

definition attr_name :: "dwattr \<Rightarrow> addr \<Rightarrow> addr" where
  "attr_name at n =
     (if at_attrib at = DW_AT_name \<and> at_form at = DW_FORM_strp then at_u1 at
      else if at_attrib at = DW_AT_name \<and> at_form at = DW_FORM_string then at_u0 at else n)"

definition die_of ::
    "dwdebug \<Rightarrow> cu \<Rightarrow> abbrev_spec list \<Rightarrow> dsection \<Rightarrow> u64 \<Rightarrow> nat \<Rightarrow> attr_spec list \<Rightarrow> die \<Rightarrow> bool" where
  "die_of d c as str off e avs die \<longleftrightarrow>
     die_offset die = off \<and> die_abnum die = of_nat e \<and>
     die_next_off die = off + of_nat (length (head_bytes d c e avs)) \<and>
     (\<exists>sp. abbrev_of as e = Some sp \<and> abbrev_matches (die_ab die) sp) \<and> die_tag die = ab_tag (die_ab die) \<and>
     die_attr die = attrs_at d c str (dbg_info_offset_elf d + (off + of_nat (length (uleb128 e)))) avs \<and>
     (\<exists>n. die_name die = fold attr_name (die_attr die) n)"

lemma fold_add_attr:
  "die_attr (fold add_attr ats die) = die_attr die @ ats"
  "die_name (fold add_attr ats die) = fold attr_name ats (die_name die)"
  "die_offset (fold add_attr ats die) = die_offset die" "die_abnum (fold add_attr ats die) = die_abnum die"
  "die_ab (fold add_attr ats die) = die_ab die" "die_tag (fold add_attr ats die) = die_tag die"
  by (induction ats arbitrary: die) (simp_all add: add_attr_def attr_name_def)

text \<open>The offset behind a position inside a unit.\<close>

lemma in_unit:
  fixes off lim sz :: u64
  assumes "unat off + n \<le> unat lim" and "0 < n" and "lim \<le> sz"
  shows "off < lim" "off < sz" "unat (off + of_nat n) = unat off + n"
  using off_in_section [OF assms(1,2)] assms(3) by (auto intro: less_le_trans)

lemma head_bytes_pos: "0 < length (head_bytes d c e avs)"
  by (simp add: head_bytes_def)

lemma abbrev_find_env:
  assumes "unit_env m si d c as str" and "abbrev_of as e = Some sp" and "0 < e" and "e < 2 ^ 31"
  shows "\<exists>ab'. abbrev_find m si d c (of_nat e) ab = Some (DW_DLE_NONE, ab') \<and> abbrev_matches ab' sp"
proof -
  obtain abd where abd: "find_section si ''.debug_abbrev'' = Some abd"
      "holds_at m (ds_data abd + cu_abbrev_offset c) (encode_abbrevs as)" "\<forall>sp \<in> set as. abbrev_fits sp"
      "unat (cu_abbrev_offset c) + length (encode_abbrevs as) \<le> unat (ds_size abd)"
    using assms(1) by (auto simp: unit_env_def)
  have "(of_nat e :: u64) \<noteq> 0" using assms(3,4) by (simp add: of_nat_zero31)
  then show ?thesis
    using abbrev_find_loop_table [OF abd(2-4) assms(3,4), of d ab] abd(1) assms(2)
    by (auto simp: abbrev_find_def abbrev_of_def)
qed

lemma abbrev_children:
  assumes "abbrev_of as e = Some sp" and "abbrev_matches ab sp" and "head_ok d c as off e avs"
  shows "ab_children ab = (if has_children as e then DW_CHILDREN_yes else DW_CHILDREN_no)"
  using assms by (auto simp: has_children_def abbrev_matches_def head_ok_def dw_children_defs split: prod.splits)

lemma abbrev_of_Some: "abbrev_of as e = Some sp \<Longrightarrow> fst sp = e \<and> sp \<in> set as"
  by (auto simp: abbrev_of_def find_Some_iff)

text \<open>One round of the search, at an entry.\<close>

lemma search_die_head:
  assumes env: "unit_env m si d c as str" and h: "holds_at m (dbg_info_offset_elf d + off) (head_bytes d c e avs)"
    and ok: "head_ok d c as off e avs" and lt: "off < cu_next_offset c"
  shows "\<exists>die'. die_of d c as str off e avs die' \<and>
    search_die m si d c sib off level die =
      (if sib \<and> 0 < sint level
       then search_die m si d c sib (off + of_nat (length (head_bytes d c e avs)))
              (if has_children as e then level + 1 else level) die'
       else Some (DW_DLE_NONE, die'))"
proof -
  obtain ds where ds: "find_section si ''.debug_info'' = Some ds" "ds_data ds = dbg_info_offset_elf d"
      "ds_size ds = dbg_info_size d" "find_section si ''.debug_str'' = Some str" "cu_next_offset c \<le> dbg_info_size d"
    using env by (auto simp: unit_env_def)
  have e: "0 < e" "e < 2 ^ 31" using ok by (simp_all add: head_ok_def)
  obtain t ch ads where sp: "abbrev_of as e = Some (e, t, ch, ads)" "map (\<lambda>(a, f, v). (a, f)) avs = ads"
    using ok by (auto simp: head_ok_def split: option.splits dest: abbrev_of_Some)
  let ?o = "off + of_nat (length (uleb128 e))"
  have hd: "holds_at m (dbg_info_offset_elf d + off) (uleb128 e)" "holds_at m (ds_data ds + ?o) (attr_bytes d c avs)"
    using h by (simp_all add: head_bytes_def holds_at_append ds(2) add.assoc)
  have leb: "read_uleb128 m (dbg_info_offset_elf d) off = Some (of_nat e, ?o)" by (rule read_uleb128_holds [OF hd(1) e(2)])
  have nz: "(of_nat e :: u64) \<noteq> 0" using e by (simp add: of_nat_zero31)
  obtain ab where ab: "abbrev_find m si d c (of_nat e) (die_ab die) = Some (DW_DLE_NONE, ab)" "abbrev_matches ab (e, t, ch, ads)"
    using abbrev_find_env [OF env sp(1) e] by blast
  have ads: "map (\<lambda>ad. (ad_attrib ad, ad_form ad)) (ab_attrdef ab) = map (\<lambda>(a, f, v). (of_nat a, of_nat f)) avs"
    using ab(2) sp(2) by (auto simp: abbrev_matches_def)
  have len: "length avs \<le> NATTRVAL"
  proof -
    have "(e, t, ch, ads) \<in> set as" using abbrev_of_Some [OF sp(1)] by simp
    then have "length ads \<le> NATTRDEF" using env by (auto simp: unit_env_def)
    then show ?thesis using sp(2) by (auto simp: NATTRDEF_def NATTRVAL_def)
  qed
  let ?d0 = "die\<lparr>die_offset := off, die_abnum := of_nat e, die_ab := ab, die_attr := [], die_tag := ab_tag ab\<rparr>"
  let ?d1 = "fold add_attr (attrs_at d c str (ds_data ds + ?o) avs) ?d0"
  let ?die = "?d1\<lparr>die_next_off := ?o + of_nat (length (attr_bytes d c avs))\<rparr>"
  have attrs: "attr_inits m si d c ?o ?d0 (ab_attrdef ab) =
      Some (DW_DLE_NONE, ?o + of_nat (length (attr_bytes d c avs)), ?d1)"
    using ok len by (intro attr_inits_vals hd(2) ds(1,4) ads) (simp_all add: head_ok_def ds(3))
  have children: "ab_children ab = (if has_children as e then DW_CHILDREN_yes else DW_CHILDREN_no)"
    by (rule abbrev_children [OF sp(1) ab(2) ok])
  have "die_of d c as str off e avs ?die"
    using sp(1) ab(2) by (auto simp: die_of_def fold_add_attr ds(2) head_bytes_def add.assoc)
  moreover have "search_die m si d c sib off level die =
      (if sib \<and> 0 < sint level
       then search_die m si d c sib (off + of_nat (length (head_bytes d c e avs)))
              (if has_children as e then level + 1 else level) ?die
       else Some (DW_DLE_NONE, ?die))"
    using lt ds(5) nz
    by (subst search_die.simps) (simp add: leb ab(1) attrs children Let_def head_bytes_def dw_children_defs add.assoc less_le_trans)
  ultimately show ?thesis by blast
qed

section \<open>Skipping the children of an entry\<close>

fun tree_depth :: "die_tree \<Rightarrow> nat" and forest_depth :: "die_tree list \<Rightarrow> nat" where
  "tree_depth (Node e avs ts) = Suc (forest_depth ts)"
| "forest_depth [] = 0"
| "forest_depth (t # ts) = max (tree_depth t) (forest_depth ts)"

lemma level_arith:
  assumes "l < 2 ^ 31"
  shows "sint (of_nat l :: u32) = int l" "(of_nat l :: u32) = 0 \<longleftrightarrow> l = 0"
proof -
  have "unat (of_nat l :: u32) = l" using assms by (simp add: unat_of_nat32)
  then show "(of_nat l :: u32) = 0 \<longleftrightarrow> l = 0" by (metis unat_eq_0 unsigned_0)
  show "sint (of_nat l :: u32) = int l"
    using assms by (simp add: signed_of_nat signed_take_bit_int_eq_self)
qed

lemma search_die_zero:
  assumes "m (dbg_info_offset_elf d + off) = 0" and "off < cu_next_offset c" and "off < dbg_info_size d"
  shows "search_die m si d c sib off level die =
    (if level = 0 \<or> \<not> sib then Some (DW_DLE_NO_ENTRY, die)
     else search_die m si d c sib (off + 1) (level - 1) die)"
proof -
  have "read_uleb128 m (dbg_info_offset_elf d) off = Some (0, off + 1)"
    using read_uleb128_holds [of m "dbg_info_offset_elf d" off 0] assms(1)
    by (simp add: uleb128.simps holds_at_Cons)
  then show ?thesis using assms(2,3) by (subst search_die.simps) simp
qed

lemma tree_bytes_pos: "0 < length (tree_bytes d c as t)"
  by (cases t) (simp add: head_bytes_def)

definition skips :: "mem \<Rightarrow> dsection list \<Rightarrow> dwdebug \<Rightarrow> cu \<Rightarrow> u64 \<Rightarrow> nat \<Rightarrow> nat \<Rightarrow> bool" where
  "skips m si d c off n l \<longleftrightarrow>
     (\<forall>die. \<exists>die'. search_die m si d c True off (of_nat l) die =
        search_die m si d c True (off + of_nat n) (of_nat l) die')"

lemma skips_Nil: "skips m si d c off 0 l"
  by (auto simp: skips_def)

lemma skips_append:
  assumes "skips m si d c off n l" and "skips m si d c (off + of_nat n) k l"
  shows "skips m si d c off (n + k) l"
  unfolding skips_def
proof
  fix die
  obtain d1 where "search_die m si d c True off (of_nat l) die = search_die m si d c True (off + of_nat n) (of_nat l) d1"
    using assms(1) unfolding skips_def by blast
  moreover obtain d2 where "search_die m si d c True (off + of_nat n) (of_nat l) d1 =
      search_die m si d c True (off + of_nat n + of_nat k) (of_nat l) d2"
    using assms(2) unfolding skips_def by blast
  ultimately show "\<exists>die'. search_die m si d c True off (of_nat l) die =
      search_die m si d c True (off + of_nat (n + k)) (of_nat l) die'"
    by (auto simp: add.assoc)
qed

lemma skips_head:
  assumes "unit_env m si d c as str" and "holds_at m (dbg_info_offset_elf d + off) (head_bytes d c e avs)"
    and "head_ok d c as off e avs" and "off < cu_next_offset c" and "0 < l" and "l < 2 ^ 31"
  shows "\<exists>die'. search_die m si d c True off (of_nat l) die =
    search_die m si d c True (off + of_nat (length (head_bytes d c e avs)))
      (of_nat (if has_children as e then Suc l else l)) die'"
  using search_die_head [OF assms(1-4), of True "of_nat l" die] assms(5,6) level_arith(1) [OF assms(6)]
  by (auto simp: add.commute)

lemma skips_tree_forest:
  "unit_env m si d c as str \<Longrightarrow> tree_ok d c as off t \<Longrightarrow>
     holds_at m (dbg_info_offset_elf d + off) (tree_bytes d c as t) \<Longrightarrow>
     unat off + length (tree_bytes d c as t) \<le> unat (cu_next_offset c) \<Longrightarrow> 0 < l \<Longrightarrow> l + tree_depth t < 2 ^ 31 \<Longrightarrow>
     skips m si d c off (length (tree_bytes d c as t)) l"
  "unit_env m si d c as str \<Longrightarrow> forest_ok d c as off ts \<Longrightarrow>
     holds_at m (dbg_info_offset_elf d + off) (forest_bytes d c as ts) \<Longrightarrow>
     unat off + length (forest_bytes d c as ts) \<le> unat (cu_next_offset c) \<Longrightarrow> 0 < l \<Longrightarrow> l + forest_depth ts < 2 ^ 31 \<Longrightarrow>
     skips m si d c off (length (forest_bytes d c as ts)) l"
proof (induction t and ts arbitrary: off l and off l rule: tree_depth_forest_depth.induct)
  case (1 e avs ts)
  let ?n = "length (head_bytes d c e avs)" and ?k = "length (forest_bytes d c as ts)"
  have le: "cu_next_offset c \<le> dbg_info_size d" using "1.prems"(1) by (auto simp: unit_env_def)
  have head: "holds_at m (dbg_info_offset_elf d + off) (head_bytes d c e avs)" "head_ok d c as off e avs"
    using "1.prems"(2,3) by (simp_all add: holds_at_append)
  have "unat off + ?n \<le> unat (cu_next_offset c)" using "1.prems"(4) by simp
  note off = in_unit [OF this head_bytes_pos le]
  have l: "0 < l" "l < 2 ^ 31" "Suc l + forest_depth ts < 2 ^ 31" using "1.prems"(5,6) by simp_all
  note first = skips_head [OF "1.prems"(1) head off(1) l(1,2)]
  show ?case
  proof (cases "has_children as e")
    case False
    then show ?thesis using first by (simp add: skips_def)
  next
    case True
    let ?o = "off + of_nat ?n"
    have h: "holds_at m (dbg_info_offset_elf d + ?o) (forest_bytes d c as ts)"
        "m (dbg_info_offset_elf d + (?o + of_nat ?k)) = 0"
      using "1.prems"(3) True by (simp_all add: holds_at_append holds_at_Cons add.assoc)
    have room: "unat ?o + (?k + 1) \<le> unat (cu_next_offset c)"
      using "1.prems"(4) True off(3) by simp
    then have skip: "skips m si d c ?o ?k (Suc l)"
      using "1.prems"(2) True l(3) by (intro "1.IH" "1.prems"(1) h(1)) simp_all
    have zero: "?o + of_nat ?k < cu_next_offset c"
    proof -
      have "unat (?o + of_nat ?k) = unat ?o + ?k"
        using off_in_section(3) [OF room] room unsigned_less [of "cu_next_offset c", where ?'a = nat]
        by (simp add: unat_word_ariths unat_of_nat64)
      then show ?thesis using room by (simp add: word_less_nat_alt)
    qed
    have up: "search_die m si d c True (?o + of_nat ?k) (of_nat (Suc l)) die =
        search_die m si d c True (?o + of_nat ?k + 1) (of_nat l) die" for die
      using level_arith(2) [of "Suc l"] l(3)
      by (subst search_die_zero [of m, OF h(2) zero less_le_trans [OF zero le]]) simp
    have "skips m si d c off (?n + ?k + 1) l"
      unfolding skips_def
    proof
      fix die
      obtain d1 where d1: "search_die m si d c True off (of_nat l) die = search_die m si d c True ?o (of_nat (Suc l)) d1"
        using first [of die] True by auto
      obtain d2 where d2: "search_die m si d c True ?o (of_nat (Suc l)) d1 =
          search_die m si d c True (?o + of_nat ?k) (of_nat (Suc l)) d2"
        using skip unfolding skips_def by blast
      show "\<exists>die'. search_die m si d c True off (of_nat l) die =
          search_die m si d c True (off + of_nat (?n + ?k + 1)) (of_nat l) die'"
        unfolding d1 d2 up by (auto simp: ac_simps)
    qed
    then show ?thesis using True by simp
  qed
next
  case 2
  then show ?case by (simp add: skips_Nil)
next
  case (3 t ts)
  let ?n = "length (tree_bytes d c as t)"
  have le: "cu_next_offset c \<le> dbg_info_size d" using "3.prems"(1) by (auto simp: unit_env_def)
  have "unat off + ?n \<le> unat (cu_next_offset c)" using "3.prems"(4) by simp
  note off = in_unit [OF this tree_bytes_pos le]
  have "skips m si d c off ?n l"
    using "3.prems" by (intro "3.IH"(1)) (simp_all add: holds_at_append)
  moreover have "skips m si d c (off + of_nat ?n) (length (forest_bytes d c as ts)) l"
    using "3.prems" off(3) by (intro "3.IH"(2)) (simp_all add: holds_at_append add.assoc)
  ultimately show ?case by (simp add: skips_append)
qed

section \<open>Children and siblings\<close>

text \<open>What follows in a list of children: the next entry, or the end.\<close>

fun next_in :: "die_tree list \<Rightarrow> (nat \<times> attr_spec list) option" where
  "next_in [] = None"
| "next_in (Node e avs ts # _) = Some (e, avs)"

definition found_at ::
    "dwdebug \<Rightarrow> cu \<Rightarrow> abbrev_spec list \<Rightarrow> dsection \<Rightarrow> u64 \<Rightarrow> (nat \<times> attr_spec list) option \<Rightarrow> u32 \<times> die \<Rightarrow> bool" where
  "found_at d c as str off nx = (\<lambda>(ret, die).
     case nx of
       None \<Rightarrow> ret = DW_DLE_NO_ENTRY
     | Some (e, avs) \<Rightarrow> ret = DW_DLE_NONE \<and> die_of d c as str off e avs die)"

text \<open>Behind a list of children there is a zero byte; \<open>list_at\<close> says that the list lies in the unit.\<close>

definition children_at :: "mem \<Rightarrow> dwdebug \<Rightarrow> cu \<Rightarrow> abbrev_spec list \<Rightarrow> u64 \<Rightarrow> die_tree list \<Rightarrow> bool" where
  "children_at m d c as off ts \<longleftrightarrow>
     forest_ok d c as off ts \<and> holds_at m (dbg_info_offset_elf d + off) (forest_bytes d c as ts @ [0]) \<and>
     unat off + length (forest_bytes d c as ts) + 1 \<le> unat (cu_next_offset c)"

lemma search_here:
  assumes env: "unit_env m si d c as str" and at: "children_at m d c as off ts"
    and stop: "\<not> (sib \<and> 0 < sint level)" and zero: "sib \<longrightarrow> level = 0"
  shows "\<exists>r. search_die m si d c sib off level die = Some r \<and> found_at d c as str off (next_in ts) r"
proof (cases ts)
  case Nil
  have le: "cu_next_offset c \<le> dbg_info_size d" using env by (auto simp: unit_env_def)
  have "m (dbg_info_offset_elf d + off) = 0" "off < cu_next_offset c"
    using at off_in_section(1) [of off 1 "cu_next_offset c"] by (simp_all add: children_at_def Nil holds_at_Cons)
  then show ?thesis
    using zero search_die_zero [of m d off c si sib level die] less_le_trans [OF _ le] by (auto simp: Nil found_at_def)
next
  case (Cons t ts')
  obtain e avs us where t: "t = Node e avs us" by (cases t)
  have "unat off + length (head_bytes d c e avs) \<le> unat (cu_next_offset c)"
    using at by (simp add: children_at_def Cons t)
  note lt = off_in_section(1) [OF this head_bytes_pos]
  have "holds_at m (dbg_info_offset_elf d + off) (head_bytes d c e avs)" "head_ok d c as off e avs"
    using at by (simp_all add: children_at_def Cons t holds_at_append)
  then show ?thesis
    using search_die_head [OF env _ _ lt, of e avs sib level die] stop by (auto simp: Cons t found_at_def)
qed

lemma children_at_step:
  assumes "children_at m d c as off (t # ts)"
  shows "children_at m d c as (off + of_nat (length (tree_bytes d c as t))) ts"
    "unat off + length (tree_bytes d c as t) \<le> unat (cu_next_offset c)"
proof -
  have le: "unat off + length (tree_bytes d c as t) \<le> unat (cu_next_offset c)"
    using assms by (simp add: children_at_def)
  then show "unat off + length (tree_bytes d c as t) \<le> unat (cu_next_offset c)" .
  show "children_at m d c as (off + of_nat (length (tree_bytes d c as t))) ts"
    using assms off_in_section(3) [OF le tree_bytes_pos]
    by (simp add: children_at_def holds_at_append add.assoc)
qed

text \<open>The result code of \<^verbatim>\<open>dwarf_child\<close> and \<^verbatim>\<open>dwarf_siblingof\<close> and the structure that they fill.\<close>

definition answer ::
    "dwdebug \<Rightarrow> cu \<Rightarrow> abbrev_spec list \<Rightarrow> dsection \<Rightarrow> u64 \<Rightarrow> (nat \<times> attr_spec list) option \<Rightarrow> u32 \<times> die \<Rightarrow> bool" where
  "answer d c as str off nx = (\<lambda>(ret, die).
     case nx of
       None \<Rightarrow> ret = DW_DLV_NO_ENTRY
     | Some (e, avs) \<Rightarrow> ret = DW_DLV_OK \<and> die_of d c as str off e avs die)"

lemma answer_dlv: "found_at d c as str off nx (ret, die) \<Longrightarrow> answer d c as str off nx (dlv_result ret, die)"
  by (auto simp: found_at_def answer_def dlv_result_def dw_result_defs split: option.splits)

lemma die_children:
  assumes "die_of d c as str off e avs die" and "head_ok d c as off e avs"
  shows "ab_children (die_ab die) = (if has_children as e then DW_CHILDREN_yes else DW_CHILDREN_no)"
  using assms abbrev_children by (fastforce simp: die_of_def)

lemma child_answer:
  assumes "unit_env m si d c as str" and "die_of d c as str off e avs die" and "head_ok d c as off e avs"
    and "has_children as e" and "children_at m d c as (off + of_nat (length (head_bytes d c e avs))) ts"
  shows "\<exists>r. child m si d c die ret_die = Some r \<and>
    answer d c as str (off + of_nat (length (head_bytes d c e avs))) (next_in ts) r"
proof -
  obtain ret die' where "search_die m si d c False (off + of_nat (length (head_bytes d c e avs))) 1 ret_die = Some (ret, die')"
      "found_at d c as str (off + of_nat (length (head_bytes d c e avs))) (next_in ts) (ret, die')"
    using search_here [OF assms(1,5), of False 1 ret_die] by auto
  moreover have "die_next_off die = off + of_nat (length (head_bytes d c e avs))"
    using assms(2) by (simp add: die_of_def)
  ultimately show ?thesis
    using die_children [OF assms(2,3)] assms(4) answer_dlv
    by (auto simp: child_def search_die_within_cu_def dw_children_defs)
qed

text \<open>A reference to the sibling, if the entry has one, points behind its children.\<close>

definition sibling_ok :: "dwdebug \<Rightarrow> cu \<Rightarrow> abbrev_spec list \<Rightarrow> dsection \<Rightarrow> u64 \<Rightarrow> die_tree \<Rightarrow> bool" where
  "sibling_ok d c as str off t =
     (case t of Node e avs ts \<Rightarrow>
        case find (\<lambda>a. at_attrib a = DW_AT_sibling)
            (attrs_at d c str (dbg_info_offset_elf d + (off + of_nat (length (uleb128 e)))) avs) of
          None \<Rightarrow> True
        | Some at \<Rightarrow> (if at_form at \<noteq> DW_FORM_ref_addr then at_u0 at + cu_offset c else at_u0 at) =
            off + of_nat (length (tree_bytes d c as t)))"

text \<open>Without the reference, the search goes through all entries below, and up again.\<close>

lemma search_sibling_skips:
  assumes env: "unit_env m si d c as str" and at: "children_at m d c as off (Node e avs ts # rest)"
    and ch: "has_children as e" and depth: "tree_depth (Node e avs ts) < 2 ^ 30"
  shows "\<exists>r. search_die m si d c True (off + of_nat (length (head_bytes d c e avs))) 1 die = Some r \<and>
    found_at d c as str (off + of_nat (length (tree_bytes d c as (Node e avs ts)))) (next_in rest) r"
proof -
  let ?n = "length (head_bytes d c e avs)" and ?k = "length (forest_bytes d c as ts)"
  let ?o = "off + of_nat ?n"
  have le: "cu_next_offset c \<le> dbg_info_size d" using env by (auto simp: unit_env_def)
  note step = children_at_step [OF at]
  have "unat off + ?n \<le> unat (cu_next_offset c)" using step(2) by simp
  note off = in_unit [OF this head_bytes_pos le]
  have h: "holds_at m (dbg_info_offset_elf d + ?o) (forest_bytes d c as ts)" "m (dbg_info_offset_elf d + (?o + of_nat ?k)) = 0"
    using at ch by (simp_all add: children_at_def holds_at_append holds_at_Cons add.assoc)
  have room: "unat ?o + (?k + 1) \<le> unat (cu_next_offset c)" using step(2) ch off(3) by simp
  then have lt: "?o + of_nat ?k < cu_next_offset c"
    using off_in_section(3) [OF room] unsigned_less [of "cu_next_offset c", where ?'a = nat]
    by (simp add: unat_word_ariths unat_of_nat64 word_less_nat_alt)
  have "skips m si d c ?o ?k 1"
    using at room depth by (intro skips_tree_forest(2) [OF env _ h(1)]) (simp_all add: children_at_def)
  then obtain die' where "search_die m si d c True ?o 1 die = search_die m si d c True (?o + of_nat ?k) 1 die'"
    unfolding skips_def by auto
  then have "search_die m si d c True ?o 1 die = search_die m si d c True (?o + of_nat ?k + 1) 0 die'"
    using search_die_zero [of m, OF h(2) lt less_le_trans [OF lt le], of si True 1 die'] by simp
  moreover have "?o + of_nat ?k + 1 = off + of_nat (length (tree_bytes d c as (Node e avs ts)))"
    using ch by (simp add: ac_simps)
  ultimately show ?thesis
    using search_here [OF env step(1), of True 0 die'] by simp
qed

lemma siblingof_answer:
  assumes env: "unit_env m si d c as str" and at: "children_at m d c as off (Node e avs ts # rest)"
    and die: "die_of d c as str off e avs die" and sib: "sibling_ok d c as str off (Node e avs ts)"
    and depth: "tree_depth (Node e avs ts) < 2 ^ 30"
  shows "\<exists>r. siblingof m si d (Some die) ret_die c = Some r \<and>
    answer d c as str (off + of_nat (length (tree_bytes d c as (Node e avs ts)))) (next_in rest) r"
proof -
  let ?stop = "off + of_nat (length (tree_bytes d c as (Node e avs ts)))"
  have head: "head_ok d c as off e avs" using at by (simp add: children_at_def)
  note children = die_children [OF die head]
  have next_off: "die_next_off die = off + of_nat (length (head_bytes d c e avs))"
      and attrs: "die_attr die = attrs_at d c str (dbg_info_offset_elf d + (off + of_nat (length (uleb128 e)))) avs"
    using die by (simp_all add: die_of_def)
  obtain ret die' where here: "search_die m si d c False ?stop 1 ret_die = Some (ret, die')"
      "found_at d c as str ?stop (next_in rest) (ret, die')"
    using search_here [OF env children_at_step(1) [OF at], of False 1 ret_die] by auto
  show ?thesis
  proof (cases "has_children as e \<and> attr_find die DW_AT_sibling = None")
    case True
    then obtain ret die' where "search_die m si d c True (die_next_off die) 1 ret_die = Some (ret, die')"
        "found_at d c as str ?stop (next_in rest) (ret, die')"
      using search_sibling_skips [OF env at _ depth, of ret_die] next_off by auto
    then show ?thesis
      using True children answer_dlv by (auto simp: siblingof_def search_die_within_cu_def dw_children_defs)
  next
    case False
    then show ?thesis
    proof (cases "has_children as e")
      case True
      with False obtain a where a: "attr_find die DW_AT_sibling = Some a" by auto
      then have "(if at_form a \<noteq> DW_FORM_ref_addr then at_u0 a + cu_offset c else at_u0 a) = ?stop"
        using sib by (simp add: sibling_ok_def attr_find_def attrs split: if_splits)
      then show ?thesis
        using True a children here answer_dlv
        by (auto simp: siblingof_def search_die_within_cu_def dw_children_defs)
    next
      case False
      then have "die_next_off die = ?stop" using next_off by simp
      then show ?thesis
        using False children here answer_dlv by (auto simp: siblingof_def search_die_within_cu_def)
    qed
  qed
qed

section \<open>An example\<close>

text \<open>
  A file \<^verbatim>\<open>a.c\<close> with the functions \<^verbatim>\<open>f\<close> of one parameter \<^verbatim>\<open>x\<close> and \<^verbatim>\<open>g\<close> of none, and the type of \<^verbatim>\<open>x\<close>.
\<close>

definition ex_abbrevs :: "abbrev_spec list" where
  "ex_abbrevs = [(1, 0x11, 1, [(3, 8), (16, 6)]), (2, 0x2E, 0, [(3, 8), (17, 1), (18, 1)]),
     (3, 0x2E, 1, [(3, 8), (17, 1), (18, 1)]), (4, 5, 0, [(3, 8), (73, 19)]), (5, 0x24, 0, [(11, 11)])]"

definition ex_f :: die_tree where
  "ex_f = Node 3 [(3, 8, VString [0x66]), (17, 1, VAddr 0x8004201000), (18, 1, VAddr 0x8004201010)]
     [Node 4 [(3, 8, VString [0x78]), (73, 19, VNum 4 66)] []]"

definition ex_g :: die_tree where
  "ex_g = Node 2 [(3, 8, VString [0x67]), (17, 1, VAddr 0x8004201010), (18, 1, VAddr 0x8004201030)] []"

definition ex_children :: "die_tree list" where
  "ex_children = [ex_f, ex_g, Node 5 [(11, 11, VNum 1 4)] []]"

definition ex_root :: "attr_spec list" where
  "ex_root = [(3, 8, VString [0x61, 0x2E, 0x63]), (16, 6, VNum 4 0)]"

text \<open>The sections one behind the other: abbreviations, entries, line numbers.\<close>

definition ex_abbrev_bytes :: "u8 list" where
  "ex_abbrev_bytes =
     [1, 0x11, 1, 3, 8, 16, 6, 0, 0,  2, 0x2E, 0, 3, 8, 17, 1, 18, 1, 0, 0,  3, 0x2E, 1, 3, 8, 17, 1, 18, 1, 0, 0,
      4, 5, 0, 3, 8, 73, 19, 0, 0,  5, 0x24, 0, 11, 11, 0, 0,  0]"

definition ex_info_bytes :: "u8 list" where
  "ex_info_bytes =
     [65, 0, 0, 0,  2, 0,  0, 0, 0, 0,  8,
      1, 0x61, 0x2E, 0x63, 0, 0, 0, 0, 0,
      3, 0x66, 0, 0, 0x10, 0x20, 0x04, 0x80, 0, 0, 0, 0x10, 0x10, 0x20, 0x04, 0x80, 0, 0, 0,
      4, 0x78, 0, 66, 0, 0, 0,  0,
      2, 0x67, 0, 0x10, 0x10, 0x20, 0x04, 0x80, 0, 0, 0, 0x30, 0x10, 0x20, 0x04, 0x80, 0, 0, 0,
      5, 4,  0]"

definition ex_line_bytes :: "u8 list" where
  "ex_line_bytes =
     [0x33, 0, 0, 0,  2, 0,  0x18, 0, 0, 0,  1, 1, 0xFB, 14, 13,  0, 1, 1, 1, 1, 0, 0, 0, 1, 0, 0, 1,
      0,  0x61, 0, 0, 0, 0,  0,
      0, 9, 2, 0, 0x10, 0x20, 0x04, 0x80, 0, 0, 0,  3, 4, 1,  0x4C,  2, 24, 1,  0, 1, 1]"

definition ex_mem :: mem where
  "ex_mem = store (\<lambda>_. 0) 0x100 (ex_abbrev_bytes @ ex_info_bytes @ ex_line_bytes)"

definition ex_si :: "dsection list" where
  "ex_si = [\<lparr>ds_name = ''.debug_info'', ds_data = 0x130, ds_addr = 0x130, ds_size = 69\<rparr>,
     \<lparr>ds_name = ''.debug_abbrev'', ds_data = 0x100, ds_addr = 0x100, ds_size = 48\<rparr>,
     \<lparr>ds_name = ''.debug_line'', ds_data = 0x175, ds_addr = 0x175, ds_size = 55\<rparr>,
     \<lparr>ds_name = ''.debug_str'', ds_data = 0x300, ds_addr = 0x300, ds_size = 0\<rparr>]"

definition ex_d :: dwdebug where
  "ex_d = (dwarf_init (\<lambda>_. 0) 0)\<lparr>dbg_info_offset_elf := 0x130, dbg_info_size := 69, curr_off_dbginfo := 69\<rparr>"

definition ex_c :: cu where
  "ex_c = \<lparr>cu_length = 65, cu_version = 2, cu_addr_size = 8, cu_abbrev_offset = 0, cu_length_size = 4,
     cu_dwarf_size = 4, cu_next_offset = 69, cu_die_offset = 11, cu_offset = 0\<rparr>"

definition ex_str :: dsection where
  "ex_str = \<lparr>ds_name = ''.debug_str'', ds_data = 0x300, ds_addr = 0x300, ds_size = 0\<rparr>"

lemmas ex_defs = ex_abbrevs_def ex_f_def ex_g_def ex_children_def ex_root_def ex_c_def

lemma ex_d_simps [simp]: "\<not> dbg_msb ex_d" "dbg_info_offset_elf ex_d = 0x130" "dbg_info_size ex_d = 69"
  by (simp_all add: ex_d_def dwarf_init_def frame_params_init_def elf_is_msb_def)

lemma holds_at_inside:
  assumes "take (length xs) (drop k ys) = xs" and "length ys \<le> 2 ^ 64" and "k \<le> length ys"
  shows "holds_at (store m p ys) (p + of_nat k) xs"
proof -
  have "ys = take k ys @ xs @ drop (length xs) (drop k ys)" using assms(1) by (metis append_take_drop_id)
  then have "holds_at (store m p ys) p (take k ys @ xs @ drop (length xs) (drop k ys))"
    using holds_at_store [OF assms(2), of m p] by simp
  then show ?thesis using assms(3) by (simp add: holds_at_append)
qed

text \<open>The memories that hold the three sections.\<close>

definition ex_image :: "mem \<Rightarrow> bool" where
  "ex_image m \<longleftrightarrow> holds_at m 0x100 (ex_abbrev_bytes @ ex_info_bytes @ ex_line_bytes)"

lemma ex_image_parts:
  assumes "ex_image m"
  shows "holds_at m 0x100 ex_abbrev_bytes" "holds_at m 0x130 ex_info_bytes" "holds_at m 0x175 ex_line_bytes"
proof -
  have len: "length ex_abbrev_bytes = 48" "length ex_info_bytes = 69"
    by (simp_all add: ex_abbrev_bytes_def ex_info_bytes_def)
  show "holds_at m 0x100 ex_abbrev_bytes" "holds_at m 0x130 ex_info_bytes" "holds_at m 0x175 ex_line_bytes"
    using assms unfolding ex_image_def holds_at_append len by simp_all
qed

lemma ex_mem_image: "ex_image ex_mem"
proof -
  have "length (ex_abbrev_bytes @ ex_info_bytes @ ex_line_bytes) \<le> 2 ^ 64"
    by (simp add: ex_abbrev_bytes_def ex_info_bytes_def ex_line_bytes_def)
  then show ?thesis unfolding ex_image_def ex_mem_def by (rule holds_at_store)
qed

lemmas ex_mem_line = ex_image_parts(3) [OF ex_mem_image]

lemma image_env: "ex_image m \<Longrightarrow> unit_env m ex_si ex_d ex_c ex_abbrevs ex_str"
proof -
  assume m: "ex_image m"
  have e: "encode_abbrevs ex_abbrevs = ex_abbrev_bytes"
    by (simp add: ex_abbrevs_def encode_abbrevs_def uleb128.simps ex_abbrev_bytes_def)
  have "length ex_abbrev_bytes = 48" by (simp add: ex_abbrev_bytes_def)
  moreover have "\<forall>sp \<in> set ex_abbrevs. abbrev_fits sp" by (simp add: ex_abbrevs_def NATTRDEF_def)
  ultimately show ?thesis
    unfolding unit_env_def e using ex_image_parts(1) [OF m]
    by (simp add: ex_si_def find_section_def ex_c_def ex_str_def)
qed

lemmas ex_env = image_env [OF ex_mem_image]

lemma ex_le:
  "le_bytes 8 0x8004201000 = [0, 0x10, 0x20, 0x04, 0x80, 0, 0, 0]" "le_bytes 8 0x8004201010 = [0x10, 0x10, 0x20, 0x04, 0x80, 0, 0, 0]"
  "le_bytes 8 0x8004201030 = [0x30, 0x10, 0x20, 0x04, 0x80, 0, 0, 0]" "le_bytes 4 0 = [0, 0, 0, 0]" "le_bytes 4 66 = [66, 0, 0, 0]"
  "le_bytes 1 4 = [4]"
  by code_simp+

lemma ex_bytes:
  "forest_bytes ex_d ex_c ex_abbrevs ex_children =
     [3, 0x66, 0, 0, 0x10, 0x20, 0x04, 0x80, 0, 0, 0, 0x10, 0x10, 0x20, 0x04, 0x80, 0, 0, 0,
      4, 0x78, 0, 66, 0, 0, 0,  0,
      2, 0x67, 0, 0x10, 0x10, 0x20, 0x04, 0x80, 0, 0, 0, 0x30, 0x10, 0x20, 0x04, 0x80, 0, 0, 0,
      5, 4]"
  "head_bytes ex_d ex_c 1 ex_root = [1, 0x61, 0x2E, 0x63, 0, 0, 0, 0, 0]"
  by (simp_all add: ex_defs head_bytes_def attr_bytes_def has_children_def abbrev_of_def enc_def ex_le [unfolded One_nat_def] uleb128.simps
      dw_children_defs)

lemma ex_ok:
  "forest_ok ex_d ex_c ex_abbrevs 20 ex_children" "head_ok ex_d ex_c ex_abbrevs 11 1 ex_root"
  by (simp_all add: ex_defs head_ok_def abbrev_of_def head_bytes_def attr_bytes_def has_children_def fits_in_def
      size_ok_def dw_form_defs dw_children_defs uleb128.simps)

lemma ex_info_split:
  "ex_info_bytes = [65, 0, 0, 0,  2, 0,  0, 0, 0, 0,  8] @ head_bytes ex_d ex_c 1 ex_root @
     forest_bytes ex_d ex_c ex_abbrevs ex_children @ [0]"
  unfolding ex_bytes ex_info_bytes_def by simp

lemma ex_c_simps [simp]: "cu_next_offset ex_c = 69" "cu_die_offset ex_c = 11" "cu_offset ex_c = 0"
  by (simp_all add: ex_c_def)

lemma image_holds:
  assumes "ex_image m"
  shows "holds_at m 0x13B (head_bytes ex_d ex_c 1 ex_root)"
    and "holds_at m 0x144 (forest_bytes ex_d ex_c ex_abbrevs ex_children @ [0])"
proof -
  have len: "length (head_bytes ex_d ex_c 1 ex_root) = 9" unfolding ex_bytes by simp
  note h = ex_image_parts(2) [OF assms, unfolded ex_info_split holds_at_append len]
  show "holds_at m 0x13B (head_bytes ex_d ex_c 1 ex_root)" using h by simp
  show "holds_at m 0x144 (forest_bytes ex_d ex_c ex_abbrevs ex_children @ [0])"
    using h by (simp add: holds_at_append)
qed

lemmas ex_holds = image_holds [OF ex_mem_image]

lemma image_children_at: "ex_image m \<Longrightarrow> children_at m ex_d ex_c ex_abbrevs 20 ex_children"
proof -
  assume m: "ex_image m"
  have "length (forest_bytes ex_d ex_c ex_abbrevs ex_children) = 48" unfolding ex_bytes by simp
  then show ?thesis using ex_ok(1) image_holds(2) [OF m] by (simp add: children_at_def)
qed

lemmas ex_children_at = image_children_at [OF ex_mem_image]

text \<open>
  C25. \<^verbatim>\<open>dwarf_offdie\<close> on an entry as a producer writes it, with attributes of any of the forms of
  \<open>val_forms\<close> and the sections of its unit in place: it returns \<^verbatim>\<open>DW_DLE_NONE\<close> and fills in the tag, every
  attribute with its value in order, the name and the offset behind the entry.
\<close>

theorem offdie_reads:
  assumes "unit_env m si d c as str" and "holds_at m (dbg_info_offset_elf d + off) (head_bytes d c e avs)"
    and "head_ok d c as off e avs" and "off < cu_next_offset c"
  shows "\<exists>die'. offdie m si d off die c = Some (DW_DLE_NONE, die') \<and> die_of d c as str off e avs die'"
  using search_die_head [OF assms, of False 1 die] assms(4)
  by (auto simp: offdie_def search_die_within_cu_def)

theorem offdie_reads_witness:
  "\<forall>die. \<exists>die'. offdie ex_mem ex_si ex_d 11 die ex_c = Some (DW_DLE_NONE, die') \<and> die_tag die' = 0x11 \<and>
     die_name die' = 0x13C \<and> die_next_off die' = 20 \<and> map at_u0 (die_attr die') = [0x13C, 0]"
proof
  fix die
  have lt: "(11 :: u64) < cu_next_offset ex_c" and h: "holds_at ex_mem (dbg_info_offset_elf ex_d + 11) (head_bytes ex_d ex_c 1 ex_root)"
    using ex_holds(1) by simp_all
  obtain die' where "offdie ex_mem ex_si ex_d 11 die ex_c = Some (DW_DLE_NONE, die')"
      "die_of ex_d ex_c ex_abbrevs ex_str 11 1 ex_root die'"
    using offdie_reads [OF ex_env h ex_ok(2) lt, of die] by blast
  moreover have "length (head_bytes ex_d ex_c 1 ex_root) = 9" unfolding ex_bytes by simp
  ultimately show "\<exists>die'. offdie ex_mem ex_si ex_d 11 die ex_c = Some (DW_DLE_NONE, die') \<and> die_tag die' = 0x11 \<and>
     die_name die' = 0x13C \<and> die_next_off die' = 20 \<and> map at_u0 (die_attr die') = [0x13C, 0]"
    by (auto simp: die_of_def ex_abbrevs_def abbrev_of_def abbrev_matches_def ex_root_def attr_of_def attr_name_def
      dw_at_defs dw_form_defs uleb128.simps)
qed

text \<open>
  C24. \<^verbatim>\<open>dwarf_siblingof\<close> on an entry in a list of children, whatever the entry has below it: it fills in
  the next entry of the list and returns \<^verbatim>\<open>DW_DLV_OK\<close>, or \<^verbatim>\<open>DW_DLV_NO_ENTRY\<close> behind the last one. The way
  there is the reference to the sibling, when there is one, and otherwise the search through all
  entries below.
\<close>

theorem siblingof_next:
  assumes "unit_env m si d c as str" and "children_at m d c as off (Node e avs ts # rest)"
    and "die_of d c as str off e avs die" and "sibling_ok d c as str off (Node e avs ts)"
    and "tree_depth (Node e avs ts) < 2 ^ 30"
  shows "\<exists>r. siblingof m si d (Some die) ret_die c = Some r \<and>
    answer d c as str (off + of_nat (length (tree_bytes d c as (Node e avs ts)))) (next_in rest) r"
  using assms by (rule siblingof_answer)

lemma ex_die_f:
  "\<exists>die'. offdie ex_mem ex_si ex_d 20 die ex_c = Some (DW_DLE_NONE, die') \<and>
     die_of ex_d ex_c ex_abbrevs ex_str 20 3 [(3, 8, VString [0x66]), (17, 1, VAddr 0x8004201000), (18, 1, VAddr 0x8004201010)] die'"
proof -
  have h: "holds_at ex_mem (dbg_info_offset_elf ex_d + 20)
      (head_bytes ex_d ex_c 3 [(3, 8, VString [0x66]), (17, 1, VAddr 0x8004201000), (18, 1, VAddr 0x8004201010)])"
    using ex_children_at by (simp add: children_at_def ex_children_def ex_f_def holds_at_append)
  have ok: "head_ok ex_d ex_c ex_abbrevs 20 3 [(3, 8, VString [0x66]), (17, 1, VAddr 0x8004201000), (18, 1, VAddr 0x8004201010)]"
    using ex_ok(1) by (simp add: ex_children_def ex_f_def)
  show ?thesis
    using search_die_head [OF ex_env h ok, of False 1 die] by (auto simp: offdie_def search_die_within_cu_def)
qed

theorem siblingof_next_witness:
  "\<forall>die0 ret_die. \<exists>die r. offdie ex_mem ex_si ex_d 20 die0 ex_c = Some (DW_DLE_NONE, die) \<and>
     siblingof ex_mem ex_si ex_d (Some die) ret_die ex_c = Some (DW_DLV_OK, r) \<and>
     die_offset r = 47 \<and> die_tag r = 0x2E \<and> map at_u0 (die_attr r) = [0x160, 0x8004201010, 0x8004201030]"
proof (intro allI)
  fix die0 ret_die
  let ?rest = "[ex_g, Node 5 [(11, 11, VNum 1 4)] []]"
  obtain die where die: "offdie ex_mem ex_si ex_d 20 die0 ex_c = Some (DW_DLE_NONE, die)"
      "die_of ex_d ex_c ex_abbrevs ex_str 20 3 [(3, 8, VString [0x66]), (17, 1, VAddr 0x8004201000), (18, 1, VAddr 0x8004201010)] die"
    using ex_die_f by blast
  have "sibling_ok ex_d ex_c ex_abbrevs ex_str 20 ex_f"
    by (simp add: sibling_ok_def ex_f_def attr_of_def dw_at_defs)
  moreover have "tree_depth ex_f < 2 ^ 30" by (simp add: ex_f_def)
  moreover have "length (tree_bytes ex_d ex_c ex_abbrevs ex_f) = 27"
    by (simp add: ex_f_def head_bytes_def attr_bytes_def has_children_def abbrev_of_def ex_abbrevs_def dw_children_defs
      ex_c_def uleb128.simps)
  ultimately obtain r where "siblingof ex_mem ex_si ex_d (Some die) ret_die ex_c = Some r"
      "answer ex_d ex_c ex_abbrevs ex_str 47 (next_in ?rest) r"
    using siblingof_next [OF ex_env ex_children_at [unfolded ex_children_def ex_f_def] die(2), of ret_die]
    by (auto simp: ex_f_def)
  then show "\<exists>die r. offdie ex_mem ex_si ex_d 20 die0 ex_c = Some (DW_DLE_NONE, die) \<and>
     siblingof ex_mem ex_si ex_d (Some die) ret_die ex_c = Some (DW_DLV_OK, r) \<and>
     die_offset r = 47 \<and> die_tag r = 0x2E \<and> map at_u0 (die_attr r) = [0x160, 0x8004201010, 0x8004201030]"
    using die(1) by (auto simp: answer_def ex_g_def die_of_def ex_abbrevs_def abbrev_of_def abbrev_matches_def
      attr_of_def uleb128.simps ex_c_def)
qed

end
