(* ===== verification/DwarfLine.thy ===== *)
theory DwarfLine
  imports DwarfDie
begin

text \<open>
  Line numbers: \<^verbatim>\<open>kern/libdwarf_lineno.c\<close>. The line number program is byte code for a small machine
  whose registers (address, file, line, column and flags) are copied into a row by some of its
  instructions; the interpreter keeps the last row that does not lie behind the program counter asked
  for. Memory is only read. \<open>None\<close> stands for a run that does not end or divides by zero.
\<close>

section \<open>Structures (kern/dwarf.h)\<close>

record line_row =
  ln_addr :: u64
  ln_symndx :: u64
  ln_fileno :: u64
  ln_lineno :: u64
  ln_column :: u64
  ln_bblock :: u32
  ln_stmt :: u32
  ln_endseq :: u32

text \<open>\<^verbatim>\<open>li_oplen\<close> is the part of \<^verbatim>\<open>global_std_op\<close> that was read, from index 1 on.\<close>

record lineinfo =
  li_length :: u64
  li_version :: u16
  li_hdrlen :: u64
  li_minlen :: u8
  li_defstmt :: u8
  li_lbase :: u8
  li_lrange :: u8
  li_opbase :: u8
  li_oplen :: "u8 list"
  li_inclen :: u64
  li_line :: line_row
  li_lnlen :: u64

text \<open>The local variables that the program works on.\<close>

record lregs =
  lr_address :: u64
  lr_file :: u64
  lr_line :: u64
  lr_column :: u64
  lr_is_stmt :: u32
  lr_basic_block :: u32
  lr_end_sequence :: u32
  lr_prologue_end :: u32
  lr_epilogue_begin :: u32

section \<open>The line number program\<close>

definition reset_registers :: "lineinfo \<Rightarrow> lregs" where
  "reset_registers li =
     \<lparr>lr_address = 0, lr_file = 1, lr_line = 1, lr_column = 0, lr_is_stmt = ucast (li_defstmt li),
      lr_basic_block = 0, lr_end_sequence = 0, lr_prologue_end = 0, lr_epilogue_begin = 0\<rparr>"

definition row_of :: "lregs \<Rightarrow> line_row" where
  "row_of r = \<lparr>ln_addr = lr_address r, ln_symndx = 0, ln_fileno = lr_file r, ln_lineno = lr_line r,
     ln_column = lr_column r, ln_bblock = lr_basic_block r, ln_stmt = lr_is_stmt r,
     ln_endseq = lr_end_sequence r\<rparr>"

text \<open>\<^verbatim>\<open>LINE\<close> and \<^verbatim>\<open>ADDRESS\<close> compute in \<^verbatim>\<open>int\<close> on promoted bytes; \<^verbatim>\<open>li_lbase\<close> is signed.\<close>

definition LINE :: "lineinfo \<Rightarrow> u8 \<Rightarrow> u64" where
  "LINE li x = word_of_int (sint (li_lbase li) + (uint x - uint (li_opbase li)) smod uint (li_lrange li))"

definition ADDRESS :: "lineinfo \<Rightarrow> u8 \<Rightarrow> u64" where
  "ADDRESS li x =
     word_of_int ((uint x - uint (li_opbase li)) sdiv uint (li_lrange li) * uint (li_minlen li))"

text \<open>What an instruction does: end the run with a result, or go on at an address.\<close>

datatype line_out = Done u32 lineinfo | Go addr lregs lineinfo

text \<open>\<^verbatim>\<open>APPEND_ROW\<close>, the three resets that follow it, and the next position.\<close>

definition append_row :: "u64 \<Rightarrow> addr \<Rightarrow> lregs \<Rightarrow> lineinfo \<Rightarrow> line_out" where
  "append_row pc p r li =
     (if pc < lr_address r then Done DW_DLE_NONE li
      else Go p (r\<lparr>lr_basic_block := 0, lr_prologue_end := 0, lr_epilogue_begin := 0\<rparr>)
             (li\<lparr>li_line := row_of r, li_lnlen := li_lnlen li + 1\<rparr>))"

text \<open>\<^verbatim>\<open>_dwarf_lineno_add_file\<close> skips a name and three numbers.\<close>

definition add_file :: "mem \<Rightarrow> addr \<Rightarrow> (u32 \<times> addr) option" where
  "add_file m p =
     Option.bind (strlen m p) (\<lambda>n.
     Option.bind (decode_uleb128 m (p + scast (n + 1))) (\<lambda>(_, p).
     Option.bind (decode_uleb128 m p) (\<lambda>(_, p).
     Option.bind (decode_uleb128 m p) (\<lambda>(_, p). Some (DW_DLE_NONE, p)))))"

text \<open>Extended opcodes; \<open>p\<close> is behind the zero byte. \<^verbatim>\<open>end_sequence\<close> is set and reset at once.\<close>

definition ext_op :: "mem \<Rightarrow> dwdebug \<Rightarrow> cu \<Rightarrow> addr \<Rightarrow> lregs \<Rightarrow> lineinfo \<Rightarrow> line_out option" where
  "ext_op m d c p r li =
     Option.bind (decode_uleb128 m p) (\<lambda>(opsize, p).
       if m p = DW_LNE_end_sequence then Some (Go (p + 1) (reset_registers li) li)
       else if m p = DW_LNE_set_address then
         (let (a, p) = ddecode d m (p + 1) (unat (cu_addr_size c)) in Some (Go p (r\<lparr>lr_address := a\<rparr>) li))
       else if m p = DW_LNE_define_file then
         map_option (\<lambda>(ret, p). if ret \<noteq> DW_DLE_NONE then Done ret li else Go p r li) (add_file m (p + 1))
       else Some (Go (p + opsize) r li))"

text \<open>Standard opcodes; \<open>p\<close> is behind the opcode.\<close>

definition std_op :: "mem \<Rightarrow> dwdebug \<Rightarrow> u64 \<Rightarrow> u8 \<Rightarrow> addr \<Rightarrow> lregs \<Rightarrow> lineinfo \<Rightarrow> line_out option" where
  "std_op m d pc opc p r li =
     (if opc = DW_LNS_copy then Some (append_row pc p r li)
      else if opc = DW_LNS_advance_pc then
        map_option (\<lambda>(x, p). Go p (r\<lparr>lr_address := lr_address r + x * ucast (li_minlen li)\<rparr>) li)
          (decode_uleb128 m p)
      else if opc = DW_LNS_advance_line then
        map_option (\<lambda>(x, p). Go p (r\<lparr>lr_line := lr_line r + x\<rparr>) li) (decode_sleb128 m p)
      else if opc = DW_LNS_set_file then
        map_option (\<lambda>(x, p). Go p (r\<lparr>lr_file := x\<rparr>) li) (decode_uleb128 m p)
      else if opc = DW_LNS_set_column then
        map_option (\<lambda>(x, p). Go p (r\<lparr>lr_column := x\<rparr>) li) (decode_uleb128 m p)
      else if opc = DW_LNS_negate_stmt then
        Some (Go p (r\<lparr>lr_is_stmt := (if lr_is_stmt r = 0 then 1 else 0)\<rparr>) li)
      else if opc = DW_LNS_set_basic_block then Some (Go p (r\<lparr>lr_basic_block := 1\<rparr>) li)
      else if opc = DW_LNS_const_add_pc then
        (if li_lrange li = 0 then None
         else Some (Go p (r\<lparr>lr_address := lr_address r + ADDRESS li 255\<rparr>) li))
      else if opc = DW_LNS_fixed_advance_pc then
        (let (x, p) = ddecode d m p 2 in Some (Go p (r\<lparr>lr_address := lr_address r + x\<rparr>) li))
      else if opc = DW_LNS_set_prologue_end then Some (Go p (r\<lparr>lr_prologue_end := 1\<rparr>) li)
      else if opc = DW_LNS_set_epilogue_begin then Some (Go p (r\<lparr>lr_epilogue_begin := 1\<rparr>) li)
      else if opc = DW_LNS_set_isa then map_option (\<lambda>(x, p). Go p r li) (decode_uleb128 m p)
      else Some (Go p r li))"

definition special_op :: "u64 \<Rightarrow> u8 \<Rightarrow> addr \<Rightarrow> lregs \<Rightarrow> lineinfo \<Rightarrow> line_out option" where
  "special_op pc opc p r li =
     (if li_lrange li = 0 then None
      else Some (append_row pc p
             (r\<lparr>lr_line := lr_line r + LINE li opc, lr_address := lr_address r + ADDRESS li opc\<rparr>) li))"

definition line_step ::
    "mem \<Rightarrow> dwdebug \<Rightarrow> cu \<Rightarrow> u64 \<Rightarrow> addr \<Rightarrow> lregs \<Rightarrow> lineinfo \<Rightarrow> line_out option" where
  "line_step m d c pc p r li =
     (if m p = 0 then ext_op m d c (p + 1) r li
      else if m p < li_opbase li then std_op m d pc (m p) (p + 1) r li
      else special_op pc (m p) (p + 1) r li)"

text \<open>\<^verbatim>\<open>while (p < pe)\<close>\<close>

partial_function (option) line_loop ::
    "mem \<Rightarrow> dwdebug \<Rightarrow> cu \<Rightarrow> u64 \<Rightarrow> addr \<Rightarrow> addr \<Rightarrow> lregs \<Rightarrow> lineinfo \<Rightarrow> (u32 \<times> lineinfo) option" where
  "line_loop m d c pc pe p r li =
     (if p < pe
      then Option.bind (line_step m d c pc p r li) (\<lambda>out.
             case out of Done ret li \<Rightarrow> Some (ret, li) | Go p r li \<Rightarrow> line_loop m d c pc pe p r li)
      else Some (DW_DLE_NONE, li))"

definition run_program ::
    "mem \<Rightarrow> dwdebug \<Rightarrow> cu \<Rightarrow> lineinfo \<Rightarrow> addr \<Rightarrow> addr \<Rightarrow> u64 \<Rightarrow> (u32 \<times> lineinfo) option" where
  "run_program m d c li p pe pc = line_loop m d c pc pe p (reset_registers li) li"

section \<open>The header\<close>

text \<open>\<^verbatim>\<open>while (*p++ != '\0');\<close>\<close>

partial_function (option) skip_str :: "mem \<Rightarrow> addr \<Rightarrow> addr option" where
  "skip_str m p = (if m p \<noteq> 0 then skip_str m (p + 1) else Some (p + 1))"

text \<open>The include directories: their number, and the address of the empty string behind them.\<close>

partial_function (option) count_dirs :: "mem \<Rightarrow> addr \<Rightarrow> u64 \<Rightarrow> (u64 \<times> addr) option" where
  "count_dirs m p n =
     (if m p \<noteq> 0 then Option.bind (skip_str m p) (\<lambda>p. count_dirs m p (n + 1)) else Some (n, p))"

text \<open>\<^verbatim>\<open>while (*p != '\0') ret = _dwarf_lineno_add_file(...);\<close>\<close>

partial_function (option) skip_files :: "mem \<Rightarrow> addr \<Rightarrow> addr option" where
  "skip_files m p =
     (if m p \<noteq> 0 then Option.bind (add_file m p) (\<lambda>(_, p). skip_files m p) else Some p)"

text \<open>\<^verbatim>\<open>for (i = 1; i < li->li_opbase; i++)\<close>, with the number of rounds left.\<close>

fun read_oplens :: "dwdebug \<Rightarrow> mem \<Rightarrow> addr \<Rightarrow> u64 \<Rightarrow> nat \<Rightarrow> u8 list \<times> u64" where
  "read_oplens d m data off 0 = ([], off)"
| "read_oplens d m data off (Suc k) =
     (let (x, off) = dread d m data off 1; (xs, off) = read_oplens d m data off k in (ucast x # xs, off))"

definition lineno_init ::
    "mem \<Rightarrow> dsection list \<Rightarrow> dwdebug \<Rightarrow> cu \<Rightarrow> u64 \<Rightarrow> lineinfo \<Rightarrow> u64 \<Rightarrow> (u32 \<times> lineinfo) option" where
  "lineno_init m si d c offset li pc =
     Option.bind (find_section_enhanced si \<lparr>ds_name = ''.debug_line'', ds_data = 0, ds_addr = 0, ds_size = 0\<rparr>)
     (\<lambda>(ret, ds).
      if ret \<noteq> 0 then Some (DW_DLE_NONE, li)
      else
       let data = ds_data ds;
           (len, offset) = dread d m data offset 4;
           (dwarf_size, len, offset) =
             (if len = 0xFFFFFFFF then (8 :: nat, dread d m data offset 8) else (4, len, offset))
       in if len > ds_size ds - offset then Some (DW_DLE_DEBUG_LINE_LENGTH_BAD, li)
       else
        let endoff = offset + len;
            (version, offset) = dread d m data offset 2;
            (hdrlen, offset) = dread d m data offset dwarf_size;
            hdroff = offset;
            (minlen, offset) = dread d m data offset 1;
            (defstmt, offset) = dread d m data offset 1;
            (lbase, offset) = dread d m data offset 1;
            (lrange, offset) = dread d m data offset 1;
            (opbase, offset) = dread d m data offset 1;
            li = li\<lparr>li_length := len, li_version := ucast version, li_hdrlen := hdrlen,
                    li_minlen := ucast minlen, li_defstmt := ucast defstmt, li_lbase := ucast lbase,
                    li_lrange := ucast lrange, li_opbase := ucast opbase\<rparr>
        in if sint (ucast hdrlen - 5 :: u32) < uint (li_opbase li) - 1
        then Some (DW_DLE_DEBUG_LINE_LENGTH_BAD, li)
        else
         let (oplen, offset) = read_oplens d m data offset (unat (li_opbase li) - 1);
             li = li\<lparr>li_oplen := oplen\<rparr>
         in Option.bind (count_dirs m (data + offset) 0) (\<lambda>(n, p).
            let li = li\<lparr>li_inclen := n\<rparr>
            in if sint (p - data) > sint (ucast (ds_size ds) :: u32)
            then Some (DW_DLE_DEBUG_LINE_LENGTH_BAD, li)
            else
             Option.bind (skip_files m (p + 1)) (\<lambda>p.
               let p = p + 1
               in if p - data - hdroff \<noteq> li_hdrlen li then Some (DW_DLE_DEBUG_LINE_LENGTH_BAD, li)
               else run_program m d c li p (data + endoff) pc)))"

text \<open>\<^verbatim>\<open>memset(&li, 0, sizeof(_Dwarf_LineInfo))\<close>\<close>

definition row0 :: line_row where
  "row0 = \<lparr>ln_addr = 0, ln_symndx = 0, ln_fileno = 0, ln_lineno = 0, ln_column = 0, ln_bblock = 0,
     ln_stmt = 0, ln_endseq = 0\<rparr>"

definition lineinfo0 :: lineinfo where
  "lineinfo0 = \<lparr>li_length = 0, li_version = 0, li_hdrlen = 0, li_minlen = 0, li_defstmt = 0, li_lbase = 0,
     li_lrange = 0, li_opbase = 0, li_oplen = [], li_inclen = 0, li_line = row0, li_lnlen = 0\<rparr>"

definition srclines ::
    "mem \<Rightarrow> dsection list \<Rightarrow> dwdebug \<Rightarrow> cu \<Rightarrow> die \<Rightarrow> line_row \<Rightarrow> u64 \<Rightarrow> (u32 \<times> line_row) option" where
  "srclines m si d c die linebuf pc =
     (case attr_find die DW_AT_stmt_list of
        None \<Rightarrow> Some (DW_DLV_NO_ENTRY, linebuf)
      | Some at \<Rightarrow>
          map_option (\<lambda>(ret, li). if ret \<noteq> DW_DLE_NONE then (DW_DLV_ERROR, linebuf) else (DW_DLV_OK, li_line li))
            (lineno_init m si d c (at_u0 at) lineinfo0 pc))"

section \<open>Programs\<close>

text \<open>
  The instructions of a line number program as a producer writes them, their bytes, and what they
  mean. \<open>Vendor\<close> is an extended instruction that the reader does not know.
\<close>

datatype lineop =
    Copy | AdvancePc nat | AdvanceLine int | SetFile nat | SetColumn nat | NegateStmt
  | BasicBlock | ConstAddPc | FixedAdvancePc u16 | PrologueEnd | EpilogueBegin | SetIsa nat
  | EndSequence | SetAddress u64 | Vendor u8 "u8 list" | Special u8

fun encode_op :: "dwdebug \<Rightarrow> lineop \<Rightarrow> u8 list" where
  "encode_op d Copy = [DW_LNS_copy]"
| "encode_op d (AdvancePc n) = DW_LNS_advance_pc # uleb128 n"
| "encode_op d (AdvanceLine i) = DW_LNS_advance_line # sleb128 i"
| "encode_op d (SetFile n) = DW_LNS_set_file # uleb128 n"
| "encode_op d (SetColumn n) = DW_LNS_set_column # uleb128 n"
| "encode_op d NegateStmt = [DW_LNS_negate_stmt]"
| "encode_op d BasicBlock = [DW_LNS_set_basic_block]"
| "encode_op d ConstAddPc = [DW_LNS_const_add_pc]"
| "encode_op d (FixedAdvancePc w) = DW_LNS_fixed_advance_pc # enc d 2 (ucast w)"
| "encode_op d PrologueEnd = [DW_LNS_set_prologue_end]"
| "encode_op d EpilogueBegin = [DW_LNS_set_epilogue_begin]"
| "encode_op d (SetIsa n) = DW_LNS_set_isa # uleb128 n"
| "encode_op d EndSequence = 0 # uleb128 1 @ [DW_LNE_end_sequence]"
| "encode_op d (SetAddress a) = 0 # uleb128 9 @ DW_LNE_set_address # enc d 8 a"
| "encode_op d (Vendor x xs) = 0 # uleb128 (Suc (length xs)) @ x # xs"
| "encode_op d (Special b) = [b]"

definition encode_program :: "dwdebug \<Rightarrow> lineop list \<Rightarrow> u8 list" where
  "encode_program d ops = concat (map (encode_op d) ops)"

text \<open>
  Numbers in the range that the LEB128 readers handle, special opcodes from \<^verbatim>\<open>opcode_base\<close> on, and
  vendor codes other than the known ones.
\<close>

fun op_fits :: "u8 \<Rightarrow> lineop \<Rightarrow> bool" where
  "op_fits base (AdvancePc n) = (n < 2 ^ 31)"
| "op_fits base (AdvanceLine i) = (- (2 ^ 31) \<le> i \<and> i < 2 ^ 31)"
| "op_fits base (SetFile n) = (n < 2 ^ 31)"
| "op_fits base (SetColumn n) = (n < 2 ^ 31)"
| "op_fits base (SetIsa n) = (n < 2 ^ 31)"
| "op_fits base (Vendor x xs) = (x \<notin> {DW_LNE_end_sequence, DW_LNE_set_address, DW_LNE_define_file} \<and> length xs < 2 ^ 30)"
| "op_fits base (Special b) = (base \<le> b)"
| "op_fits base op = True"

fun effect :: "lineinfo \<Rightarrow> lineop \<Rightarrow> lregs \<Rightarrow> lregs" where
  "effect li (AdvancePc n) r = r\<lparr>lr_address := lr_address r + of_nat n * ucast (li_minlen li)\<rparr>"
| "effect li (AdvanceLine i) r = r\<lparr>lr_line := lr_line r + word_of_int i\<rparr>"
| "effect li (SetFile n) r = r\<lparr>lr_file := of_nat n\<rparr>"
| "effect li (SetColumn n) r = r\<lparr>lr_column := of_nat n\<rparr>"
| "effect li NegateStmt r = r\<lparr>lr_is_stmt := (if lr_is_stmt r = 0 then 1 else 0)\<rparr>"
| "effect li BasicBlock r = r\<lparr>lr_basic_block := 1\<rparr>"
| "effect li ConstAddPc r = r\<lparr>lr_address := lr_address r + ADDRESS li 255\<rparr>"
| "effect li (FixedAdvancePc w) r = r\<lparr>lr_address := lr_address r + ucast w\<rparr>"
| "effect li PrologueEnd r = r\<lparr>lr_prologue_end := 1\<rparr>"
| "effect li EpilogueBegin r = r\<lparr>lr_epilogue_begin := 1\<rparr>"
| "effect li EndSequence r = reset_registers li"
| "effect li (SetAddress a) r = r\<lparr>lr_address := a\<rparr>"
| "effect li (Special b) r =
     r\<lparr>lr_line := lr_line r + LINE li b, lr_address := lr_address r + ADDRESS li b\<rparr>"
| "effect li op r = r"

fun emits :: "lineop \<Rightarrow> bool" where
  "emits Copy = True"
| "emits (Special b) = True"
| "emits op = False"

definition clear_flags :: "lregs \<Rightarrow> lregs" where
  "clear_flags r = r\<lparr>lr_basic_block := 0, lr_prologue_end := 0, lr_epilogue_begin := 0\<rparr>"

text \<open>The rows of a program, in order.\<close>

fun line_rows :: "lineinfo \<Rightarrow> lregs \<Rightarrow> lineop list \<Rightarrow> line_row list" where
  "line_rows li r [] = []"
| "line_rows li r (op # ops) =
     (let r = effect li op r
      in if emits op then row_of r # line_rows li (clear_flags r) ops else line_rows li r ops)"

text \<open>The result of the reader: the rows up to \<open>pc\<close>, of which it keeps the last and the number.\<close>

definition with_rows :: "line_row list \<Rightarrow> lineinfo \<Rightarrow> lineinfo" where
  "with_rows rows li =
     li\<lparr>li_line := (if rows = [] then li_line li else last rows), li_lnlen := li_lnlen li + of_nat (length rows)\<rparr>"

definition upto_pc :: "u64 \<Rightarrow> line_row list \<Rightarrow> line_row list" where
  "upto_pc pc rows = takeWhile (\<lambda>row. ln_addr row \<le> pc) rows"

section \<open>The interpreter runs the programs\<close>

lemma with_rows_Nil [simp]: "with_rows [] li = li"
  by (simp add: with_rows_def)

lemma with_rows_Cons:
  "with_rows rows (li\<lparr>li_line := row, li_lnlen := li_lnlen li + 1\<rparr>) = with_rows (row # rows) li"
  by (simp add: with_rows_def algebra_simps)

lemma lineinfo_rows [simp]:
  "ADDRESS (li\<lparr>li_line := x, li_lnlen := y\<rparr>) b = ADDRESS li b"
  "LINE (li\<lparr>li_line := x, li_lnlen := y\<rparr>) b = LINE li b"
  "reset_registers (li\<lparr>li_line := x, li_lnlen := y\<rparr>) = reset_registers li"
  by (simp_all add: ADDRESS_def LINE_def reset_registers_def)

lemma effect_rows [simp]: "effect (li\<lparr>li_line := x, li_lnlen := y\<rparr>) op r = effect li op r"
  by (cases op) simp_all

lemma line_rows_rows [simp]: "line_rows (li\<lparr>li_line := x, li_lnlen := y\<rparr>) r ops = line_rows li r ops"
  by (induction ops arbitrary: r) (simp_all add: Let_def)

lemmas op_reads = decode_uleb128_bytes [folded holds_at_def] decode_sleb128_bytes [folded holds_at_def]

text \<open>What one instruction does to the state of the interpreter.\<close>

definition op_out :: "u64 \<Rightarrow> lineop \<Rightarrow> addr \<Rightarrow> lregs \<Rightarrow> lineinfo \<Rightarrow> line_out" where
  "op_out pc op p r li =
     (if emits op then append_row pc p (effect li op r) li else Go p (effect li op r) li)"

lemma line_step_op:
  assumes "holds_at m p (encode_op d op)" and "op_fits (li_opbase li) op" and "li_lrange li \<noteq> 0"
    and "12 < li_opbase li" and "cu_addr_size c = 8"
  shows "line_step m d c pc p r li = Some (op_out pc op (p + of_nat (length (encode_op d op))) r li)"
proof -
  have base: "k \<le> 12 \<Longrightarrow> k < li_opbase li" for k using assms(4) by (rule order_le_less_trans [rotated])
  note simps = line_step_def std_op_def ext_op_def special_op_def op_out_def dw_lns_defs holds_at_Cons holds_at_append
    base add.assoc
  note h = assms(1)
  have one: "holds_at m p [x] \<Longrightarrow> m p = x" for x by (simp add: holds_at_Cons)
  have two: "holds_at m p (x # xs) \<Longrightarrow> m p = x \<and> holds_at m (p + 1) xs" for x xs by (simp add: holds_at_Cons)
  have leb: "n < 2 ^ 31 \<Longrightarrow> holds_at m q (uleb128 n) \<Longrightarrow>
      decode_uleb128 m q = Some (of_nat n, q + of_nat (length (uleb128 n)))" for n q
    by (rule decode_uleb128_bytes [folded holds_at_def])
  show ?thesis
  proof (cases op)
    case (AdvancePc n)
    then show ?thesis using two [of DW_LNS_advance_pc] h assms(2) leb [of n "p + 1"] by (simp add: simps)
  next
    case (AdvanceLine i)
    then show ?thesis
      using two [of DW_LNS_advance_line "sleb128 i"] h assms(2)
        decode_sleb128_bytes [folded holds_at_def, of m "p + 1" i] by (simp add: simps)
  next
    case (SetFile n)
    then show ?thesis using two [of DW_LNS_set_file] h assms(2) leb [of n "p + 1"] by (simp add: simps)
  next
    case (SetColumn n)
    then show ?thesis using two [of DW_LNS_set_column] h assms(2) leb [of n "p + 1"] by (simp add: simps)
  next
    case (SetIsa n)
    then show ?thesis using two [of DW_LNS_set_isa] h assms(2) leb [of n "p + 1"] by (simp add: simps)
  next
    case (FixedAdvancePc w)
    have "unat (ucast w :: u64) < 2 ^ (8 * 2)"
      using unsigned_less [of w, where ?'a = nat] by (simp add: unat_ucast_wider)
    then show ?thesis
      using FixedAdvancePc h ddecode_enc [of m "p + 1" d 2 "ucast w"] by (simp add: simps size_ok_def)
  next
    case EndSequence
    then show ?thesis using h leb [of 1 "p + 1"] by (simp add: simps)
  next
    case (SetAddress a)
    have "unat a < 2 ^ (8 * 8)" using unsigned_less [of a] by simp
    then show ?thesis
      using SetAddress h assms(5) leb [of 9 "p + 1"] ddecode_enc [of m _ d 8 a]
      by (simp add: simps size_ok_def)
  next
    case (Vendor x xs)
    then show ?thesis
      using h assms(2) leb [of "Suc (length xs)" "p + 1"] by (simp add: simps)
  next
    case (Special b)
    then have "m p = b" "\<not> b < li_opbase li" using h assms(2) by (simp_all add: holds_at_Cons)
    moreover have "b \<noteq> 0" using Special assms(2) base [of 0] by auto
    ultimately show ?thesis using Special assms(3) by (simp add: simps)
  qed (use h assms(3) in \<open>simp_all add: simps\<close>)
qed

lemma encode_op_not_Nil: "0 < length (encode_op d op)"
  by (cases op) simp_all

lemma line_loop_step:
  "p < pe \<Longrightarrow> line_step m d c pc p r li = Some out \<Longrightarrow>
   line_loop m d c pc pe p r li =
     (case out of Done ret li \<Rightarrow> Some (ret, li) | Go p r li \<Rightarrow> line_loop m d c pc pe p r li)"
  by (subst line_loop.simps) simp

lemma line_loop_program:
  assumes "holds_at m p (encode_program d ops)" and "list_all (op_fits (li_opbase li)) ops"
    and "li_lrange li \<noteq> 0" and "12 < li_opbase li" and "cu_addr_size c = 8"
    and "unat p + length (encode_program d ops) = unat pe"
  shows "line_loop m d c pc pe p r li = Some (DW_DLE_NONE, with_rows (upto_pc pc (line_rows li r ops)) li)"
  using assms
proof (induction ops arbitrary: p r li)
  case Nil
  then have "\<not> p < pe" by (simp add: encode_program_def word_less_nat_alt)
  then show ?case by (subst line_loop.simps) (simp add: upto_pc_def)
next
  case (Cons op ops)
  define n where "n = length (encode_op d op)"
  have split: "encode_program d (op # ops) = encode_op d op @ encode_program d ops"
    by (simp add: encode_program_def)
  have h: "holds_at m p (encode_op d op)" "holds_at m (p + of_nat n) (encode_program d ops)"
    using Cons.prems(1) by (simp_all add: split holds_at_append n_def)
  have le: "unat p + n \<le> unat pe" using Cons.prems(6) by (simp add: split n_def)
  note sec = off_in_section [OF le encode_op_not_Nil [of d op, folded n_def]]
  have next_pe: "unat (p + of_nat n) + length (encode_program d ops) = unat pe"
    using Cons.prems(6) sec(3) by (simp add: split n_def)
  have fits: "op_fits (li_opbase li) op" "list_all (op_fits (li_opbase li)) ops" using Cons.prems(2) by simp_all
  note IH = Cons.IH [OF h(2) _ _ _ Cons.prems(5) next_pe]
  note step = line_loop_step [OF sec(1) line_step_op [OF h(1) fits(1) Cons.prems(3-5), folded n_def]]
  show ?case
  proof (cases "emits op")
    case False
    then show ?thesis
      using IH [OF fits(2) Cons.prems(3,4)] by (simp add: step op_out_def)
  next
    case True
    let ?r = "effect li op r"
    have row: "ln_addr (row_of ?r) = lr_address ?r" by (simp add: row_of_def)
    show ?thesis
    proof (cases "pc < lr_address ?r")
      case before: True
      then show ?thesis using True row by (simp add: step op_out_def append_row_def upto_pc_def Let_def)
    next
      case False
      let ?li = "li\<lparr>li_line := row_of ?r, li_lnlen := li_lnlen li + 1\<rparr>"
      have "line_loop m d c pc pe (p + of_nat n) (clear_flags ?r) ?li =
          Some (DW_DLE_NONE, with_rows (upto_pc pc (line_rows li (clear_flags ?r) ops)) ?li)"
        using IH [of ?li "clear_flags ?r"] fits(2) Cons.prems(3,4) by simp
      then show ?thesis
        using True False row
        by (simp add: step op_out_def append_row_def upto_pc_def clear_flags_def with_rows_Cons Let_def)
    qed
  qed
qed

section \<open>The header and the look-up\<close>

text \<open>
  A unit of \<^verbatim>\<open>.debug_line\<close> in the 32-bit format: its header with the lengths of the standard opcodes,
  the include directories and the files, and the program.
\<close>

record line_unit =
  lu_version :: u16
  lu_minlen :: u8
  lu_defstmt :: u8
  lu_lbase :: u8
  lu_lrange :: u8
  lu_opbase :: u8
  lu_oplens :: "u8 list"
  lu_dirs :: "u8 list list"
  lu_files :: "(u8 list \<times> nat \<times> nat \<times> nat) list"
  lu_program :: "lineop list"

definition dirs_bytes :: "u8 list list \<Rightarrow> u8 list" where
  "dirs_bytes ds = concat (map (\<lambda>xs. xs @ [0]) ds)"

definition file_bytes :: "u8 list \<times> nat \<times> nat \<times> nat \<Rightarrow> u8 list" where
  "file_bytes = (\<lambda>(xs, a, b, c). (xs @ [0]) @ uleb128 a @ uleb128 b @ uleb128 c)"

definition tables_bytes :: "line_unit \<Rightarrow> u8 list" where
  "tables_bytes u = lu_oplens u @ dirs_bytes (lu_dirs u) @ [0] @ concat (map file_bytes (lu_files u)) @ [0]"

definition unit_bytes :: "dwdebug \<Rightarrow> line_unit \<Rightarrow> u8 list" where
  "unit_bytes d u =
     (let prog = encode_program d (lu_program u); tables = tables_bytes u; n = 5 + length tables
      in enc d 4 (of_nat (6 + n + length prog)) @ enc d 2 (ucast (lu_version u)) @ enc d 4 (of_nat n) @
         [lu_minlen u, lu_defstmt u, lu_lbase u, lu_lrange u, lu_opbase u] @ tables @ prog)"

definition name_ok :: "u8 list \<Rightarrow> bool" where
  "name_ok xs \<longleftrightarrow> xs \<noteq> [] \<and> 0 \<notin> set xs \<and> length xs < 2 ^ 30"

definition unit_fits :: "line_unit \<Rightarrow> bool" where
  "unit_fits u \<longleftrightarrow> 12 < lu_opbase u \<and> lu_lrange u \<noteq> 0 \<and> length (lu_oplens u) = unat (lu_opbase u) - 1 \<and>
     list_all name_ok (lu_dirs u) \<and>
     list_all (\<lambda>(xs, a, b, c). name_ok xs \<and> a < 2 ^ 31 \<and> b < 2 ^ 31 \<and> c < 2 ^ 31) (lu_files u) \<and>
     list_all (op_fits (lu_opbase u)) (lu_program u)"

text \<open>What the reader knows when it starts the program.\<close>

definition unit_info :: "dwdebug \<Rightarrow> line_unit \<Rightarrow> lineinfo" where
  "unit_info d u =
     lineinfo0\<lparr>li_length := of_nat (11 + length (tables_bytes u) + length (encode_program d (lu_program u))),
       li_version := lu_version u, li_hdrlen := of_nat (5 + length (tables_bytes u)), li_minlen := lu_minlen u,
       li_defstmt := lu_defstmt u, li_lbase := lu_lbase u, li_lrange := lu_lrange u, li_opbase := lu_opbase u,
       li_oplen := lu_oplens u, li_inclen := of_nat (length (lu_dirs u))\<rparr>"

lemma skip_str_bytes:
  "holds_at m p (xs @ [0]) \<Longrightarrow> 0 \<notin> set xs \<Longrightarrow> skip_str m p = Some (p + of_nat (length xs + 1))"
proof (induction xs arbitrary: p)
  case Nil
  then show ?case by (subst skip_str.simps) (simp add: holds_at_Cons)
next
  case (Cons x xs)
  then show ?case by (subst skip_str.simps) (simp add: holds_at_Cons algebra_simps)
qed

lemma name_start: "holds_at m p (xs @ ys) \<Longrightarrow> name_ok xs \<Longrightarrow> m p \<noteq> 0"
  by (cases xs) (auto simp: name_ok_def holds_at_Cons)

lemma count_dirs_bytes:
  "holds_at m p (dirs_bytes ds @ [0]) \<Longrightarrow> list_all name_ok ds \<Longrightarrow>
   count_dirs m p n = Some (n + of_nat (length ds), p + of_nat (length (dirs_bytes ds)))"
proof (induction ds arbitrary: p n)
  case Nil
  then show ?case by (subst count_dirs.simps) (simp add: dirs_bytes_def holds_at_Cons)
next
  case (Cons xs ds)
  have split: "dirs_bytes (xs # ds) = (xs @ [0]) @ dirs_bytes ds" by (simp add: dirs_bytes_def)
  have h: "holds_at m p (xs @ [0])" "holds_at m (p + of_nat (length xs + 1)) (dirs_bytes ds @ [0])"
    using Cons.prems(1) by (simp_all add: split holds_at_append holds_at_Cons algebra_simps)
  have ok: "name_ok xs" "0 \<notin> set xs" using Cons.prems(2) by (simp_all add: name_ok_def)
  show ?case
    using Cons.IH [OF h(2), of "n + 1"] Cons.prems(2) name_start [OF h(1) ok(1)] skip_str_bytes [OF h(1) ok(2)]
    by (subst count_dirs.simps) (simp add: split algebra_simps)
qed

lemma add_file_bytes:
  assumes "holds_at m p (file_bytes (xs, a, b, c))" and "name_ok xs" and "a < 2 ^ 31" and "b < 2 ^ 31" and "c < 2 ^ 31"
  shows "add_file m p = Some (DW_DLE_NONE, p + of_nat (length (file_bytes (xs, a, b, c))))"
proof -
  define q where "q = p + of_nat (length xs + 1)"
  have h: "holds_at m p (xs @ [0])" "holds_at m q (uleb128 a)" "holds_at m (q + of_nat (length (uleb128 a))) (uleb128 b)"
    "holds_at m (q + of_nat (length (uleb128 a)) + of_nat (length (uleb128 b))) (uleb128 c)"
    using assms(1) by (simp_all add: file_bytes_def holds_at_append holds_at_Cons q_def algebra_simps)
  have "cstr m p xs" using h(1) assms(2) by (simp add: cstr_bytes holds_at_def name_ok_def del: bytes_at.simps)
  then have len: "strlen m p = Some (of_nat (length xs))" by (rule strlen_cstr)
  have next_q: "p + scast (of_nat (length xs) + 1 :: u32) = q"
    using scast_len [of "length xs + 1"] assms(2) by (simp add: name_ok_def q_def add.commute)
  have bytes: "p + of_nat (length (file_bytes (xs, a, b, c))) =
      q + of_nat (length (uleb128 a)) + of_nat (length (uleb128 b)) + of_nat (length (uleb128 c))"
    by (simp add: file_bytes_def q_def)
  note leb = decode_uleb128_bytes [folded holds_at_def]
  show ?thesis
    unfolding bytes
    by (simp add: add_file_def len next_q leb [OF h(2) assms(3)] leb [OF h(3) assms(4)] leb [OF h(4) assms(5)])
qed

lemma skip_files_bytes:
  "holds_at m p (concat (map file_bytes fs) @ [0]) \<Longrightarrow>
   list_all (\<lambda>(xs, a, b, c). name_ok xs \<and> a < 2 ^ 31 \<and> b < 2 ^ 31 \<and> c < 2 ^ 31) fs \<Longrightarrow>
   skip_files m p = Some (p + of_nat (length (concat (map file_bytes fs))))"
proof (induction fs arbitrary: p)
  case Nil
  then show ?case by (subst skip_files.simps) (simp add: holds_at_Cons)
next
  case (Cons f fs)
  obtain xs a b c where f: "f = (xs, a, b, c)" by (cases f)
  have h: "holds_at m p (file_bytes f)" "holds_at m (p + of_nat (length (file_bytes f))) (concat (map file_bytes fs) @ [0])"
    using Cons.prems(1) by (simp_all add: holds_at_append add.assoc)
  have "holds_at m p (xs @ 0 # uleb128 a @ uleb128 b @ uleb128 c)" using h(1) by (simp add: f file_bytes_def)
  from name_start [OF this] have "m p \<noteq> 0" using Cons.prems(2) by (simp add: f)
  moreover have "add_file m p = Some (DW_DLE_NONE, p + of_nat (length (file_bytes f)))"
    using Cons.prems(2) h(1) unfolding f by (intro add_file_bytes) simp_all
  ultimately show ?case
    using Cons.IH [OF h(2)] Cons.prems(2) by (subst skip_files.simps) (simp add: add.assoc)
qed

lemma read_oplens_bytes:
  "holds_at m (data + off) xs \<Longrightarrow> read_oplens d m data off (length xs) = (xs, off + of_nat (length xs))"
proof (induction xs arbitrary: off)
  case (Cons x xs)
  then show ?case
    using dread_byte [of d m data off] Cons.IH [of "off + 1"]
    by (simp add: holds_at_Cons add.assoc algebra_simps)
qed simp

lemma unit_bytes_split:
  assumes "holds_at m (data + off) (unit_bytes d u)"
  defines "prog \<equiv> encode_program d (lu_program u)" and "tables \<equiv> tables_bytes u" and "p \<equiv> data + (off + 15)"
  defines "i \<equiv> length (lu_oplens u)" and "j \<equiv> length (dirs_bytes (lu_dirs u))"
    and "k \<equiv> length (concat (map file_bytes (lu_files u)))"
  shows "holds_at m (data + off) (enc d 4 (of_nat (11 + length tables + length prog)))"
    "holds_at m (data + (off + 4)) (enc d 2 (ucast (lu_version u)))"
    "holds_at m (data + (off + 6)) (enc d 4 (of_nat (5 + length tables)))"
    "m (data + (off + 10)) = lu_minlen u" "m (data + (off + 11)) = lu_defstmt u" "m (data + (off + 12)) = lu_lbase u"
    "m (data + (off + 13)) = lu_lrange u" "m (data + (off + 14)) = lu_opbase u"
    "holds_at m p (lu_oplens u)" "holds_at m (p + of_nat i) (dirs_bytes (lu_dirs u) @ [0])"
    "holds_at m (p + of_nat i + of_nat j + 1) (concat (map file_bytes (lu_files u)) @ [0])"
    "holds_at m (p + of_nat i + of_nat j + 1 + of_nat k + 1) prog"
    "length tables = i + j + k + 2"
  using assms(1)
  by (simp_all add: unit_bytes_def Let_def holds_at_append holds_at_Cons tables_bytes_def prog_def tables_def p_def
      i_def j_def k_def algebra_simps)

lemma unit_small:
  assumes "unat off + length (unit_bytes d u) \<le> unat (sz :: u64)" and "unat sz < 2 ^ 31"
  shows "length (tables_bytes u) + length (encode_program d (lu_program u)) + 15 + unat off < 2 ^ 31"
  using assms by (simp add: unit_bytes_def Let_def)

lemma of_nat_small:
  assumes "n < 2 ^ 31"
  shows "unat (of_nat n :: u64) = n" "sint (of_nat n :: u64) = int n" "sint (of_nat n :: u32) = int n"
    "ucast (of_nat n :: u64) = (of_nat n :: u32)"
proof -
  show u: "unat (of_nat n :: u64) = n" using assms by (intro unat_of_nat64) simp
  show "sint (of_nat n :: u64) = int n" "sint (of_nat n :: u32) = int n"
    using assms by (simp_all add: signed_of_nat signed_take_bit_int_eq_self)
  show "ucast (of_nat n :: u64) = (of_nat n :: u32)"
    using assms u by (simp add: word_unat_eq_iff unsigned_ucast_eq unat_of_nat32 take_bit_nat_eq_self)
qed

text \<open>The numbers of the header.\<close>

lemma unit_header:
  assumes h: "holds_at m (data + off) (unit_bytes d u)" and room: "unat off + length (unit_bytes d u) \<le> unat sz"
    and sz: "unat sz < 2 ^ 31"
  defines "t \<equiv> length (tables_bytes u)" and "n \<equiv> length (encode_program d (lu_program u))"
  shows "dread d m data off 4 = (of_nat (11 + t + n), off + 4)" "(of_nat (11 + t + n) :: u64) \<noteq> 0xFFFFFFFF"
    "\<not> of_nat (11 + t + n) > sz - (off + 4)"
    "dread d m data (off + 4) 2 = (ucast (lu_version u), off + 6)"
    "dread d m data (off + 6) 4 = (of_nat (5 + t), off + 10)"
proof -
  note parts = unit_bytes_split [OF h, folded t_def n_def] and small = unit_small [OF room sz, folded t_def n_def]
  have a: "11 + t + n < 2 ^ 31" "5 + t < 2 ^ 31" using small by simp_all
  show "dread d m data off 4 = (of_nat (11 + t + n), off + 4)"
    using dread_enc [OF parts(1)] of_nat_small(1) [OF a(1)] a(1) by (simp add: size_ok_def)
  show "(of_nat (11 + t + n) :: u64) \<noteq> 0xFFFFFFFF"
  proof
    assume "(of_nat (11 + t + n) :: u64) = 0xFFFFFFFF"
    then have "unat (of_nat (11 + t + n) :: u64) = unat (0xFFFFFFFF :: u64)" by (rule arg_cong)
    then show False unfolding of_nat_small(1) [OF a(1)] using a(1) by simp
  qed
  show "\<not> of_nat (11 + t + n) > sz - (off + 4)"
    using room by (intro length_in_section) (simp add: unit_bytes_def Let_def t_def n_def)
  have "unat (ucast (lu_version u) :: u64) < 2 ^ (8 * 2)"
    using unsigned_less [of "lu_version u", where ?'a = nat] by (simp add: unat_ucast_wider)
  then show "dread d m data (off + 4) 2 = (ucast (lu_version u), off + 6)"
    using dread_enc [OF parts(2)] by (simp add: size_ok_def add.assoc)
  show "dread d m data (off + 6) 4 = (of_nat (5 + t), off + 10)"
    using dread_enc [OF parts(3)] of_nat_small(1) [OF a(2)] a(2) by (simp add: size_ok_def add.assoc)
qed

lemma lineno_init_unit:
  assumes sec: "find_section si ''.debug_line'' = Some ds" and h: "holds_at m (ds_data ds + off) (unit_bytes d u)"
    and fits: "unit_fits u" and size: "cu_addr_size c = 8"
    and room: "unat off + length (unit_bytes d u) \<le> unat (ds_size ds)" and sz: "unat (ds_size ds) < 2 ^ 31"
    and space: "unat (ds_data ds) + unat (ds_size ds) < 2 ^ 64"
  defines "li \<equiv> unit_info d u"
  shows "lineno_init m si d c off lineinfo0 pc =
    Some (DW_DLE_NONE, with_rows (upto_pc pc (line_rows li (reset_registers li) (lu_program u))) li)"
proof -
  let ?data = "ds_data ds"
  define i where "i = length (lu_oplens u)"
  define j where "j = length (dirs_bytes (lu_dirs u))"
  define k where "k = length (concat (map file_bytes (lu_files u)))"
  define t where "t = length (tables_bytes u)"
  define n where "n = length (encode_program d (lu_program u))"
  define p where "p = ?data + (off + 15)"
  note parts = unit_bytes_split [OF h, folded i_def j_def k_def t_def n_def p_def]
  note header = unit_header [OF h room sz, folded t_def n_def]
  have small: "t + n + 15 + unat off < 2 ^ 31" using unit_small [OF room sz] by (simp add: t_def n_def)
  have bytes: "dread d m ?data (off + 10) 1 = (ucast (lu_minlen u), off + 11)"
      "dread d m ?data (off + 11) 1 = (ucast (lu_defstmt u), off + 12)"
      "dread d m ?data (off + 12) 1 = (ucast (lu_lbase u), off + 13)"
      "dread d m ?data (off + 13) 1 = (ucast (lu_lrange u), off + 14)"
      "dread d m ?data (off + 14) 1 = (ucast (lu_opbase u), off + 15)"
    using parts(4-8) dread_byte [of d m ?data] by simp_all
  have oplens: "read_oplens d m ?data (off + 15) (unat (lu_opbase u) - 1) = (lu_oplens u, off + 15 + of_nat i)"
    using read_oplens_bytes [of m ?data "off + 15" "lu_oplens u" d] parts(9) fits by (simp add: p_def i_def unit_fits_def)
  define r where "r = p + of_nat i + of_nat j"
  define e where "e = r + 1 + of_nat k"
  define q where "q = e + 1"
  have dirs: "count_dirs m (p + of_nat i) 0 = Some (of_nat (length (lu_dirs u)), r)"
    using count_dirs_bytes [OF parts(10), of 0] fits by (simp add: unit_fits_def j_def r_def)
  have files: "skip_files m (r + 1) = Some e"
    using skip_files_bytes [OF parts(11)] fits by (simp add: unit_fits_def k_def r_def e_def)
  have "i \<le> t" using parts(13) by simp
  moreover have "int i = uint (lu_opbase u) - 1"
    using fits by (simp add: unit_fits_def i_def word_less_nat_alt of_nat_diff)
  moreover have "sint (ucast (of_nat (5 + t) :: u64) - 5 :: u32) = int t"
    using of_nat_small(4) [of "5 + t"] of_nat_small(3) [of t] small by simp
  ultimately have hdr: "\<not> sint (ucast (of_nat (5 + t) :: u64) - 5 :: u32) < uint (lu_opbase u) - 1" by simp
  have pos: "r - ?data = of_nat (unat off + 15 + i + j)"
    by (simp add: p_def r_def)
  have le: "unat off + 15 + i + j \<le> unat (ds_size ds)"
    using room parts(13) by (simp add: unit_bytes_def Let_def t_def)
  have in_sec: "\<not> sint (r - ?data) > sint (ucast (ds_size ds) :: u32)"
    unfolding pos using of_nat_small(2) [of "unat off + 15 + i + j"] small parts(13) of_nat_mono [OF le, where ?'a = int]
      of_nat_small(3,4) [OF sz] by simp
  have q: "q = ?data + of_nat (unat off + 15 + t)" by (simp add: q_def e_def r_def p_def parts(13) algebra_simps)
  have end_hdr: "e + (- ?data - off) = 14 + of_nat t" by (simp add: e_def r_def p_def parts(13))
  have pe: "?data + (15 + (off + (of_nat t + of_nat n))) = q + of_nat n" by (simp add: q algebra_simps)
  have "unat ?data + (unat off + 15 + t + n) < 2 ^ 64"
    using room space by (simp add: unit_bytes_def Let_def t_def n_def)
  then have end_q: "unat q + n = unat (q + of_nat n)"
    unfolding q using small by (simp add: unat_word_ariths unat_of_nat64)
  have li: "li_opbase li = lu_opbase u" "li_lrange li = lu_lrange u" by (simp_all add: li_def unit_info_def)
  have run: "run_program m d c li q (q + of_nat n) pc =
      Some (DW_DLE_NONE, with_rows (upto_pc pc (line_rows li (reset_registers li) (lu_program u))) li)"
    unfolding run_program_def
    using parts(12) fits size end_q by (intro line_loop_program) (simp_all add: li unit_fits_def q_def e_def r_def n_def)
  have ver: "ucast (ucast (lu_version u) :: u64) = lu_version u"
    by (rule bit_word_eqI) (auto simp: bit_simps)
  have init: "lineinfo0\<lparr>li_length := of_nat (11 + t + n), li_version := lu_version u,
      li_hdrlen := of_nat (5 + t), li_minlen := lu_minlen u, li_defstmt := lu_defstmt u, li_lbase := lu_lbase u,
      li_lrange := lu_lrange u, li_opbase := lu_opbase u, li_oplen := lu_oplens u,
      li_inclen := of_nat (length (lu_dirs u))\<rparr> = li"
    by (simp add: li_def unit_info_def t_def n_def)
  have addr: "?data + (off + 15 + of_nat i) = p + of_nat i" by (simp add: p_def add.assoc)
  have "lineno_init m si d c off lineinfo0 pc = run_program m d c (lineinfo0\<lparr>li_length := of_nat (11 + t + n),
      li_version := lu_version u, li_hdrlen := of_nat (5 + t), li_minlen := lu_minlen u, li_defstmt := lu_defstmt u,
      li_lbase := lu_lbase u, li_lrange := lu_lrange u, li_opbase := lu_opbase u, li_oplen := lu_oplens u,
      li_inclen := of_nat (length (lu_dirs u))\<rparr>) q (q + of_nat n) pc"
    unfolding lineno_init_def find_section_enhanced_def
    using header(2,3) hdr in_sec
    by (simp add: end_hdr sec header(1,4,5) bytes [unfolded One_nat_def] oplens [unfolded One_nat_def] Let_def addr dirs files pe ver
      flip: q_def)
  then show ?thesis unfolding init by (simp only: run)
qed

text \<open>
  C21. \<^verbatim>\<open>dwarf_srclines\<close> for a unit of \<^verbatim>\<open>.debug_line\<close> as a producer writes it, with any include
  directories, files and program (but \<^verbatim>\<open>define_file\<close>) in either byte order: it returns \<^verbatim>\<open>DW_DLV_OK\<close>,
  and of the rows that the program means the last one before the first whose address is beyond \<^verbatim>\<open>pc\<close>, or
  zeros when there is none.
\<close>

theorem srclines_row:
  assumes "attr_find die DW_AT_stmt_list = Some at" and "find_section si ''.debug_line'' = Some ds"
    and "holds_at m (ds_data ds + at_u0 at) (unit_bytes d u)" and "unit_fits u" and "cu_addr_size c = 8"
    and "unat (at_u0 at) + length (unit_bytes d u) \<le> unat (ds_size ds)" and "unat (ds_size ds) < 2 ^ 31"
    and "unat (ds_data ds) + unat (ds_size ds) < 2 ^ 64"
  shows "srclines m si d c die linebuf pc =
    (let rows = upto_pc pc (line_rows (unit_info d u) (reset_registers (unit_info d u)) (lu_program u))
     in Some (DW_DLV_OK, if rows = [] then row0 else last rows))"
  using lineno_init_unit [OF assms(2-8), of pc] assms(1)
  by (simp add: srclines_def Let_def with_rows_def unit_info_def lineinfo0_def)

definition ex_unit :: line_unit where
  "ex_unit = \<lparr>lu_version = 2, lu_minlen = 1, lu_defstmt = 1, lu_lbase = 0xFB, lu_lrange = 14, lu_opbase = 13,
     lu_oplens = [0, 1, 1, 1, 1, 0, 0, 0, 1, 0, 0, 1], lu_dirs = [], lu_files = [([0x61], 0, 0, 0)],
     lu_program = [SetAddress 0x8004201000, AdvanceLine 4, Copy, Special 0x4C, AdvancePc 24, Copy, EndSequence]\<rparr>"

lemma ex_unit_bytes: "unit_bytes ex_d ex_unit = ex_line_bytes"
proof -
  have "le_bytes 4 51 = [0x33, 0, 0, 0]" "le_bytes 2 2 = [2, 0]" "le_bytes 4 24 = [0x18, 0, 0, 0]" by code_simp+
  then show ?thesis
    by (simp add: unit_bytes_def tables_bytes_def dirs_bytes_def file_bytes_def encode_program_def ex_unit_def
      ex_line_bytes_def enc_def dw_lns_defs uleb128.simps sleb128.simps ex_le Let_def)
qed

lemma ex_unit_fits: "unit_fits ex_unit"
  by (simp add: unit_fits_def ex_unit_def name_ok_def)

lemma ex_rows:
  "map (\<lambda>r. (ln_addr r, ln_lineno r))
     (line_rows (unit_info ex_d ex_unit) (reset_registers (unit_info ex_d ex_unit)) (lu_program ex_unit)) =
   [(0x8004201000, 5), (0x8004201004, 7), (0x800420101C, 7)]"
  by (simp add: ex_unit_def unit_info_def lineinfo0_def reset_registers_def LINE_def ADDRESS_def row_of_def
    clear_flags_def Let_def)

definition ex_at :: dwattr where
  "ex_at = \<lparr>at_attrib = DW_AT_stmt_list, at_form = 6, at_indirect = False, at_u0 = 0, at_u1 = 0, at_block = (0, 0)\<rparr>"

theorem srclines_row_witness:
  "\<forall>die linebuf. map_option (\<lambda>(ret, r). (ret, ln_addr r, ln_lineno r))
     (srclines ex_mem ex_si ex_d ex_c (die\<lparr>die_attr := [ex_at]\<rparr>) linebuf 0x8004201010) = Some (DW_DLV_OK, 0x8004201004, 7)"
proof (intro allI)
  fix die :: die and linebuf
  let ?rows = "line_rows (unit_info ex_d ex_unit) (reset_registers (unit_info ex_d ex_unit)) (lu_program ex_unit)"
  let ?ds = "\<lparr>ds_name = ''.debug_line'', ds_data = 0x175, ds_addr = 0x175, ds_size = 55\<rparr>"
  have "upto_pc 0x8004201010 ?rows = take 2 ?rows"
    using ex_rows by (auto simp: upto_pc_def map_eq_Cons_conv)
  then have last: "upto_pc 0x8004201010 ?rows \<noteq> []" "ln_addr (last (upto_pc 0x8004201010 ?rows)) = 0x8004201004"
      "ln_lineno (last (upto_pc 0x8004201010 ?rows)) = 7"
    using ex_rows by (auto simp: map_eq_Cons_conv)
  have "length ex_line_bytes = 55" by (simp add: ex_line_bytes_def)
  then have "srclines ex_mem ex_si ex_d ex_c (die\<lparr>die_attr := [ex_at]\<rparr>) linebuf 0x8004201010 =
      (let rows = upto_pc 0x8004201010 ?rows in Some (DW_DLV_OK, if rows = [] then row0 else last rows))"
    using ex_mem_line ex_unit_fits
    by (intro srclines_row [where at = ex_at and ds = ?ds])
      (simp_all add: attr_find_def ex_at_def ex_si_def find_section_def ex_unit_bytes ex_c_def)
  then show "map_option (\<lambda>(ret, r). (ret, ln_addr r, ln_lineno r))
     (srclines ex_mem ex_si ex_d ex_c (die\<lparr>die_attr := [ex_at]\<rparr>) linebuf 0x8004201010) = Some (DW_DLV_OK, 0x8004201004, 7)"
    using last by (simp add: Let_def)
qed

end
