(* ===== verification/Mmu.thy ===== *)
theory Mmu
  imports Prelude
begin

text \<open>
  The memory-management interface of the machine: \<^verbatim>\<open>inc/mmu.h\<close> and the address constants of
  \<^verbatim>\<open>inc/memlayout.h\<close>. Bit-fields are words of their widths, so that an assignment truncates as C does;
  \<open>seg_bytes\<close>, \<open>sys_bytes\<close> and \<open>gate_bytes\<close> give the bytes of the structures in memory.
\<close>

section \<open>Linear addresses\<close>

definition PTXSHIFT :: nat where "PTXSHIFT = 12"
definition PDXSHIFT :: nat where "PDXSHIFT = 21"
definition PDPESHIFT :: nat where "PDPESHIFT = 30"
definition PML4SHIFT :: nat where "PML4SHIFT = 39"

lemmas shift_defs = PTXSHIFT_def PDXSHIFT_def PDPESHIFT_def PML4SHIFT_def

definition PPN :: "u64 \<Rightarrow> u64" where "PPN pa = drop_bit PTXSHIFT pa"
definition VPN :: "u64 \<Rightarrow> u64" where "VPN la = PPN la"
definition PGNUM :: "u64 \<Rightarrow> u64" where "PGNUM la = PPN la"
definition VPD :: "u64 \<Rightarrow> u64" where "VPD la = drop_bit PDXSHIFT la"
definition VPDPE :: "u64 \<Rightarrow> u64" where "VPDPE la = drop_bit PDPESHIFT la"
definition VPML4E :: "u64 \<Rightarrow> u64" where "VPML4E la = drop_bit PML4SHIFT la"

definition PML4 :: "u64 \<Rightarrow> u64" where "PML4 la = drop_bit PML4SHIFT la AND 0x1FF"
definition PDPE :: "u64 \<Rightarrow> u64" where "PDPE la = drop_bit PDPESHIFT la AND 0x1FF"
definition PDX :: "u64 \<Rightarrow> u64" where "PDX la = drop_bit PDXSHIFT la AND 0x1FF"
definition PTX :: "u64 \<Rightarrow> u64" where "PTX la = drop_bit PTXSHIFT la AND 0x1FF"
definition PGOFF :: "u64 \<Rightarrow> u64" where "PGOFF la = la AND 0xFFF"

definition PGADDR :: "u64 \<Rightarrow> u64 \<Rightarrow> u64 \<Rightarrow> u64 \<Rightarrow> u64 \<Rightarrow> u64" where
  "PGADDR m p d t off =
     push_bit PML4SHIFT m OR push_bit PDPESHIFT p OR push_bit PDXSHIFT d OR push_bit PTXSHIFT t OR off"

lemmas index_defs = PML4_def PDPE_def PDX_def PTX_def PGOFF_def VPML4E_def VPDPE_def VPD_def VPN_def
  PGNUM_def PPN_def

section \<open>Page table entries\<close>

definition PTE_P :: u64 where "PTE_P = 0x001"
definition PTE_W :: u64 where "PTE_W = 0x002"
definition PTE_U :: u64 where "PTE_U = 0x004"
definition PTE_AVAIL :: u64 where "PTE_AVAIL = 0xE00"
definition PTE_SYSCALL :: u64 where "PTE_SYSCALL = PTE_AVAIL OR PTE_P OR PTE_W OR PTE_U"

definition PTE_ADDR :: "u64 \<Rightarrow> u64" where "PTE_ADDR pte = pte AND NOT 0xFFF"

section \<open>Address space layout (inc/memlayout.h)\<close>

definition PGSIZE :: u64 where "PGSIZE = 4096"
definition NPTENTRIES :: u64 where "NPTENTRIES = 512"
definition PTSIZE :: u64 where "PTSIZE = PGSIZE * NPTENTRIES"
definition KSTACKTOP :: u64 where "KSTACKTOP = KERNBASE"
definition KSTKSIZE :: u64 where "KSTKSIZE = 16 * PGSIZE"
definition KSTKGAP :: u64 where "KSTKGAP = 8 * PGSIZE"
definition MMIOLIM :: u64 where "MMIOLIM = KSTACKTOP - PTSIZE"
definition MMIOBASE :: u64 where "MMIOBASE = MMIOLIM - PTSIZE"
definition ULIM :: u64 where "ULIM = MMIOBASE"
definition UVPT :: u64 where "UVPT = 0x10000000000"
definition UPAGES :: u64 where "UPAGES = ULIM - 25 * PTSIZE"
definition UENVS :: u64 where "UENVS = UPAGES - PTSIZE"
definition UTOP :: u64 where "UTOP = UENVS"
definition UXSTACKTOP :: u64 where "UXSTACKTOP = 0xef800000"
definition USTACKTOP :: u64 where "USTACKTOP = UXSTACKTOP - 2 * PGSIZE"
definition UTEXT :: u64 where "UTEXT = 4 * PTSIZE"
definition UTEMP :: u64 where "UTEMP = 2 * PTSIZE"
definition PFTEMP :: u64 where "PFTEMP = UTEMP + PTSIZE - PGSIZE"

lemmas layout_defs = PGSIZE_def NPTENTRIES_def PTSIZE_def KERNBASE_def KSTACKTOP_def KSTKSIZE_def
  KSTKGAP_def MMIOLIM_def MMIOBASE_def ULIM_def UVPT_def UPAGES_def UENVS_def UTOP_def UXSTACKTOP_def
  USTACKTOP_def UTEXT_def UTEMP_def PFTEMP_def

section \<open>Segment descriptors\<close>

record segdesc =
  sd_lim_15_0 :: "16 word"
  sd_base_15_0 :: "16 word"
  sd_base_23_16 :: "8 word"
  sd_type :: "4 word"
  sd_s :: "1 word"
  sd_dpl :: "2 word"
  sd_p :: "1 word"
  sd_lim_19_16 :: "4 word"
  sd_avl :: "1 word"
  sd_l :: "1 word"
  sd_db :: "1 word"
  sd_g :: "1 word"
  sd_base_31_24 :: "8 word"

definition SEG_NULL :: segdesc where
  "SEG_NULL = \<lparr>sd_lim_15_0 = 0, sd_base_15_0 = 0, sd_base_23_16 = 0, sd_type = 0, sd_s = 0, sd_dpl = 0,
     sd_p = 0, sd_lim_19_16 = 0, sd_avl = 0, sd_l = 0, sd_db = 0, sd_g = 0, sd_base_31_24 = 0\<rparr>"

definition SEG :: "u32 \<Rightarrow> u32 \<Rightarrow> u32 \<Rightarrow> u32 \<Rightarrow> segdesc" where
  "SEG type base lim dpl =
     \<lparr>sd_lim_15_0 = ucast (drop_bit 12 lim AND 0xFFFF), sd_base_15_0 = ucast (base AND 0xFFFF),
      sd_base_23_16 = ucast (drop_bit 16 base AND 0xFF), sd_type = ucast type, sd_s = 1,
      sd_dpl = ucast dpl, sd_p = 1, sd_lim_19_16 = ucast (drop_bit 28 lim), sd_avl = 0, sd_l = 0,
      sd_db = 1, sd_g = 1, sd_base_31_24 = ucast (drop_bit 24 base)\<rparr>"

definition SEG64 :: "u32 \<Rightarrow> u32 \<Rightarrow> u32 \<Rightarrow> u32 \<Rightarrow> segdesc" where
  "SEG64 type base lim dpl =
     \<lparr>sd_lim_15_0 = ucast (drop_bit 12 lim AND 0xFFFF), sd_base_15_0 = ucast (base AND 0xFFFF),
      sd_base_23_16 = ucast (drop_bit 16 base AND 0xFF), sd_type = ucast type, sd_s = 1,
      sd_dpl = ucast dpl, sd_p = 1, sd_lim_19_16 = ucast (drop_bit 28 lim), sd_avl = 0, sd_l = 1,
      sd_db = 0, sd_g = 1, sd_base_31_24 = ucast (drop_bit 24 base)\<rparr>"

definition SEG16 :: "u32 \<Rightarrow> u32 \<Rightarrow> u32 \<Rightarrow> u32 \<Rightarrow> segdesc" where
  "SEG16 type base lim dpl =
     \<lparr>sd_lim_15_0 = ucast (lim AND 0xFFFF), sd_base_15_0 = ucast (base AND 0xFFFF),
      sd_base_23_16 = ucast (drop_bit 16 base AND 0xFF), sd_type = ucast type, sd_s = 1,
      sd_dpl = ucast dpl, sd_p = 1, sd_lim_19_16 = ucast (drop_bit 16 lim), sd_avl = 0, sd_l = 0,
      sd_db = 1, sd_g = 0, sd_base_31_24 = ucast (drop_bit 24 base)\<rparr>"

text \<open>The eight bytes of a descriptor: bit-fields fill each unit from its low end.\<close>

definition seg_bytes :: "segdesc \<Rightarrow> u8 list" where
  "seg_bytes s =
     [ucast (sd_lim_15_0 s), ucast (drop_bit 8 (sd_lim_15_0 s)),
      ucast (sd_base_15_0 s), ucast (drop_bit 8 (sd_base_15_0 s)),
      sd_base_23_16 s,
      ucast (sd_type s) OR push_bit 4 (ucast (sd_s s)) OR push_bit 5 (ucast (sd_dpl s))
        OR push_bit 7 (ucast (sd_p s)),
      ucast (sd_lim_19_16 s) OR push_bit 4 (ucast (sd_avl s)) OR push_bit 5 (ucast (sd_l s))
        OR push_bit 6 (ucast (sd_db s)) OR push_bit 7 (ucast (sd_g s)),
      sd_base_31_24 s]"

text \<open>The macros of the same name for the assembler: two \<^verbatim>\<open>.word\<close> and four \<^verbatim>\<open>.byte\<close>.\<close>

definition asm_seg :: "u32 \<Rightarrow> u32 \<Rightarrow> u32 \<Rightarrow> u32 \<Rightarrow> u32 \<Rightarrow> u8 list" where
  "asm_seg access flags type base lim =
     (let w1 = drop_bit 12 lim AND 0xFFFF; w2 = base AND 0xFFFF
      in [ucast w1, ucast (drop_bit 8 w1), ucast w2, ucast (drop_bit 8 w2),
          ucast (drop_bit 16 base AND 0xFF), ucast (access OR type),
          ucast (flags OR (drop_bit 28 lim AND 0xF)), ucast (drop_bit 24 base AND 0xFF)])"

definition asm_SEG :: "u32 \<Rightarrow> u32 \<Rightarrow> u32 \<Rightarrow> u8 list" where "asm_SEG = asm_seg 0x90 0xC0"
definition asm_SEG64 :: "u32 \<Rightarrow> u32 \<Rightarrow> u32 \<Rightarrow> u8 list" where "asm_SEG64 = asm_seg 0x90 0xA0"
definition asm_SEG64USER :: "u32 \<Rightarrow> u32 \<Rightarrow> u32 \<Rightarrow> u8 list" where "asm_SEG64USER = asm_seg 0xF0 0xA0"

section \<open>System descriptors and gates\<close>

record sysdesc =
  ss_lim_15_0 :: "16 word"
  ss_base_15_0 :: "16 word"
  ss_base_23_16 :: "8 word"
  ss_type :: "4 word"
  ss_s :: "1 word"
  ss_dpl :: "2 word"
  ss_p :: "1 word"
  ss_lim_19_16 :: "4 word"
  ss_avl :: "1 word"
  ss_rsv1 :: "2 word"
  ss_g :: "1 word"
  ss_base_31_24 :: "8 word"
  ss_base_63_32 :: "32 word"
  ss_res1 :: "8 word"
  ss_clear :: "8 word"
  ss_res2 :: "16 word"

text \<open>The limit and the base are cast to 64 bits; \<^verbatim>\<open>dpl\<close> is ignored.\<close>

definition SETTSS :: "sysdesc \<Rightarrow> u32 \<Rightarrow> u64 \<Rightarrow> u64 \<Rightarrow> u32 \<Rightarrow> sysdesc" where
  "SETTSS desc type base lim dpl = desc
     \<lparr>ss_lim_15_0 := ucast (lim AND 0xFFFF), ss_base_15_0 := ucast (base AND 0xFFFF),
      ss_base_23_16 := ucast (drop_bit 16 base AND 0xFF), ss_type := ucast type, ss_s := 0, ss_dpl := 0,
      ss_p := 1, ss_lim_19_16 := ucast (drop_bit 16 lim AND 0xF), ss_avl := 0, ss_rsv1 := 0, ss_g := 0,
      ss_base_31_24 := ucast (drop_bit 24 base AND 0xFF),
      ss_base_63_32 := ucast (drop_bit 32 base AND 0xFFFFFFFF), ss_res1 := 0, ss_clear := 0, ss_res2 := 0\<rparr>"

definition STS_CG64 :: u32 where "STS_CG64 = 0xC"
definition STS_IG64 :: u32 where "STS_IG64 = 0xE"
definition STS_TG64 :: u32 where "STS_TG64 = 0xF"

record gatedesc =
  gd_off_15_0 :: "16 word"
  gd_ss :: "16 word"
  gd_ist :: "3 word"
  gd_rsv1 :: "5 word"
  gd_type :: "4 word"
  gd_s :: "1 word"
  gd_dpl :: "2 word"
  gd_p :: "1 word"
  gd_off_31_16 :: "16 word"
  gd_off_32_63 :: "32 word"
  gd_rsv2 :: "32 word"

definition SETGATE :: "gatedesc \<Rightarrow> u32 \<Rightarrow> u32 \<Rightarrow> u64 \<Rightarrow> u32 \<Rightarrow> gatedesc" where
  "SETGATE gate istrap sel off dpl = gate
     \<lparr>gd_off_15_0 := ucast (off AND 0xFFFF), gd_ss := ucast sel, gd_ist := 0, gd_rsv1 := 0,
      gd_type := ucast (if istrap \<noteq> 0 then STS_TG64 else STS_IG64), gd_s := 0, gd_dpl := ucast dpl,
      gd_p := 1, gd_off_31_16 := ucast (drop_bit 16 off AND 0xFFFF),
      gd_off_32_63 := ucast (drop_bit 32 off AND 0xFFFFFFFF), gd_rsv2 := 0\<rparr>"

definition SETCALLGATE :: "gatedesc \<Rightarrow> u32 \<Rightarrow> u64 \<Rightarrow> u32 \<Rightarrow> gatedesc" where
  "SETCALLGATE gate ss off dpl =
     (let off32 = ucast off :: u32
      in gate
     \<lparr>gd_off_15_0 := ucast (off32 AND 0xFFFF), gd_ss := ucast ss, gd_ist := 0, gd_rsv1 := 0,
      gd_type := ucast STS_CG64, gd_s := 0, gd_dpl := ucast dpl, gd_p := 1,
      gd_off_31_16 := ucast (drop_bit 16 off32 AND 0xFFFF),
      gd_off_32_63 := ucast (drop_bit 32 off AND 0xFFFFFFFF), gd_rsv2 := 0\<rparr>)"

text \<open>What the processor reads from the fields.\<close>

definition seg_base :: "segdesc \<Rightarrow> u32" where
  "seg_base s = ucast (sd_base_15_0 s) OR push_bit 16 (ucast (sd_base_23_16 s)) OR push_bit 24 (ucast (sd_base_31_24 s))"

definition seg_limit :: "segdesc \<Rightarrow> u32" where
  "seg_limit s =
     (let l = ucast (sd_lim_15_0 s) OR push_bit 16 (ucast (sd_lim_19_16 s))
      in if sd_g s = 1 then push_bit 12 l OR 0xFFF else l)"

definition sys_base :: "sysdesc \<Rightarrow> u64" where
  "sys_base s = ucast (ss_base_15_0 s) OR push_bit 16 (ucast (ss_base_23_16 s))
     OR push_bit 24 (ucast (ss_base_31_24 s)) OR push_bit 32 (ucast (ss_base_63_32 s))"

definition sys_limit :: "sysdesc \<Rightarrow> u64" where
  "sys_limit s = ucast (ss_lim_15_0 s) OR push_bit 16 (ucast (ss_lim_19_16 s))"

definition gate_offset :: "gatedesc \<Rightarrow> u64" where
  "gate_offset g = ucast (gd_off_15_0 g) OR push_bit 16 (ucast (gd_off_31_16 g)) OR push_bit 32 (ucast (gd_off_32_63 g))"

section \<open>Addresses are made of their indexes\<close>

lemma low_mask:
  "x AND 0x1FF = take_bit 9 x" "x AND 0xFFF = take_bit 12 x" "x AND 0xFFFF = take_bit 16 x"
  "x AND 0xFF = take_bit 8 x" "x AND 0xF = take_bit 4 x" "x AND 0xFFFFFFFF = take_bit 32 x"
  for x :: "'a::len word"
  by (simp_all add: take_bit_eq_mask mask_eq_exp_minus_1)

lemma bit_pgaddr:
  "bit (PGADDR m p d t off) n \<longleftrightarrow> n < 64 \<and>
     (39 \<le> n \<and> bit m (n - 39) \<or> 30 \<le> n \<and> bit p (n - 30) \<or> 21 \<le> n \<and> bit d (n - 21)
      \<or> 12 \<le> n \<and> bit t (n - 12) \<or> bit off n)"
  by (auto simp: PGADDR_def shift_defs bit_simps dest: bit_imp_le_length)

lemma index_of_pgaddr:
  fixes i j k l off :: u64
  defines "a \<equiv> PGADDR (take_bit 9 i) (take_bit 9 j) (take_bit 9 k) (take_bit 9 l) (take_bit 12 off)"
  shows "n < 9 \<Longrightarrow> bit a (39 + n) \<longleftrightarrow> bit i n" and "n < 9 \<Longrightarrow> bit a (30 + n) \<longleftrightarrow> bit j n"
    and "n < 9 \<Longrightarrow> bit a (21 + n) \<longleftrightarrow> bit k n" and "n < 9 \<Longrightarrow> bit a (12 + n) \<longleftrightarrow> bit l n"
    and "n < 12 \<Longrightarrow> bit a n \<longleftrightarrow> bit off n"
  by (simp_all add: a_def bit_pgaddr bit_take_bit_iff)

lemma address_part:
  "n < 12 \<or> (\<exists>k<9. n = 12 + k) \<or> (\<exists>k<9. n = 21 + k) \<or> (\<exists>k<9. n = 30 + k) \<or> (\<exists>k. n = 39 + k)" for n :: nat
  by presburger

lemma pgaddr_of_indexes: "PGADDR (PML4 la) (PDPE la) (PDX la) (PTX la) (PGOFF la) = take_bit 48 la"
proof (rule bit_word_eqI)
  fix n assume "n < LENGTH(64)"
  then have n: "n < 64" by simp
  consider "n < 12" | k where "n = 12 + k" "k < 9" | k where "n = 21 + k" "k < 9"
      | k where "n = 30 + k" "k < 9" | k where "n = 39 + k"
    using address_part [of n] by blast
  then show "bit (PGADDR (PML4 la) (PDPE la) (PDX la) (PTX la) (PGOFF la)) n \<longleftrightarrow> bit (take_bit 48 la) n"
    using n
    by cases (simp_all add: bit_pgaddr index_defs shift_defs low_mask bit_take_bit_iff bit_drop_bit_eq)
qed
lemma indexes_of_pgaddr:
  "(let a = PGADDR (take_bit 9 i) (take_bit 9 j) (take_bit 9 k) (take_bit 9 l) (take_bit 12 off)
    in PML4 a = take_bit 9 i \<and> PDPE a = take_bit 9 j \<and> PDX a = take_bit 9 k \<and> PTX a = take_bit 9 l
       \<and> PGOFF a = take_bit 12 off)"
    unfolding Let_def index_defs shift_defs low_mask
    by (intro conjI; rule bit_word_eqI) (auto simp: bit_take_bit_iff bit_drop_bit_eq index_of_pgaddr)

text \<open>
  The page macros decompose an address and put it together again: \<^verbatim>\<open>PGADDR\<close> of the four indexes
  and the offset of an address gives its low 48 bits, and indexes of 9 bits with an offset of 12
  come back from the address made of them.
\<close>

lemma page_address:
  "PGADDR (PML4 la) (PDPE la) (PDX la) (PTX la) (PGOFF la) = take_bit 48 la \<and>
   (let a = PGADDR (take_bit 9 i) (take_bit 9 j) (take_bit 9 k) (take_bit 9 l) (take_bit 12 off)
    in PML4 a = take_bit 9 i \<and> PDPE a = take_bit 9 j \<and> PDX a = take_bit 9 k \<and> PTX a = take_bit 9 l
       \<and> PGOFF a = take_bit 12 off)"
  using pgaddr_of_indexes indexes_of_pgaddr by (rule conjI)

text \<open>
  The layout of the address space: the regions of user memory, the read-only tables, the memory-mapped
  I/O and the kernel follow each other in this order, all on page boundaries, the kernel's in slot 1
  of the top-level table and the page-table window in slot 2.
\<close>

lemma layout_ordered:
  "sorted_wrt (<) [PTSIZE, UTEMP, PFTEMP, UTEXT, USTACKTOP, UXSTACKTOP, UTOP, UPAGES, ULIM, MMIOLIM, KERNBASE, UVPT]
   \<and> list_all (\<lambda>a. PGOFF a = 0) [PTSIZE, UTEMP, PFTEMP, UTEXT, USTACKTOP, UXSTACKTOP, UTOP, UPAGES, ULIM, MMIOLIM, KERNBASE, UVPT]
   \<and> PML4 KERNBASE = 1 \<and> PML4 UVPT = 2"
  by (simp add: layout_defs PGOFF_def PML4_def shift_defs)

section \<open>Descriptors hold their arguments\<close>

lemma type_bit: "type < 16 \<Longrightarrow> 4 \<le> n \<Longrightarrow> \<not> bit type n" for type :: u32
proof -
  assume "type < 16" "4 \<le> n"
  then have "unat type < 2 ^ 4" by (simp add: word_less_nat_alt)
  then have "take_bit 4 type = type"
    by (metis take_bit_nat_eq_self unsigned_take_bit_eq word_unat_eq_iff)
  then have "bit type n = bit (take_bit 4 type) n" by simp
  then show ?thesis using \<open>4 \<le> n\<close> by (simp add: bit_take_bit_iff)
qed

lemma access_byte:
  fixes type :: u32
  assumes "type < 16"
  shows "ucast (ucast type :: 4 word) OR push_bit 4 (ucast (1 :: 1 word)) OR push_bit 5 (ucast (0 :: 2 word))
      OR push_bit 7 (ucast (1 :: 1 word)) = (ucast (0x90 OR type) :: u8)"
    and "ucast (ucast type :: 4 word) OR push_bit 4 (ucast (1 :: 1 word)) OR push_bit 5 (ucast (3 :: 2 word))
      OR push_bit 7 (ucast (1 :: 1 word)) = (ucast (0xF0 OR type) :: u8)"
proof -
  have low: "bit (ucast (ucast type :: 4 word) :: u8) n \<longleftrightarrow> bit type n" if "n < 8" for n
    using that type_bit [OF assms, of n] by (cases "n < 4") (auto simp: bit_simps)
  have "(ucast (ucast type :: 4 word) :: u8) = ucast type"
  proof (rule bit_word_eqI)
    fix n assume "n < LENGTH(8)"
    then show "bit (ucast (ucast type :: 4 word) :: u8) n \<longleftrightarrow> bit (ucast type :: u8) n"
      using low [of n] by (simp only: bit_ucast_iff) simp
  qed
  moreover have "(ucast (0x90 OR type) :: u8) = 0x90 OR ucast type" "(ucast (0xF0 OR type) :: u8) = 0xF0 OR ucast type"
    by (rule bit_word_eqI; auto simp: bit_simps; fail)+
  ultimately show "ucast (ucast type :: 4 word) OR push_bit 4 (ucast (1 :: 1 word)) OR push_bit 5 (ucast (0 :: 2 word))
      OR push_bit 7 (ucast (1 :: 1 word)) = (ucast (0x90 OR type) :: u8)"
    "ucast (ucast type :: 4 word) OR push_bit 4 (ucast (1 :: 1 word)) OR push_bit 5 (ucast (3 :: 2 word))
      OR push_bit 7 (ucast (1 :: 1 word)) = (ucast (0xF0 OR type) :: u8)"
    by (simp_all add: or.commute or.left_commute)
qed

lemma flags_byte:
  "ucast (ucast (drop_bit 28 lim) :: 4 word) OR push_bit 4 (ucast (0 :: 1 word)) OR push_bit 5 (ucast (0 :: 1 word))
     OR push_bit 6 (ucast (1 :: 1 word)) OR push_bit 7 (ucast (1 :: 1 word)) = (ucast (0xC0 OR (drop_bit 28 lim AND 0xF)) :: u8)"
  "ucast (ucast (drop_bit 28 lim) :: 4 word) OR push_bit 4 (ucast (0 :: 1 word)) OR push_bit 5 (ucast (1 :: 1 word))
     OR push_bit 6 (ucast (0 :: 1 word)) OR push_bit 7 (ucast (1 :: 1 word)) = (ucast (0xA0 OR (drop_bit 28 lim AND 0xF)) :: u8)"
  for lim :: u32
proof -
  have "(ucast (ucast (drop_bit 28 lim) :: 4 word) :: u8) = ucast (drop_bit 28 lim)"
    by (rule bit_word_eqI) (auto simp: bit_simps dest: bit_imp_le_length)
  moreover have "drop_bit 28 lim AND 0xF = drop_bit 28 lim"
    unfolding low_mask by (rule bit_word_eqI) (auto simp: bit_simps dest: bit_imp_le_length)
  moreover have "(ucast (0xC0 OR x) :: u8) = 0xC0 OR ucast x" "(ucast (0xA0 OR x) :: u8) = 0xA0 OR ucast x" for x :: u32
    by (rule bit_word_eqI; auto simp: bit_simps; fail)+
  ultimately show "ucast (ucast (drop_bit 28 lim) :: 4 word) OR push_bit 4 (ucast (0 :: 1 word)) OR push_bit 5 (ucast (0 :: 1 word))
     OR push_bit 6 (ucast (1 :: 1 word)) OR push_bit 7 (ucast (1 :: 1 word)) = (ucast (0xC0 OR (drop_bit 28 lim AND 0xF)) :: u8)"
  "ucast (ucast (drop_bit 28 lim) :: 4 word) OR push_bit 4 (ucast (0 :: 1 word)) OR push_bit 5 (ucast (1 :: 1 word))
     OR push_bit 6 (ucast (0 :: 1 word)) OR push_bit 7 (ucast (1 :: 1 word)) = (ucast (0xA0 OR (drop_bit 28 lim AND 0xF)) :: u8)"
    by (simp_all add: or.commute or.left_commute)
qed

lemma field_bytes:
  "ucast (ucast x :: u16) = (ucast x :: u8)" "ucast (drop_bit 8 (ucast x :: u16)) = (ucast (drop_bit 8 x) :: u8)"
  "(ucast (drop_bit 24 x) :: u8) = ucast (drop_bit 24 x AND 0xFF)"
  for x :: u32
  unfolding low_mask by (rule bit_word_eqI; auto simp: bit_simps; fail)+

lemma word_part:
  "n < 16 \<or> (\<exists>k<8. n = 16 + k) \<or> (\<exists>k<8. n = 24 + k) \<or> (\<exists>k. n = 32 + k)" for n :: nat
  by presburger

lemma base_fields:
  "ucast (ucast (base AND 0xFFFF) :: u16) OR push_bit 16 (ucast (ucast (drop_bit 16 base AND 0xFF) :: u8))
     OR push_bit 24 (ucast (ucast (drop_bit 24 base) :: u8)) = base" for base :: u32
  unfolding low_mask
proof (rule bit_word_eqI)
  fix n assume n: "n < LENGTH(32)"
  consider "n < 16" | k where "n = 16 + k" "k < 8" | k where "n = 24 + k" "k < 8"
    using word_part [of n] n by auto
  then show "bit (ucast (ucast (take_bit 16 base) :: u16) OR push_bit 16 (ucast (ucast (take_bit 8 (drop_bit 16 base)) :: u8))
     OR push_bit 24 (ucast (ucast (drop_bit 24 base) :: u8)) :: u32) n \<longleftrightarrow> bit base n"
    by cases (simp_all add: bit_simps)
qed

lemma limit_fields:
  "push_bit 12 (ucast (ucast (drop_bit 12 lim AND 0xFFFF) :: u16) OR push_bit 16 (ucast (ucast (drop_bit 28 lim) :: 4 word)))
     OR 0xFFF = lim OR 0xFFF"
  "ucast (ucast (lim AND 0xFFFF) :: u16) OR push_bit 16 (ucast (ucast (drop_bit 16 lim) :: 4 word)) = take_bit 20 lim"
  for lim :: u32
proof -
  have m: "bit (0xFFF :: u32) n \<longleftrightarrow> n < 12" for n
  proof -
    have "(0xFFF :: u32) = mask 12" by (simp add: mask_eq_exp_minus_1)
    then show ?thesis by (simp only: bit_mask_iff) auto
  qed
  have "n < 32 \<Longrightarrow> n < 12 \<or> (\<exists>k<16. n = 12 + k) \<or> (\<exists>k<4. n = 28 + k)" for n :: nat by presburger
  then have c: "n < 32 \<Longrightarrow> (n < 12 \<Longrightarrow> P) \<Longrightarrow> (\<And>k. n = 12 + k \<Longrightarrow> k < 16 \<Longrightarrow> P) \<Longrightarrow> (\<And>k. n = 28 + k \<Longrightarrow> k < 4 \<Longrightarrow> P) \<Longrightarrow> P"
    for n :: nat and P by blast
  show "push_bit 12 (ucast (ucast (drop_bit 12 lim AND 0xFFFF) :: u16) OR push_bit 16 (ucast (ucast (drop_bit 28 lim) :: 4 word)))
     OR 0xFFF = lim OR 0xFFF"
  proof (rule bit_word_eqI)
    fix n assume "n < LENGTH(32)"
    then have "n < 32" by simp
    then show "bit (push_bit 12 (ucast (ucast (drop_bit 12 lim AND 0xFFFF) :: u16) OR push_bit 16 (ucast (ucast (drop_bit 28 lim) :: 4 word)))
     OR 0xFFF :: u32) n = bit (lim OR 0xFFF) n"
      unfolding bit_or_iff m
      by (rule c) (simp_all add: bit_or_iff low_mask bit_push_bit_iff bit_ucast_iff bit_take_bit_iff bit_drop_bit_eq)
  qed
  have "n < 16 \<or> (\<exists>k. n = 16 + k)" for n :: nat by presburger
  then have c: "(n < 16 \<Longrightarrow> P) \<Longrightarrow> (\<And>k. n = 16 + k \<Longrightarrow> P) \<Longrightarrow> P" for n :: nat and P by blast
  show "ucast (ucast (lim AND 0xFFFF) :: u16) OR push_bit 16 (ucast (ucast (drop_bit 16 lim) :: 4 word)) = take_bit 20 lim"
  proof (rule bit_word_eqI)
    fix n assume n: "n < LENGTH(32)"
    show "bit (ucast (ucast (lim AND 0xFFFF) :: u16) OR push_bit 16 (ucast (ucast (drop_bit 16 lim) :: 4 word)) :: u32) n = bit (take_bit 20 lim) n"
      by (rule c [of n]) (use n in \<open>auto simp: bit_or_iff low_mask bit_push_bit_iff bit_ucast_iff bit_take_bit_iff bit_drop_bit_eq\<close>)
  qed
qed

lemma limit_fields64:
  "ucast (ucast (lim AND 0xFFFF) :: u16) OR push_bit 16 (ucast (ucast (drop_bit 16 lim AND 0xF) :: 4 word)) = take_bit 20 lim"
  for lim :: u64
proof (rule bit_word_eqI)
  fix n assume n: "n < LENGTH(64)"
  have "n < 16 \<or> (\<exists>k. n = 16 + k)" by presburger
  then consider "n < 16" | k where "n = 16 + k" by blast
  then show "bit (ucast (ucast (lim AND 0xFFFF) :: u16) OR push_bit 16 (ucast (ucast (drop_bit 16 lim AND 0xF) :: 4 word)) :: u64) n
      = bit (take_bit 20 lim) n"
    by cases (use n in \<open>auto simp: bit_or_iff low_mask bit_push_bit_iff bit_ucast_iff bit_take_bit_iff bit_drop_bit_eq\<close>)
qed

lemma offset_fields:
  "ucast (ucast (off AND 0xFFFF) :: u16) OR push_bit 16 (ucast (ucast (drop_bit 16 off AND 0xFFFF) :: u16))
    OR push_bit 32 (ucast (ucast (drop_bit 32 off AND 0xFFFFFFFF) :: u32)) = off"
  "ucast (ucast (off AND 0xFFFF) :: u16) OR push_bit 16 (ucast (ucast (drop_bit 16 off AND 0xFF) :: u8))
    OR push_bit 24 (ucast (ucast (drop_bit 24 off AND 0xFF) :: u8))
    OR push_bit 32 (ucast (ucast (drop_bit 32 off AND 0xFFFFFFFF) :: u32)) = off"
  "ucast (ucast (ucast off AND 0xFFFF :: u32) :: u16) OR push_bit 16 (ucast (ucast (drop_bit 16 (ucast off) AND 0xFFFF :: u32) :: u16))
    OR push_bit 32 (ucast (ucast (drop_bit 32 off AND 0xFFFFFFFF) :: u32)) = off"
  for off :: u64
proof -
  note simps = low_mask bit_or_iff bit_push_bit_iff bit_ucast_iff bit_take_bit_iff bit_drop_bit_eq
  have c: "n < 64 \<Longrightarrow> (n < 16 \<Longrightarrow> P) \<Longrightarrow> (\<And>k. n = 16 + k \<Longrightarrow> k < 8 \<Longrightarrow> P) \<Longrightarrow> (\<And>k. n = 24 + k \<Longrightarrow> k < 8 \<Longrightarrow> P)
      \<Longrightarrow> (\<And>k. n = 32 + k \<Longrightarrow> k < 32 \<Longrightarrow> P) \<Longrightarrow> P" for n :: nat and P
    using word_part [of n] by auto
  show "ucast (ucast (off AND 0xFFFF) :: u16) OR push_bit 16 (ucast (ucast (drop_bit 16 off AND 0xFFFF) :: u16))
    OR push_bit 32 (ucast (ucast (drop_bit 32 off AND 0xFFFFFFFF) :: u32)) = off"
    by (rule bit_word_eqI, rule c, simp; simp add: simps)
  show "ucast (ucast (off AND 0xFFFF) :: u16) OR push_bit 16 (ucast (ucast (drop_bit 16 off AND 0xFF) :: u8))
    OR push_bit 24 (ucast (ucast (drop_bit 24 off AND 0xFF) :: u8))
    OR push_bit 32 (ucast (ucast (drop_bit 32 off AND 0xFFFFFFFF) :: u32)) = off"
    by (rule bit_word_eqI, rule c, simp; simp add: simps)
  show "ucast (ucast (ucast off AND 0xFFFF :: u32) :: u16) OR push_bit 16 (ucast (ucast (drop_bit 16 (ucast off) AND 0xFFFF :: u32) :: u16))
    OR push_bit 32 (ucast (ucast (drop_bit 32 off AND 0xFFFFFFFF) :: u32)) = off"
    by (rule bit_word_eqI, rule c, simp; simp add: simps)
qed
text \<open>
  C28. The C macros and the assembler macros build the same descriptor bytes, for a type of four bits
  (the assembler's \<^verbatim>\<open>SEG\<close> and \<^verbatim>\<open>SEG64\<close> for the kernel's privilege level, \<^verbatim>\<open>SEG64USER\<close> for the user's),
  and the processor reads from them the base, and the limit rounded up to the end of its page.
\<close>

theorem segment_descriptors:
  assumes "type < 16"
  shows "seg_bytes (SEG type base lim 0) = asm_SEG type base lim \<and>
    seg_bytes (SEG64 type base lim 0) = asm_SEG64 type base lim \<and>
    seg_bytes (SEG64 type base lim 3) = asm_SEG64USER type base lim \<and>
    seg_base (SEG type base lim dpl) = base \<and> seg_limit (SEG type base lim dpl) = lim OR 0xFFF \<and>
    seg_base (SEG64 type base lim dpl) = base \<and> seg_limit (SEG64 type base lim dpl) = lim OR 0xFFF \<and>
    seg_base (SEG16 type base lim dpl) = base \<and> seg_limit (SEG16 type base lim dpl) = take_bit 20 lim"
proof -
  have dpl: "(ucast (0 :: u32) :: 2 word) = 0" "(ucast (3 :: u32) :: 2 word) = 3" by simp_all
  have bytes: "seg_bytes (SEG type base lim 0) = asm_SEG type base lim"
    "seg_bytes (SEG64 type base lim 0) = asm_SEG64 type base lim"
    "seg_bytes (SEG64 type base lim 3) = asm_SEG64USER type base lim"
    by (simp_all only: seg_bytes_def SEG_def SEG64_def segdesc.simps asm_SEG_def asm_SEG64_def asm_SEG64USER_def
        asm_seg_def Let_def dpl access_byte [OF assms] flags_byte field_bytes)
  show ?thesis
    using bytes base_fields [of base] limit_fields [of lim]
    by (simp add: seg_base_def seg_limit_def SEG_def SEG64_def SEG16_def Let_def)
qed

theorem segment_descriptors_witness:
  "seg_bytes (SEG 0xA 0 0xFFFFFFFF 0) = [0xFF, 0xFF, 0, 0, 0, 0x9A, 0xCF, 0]"
proof -
  have "seg_bytes (SEG 0xA 0 0xFFFFFFFF 0) = asm_SEG 0xA 0 0xFFFFFFFF"
    by (rule segment_descriptors [THEN conjunct1]) simp
  also have "\<dots> = [0xFF, 0xFF, 0, 0, 0, 0x9A, 0xCF, 0]" by code_simp
  finally show ?thesis .
qed

text \<open>
  A gate of \<^verbatim>\<open>SETGATE\<close> or \<^verbatim>\<open>SETCALLGATE\<close> holds the whole 64-bit offset of its handler, is present,
  and has the selector, the privilege level and the kind given; \<^verbatim>\<open>SETTSS\<close> keeps the whole 64-bit base
  and the low 20 bits of the limit.
\<close>

lemma gates_hold_offset:
  "gate_offset (SETGATE g istrap sel off dpl) = off \<and> gate_offset (SETCALLGATE g sel off dpl) = off \<and>
   gd_p (SETGATE g istrap sel off dpl) = 1 \<and> gd_ss (SETGATE g istrap sel off dpl) = ucast sel \<and>
   gd_dpl (SETGATE g istrap sel off dpl) = ucast dpl \<and>
   gd_type (SETGATE g istrap sel off dpl) = (if istrap = 0 then 14 else 15) \<and>
   gd_type (SETCALLGATE g sel off dpl) = 12 \<and>
   sys_base (SETTSS d type base lim dpl') = base \<and> sys_limit (SETTSS d type base lim dpl') = take_bit 20 lim"
proof -
  have "sys_limit (SETTSS d type base lim dpl') = take_bit 20 lim"
    using limit_fields64 [of lim] by (simp add: sys_limit_def SETTSS_def)
  then show ?thesis
    using offset_fields [of off] offset_fields(2) [of base]
    by (simp add: gate_offset_def SETGATE_def SETCALLGATE_def sys_base_def SETTSS_def STS_TG64_def STS_IG64_def
        STS_CG64_def Let_def)
qed

end
