(* ===== verification/Kdebug.thy ===== *)
theory Kdebug
  imports DwarfLine Mmu
begin

text \<open>
  The look-up of an instruction address: \<^verbatim>\<open>kern/kdebug.c\<close>. The entries of every compilation unit are
  searched for a function around the address; the unit gives the file, the line number program the line,
  and the parameters and their types the number and the sizes of the arguments. \<open>None\<close> stands for a run
  that does not end, a failed \<^verbatim>\<open>assert\<close>, a \<^verbatim>\<open>panic\<close>, a null pointer or a store beyond an array.
\<close>

section \<open>Functions (list\_func\_die)\<close>

text \<open>\<^verbatim>\<open>struct Ripdebuginfo\<close>; the names are addresses. \<^verbatim>\<open>reg_table\<close> is not used here.\<close>

record ripdebuginfo =
  ri_file :: addr
  ri_line :: u32
  ri_fn_name :: addr
  ri_fn_namelen :: u32
  ri_fn_addr :: u64
  ri_fn_narg :: u32
  ri_size_fn_arg :: "u32 list"

text \<open>\<^verbatim>\<open>size_fn_arg[rip_fn_narg] = ret_val; rip_fn_narg++\<close>, in an array of ten.\<close>

definition add_arg :: "u64 \<Rightarrow> ripdebuginfo \<Rightarrow> ripdebuginfo option" where
  "add_arg ret_val info =
     (let n = ri_fn_narg info
      in if sint n < 0 \<or> 10 \<le> sint n then None
         else Some (info\<lparr>ri_size_fn_arg := (ri_size_fn_arg info)[unat n := ucast ret_val], ri_fn_narg := n + 1\<rparr>))"

text \<open>
  The label \<^verbatim>\<open>try_again\<close>: the types behind each other up to one with a size. \<open>sib\<close> is the local variable,
  which \<^verbatim>\<open>dwarf_offdie\<close> leaves as it is for an offset behind the unit.
\<close>

partial_function (option) type_size ::
    "mem \<Rightarrow> dsection list \<Rightarrow> dwdebug \<Rightarrow> cu \<Rightarrow> dwattr option \<Rightarrow> die \<Rightarrow> u64 \<Rightarrow> u64 option" where
  "type_size m si d c attr sib ret_val =
     (case attr of
        None \<Rightarrow> Some ret_val
      | Some at \<Rightarrow>
          Option.bind (offdie m si d (cu_offset c + at_u0 at) sib c) (\<lambda>(_, sib).
            case attr_find sib DW_AT_byte_size of
              Some sz \<Rightarrow> Some (at_u0 sz)
            | None \<Rightarrow> type_size m si d c (attr_find sib DW_AT_type) sib ret_val))"

text \<open>The type of a parameter behind the first one: a single step, and the size before when it has none.\<close>

definition next_size ::
    "mem \<Rightarrow> dsection list \<Rightarrow> dwdebug \<Rightarrow> cu \<Rightarrow> dwattr option \<Rightarrow> die \<Rightarrow> u64 \<Rightarrow> u64 option" where
  "next_size m si d c attr sib ret_val =
     (case attr of
        None \<Rightarrow> Some ret_val
      | Some at \<Rightarrow>
          map_option (\<lambda>(_, sib).
            case attr_find sib DW_AT_byte_size of Some sz \<Rightarrow> at_u0 sz | None \<Rightarrow> ret_val)
            (offdie m si d (cu_offset c + at_u0 at) sib c))"

text \<open>The loop over the parameters; \<^verbatim>\<open>sib\<close> and \<^verbatim>\<open>ret\<close> are equal whenever its condition is evaluated.\<close>

partial_function (option) args_loop ::
    "mem \<Rightarrow> dsection list \<Rightarrow> dwdebug \<Rightarrow> cu \<Rightarrow> die \<Rightarrow> u64 \<Rightarrow> ripdebuginfo \<Rightarrow> ripdebuginfo option" where
  "args_loop m si d c sib ret_val info =
     Option.bind (siblingof m si d (Some sib) sib c) (\<lambda>(r, ret).
       if r \<noteq> DW_DLV_OK then Some info
       else if die_tag ret \<noteq> DW_TAG_formal_parameter then Some info
       else
         Option.bind (next_size m si d c (attr_find ret DW_AT_type) sib ret_val) (\<lambda>ret_val.
         Option.bind (add_arg ret_val info) (\<lambda>info.
           args_loop m si d c ret ret_val info)))"

text \<open>The arguments of a function, from \<^verbatim>\<open>dwarf_child\<close> on. \<open>junk\<close> is the uninitialised variable \<^verbatim>\<open>ret\<close>.\<close>

definition func_args ::
    "mem \<Rightarrow> dsection list \<Rightarrow> dwdebug \<Rightarrow> cu \<Rightarrow> die \<Rightarrow> die \<Rightarrow> ripdebuginfo \<Rightarrow> ripdebuginfo option" where
  "func_args m si d c junk die info =
     Option.bind (child m si d c die junk) (\<lambda>(r, ret).
       if r = DW_DLE_NO_ENTRY then Some info
       else if die_tag ret \<noteq> DW_TAG_formal_parameter then Some info
       else
         Option.bind (type_size m si d c (attr_find ret DW_AT_type) die 8) (\<lambda>ret_val.
         Option.bind (add_arg ret_val info) (\<lambda>info.
           args_loop m si d c ret ret_val info)))"

definition covers_pc :: "die \<Rightarrow> u64 \<Rightarrow> bool" where
  "covers_pc die addr \<longleftrightarrow>
     (case attr_find die DW_AT_low_pc of Some low \<Rightarrow> at_u0 low < addr | None \<Rightarrow> False) \<and>
     (case attr_find die DW_AT_high_pc of Some high \<Rightarrow> at_u0 high > addr | None \<Rightarrow> False)"

text \<open>\<open>cudie\<close> and \<open>c\<close> are \<^verbatim>\<open>die->cu_die\<close> and \<^verbatim>\<open>die->cu_header\<close>. The result of \<^verbatim>\<open>dwarf_srclines\<close> is not used.\<close>

definition list_func_die ::
    "mem \<Rightarrow> dsection list \<Rightarrow> dwdebug \<Rightarrow> cu \<Rightarrow> die \<Rightarrow> die \<Rightarrow> ripdebuginfo \<Rightarrow> die \<Rightarrow> u64
      \<Rightarrow> (u32 \<times> ripdebuginfo) option" where
  "list_func_die m si d c cudie junk info die addr =
     (if die_tag die \<noteq> DW_TAG_subprogram then Some (0, info)
      else if \<not> covers_pc die addr then Some (0, info)
      else
        Option.bind (strlen m (die_name die)) (\<lambda>len.
        let low = (case attr_find die DW_AT_low_pc of Some at \<Rightarrow> at_u0 at | None \<Rightarrow> 0);
            info = info\<lparr>ri_file := die_name cudie, ri_fn_name := die_name die, ri_fn_namelen := len,
                        ri_fn_addr := low\<rparr>
        in Option.bind (srclines m si d c cudie row0 addr) (\<lambda>(_, ln).
           let info = info\<lparr>ri_line := ucast (ln_lineno ln), ri_fn_narg := 0\<rparr>
           in map_option (Pair 1) (func_args m si d c junk die info))))"

section \<open>Units (debuginfo\_rip)\<close>

text \<open>The inner loop: whether a function was found, the information, and the two entries.\<close>

partial_function (option) scan_unit ::
    "mem \<Rightarrow> dsection list \<Rightarrow> dwdebug \<Rightarrow> cu \<Rightarrow> die \<Rightarrow> die \<Rightarrow> u64 \<Rightarrow> ripdebuginfo \<Rightarrow> die \<Rightarrow> die
      \<Rightarrow> (bool \<times> ripdebuginfo \<times> die \<times> die) option" where
  "scan_unit m si d c cudie junk addr info die die2 =
     Option.bind (list_func_die m si d c cudie junk info die addr) (\<lambda>(found, info).
       if found \<noteq> 0 then Some (True, info, die, die2)
       else
         Option.bind (siblingof m si d (Some die) die2 c) (\<lambda>(ret, die2).
           if sint ret < 0 then Some (False, info, die, die2)
           else scan_unit m si d c cudie junk addr info die2 die2))"

text \<open>The outer loop. The local variables keep their values from one unit to the next.\<close>

partial_function (option) scan_units ::
    "mem \<Rightarrow> dsection list \<Rightarrow> die \<Rightarrow> u64 \<Rightarrow> dwdebug \<Rightarrow> cu \<Rightarrow> die \<Rightarrow> die \<Rightarrow> die \<Rightarrow> ripdebuginfo
      \<Rightarrow> (u32 \<times> ripdebuginfo \<times> dwdebug) option" where
  "scan_units m si junk addr d c cudie die die2 info =
     (case get_next_cu m d c of (r, d, c) \<Rightarrow>
        if r \<noteq> 0 then Some (- 1, info, d)
        else
          Option.bind (siblingof m si d None cudie c) (\<lambda>(r, cudie).
            if r = DW_DLE_NO_ENTRY then scan_units m si junk addr d c cudie die die2 info
            else
              Option.bind (child m si d c cudie die) (\<lambda>(r, die).
                if r = DW_DLE_NO_ENTRY then scan_units m si junk addr d c cudie die die2 info
                else
                  Option.bind (scan_unit m si d c cudie junk addr info die die2)
                    (\<lambda>(found, info, die, die2).
                      if found then Some (0, info, d)
                      else scan_units m si junk addr d c cudie die die2 info))))"

text \<open>\<open>unknown\<close> is the address of the literal \<^verbatim>\<open>"<unknown>"\<close>; \<open>c0\<close> and \<open>junk\<close> are what the local variables hold.\<close>

definition unknown_info :: "addr \<Rightarrow> u64 \<Rightarrow> ripdebuginfo \<Rightarrow> ripdebuginfo" where
  "unknown_info unknown addr info =
     info\<lparr>ri_file := unknown, ri_line := 0, ri_fn_name := unknown, ri_fn_namelen := 9, ri_fn_addr := addr,
          ri_fn_narg := 0\<rparr>"

definition debuginfo_rip ::
    "mem \<Rightarrow> dsection list \<Rightarrow> addr \<Rightarrow> cu \<Rightarrow> die \<Rightarrow> u64 \<Rightarrow> ripdebuginfo
      \<Rightarrow> (u32 \<times> ripdebuginfo \<times> dwdebug) option" where
  "debuginfo_rip m si unknown c0 junk addr info =
     (let info = unknown_info unknown addr info
      in if addr \<ge> ULIM then
           Option.bind (find_section si ''.debug_info'') (\<lambda>sect.
             let d = (dwarf_init m (0x10000 + KERNBASE))
                       \<lparr>dbg_info_offset_elf := ds_data sect, dbg_info_size := ds_size sect\<rparr>
             in if dbg_info_size d = 0 then None
                else scan_units m si junk addr d c0 junk junk junk info)
         else None)"

section \<open>What the sections say\<close>

text \<open>The attributes of an entry as the reader sees them, the first value of one of them, and the name.\<close>

definition entry_attrs :: "dwdebug \<Rightarrow> cu \<Rightarrow> dsection \<Rightarrow> u64 \<Rightarrow> nat \<Rightarrow> attr_spec list \<Rightarrow> dwattr list" where
  "entry_attrs d c str off e avs =
     attrs_at d c str (dbg_info_offset_elf d + (off + of_nat (length (uleb128 e)))) avs"

definition attr_in :: "u64 \<Rightarrow> dwattr list \<Rightarrow> u64 option" where
  "attr_in a ats = map_option at_u0 (find (\<lambda>at. at_attrib at = a) ats)"

definition entry_name :: "dwattr list \<Rightarrow> addr" where
  "entry_name ats = fold attr_name ats 0"

definition named :: "dwattr list \<Rightarrow> bool" where
  "named ats \<longleftrightarrow>
     (\<exists>at \<in> set ats. at_attrib at = DW_AT_name \<and> (at_form at = DW_FORM_strp \<or> at_form at = DW_FORM_string))"

definition tag_of :: "abbrev_spec list \<Rightarrow> nat \<Rightarrow> u64" where
  "tag_of as e = (case abbrev_of as e of Some (e, t, ch, ads) \<Rightarrow> of_nat t | None \<Rightarrow> 0)"

text \<open>
  The whole entry lies within its unit, and the attributes that the code reads as numbers have no strings.
\<close>

definition numbers_ok :: "attr_spec list \<Rightarrow> bool" where
  "numbers_ok avs \<longleftrightarrow>
     list_all (\<lambda>(a, f, v). case v of
         VString xs \<Rightarrow> of_nat a \<notin> set [DW_AT_sibling, DW_AT_byte_size, DW_AT_stmt_list, DW_AT_low_pc, DW_AT_high_pc, DW_AT_type]
       | _ \<Rightarrow> True) avs"

definition entry_at :: "mem \<Rightarrow> dwdebug \<Rightarrow> cu \<Rightarrow> abbrev_spec list \<Rightarrow> u64 \<Rightarrow> nat \<Rightarrow> attr_spec list \<Rightarrow> bool" where
  "entry_at m d c as off e avs \<longleftrightarrow>
     holds_at m (dbg_info_offset_elf d + off) (head_bytes d c e avs) \<and> head_ok d c as off e avs \<and>
     unat off + length (head_bytes d c e avs) \<le> unat (cu_next_offset c) \<and> numbers_ok avs"

lemma entry_in_unit: "entry_at m d c as off e avs \<Longrightarrow> off < cu_next_offset c"
  using head_bytes_pos [of d c e avs]
  by (auto simp: entry_at_def word_less_nat_alt simp del: length_greater_0_conv)

lemma name_once: "named ats \<Longrightarrow> fold attr_name ats n = entry_name ats"
proof -
  have "fold attr_name ats n = fold attr_name ats n'" if "named ats" for n'
    using that by (induction ats arbitrary: n n') (auto simp: named_def attr_name_def)
  then show "named ats \<Longrightarrow> fold attr_name ats n = entry_name ats" by (simp add: entry_name_def)
qed

lemma die_of_attrs:
  assumes "die_of d c as str off e avs die"
  shows "die_tag die = tag_of as e" "die_attr die = entry_attrs d c str off e avs"
    "named (entry_attrs d c str off e avs) \<Longrightarrow> die_name die = entry_name (entry_attrs d c str off e avs)"
    "map_option at_u0 (attr_find die a) = attr_in a (entry_attrs d c str off e avs)"
proof -
  show attrs: "die_attr die = entry_attrs d c str off e avs"
    using assms by (simp add: die_of_def entry_attrs_def)
  show "die_tag die = tag_of as e"
    using assms by (auto simp: die_of_def tag_of_def abbrev_matches_def split: prod.splits)
  show "die_name die = entry_name (entry_attrs d c str off e avs)" if "named (entry_attrs d c str off e avs)"
    using assms name_once [OF that] by (auto simp: die_of_def entry_attrs_def)
  show "map_option at_u0 (attr_find die a) = attr_in a (entry_attrs d c str off e avs)"
    by (simp add: attr_find_def attr_in_def attrs)
qed

lemma attr_find_in:
  assumes "die_of d c as str off e avs die"
  shows "attr_in a (entry_attrs d c str off e avs) = None \<Longrightarrow> attr_find die a = None"
    "attr_in a (entry_attrs d c str off e avs) = Some u \<Longrightarrow> \<exists>at. attr_find die a = Some at \<and> at_u0 at = u"
  using die_of_attrs(4) [OF assms, of a] by (cases "attr_find die a", auto)+

lemma offdie_entry:
  assumes "unit_env m si d c as str" and "entry_at m d c as off e avs"
  shows "\<exists>die'. offdie m si d off die c = Some (DW_DLE_NONE, die') \<and> die_of d c as str off e avs die'"
  using search_die_head [of m si d c as str off e avs False 1 die] assms entry_in_unit [OF assms(2)]
  by (auto simp: entry_at_def offdie_def search_die_within_cu_def)

section \<open>Types and arguments\<close>

text \<open>
  The size at the end of a chain of types: the first byte size, or 8 when the chain ends without one.
\<close>

inductive type_chain ::
    "mem \<Rightarrow> dwdebug \<Rightarrow> cu \<Rightarrow> abbrev_spec list \<Rightarrow> dsection \<Rightarrow> u64 \<Rightarrow> u64 \<Rightarrow> bool"
  for m d c as str where
  sized: "entry_at m d c as off e avs \<Longrightarrow>
     attr_in DW_AT_byte_size (entry_attrs d c str off e avs) = Some sz \<Longrightarrow> type_chain m d c as str off sz"
| unsized: "entry_at m d c as off e avs \<Longrightarrow>
     attr_in DW_AT_byte_size (entry_attrs d c str off e avs) = None \<Longrightarrow>
     attr_in DW_AT_type (entry_attrs d c str off e avs) = None \<Longrightarrow> type_chain m d c as str off 8"
| derived: "entry_at m d c as off e avs \<Longrightarrow>
     attr_in DW_AT_byte_size (entry_attrs d c str off e avs) = None \<Longrightarrow>
     attr_in DW_AT_type (entry_attrs d c str off e avs) = Some u \<Longrightarrow>
     type_chain m d c as str (cu_offset c + u) sz \<Longrightarrow> type_chain m d c as str off sz"

lemma type_size_chain:
  assumes env: "unit_env m si d c as str" and chain: "type_chain m d c as str off sz"
    and "cu_offset c + at_u0 at = off"
  shows "type_size m si d c (Some at) sib 8 = Some sz"
  using chain assms(3)
proof (induction arbitrary: at sib)
  case (sized off e avs sz)
  then show ?case
    using offdie_entry [OF env sized(1), of sib] attr_find_in(2)
    by (subst type_size.simps) fastforce
next
  case (unsized off e avs)
  then obtain die' where "offdie m si d off sib c = Some (DW_DLE_NONE, die')" "die_of d c as str off e avs die'"
    using offdie_entry [OF env unsized(1), of sib] by blast
  then show ?case
    using unsized attr_find_in(1)
    by (subst type_size.simps) (simp add: type_size.simps [of _ _ _ _ None])
next
  case (derived off e avs u sz)
  then obtain die' where die': "offdie m si d off sib c = Some (DW_DLE_NONE, die')" "die_of d c as str off e avs die'"
    using offdie_entry [OF env derived(1), of sib] by blast
  obtain at' where "attr_find die' DW_AT_type = Some at'" "at_u0 at' = u"
    using attr_find_in(2) [OF die'(2) derived(3)] by blast
  then show ?case
    using derived die' attr_find_in(1) [OF die'(2) derived(2)]
    by (subst type_size.simps) simp
qed

text \<open>The size that the types declare for a parameter; 8 when it has no type.\<close>

definition first_size ::
    "mem \<Rightarrow> dwdebug \<Rightarrow> cu \<Rightarrow> abbrev_spec list \<Rightarrow> dsection \<Rightarrow> dwattr list \<Rightarrow> u64 \<Rightarrow> bool" where
  "first_size m d c as str ats sz \<longleftrightarrow>
     (case attr_in DW_AT_type ats of None \<Rightarrow> sz = 8 | Some u \<Rightarrow> type_chain m d c as str (cu_offset c + u) sz)"

text \<open>
  What the code finds for a parameter behind the first one, given the size of the one before. It follows only one step
  of the type: when that entry has no byte size (a typedef, a constant type, an array), the size of the parameter before
  is kept.
\<close>

definition later_size ::
    "mem \<Rightarrow> dwdebug \<Rightarrow> cu \<Rightarrow> abbrev_spec list \<Rightarrow> dsection \<Rightarrow> u64 \<Rightarrow> dwattr list \<Rightarrow> u64 \<Rightarrow> bool" where
  "later_size m d c as str prev ats sz \<longleftrightarrow>
     (case attr_in DW_AT_type ats of
        None \<Rightarrow> sz = prev
      | Some u \<Rightarrow> \<exists>e avs. entry_at m d c as (cu_offset c + u) e avs \<and>
          sz = (case attr_in DW_AT_byte_size (entry_attrs d c str (cu_offset c + u) e avs) of
                  Some z \<Rightarrow> z | None \<Rightarrow> prev))"

lemma type_size_first:
  assumes "unit_env m si d c as str" and "die_of d c as str off e avs die"
    and "first_size m d c as str (entry_attrs d c str off e avs) sz"
  shows "type_size m si d c (attr_find die DW_AT_type) sib 8 = Some sz"
proof (cases "attr_in DW_AT_type (entry_attrs d c str off e avs)")
  case None
  then show ?thesis
    using assms(3) attr_find_in(1) [OF assms(2)] by (simp add: first_size_def type_size.simps [of _ _ _ _ None])
next
  case (Some u)
  then show ?thesis
    using assms(3) attr_find_in(2) [OF assms(2) Some] type_size_chain [OF assms(1)] by (auto simp: first_size_def)
qed

lemma next_size_later:
  assumes "unit_env m si d c as str" and "die_of d c as str off e avs die"
    and "later_size m d c as str prev (entry_attrs d c str off e avs) sz"
  shows "next_size m si d c (attr_find die DW_AT_type) sib prev = Some sz"
proof (cases "attr_in DW_AT_type (entry_attrs d c str off e avs)")
  case None
  then show ?thesis
    using assms(3) attr_find_in(1) [OF assms(2)] by (simp add: later_size_def next_size_def)
next
  case (Some u)
  obtain at where at: "attr_find die DW_AT_type = Some at" "at_u0 at = u"
    using attr_find_in(2) [OF assms(2) Some] by blast
  obtain e' avs' where e': "entry_at m d c as (cu_offset c + u) e' avs'"
      "sz = (case attr_in DW_AT_byte_size (entry_attrs d c str (cu_offset c + u) e' avs') of
         Some z \<Rightarrow> z | None \<Rightarrow> prev)"
    using assms(3) Some by (auto simp: later_size_def)
  obtain die' where die': "offdie m si d (cu_offset c + u) sib c = Some (DW_DLE_NONE, die')"
      "die_of d c as str (cu_offset c + u) e' avs' die'"
    using offdie_entry [OF assms(1) e'(1), of sib] by blast
  have "(case attr_find die' DW_AT_byte_size of Some z \<Rightarrow> at_u0 z | None \<Rightarrow> prev) = sz"
    using die_of_attrs(4) [OF die'(2), of DW_AT_byte_size, symmetric] e'(2) by (auto split: option.splits)
  then show ?thesis using at die'(1) by (simp add: next_size_def)
qed

text \<open>The sizes of the parameters behind the first one, up to the first entry that is not a parameter.\<close>

fun later_args ::
    "mem \<Rightarrow> dwdebug \<Rightarrow> cu \<Rightarrow> abbrev_spec list \<Rightarrow> dsection \<Rightarrow> u64 \<Rightarrow> u64 \<Rightarrow> die_tree list \<Rightarrow> u64 list \<Rightarrow> bool" where
  "later_args m d c as str prev off [] szs \<longleftrightarrow> szs = []"
| "later_args m d c as str prev off (Node e avs us # ts) szs \<longleftrightarrow>
     (if tag_of as e = DW_TAG_formal_parameter
      then \<exists>sz szs'. szs = sz # szs' \<and> later_size m d c as str prev (entry_attrs d c str off e avs) sz \<and>
             later_args m d c as str sz (off + of_nat (length (tree_bytes d c as (Node e avs us)))) ts szs'
      else szs = [])"

text \<open>References to siblings are right, and trees are not too deep for an \<^verbatim>\<open>int\<close>.\<close>

fun siblings_ok :: "dwdebug \<Rightarrow> cu \<Rightarrow> abbrev_spec list \<Rightarrow> dsection \<Rightarrow> u64 \<Rightarrow> die_tree list \<Rightarrow> bool" where
  "siblings_ok d c as str off [] = True"
| "siblings_ok d c as str off (t # ts) \<longleftrightarrow>
     sibling_ok d c as str off t \<and> tree_depth t < 2 ^ 30 \<and>
     siblings_ok d c as str (off + of_nat (length (tree_bytes d c as t))) ts"

text \<open>The information with the sizes of some more arguments.\<close>

definition put_args :: "nat \<Rightarrow> u64 list \<Rightarrow> ripdebuginfo \<Rightarrow> ripdebuginfo" where
  "put_args k szs info =
     info\<lparr>ri_fn_narg := of_nat (k + length szs),
          ri_size_fn_arg := take k (ri_size_fn_arg info) @ map ucast szs @ drop (k + length szs) (ri_size_fn_arg info)\<rparr>"

lemma put_args_Nil: "ri_fn_narg info = of_nat k \<Longrightarrow> put_args k [] info = info"
  by (simp add: put_args_def)

lemma add_arg_put:
  assumes "ri_fn_narg info = of_nat k" and "k < 10" and "length (ri_size_fn_arg info) = 10"
  shows "add_arg sz info = Some (put_args k [sz] info)"
proof -
  have "sint (of_nat k :: u32) = int k" "unat (of_nat k :: u32) = k"
    using assms(2) by (simp_all add: signed_of_nat signed_take_bit_int_eq_self unat_of_nat32)
  then show ?thesis
    using assms by (simp add: add_arg_def Let_def put_args_def upd_conv_take_nth_drop add.commute)
qed

lemma put_args_Cons:
  assumes "length (ri_size_fn_arg info) = 10" and "k < 10"
  shows "put_args (Suc k) szs (put_args k [sz] info) = put_args k (sz # szs) info"
  using assms by (simp add: put_args_def min_def drop_Cons' add.commute)

lemma put_args_fields [simp]:
  "ri_fn_narg (put_args k szs info) = of_nat (k + length szs)"
  by (simp add: put_args_def)

lemma put_args_length: "k < 10 \<Longrightarrow> length (ri_size_fn_arg info) = 10 \<Longrightarrow> length (ri_size_fn_arg (put_args k [sz] info)) = 10"
  by (simp add: put_args_def)


lemma children_at_inner:
  assumes "children_at m d c as off (Node e avs us # rest)" and "has_children as e"
  shows "children_at m d c as (off + of_nat (length (head_bytes d c e avs))) us"
proof -
  have "unat off + length (head_bytes d c e avs) \<le> unat (cu_next_offset c)"
    using assms(1) by (simp add: children_at_def)
  note pos = off_in_section(3) [OF this head_bytes_pos]
  show ?thesis
    using assms pos by (simp add: children_at_def holds_at_append holds_at_Cons add.assoc)
qed

lemma sibling_None:
  assumes "unit_env m si d c as str" and "children_at m d c as off [Node e avs us]"
    and "die_of d c as str off e avs die" and "siblings_ok d c as str off [Node e avs us]"
  shows "\<exists>die'. siblingof m si d (Some die) ret_die c = Some (DW_DLV_NO_ENTRY, die')"
proof -
  have "sibling_ok d c as str off (Node e avs us)" "tree_depth (Node e avs us) < 2 ^ 30" using assms(4) by simp_all
  from siblingof_answer [OF assms(1-3) this, of ret_die] show ?thesis by (auto simp: answer_def)
qed

lemma sibling_Some:
  assumes "unit_env m si d c as str" and "children_at m d c as off (Node e avs us # Node e' avs' us' # rest)"
    and "die_of d c as str off e avs die" and "siblings_ok d c as str off (Node e avs us # Node e' avs' us' # rest)"
  shows "\<exists>die'. siblingof m si d (Some die) ret_die c = Some (DW_DLV_OK, die') \<and>
    die_of d c as str (off + of_nat (length (tree_bytes d c as (Node e avs us)))) e' avs' die'"
proof -
  have "sibling_ok d c as str off (Node e avs us)" "tree_depth (Node e avs us) < 2 ^ 30" using assms(4) by simp_all
  from siblingof_answer [OF assms(1-3) this, of ret_die] show ?thesis by (auto simp: answer_def)
qed

lemma args_loop_sizes:
  assumes "unit_env m si d c as str" and "children_at m d c as off (Node e avs us # ts)"
    and "siblings_ok d c as str off (Node e avs us # ts)" and "die_of d c as str off e avs die"
    and "later_args m d c as str prev (off + of_nat (length (tree_bytes d c as (Node e avs us)))) ts szs"
    and "ri_fn_narg info = of_nat k" and "k + length szs \<le> 10" and "length (ri_size_fn_arg info) = 10"
  shows "args_loop m si d c die prev info = Some (put_args k szs info)"
  using assms(2-)
proof (induction ts arbitrary: off e avs us die prev szs info k)
  case Nil
  have "szs = []" using Nil.prems(4) by simp
  then show ?case
    using sibling_None [OF assms(1) Nil.prems(1,3,2), of die] put_args_Nil [OF Nil.prems(5)]
    by (subst args_loop.simps) (auto simp: dw_result_defs)
next
  case (Cons t ts)
  obtain e' avs' us' where t: "t = Node e' avs' us'" by (cases t)
  let ?off = "off + of_nat (length (tree_bytes d c as (Node e avs us)))"
  note p = Cons.prems [unfolded t]
  obtain die' where die': "siblingof m si d (Some die) die c = Some (DW_DLV_OK, die')"
      "die_of d c as str ?off e' avs' die'"
    using sibling_Some [OF assms(1) p(1,3,2), of die] by blast
  note tag = die_of_attrs(1) [OF die'(2)]
  show ?case
  proof (cases "tag_of as e' = DW_TAG_formal_parameter")
    case False
    then have "szs = []" using p(4) by simp
    then show ?thesis
      using die'(1) tag False put_args_Nil [OF p(5)] by (subst args_loop.simps) simp
  next
    case True
    obtain sz szs' where szs: "szs = sz # szs'" "later_size m d c as str prev (entry_attrs d c str ?off e' avs') sz"
        "later_args m d c as str sz (?off + of_nat (length (tree_bytes d c as (Node e' avs' us')))) ts szs'"
      using p(4) True by (simp only: later_args.simps simp_thms if_True) blast
    have k: "k < 10" "Suc k + length szs' \<le> 10" using p(6) by (simp_all add: szs(1))
    have "args_loop m si d c die' sz (put_args k [sz] info) = Some (put_args (Suc k) szs' (put_args k [sz] info))"
      using p(2) children_at_step(1) [OF p(1)] szs(3) k p(7) die'(2)
      by (intro Cons.IH) (simp_all add: put_args_length)
    then show ?thesis
      using die'(1) tag True next_size_later [OF assms(1) die'(2) szs(2), of die] add_arg_put [OF p(5) k(1) p(7)]
        put_args_Cons [OF p(7) k(1)]
      by (subst args_loop.simps) (simp add: szs(1))
  qed
qed

text \<open>The sizes of the arguments of an entry at \<open>off\<close>. A list of children is not empty.\<close>

fun arg_sizes ::
    "mem \<Rightarrow> dwdebug \<Rightarrow> cu \<Rightarrow> abbrev_spec list \<Rightarrow> dsection \<Rightarrow> u64 \<Rightarrow> die_tree list \<Rightarrow> u64 list \<Rightarrow> bool" where
  "arg_sizes m d c as str off [] szs \<longleftrightarrow> False"
| "arg_sizes m d c as str off (Node e avs us # ts) szs \<longleftrightarrow>
     (if tag_of as e = DW_TAG_formal_parameter
      then \<exists>sz szs'. szs = sz # szs' \<and> first_size m d c as str (entry_attrs d c str off e avs) sz \<and>
             later_args m d c as str sz (off + of_nat (length (tree_bytes d c as (Node e avs us)))) ts szs'
      else szs = [])"

definition func_sizes ::
    "mem \<Rightarrow> dwdebug \<Rightarrow> cu \<Rightarrow> abbrev_spec list \<Rightarrow> dsection \<Rightarrow> u64 \<Rightarrow> nat \<Rightarrow> attr_spec list \<Rightarrow> die_tree list
      \<Rightarrow> u64 list \<Rightarrow> bool" where
  "func_sizes m d c as str off e avs ts szs \<longleftrightarrow>
     (if has_children as e
      then siblings_ok d c as str (off + of_nat (length (head_bytes d c e avs))) ts \<and>
           arg_sizes m d c as str (off + of_nat (length (head_bytes d c e avs))) ts szs
      else szs = [])"

text \<open>
  The declared sizes of all parameters, and the condition under which the code finds them: the type of every
  parameter behind the first one has a byte size of its own.
\<close>

fun declared_args ::
    "mem \<Rightarrow> dwdebug \<Rightarrow> cu \<Rightarrow> abbrev_spec list \<Rightarrow> dsection \<Rightarrow> u64 \<Rightarrow> die_tree list \<Rightarrow> u64 list \<Rightarrow> bool" where
  "declared_args m d c as str off [] szs \<longleftrightarrow> szs = []"
| "declared_args m d c as str off (Node e avs us # ts) szs \<longleftrightarrow>
     (if tag_of as e = DW_TAG_formal_parameter
      then \<exists>sz szs'. szs = sz # szs' \<and> first_size m d c as str (entry_attrs d c str off e avs) sz \<and>
             declared_args m d c as str (off + of_nat (length (tree_bytes d c as (Node e avs us)))) ts szs'
      else szs = [])"

definition sized_type ::
    "mem \<Rightarrow> dwdebug \<Rightarrow> cu \<Rightarrow> abbrev_spec list \<Rightarrow> dsection \<Rightarrow> dwattr list \<Rightarrow> bool" where
  "sized_type m d c as str ats \<longleftrightarrow>
     (case attr_in DW_AT_type ats of
        None \<Rightarrow> False
      | Some u \<Rightarrow> \<forall>e avs. entry_at m d c as (cu_offset c + u) e avs \<longrightarrow>
          attr_in DW_AT_byte_size (entry_attrs d c str (cu_offset c + u) e avs) \<noteq> None)"

fun sized_args ::
    "mem \<Rightarrow> dwdebug \<Rightarrow> cu \<Rightarrow> abbrev_spec list \<Rightarrow> dsection \<Rightarrow> u64 \<Rightarrow> die_tree list \<Rightarrow> bool" where
  "sized_args m d c as str off [] \<longleftrightarrow> True"
| "sized_args m d c as str off (Node e avs us # ts) \<longleftrightarrow>
     (tag_of as e = DW_TAG_formal_parameter \<longrightarrow>
        sized_type m d c as str (entry_attrs d c str off e avs) \<and>
        sized_args m d c as str (off + of_nat (length (tree_bytes d c as (Node e avs us)))) ts)"

text \<open>The same for a function at \<open>off\<close> with the entries \<open>ts\<close> below it.\<close>

definition func_declared ::
    "mem \<Rightarrow> dwdebug \<Rightarrow> cu \<Rightarrow> abbrev_spec list \<Rightarrow> dsection \<Rightarrow> u64 \<Rightarrow> nat \<Rightarrow> attr_spec list \<Rightarrow> die_tree list
      \<Rightarrow> u64 list \<Rightarrow> bool" where
  "func_declared m d c as str off e avs ts szs \<longleftrightarrow>
     (if has_children as e
      then declared_args m d c as str (off + of_nat (length (head_bytes d c e avs))) ts szs else szs = [])"

definition func_sized ::
    "mem \<Rightarrow> dwdebug \<Rightarrow> cu \<Rightarrow> abbrev_spec list \<Rightarrow> dsection \<Rightarrow> u64 \<Rightarrow> nat \<Rightarrow> attr_spec list \<Rightarrow> die_tree list \<Rightarrow> bool" where
  "func_sized m d c as str off e avs ts \<longleftrightarrow>
     (case ts of
        [] \<Rightarrow> True
      | t # ts' \<Rightarrow> sized_args m d c as str
          (off + of_nat (length (head_bytes d c e avs)) + of_nat (length (tree_bytes d c as t))) ts')"

lemma later_size_declared:
  "later_size m d c as str prev ats sz \<Longrightarrow> sized_type m d c as str ats \<Longrightarrow> first_size m d c as str ats sz"
  by (fastforce simp: later_size_def sized_type_def first_size_def split: option.splits intro: type_chain.sized)

lemma later_args_declared:
  "later_args m d c as str prev off ts szs \<Longrightarrow> sized_args m d c as str off ts \<Longrightarrow> declared_args m d c as str off ts szs"
  by (induction m d c as str prev off ts szs rule: later_args.induct)
    (auto split: if_splits dest: later_size_declared)

lemma func_sizes_declared:
  assumes "func_sizes m d c as str off e avs ts szs" and "func_sized m d c as str off e avs ts"
  shows "func_declared m d c as str off e avs ts szs"
proof (cases ts)
  case Nil
  then show ?thesis using assms(1) by (simp add: func_sizes_def func_declared_def split: if_splits)
next
  case (Cons t ts')
  obtain e' avs' us' where t: "t = Node e' avs' us'" by (cases t)
  show ?thesis
    using assms later_args_declared unfolding Cons t func_sizes_def func_sized_def func_declared_def
    by (auto split: if_splits simp del: tree_bytes.simps)
qed

lemma func_args_sizes:
  assumes env: "unit_env m si d c as str" and at: "children_at m d c as off (Node e avs us # rest)"
    and die: "die_of d c as str off e avs die" and sizes: "func_sizes m d c as str off e avs us szs"
    and info: "ri_fn_narg info = 0" "length szs \<le> 10" "length (ri_size_fn_arg info) = 10"
  shows "func_args m si d c junk die info = Some (put_args 0 szs info)"
proof (cases "has_children as e")
  case False
  have "head_ok d c as off e avs" using at by (simp add: children_at_def)
  then have "child m si d c die junk = Some (DW_DLE_NO_ENTRY, junk)"
    using die_children [OF die] False by (simp add: child_def)
  then show ?thesis
    using sizes False info(1) put_args_Nil [of info 0] by (simp add: func_args_def func_sizes_def)
next
  case True
  let ?off = "off + of_nat (length (head_bytes d c e avs))"
  have head: "head_ok d c as off e avs" using at by (simp add: children_at_def)
  note inner = children_at_inner [OF at True]
  have sib: "siblings_ok d c as str ?off us" and args: "arg_sizes m d c as str ?off us szs"
    using sizes True by (simp_all add: func_sizes_def)
  obtain e1 avs1 us1 ts where us: "us = Node e1 avs1 us1 # ts"
  proof (cases us)
    case Nil
    then show ?thesis using args by simp
  next
    case (Cons t ts)
    then show ?thesis using that by (cases t) simp
  qed
  obtain ret where ret: "child m si d c die junk = Some (DW_DLV_OK, ret)" "die_of d c as str ?off e1 avs1 ret"
    using child_answer [OF env die head True inner, of junk] by (auto simp: us answer_def)
  have no: "DW_DLV_OK \<noteq> DW_DLE_NO_ENTRY" by (simp add: dw_result_defs)
  note tag = die_of_attrs(1) [OF ret(2)]
  show ?thesis
  proof (cases "tag_of as e1 = DW_TAG_formal_parameter")
    case False
    then have "szs = []" using args by (simp add: us)
    then show ?thesis
      using False ret(1) tag no info(1) put_args_Nil [of info 0] by (simp add: func_args_def)
  next
    case True
    obtain sz szs' where szs: "szs = sz # szs'" "first_size m d c as str (entry_attrs d c str ?off e1 avs1) sz"
        "later_args m d c as str sz (?off + of_nat (length (tree_bytes d c as (Node e1 avs1 us1)))) ts szs'"
      using args True unfolding us by (simp only: arg_sizes.simps simp_thms if_True) blast
    have "args_loop m si d c ret sz (put_args 0 [sz] info) = Some (put_args 1 szs' (put_args 0 [sz] info))"
      using info(2,3) szs(1)
      by (intro args_loop_sizes [OF env inner [unfolded us] sib [unfolded us] ret(2) szs(3)])
        (simp_all add: put_args_length)
    then show ?thesis
      using ret(1) tag True no type_size_first [OF env ret(2) szs(2), of die] add_arg_put [of info 0 sz] info
        put_args_Cons [of info 0 szs' sz]
      by (simp add: func_args_def szs(1))
  qed
qed


section \<open>Searching a unit\<close>

text \<open>A function whose range contains the address, neither at its start nor at its end.\<close>

definition covers :: "dwdebug \<Rightarrow> cu \<Rightarrow> abbrev_spec list \<Rightarrow> dsection \<Rightarrow> u64 \<Rightarrow> u64 \<Rightarrow> nat \<Rightarrow> attr_spec list \<Rightarrow> bool" where
  "covers d c as str addr off e avs \<longleftrightarrow>
     tag_of as e = DW_TAG_subprogram \<and>
     (case attr_in DW_AT_low_pc (entry_attrs d c str off e avs) of Some low \<Rightarrow> low < addr | None \<Rightarrow> False) \<and>
     (case attr_in DW_AT_high_pc (entry_attrs d c str off e avs) of Some high \<Rightarrow> addr < high | None \<Rightarrow> False)"

text \<open>The first such function of a list of entries, with its offset, its parts and what follows.\<close>

fun covering ::
    "dwdebug \<Rightarrow> cu \<Rightarrow> abbrev_spec list \<Rightarrow> dsection \<Rightarrow> u64 \<Rightarrow> u64 \<Rightarrow> die_tree list
      \<Rightarrow> (u64 \<times> nat \<times> attr_spec list \<times> die_tree list \<times> die_tree list) option" where
  "covering d c as str addr off [] = None"
| "covering d c as str addr off (Node e avs us # ts) =
     (if covers d c as str addr off e avs then Some (off, e, avs, us, ts)
      else covering d c as str addr (off + of_nat (length (tree_bytes d c as (Node e avs us)))) ts)"

lemma covers_die:
  assumes "die_of d c as str off e avs die"
  shows "covers d c as str addr off e avs \<longleftrightarrow> die_tag die = DW_TAG_subprogram \<and> covers_pc die addr"
  unfolding covers_def covers_pc_def die_of_attrs(1) [OF assms] die_of_attrs(4) [OF assms, symmetric]
  by (auto split: option.splits)

lemma list_func_die_other:
  assumes "die_of d c as str off e avs die" and "\<not> covers d c as str addr off e avs"
  shows "list_func_die m si d c cudie junk info die addr = Some (0, info)"
  using assms covers_die [OF assms(1)] by (simp add: list_func_die_def)

text \<open>The information about a function: unit name, line, function name and its length, start, sizes.\<close>

definition func_info ::
    "dwattr list \<Rightarrow> u64 \<Rightarrow> dwattr list \<Rightarrow> nat \<Rightarrow> u64 list \<Rightarrow> ripdebuginfo \<Rightarrow> ripdebuginfo" where
  "func_info root line ats len szs info =
     \<lparr>ri_file = entry_name root, ri_line = ucast line, ri_fn_name = entry_name ats, ri_fn_namelen = of_nat len,
      ri_fn_addr = the (attr_in DW_AT_low_pc ats), ri_fn_narg = of_nat (length szs),
      ri_size_fn_arg = map ucast szs @ drop (length szs) (ri_size_fn_arg info)\<rparr>"

lemma list_func_die_covering:
  assumes env: "unit_env m si d c as str" and at: "children_at m d c as off (Node e avs us # rest)"
    and die: "die_of d c as str off e avs die" and hit: "covers d c as str addr off e avs"
    and name: "named (entry_attrs d c str off e avs)" "cstr m (entry_name (entry_attrs d c str off e avs)) xs"
      "length xs < 2 ^ 31"
    and root: "die_name cudie = entry_name root"
    and line: "srclines m si d c cudie row0 addr = Some (ret, ln)"
    and sizes: "func_sizes m d c as str off e avs us szs" "length szs \<le> 10" "length (ri_size_fn_arg info) = 10"
  shows "list_func_die m si d c cudie junk info die addr =
    Some (1, func_info root (ln_lineno ln) (entry_attrs d c str off e avs) (length xs) szs info)"
proof -
  let ?ats = "entry_attrs d c str off e avs"
  obtain low where low: "attr_in DW_AT_low_pc ?ats = Some low" using hit by (auto simp: covers_def split: option.splits)
  obtain at where at': "attr_find die DW_AT_low_pc = Some at" "at_u0 at = low"
    using attr_find_in(2) [OF die low] by blast
  have tag: "die_tag die = DW_TAG_subprogram" "covers_pc die addr" using covers_die [OF die] hit by simp_all
  have nm: "die_name die = entry_name ?ats" by (rule die_of_attrs(3) [OF die name(1)])
  have len: "strlen m (entry_name ?ats) = Some (of_nat (length xs))" by (rule strlen_cstr [OF name(2)])
  have args: "func_args m si d c junk die info' = Some (put_args 0 szs info')"
    if "ri_fn_narg info' = 0" "length (ri_size_fn_arg info') = 10" for info'
    using that sizes(2) by (intro func_args_sizes [OF env at die sizes(1)])
  show ?thesis
    using tag nm len at' line low root sizes(3)
    by (cases info) (simp add: list_func_die_def args Let_def put_args_def func_info_def)
qed

text \<open>The whole list: the first function around the address ends the loop, and otherwise the last entry does.\<close>

lemma scan_unit_none:
  assumes env: "unit_env m si d c as str" and "children_at m d c as off (Node e avs us # ts)"
    and "siblings_ok d c as str off (Node e avs us # ts)" and "die_of d c as str off e avs die"
    and "covering d c as str addr off (Node e avs us # ts) = None"
  shows "\<exists>die' die2'. scan_unit m si d c cudie junk addr info die die2 = Some (False, info, die', die2')"
  using assms(2-)
proof (induction ts arbitrary: off e avs us die die2)
  case Nil
  have miss: "\<not> covers d c as str addr off e avs" using Nil.prems(4) by (auto split: if_splits)
  obtain die' where "siblingof m si d (Some die) die2 c = Some (DW_DLV_NO_ENTRY, die')"
    using sibling_None [OF env Nil.prems(1,3,2)] by blast
  then show ?case
    using list_func_die_other [OF Nil.prems(3) miss] by (subst scan_unit.simps) (simp add: DW_DLV_NO_ENTRY_def)
next
  case (Cons t ts)
  obtain e' avs' us' where t: "t = Node e' avs' us'" by (cases t)
  note p = Cons.prems [unfolded t]
  have miss: "\<not> covers d c as str addr off e avs" using p(4) by (auto split: if_splits)
  obtain die' where die': "siblingof m si d (Some die) die2 c = Some (DW_DLV_OK, die')"
      "die_of d c as str (off + of_nat (length (tree_bytes d c as (Node e avs us)))) e' avs' die'"
    using sibling_Some [OF env p(1,3,2)] by blast
  have "\<exists>d1 d2. scan_unit m si d c cudie junk addr info die' die' = Some (False, info, d1, d2)"
  proof (rule Cons.IH [OF children_at_step(1) [OF p(1)] _ die'(2)])
    show "siblings_ok d c as str (off + of_nat (length (tree_bytes d c as (Node e avs us)))) (Node e' avs' us' # ts)"
      using p(2) by (simp only: siblings_ok.simps)
    show "covering d c as str addr (off + of_nat (length (tree_bytes d c as (Node e avs us)))) (Node e' avs' us' # ts) = None"
      using p(4) miss by (simp only: covering.simps(2) [of _ _ _ _ _ off] if_False)
  qed
  then show ?case
    using list_func_die_other [OF p(3) miss] die'(1) by (subst scan_unit.simps) (simp add: DW_DLV_OK_def)
qed

lemma scan_unit_some:
  assumes env: "unit_env m si d c as str" and "children_at m d c as off (Node e avs us # ts)"
    and "siblings_ok d c as str off (Node e avs us # ts)" and "die_of d c as str off e avs die"
    and "covering d c as str addr off (Node e avs us # ts) = Some (off', e', avs', us', ts')"
    and found: "\<And>die'. die_of d c as str off' e' avs' die' \<Longrightarrow> children_at m d c as off' (Node e' avs' us' # ts') \<Longrightarrow>
      list_func_die m si d c cudie junk info die' addr = Some (1, info')"
  shows "\<exists>die' die2'. scan_unit m si d c cudie junk addr info die die2 = Some (True, info', die', die2')"
  using assms(2-5)
proof (induction ts arbitrary: off e avs us die die2)
  case Nil
  then have "off' = off" "e' = e" "avs' = avs" "us' = us" "ts' = []" by (simp_all split: if_splits)
  then show ?case using found [of die] Nil.prems(1,3) by (subst scan_unit.simps) simp
next
  case (Cons t ts)
  show ?case
  proof (cases "covers d c as str addr off e avs")
    case True
    then have "off' = off" "e' = e" "avs' = avs" "us' = us" "ts' = t # ts" using Cons.prems(4) by simp_all
    then show ?thesis using found [of die] Cons.prems(1,3) by (subst scan_unit.simps) simp
  next
    case False
    obtain e1 avs1 us1 where t: "t = Node e1 avs1 us1" by (cases t)
    note p = Cons.prems [unfolded t]
    obtain die' where die': "siblingof m si d (Some die) die2 c = Some (DW_DLV_OK, die')"
        "die_of d c as str (off + of_nat (length (tree_bytes d c as (Node e avs us)))) e1 avs1 die'"
      using sibling_Some [OF env p(1,3,2)] by blast
    have "\<exists>d1 d2. scan_unit m si d c cudie junk addr info die' die' = Some (True, info', d1, d2)"
    proof (rule Cons.IH [OF children_at_step(1) [OF p(1)] _ die'(2)])
      show "siblings_ok d c as str (off + of_nat (length (tree_bytes d c as (Node e avs us)))) (Node e1 avs1 us1 # ts)"
        using p(2) by (simp only: siblings_ok.simps)
      show "covering d c as str addr (off + of_nat (length (tree_bytes d c as (Node e avs us)))) (Node e1 avs1 us1 # ts) =
          Some (off', e', avs', us', ts')"
        using p(4) False by (simp only: covering.simps(2) [of _ _ _ _ _ off] if_False)
    qed
    then show ?thesis
      using list_func_die_other [OF p(3) False] die'(1) by (subst scan_unit.simps) (simp add: DW_DLV_OK_def)
  qed
qed


section \<open>Searching the units\<close>

text \<open>The line numbers of a unit: where they are, and the row for an address.\<close>

definition lines_at :: "mem \<Rightarrow> dsection list \<Rightarrow> dwdebug \<Rightarrow> dwattr list \<Rightarrow> line_unit \<Rightarrow> bool" where
  "lines_at m si d root lu \<longleftrightarrow>
     (\<exists>ds at. attr_in DW_AT_stmt_list root = Some at \<and> find_section si ''.debug_line'' = Some ds \<and>
        holds_at m (ds_data ds + at) (unit_bytes d lu) \<and> unit_fits lu \<and>
        unat at + length (unit_bytes d lu) \<le> unat (ds_size ds) \<and> unat (ds_size ds) < 2 ^ 31 \<and>
        unat (ds_data ds) + unat (ds_size ds) < 2 ^ 64)"

definition line_of :: "dwdebug \<Rightarrow> line_unit \<Rightarrow> u64 \<Rightarrow> u64" where
  "line_of d lu addr =
     (let rows = upto_pc addr (line_rows (unit_info d lu) (reset_registers (unit_info d lu)) (lu_program lu))
      in if rows = [] then 0 else ln_lineno (last rows))"

lemma srclines_line:
  assumes "die_of d c as str off e avs die" and "lines_at m si d (entry_attrs d c str off e avs) lu"
    and "cu_addr_size c = 8"
  shows "\<exists>ln. srclines m si d c die row0 addr = Some (DW_DLV_OK, ln) \<and> ln_lineno ln = line_of d lu addr"
proof -
  obtain ds at where ds: "attr_in DW_AT_stmt_list (entry_attrs d c str off e avs) = Some at"
      "find_section si ''.debug_line'' = Some ds" "holds_at m (ds_data ds + at) (unit_bytes d lu)" "unit_fits lu"
      "unat at + length (unit_bytes d lu) \<le> unat (ds_size ds)" "unat (ds_size ds) < 2 ^ 31"
      "unat (ds_data ds) + unat (ds_size ds) < 2 ^ 64"
    using assms(2) by (auto simp: lines_at_def)
  obtain x where x: "attr_find die DW_AT_stmt_list = Some x" "at_u0 x = at"
    using attr_find_in(2) [OF assms(1) ds(1)] by blast
  show ?thesis
    using lineno_init_unit [OF ds(2-4) assms(3) ds(5-7), of addr]
    by (simp add: srclines_def x line_of_def with_rows_def unit_info_def lineinfo0_def row0_def Let_def)
qed

text \<open>A compilation unit as a producer writes it: header, first entry and its children.\<close>

record comp_unit =
  un_length :: u64
  un_version :: u64
  un_abbrev_offset :: u64
  un_abbrevs :: "abbrev_spec list"
  un_entry :: nat
  un_attrs :: "attr_spec list"
  un_children :: "die_tree list"

definition unit_cu :: "dwdebug \<Rightarrow> comp_unit \<Rightarrow> cu" where
  "unit_cu d u =
     \<lparr>cu_length = un_length u, cu_version = ucast (un_version u), cu_addr_size = 8,
      cu_abbrev_offset = un_abbrev_offset u, cu_length_size = 4, cu_dwarf_size = 4,
      cu_next_offset = curr_off_dbginfo d + 4 + un_length u, cu_die_offset = curr_off_dbginfo d + 11,
      cu_offset = curr_off_dbginfo d\<rparr>"

definition after_unit :: "dwdebug \<Rightarrow> comp_unit \<Rightarrow> dwdebug" where
  "after_unit d u = d\<lparr>curr_off_dbginfo := curr_off_dbginfo d + 4 + un_length u\<rparr>"

definition root_off :: "dwdebug \<Rightarrow> u64" where
  "root_off d = curr_off_dbginfo d + 11"

definition first_off :: "dwdebug \<Rightarrow> comp_unit \<Rightarrow> u64" where
  "first_off d u =
     root_off d + of_nat (length (head_bytes (after_unit d u) (unit_cu d u) (un_entry u) (un_attrs u)))"

definition root_attrs :: "dwdebug \<Rightarrow> dsection \<Rightarrow> comp_unit \<Rightarrow> dwattr list" where
  "root_attrs d str u = entry_attrs (after_unit d u) (unit_cu d u) str (root_off d) (un_entry u) (un_attrs u)"

text \<open>The unit lies at the cursor. It has no list of children, or one that is not empty.\<close>

definition unit_at :: "mem \<Rightarrow> dsection list \<Rightarrow> dsection \<Rightarrow> dwdebug \<Rightarrow> comp_unit \<Rightarrow> bool" where
  "unit_at m si str d u \<longleftrightarrow>
     holds_at m (dbg_info_offset_elf d + curr_off_dbginfo d)
       (cu_header d (un_length u) (un_version u) (un_abbrev_offset u) 8) \<and>
     curr_off_dbginfo d \<le> dbg_info_size d \<and> un_length u < 0xFFFFFFFF \<and> 2 \<le> un_version u \<and> un_version u \<le> 4 \<and>
     unat (un_abbrev_offset u) < 2 ^ 32 \<and>
     unit_env m si (after_unit d u) (unit_cu d u) (un_abbrevs u) str \<and>
     entry_at m (after_unit d u) (unit_cu d u) (un_abbrevs u) (root_off d) (un_entry u) (un_attrs u) \<and>
     (if has_children (un_abbrevs u) (un_entry u)
      then un_children u \<noteq> [] \<and>
        children_at m (after_unit d u) (unit_cu d u) (un_abbrevs u) (first_off d u) (un_children u) \<and>
        siblings_ok (after_unit d u) (unit_cu d u) (un_abbrevs u) str (first_off d u) (un_children u)
      else un_children u = [])"

text \<open>The units behind each other, and the first function around the address: its unit and its place.\<close>

fun units_at :: "mem \<Rightarrow> dsection list \<Rightarrow> dsection \<Rightarrow> dwdebug \<Rightarrow> comp_unit list \<Rightarrow> bool" where
  "units_at m si str d [] \<longleftrightarrow> True"
| "units_at m si str d (u # us) \<longleftrightarrow> unit_at m si str d u \<and> units_at m si str (after_unit d u) us"

definition unit_covering ::
    "dwdebug \<Rightarrow> dsection \<Rightarrow> u64 \<Rightarrow> comp_unit \<Rightarrow> (u64 \<times> nat \<times> attr_spec list \<times> die_tree list \<times> die_tree list) option" where
  "unit_covering d str addr u =
     covering (after_unit d u) (unit_cu d u) (un_abbrevs u) str addr (first_off d u) (un_children u)"

fun find_function ::
    "dwdebug \<Rightarrow> dsection \<Rightarrow> u64 \<Rightarrow> comp_unit list \<Rightarrow> (dwdebug \<times> comp_unit \<times> u64 \<times> nat \<times> attr_spec list \<times> die_tree list) option" where
  "find_function d str addr [] = None"
| "find_function d str addr (u # us) =
     (case unit_covering d str addr u of
        Some (off, e, avs, ts, rest) \<Rightarrow> Some (d, u, off, e, avs, ts)
      | None \<Rightarrow> find_function (after_unit d u) str addr us)"

text \<open>What is asked of the function that is found and of its unit.\<close>

definition func_ok ::
    "mem \<Rightarrow> dsection list \<Rightarrow> dsection \<Rightarrow> dwdebug \<Rightarrow> comp_unit \<Rightarrow> line_unit \<Rightarrow> u64 \<Rightarrow> nat \<Rightarrow> attr_spec list
      \<Rightarrow> die_tree list \<Rightarrow> u8 list \<Rightarrow> u64 list \<Rightarrow> bool" where
  "func_ok m si str d u lu off e avs ts name szs \<longleftrightarrow>
     named (root_attrs d str u) \<and> lines_at m si (after_unit d u) (root_attrs d str u) lu \<and>
     named (entry_attrs (after_unit d u) (unit_cu d u) str off e avs) \<and>
     cstr m (entry_name (entry_attrs (after_unit d u) (unit_cu d u) str off e avs)) name \<and> length name < 2 ^ 31 \<and>
     func_sizes m (after_unit d u) (unit_cu d u) (un_abbrevs u) str off e avs ts szs \<and> length szs \<le> 10"

definition func_result ::
    "dsection \<Rightarrow> dwdebug \<Rightarrow> comp_unit \<Rightarrow> line_unit \<Rightarrow> u64 \<Rightarrow> u64 \<Rightarrow> nat \<Rightarrow> attr_spec list
      \<Rightarrow> u8 list \<Rightarrow> u64 list \<Rightarrow> ripdebuginfo \<Rightarrow> ripdebuginfo" where
  "func_result str d u lu addr off e avs name szs info =
     func_info (root_attrs d str u) (line_of (after_unit d u) lu addr)
       (entry_attrs (after_unit d u) (unit_cu d u) str off e avs) (length name) szs info"

lemma unit_start:
  assumes "unit_at m si str d u"
  shows "get_next_cu m d c = (0, after_unit d u, unit_cu d u)"
    "\<exists>cudie'. siblingof m si (after_unit d u) None cudie (unit_cu d u) = Some (DW_DLE_NONE, cudie') \<and>
       die_of (after_unit d u) (unit_cu d u) (un_abbrevs u) str (root_off d) (un_entry u) (un_attrs u) cudie'"
proof -
  show "get_next_cu m d c = (0, after_unit d u, unit_cu d u)"
    using assms get_next_cu_enc [of m d "un_length u" "un_version u" "un_abbrev_offset u" 8 c]
    by (simp add: unit_at_def after_unit_def unit_cu_def)
  have "cu_die_offset (unit_cu d u) = root_off d" by (simp add: unit_cu_def root_off_def)
  then show "\<exists>cudie'. siblingof m si (after_unit d u) None cudie (unit_cu d u) = Some (DW_DLE_NONE, cudie') \<and>
       die_of (after_unit d u) (unit_cu d u) (un_abbrevs u) str (root_off d) (un_entry u) (un_attrs u) cudie'"
    using assms offdie_entry [of m si "after_unit d u" "unit_cu d u" "un_abbrevs u" str "root_off d" "un_entry u"
        "un_attrs u" cudie]
    by (simp add: unit_at_def siblingof_def)
qed

text \<open>The entries of a unit, from \<^verbatim>\<open>dwarf_child\<close> on.\<close>

lemma unit_children:
  assumes "unit_at m si str d u"
    and "die_of (after_unit d u) (unit_cu d u) (un_abbrevs u) str (root_off d) (un_entry u) (un_attrs u) cudie"
  shows "un_children u = [] \<Longrightarrow> child m si (after_unit d u) (unit_cu d u) cudie die = Some (DW_DLE_NO_ENTRY, die)"
    "un_children u = Node e avs us # ts \<Longrightarrow>
       (\<exists>die'. child m si (after_unit d u) (unit_cu d u) cudie die = Some (DW_DLV_OK, die') \<and>
          die_of (after_unit d u) (unit_cu d u) (un_abbrevs u) str (first_off d u) e avs die') \<and>
       children_at m (after_unit d u) (unit_cu d u) (un_abbrevs u) (first_off d u) (Node e avs us # ts) \<and>
       siblings_ok (after_unit d u) (unit_cu d u) (un_abbrevs u) str (first_off d u) (Node e avs us # ts)"
proof -
  have env: "unit_env m si (after_unit d u) (unit_cu d u) (un_abbrevs u) str"
    and head: "head_ok (after_unit d u) (unit_cu d u) (un_abbrevs u) (root_off d) (un_entry u) (un_attrs u)"
    using assms(1) by (simp_all add: unit_at_def entry_at_def)
  show "child m si (after_unit d u) (unit_cu d u) cudie die = Some (DW_DLE_NO_ENTRY, die)" if "un_children u = []"
  proof -
    have "\<not> has_children (un_abbrevs u) (un_entry u)" using that assms(1) by (auto simp: unit_at_def)
    then show ?thesis using die_children [OF assms(2) head] by (simp add: child_def)
  qed
  assume ch: "un_children u = Node e avs us # ts"
  then have has: "has_children (un_abbrevs u) (un_entry u)"
    and at: "children_at m (after_unit d u) (unit_cu d u) (un_abbrevs u) (first_off d u) (Node e avs us # ts)"
    and sib: "siblings_ok (after_unit d u) (unit_cu d u) (un_abbrevs u) str (first_off d u) (Node e avs us # ts)"
    using assms(1) by (simp_all add: unit_at_def split: if_splits)
  show "(\<exists>die'. child m si (after_unit d u) (unit_cu d u) cudie die = Some (DW_DLV_OK, die') \<and>
          die_of (after_unit d u) (unit_cu d u) (un_abbrevs u) str (first_off d u) e avs die') \<and>
       children_at m (after_unit d u) (unit_cu d u) (un_abbrevs u) (first_off d u) (Node e avs us # ts) \<and>
       siblings_ok (after_unit d u) (unit_cu d u) (un_abbrevs u) str (first_off d u) (Node e avs us # ts)"
    using child_answer [OF env assms(2) head has at [unfolded first_off_def], of die] at sib
    by (auto simp: answer_def first_off_def)
qed


lemma covering_covers:
  "covering d c as str addr off ts = Some (off', e, avs, us, rest) \<Longrightarrow> covers d c as str addr off' e avs"
  by (induction d c as str addr off ts rule: covering.induct) (auto split: if_splits)

lemma scan_units_finds:
  assumes "units_at m si str d us" and "find_function d str addr us = Some (d', u, off, e, avs, ts)"
    and "func_ok m si str d' u lu off e avs ts name szs" and "length (ri_size_fn_arg info) = 10"
  shows "scan_units m si junk addr d c cudie die die2 info =
    Some (0, func_result str d' u lu addr off e avs name szs info, after_unit d' u)"
  using assms(1,2)
proof (induction us arbitrary: d c cudie die die2)
  case Nil
  then show ?case by simp
next
  case (Cons v us)
  let ?d = "after_unit d v" and ?c = "unit_cu d v"
  have at: "unit_at m si str d v" and rest: "units_at m si str ?d us" using Cons.prems(1) by simp_all
  have env: "unit_env m si ?d ?c (un_abbrevs v) str" using at by (simp add: unit_at_def)
  note start = unit_start(1) [OF at, of c]
  obtain root where root: "siblingof m si ?d None cudie ?c = Some (DW_DLE_NONE, root)"
      "die_of ?d ?c (un_abbrevs v) str (root_off d) (un_entry v) (un_attrs v) root"
    using unit_start(2) [OF at, of cudie] by blast
  have ne: "DW_DLE_NONE \<noteq> DW_DLE_NO_ENTRY" "DW_DLV_OK \<noteq> DW_DLE_NO_ENTRY" by (simp_all add: dw_result_defs)
  note go = start root(1) ne
  show ?case
  proof (cases "un_children v")
    case Nil
    then have none: "unit_covering d str addr v = None" by (simp add: unit_covering_def)
    show ?thesis
      using Cons.IH [OF rest] Cons.prems(2) none unit_children(1) [OF at root(2) Nil]
      by (subst scan_units.simps) (simp add: go)
  next
    case (Cons t ts')
    then obtain e1 avs1 us1 where t: "un_children v = Node e1 avs1 us1 # ts'" by (cases t) simp
    obtain first where first: "child m si ?d ?c root die = Some (DW_DLV_OK, first)"
        "die_of ?d ?c (un_abbrevs v) str (first_off d v) e1 avs1 first"
      using unit_children(2) [OF at root(2) t, of die] by blast
    have list: "children_at m ?d ?c (un_abbrevs v) (first_off d v) (Node e1 avs1 us1 # ts')"
        "siblings_ok ?d ?c (un_abbrevs v) str (first_off d v) (Node e1 avs1 us1 # ts')"
      using unit_children(2) [OF at root(2) t] by blast+
    show ?thesis
    proof (cases "unit_covering d str addr v")
      case None
      then have "covering ?d ?c (un_abbrevs v) str addr (first_off d v) (Node e1 avs1 us1 # ts') = None"
        unfolding unit_covering_def t .
      then obtain d1 d2 where "scan_unit m si ?d ?c root junk addr info first die2 = Some (False, info, d1, d2)"
        using scan_unit_none [OF env list first(2)] by blast
      then show ?thesis
        using Cons.IH [OF rest] Cons.prems(2) None first(1) by (subst scan_units.simps) (simp add: go)
    next
      case (Some r)
      obtain off1 e2 avs2 us2 rest2 where r: "r = (off1, e2, avs2, us2, rest2)" by (cases r) auto
      have eq: "d' = d" "u = v" "off = off1" "e = e2" "avs = avs2" "ts = us2"
        using Cons.prems(2) by (simp_all add: Some r)
      note ok = assms(3) [unfolded eq func_ok_def]
      have hit: "covering ?d ?c (un_abbrevs v) str addr (first_off d v) (Node e1 avs1 us1 # ts') =
          Some (off, e, avs, ts, rest2)"
        using Some unfolding unit_covering_def t r eq .
      have size: "cu_addr_size ?c = 8" by (simp add: unit_cu_def)
      have lines: "lines_at m si ?d (entry_attrs ?d ?c str (root_off d) (un_entry v) (un_attrs v)) lu"
        using ok by (simp add: root_attrs_def)
      obtain ln where ln: "srclines m si ?d ?c root row0 addr = Some (DW_DLV_OK, ln)"
          "ln_lineno ln = line_of ?d lu addr"
        using srclines_line [OF root(2) lines size] by blast
      have nm: "die_name root = entry_name (root_attrs d str v)"
        using die_of_attrs(3) [OF root(2)] ok by (simp add: root_attrs_def)
      have "\<exists>d1 d2. scan_unit m si ?d ?c root junk addr info first die2 =
          Some (True, func_result str d v lu addr off e avs name szs info, d1, d2)"
      proof (rule scan_unit_some [OF env list first(2) hit])
        fix die'
        assume "die_of ?d ?c (un_abbrevs v) str off e avs die'"
          "children_at m ?d ?c (un_abbrevs v) off (Node e avs ts # rest2)"
        then show "list_func_die m si ?d ?c root junk info die' addr =
            Some (1, func_result str d v lu addr off e avs name szs info)"
          unfolding func_result_def ln(2) [symmetric]
          using ok nm ln(1) assms(4) covering_covers [OF hit]
          by (intro list_func_die_covering [OF env]) (simp_all only: eq, blast+)
      qed
      then show ?thesis
        using first(1) by (subst scan_units.simps) (auto simp: go eq)
    qed
  qed
qed

lemma debuginfo_rip_answer:
  assumes "addr \<ge> ULIM" and "find_section si ''.debug_info'' = Some sect" and "ds_size sect \<noteq> 0"
    and "d = (dwarf_init m (0x10000 + KERNBASE))\<lparr>dbg_info_offset_elf := ds_data sect, dbg_info_size := ds_size sect\<rparr>"
    and "units_at m si str d us" and "find_function d str addr us = Some (d', u, off, e, avs, ts)"
    and "func_ok m si str d' u lu off e avs ts name szs" and "length (ri_size_fn_arg info) = 10"
  shows "debuginfo_rip m si unknown c0 junk addr info =
    Some (0, func_result str d' u lu addr off e avs name szs info, after_unit d' u)"
proof -
  have size: "length (ri_size_fn_arg (unknown_info unknown addr info)) = 10"
    using assms(8) by (simp add: unknown_info_def)
  have "func_result str d' u lu addr off e avs name szs (unknown_info unknown addr info) =
      func_result str d' u lu addr off e avs name szs info"
    by (simp add: func_result_def func_info_def unknown_info_def)
  then show ?thesis
    using scan_units_finds [OF assms(5-7) size, of junk c0 junk junk junk] assms(1-4)
    by (simp add: debuginfo_rip_def Let_def)
qed

text \<open>
  C17. \<^verbatim>\<open>debuginfo_rip\<close> for a kernel address, on debugging sections as a producer writes them, with any
  number of units: it returns 0 and the information of the first function, in the order of the units and of
  the entries in them, whose range contains the address strictly: the name of its unit, the line that
  the line number program of the unit gives for the address, the name of the function with its length,
  its start, the number of its parameters and a size for each. The size of the first parameter is the one that its
  chain of types declares. Behind the first one the code follows a single step of the type and otherwise repeats the
  size of the parameter before, which is a bug; the sizes are the declared ones when the type of each of these
  parameters has a byte size of its own.
\<close>

theorem debuginfo_rip_finds:
  assumes "addr \<ge> ULIM" and "find_section si ''.debug_info'' = Some sect" and "ds_size sect \<noteq> 0"
    and "d = (dwarf_init m (0x10000 + KERNBASE))\<lparr>dbg_info_offset_elf := ds_data sect, dbg_info_size := ds_size sect\<rparr>"
    and "units_at m si str d us" and "find_function d str addr us = Some (d', u, off, e, avs, ts)"
    and "func_ok m si str d' u lu off e avs ts name szs" and "length (ri_size_fn_arg info) = 10"
  shows "debuginfo_rip m si unknown c0 junk addr info =
      Some (0, func_result str d' u lu addr off e avs name szs info, after_unit d' u) \<and>
    (func_sized m (after_unit d' u) (unit_cu d' u) (un_abbrevs u) str off e avs ts \<longrightarrow>
     func_declared m (after_unit d' u) (unit_cu d' u) (un_abbrevs u) str off e avs ts szs)"
  using debuginfo_rip_answer [OF assms] func_sizes_declared assms(7) unfolding func_ok_def by blast

definition ex_comp_unit :: comp_unit where
  "ex_comp_unit = \<lparr>un_length = 65, un_version = 2, un_abbrev_offset = 0, un_abbrevs = ex_abbrevs, un_entry = 1,
     un_attrs = ex_root, un_children = ex_children\<rparr>"

definition ex_info0 :: ripdebuginfo where
  "ex_info0 = \<lparr>ri_file = 0, ri_line = 0, ri_fn_name = 0, ri_fn_namelen = 0, ri_fn_addr = 0, ri_fn_narg = 0,
     ri_size_fn_arg = replicate 10 0\<rparr>"

definition ex_f_attrs :: "attr_spec list" where
  "ex_f_attrs = [(3, 8, VString [0x66]), (17, 1, VAddr 0x8004201000), (18, 1, VAddr 0x8004201010)]"

definition ex_x :: die_tree where
  "ex_x = Node 4 [(3, 8, VString [0x78]), (73, 19, VNum 4 66)] []"

definition ex_start :: dwdebug where
  "ex_start = ex_d\<lparr>curr_off_dbginfo := 0\<rparr>"

lemma ex_f_parts: "ex_f = Node 3 ex_f_attrs [ex_x]"
  by (simp add: ex_f_def ex_f_attrs_def ex_x_def)

lemma ex_mem_outside: "a \<notin> span 0x100 172 \<Longrightarrow> ex_mem a = 0"
proof -
  have "length (ex_abbrev_bytes @ ex_info_bytes @ ex_line_bytes) = 172"
    by (simp add: ex_abbrev_bytes_def ex_info_bytes_def ex_line_bytes_def)
  then show "a \<notin> span 0x100 172 \<Longrightarrow> ex_mem a = 0"
    using store_outside [of a "0x100" "ex_abbrev_bytes @ ex_info_bytes @ ex_line_bytes" "\<lambda>_. 0"]
    unfolding ex_mem_def by simp
qed

lemma image_opened:
  assumes "m (0x10000 + KERNBASE + 4) = 0" and "m (0x10000 + KERNBASE + 5) = 0"
  shows "(dwarf_init m (0x10000 + KERNBASE))\<lparr>dbg_info_offset_elf := 0x130, dbg_info_size := 69\<rparr> = ex_start"
  using assms
  by (simp add: ex_start_def ex_d_def dwarf_init_def frame_params_init_def elf_is_msb_def elf_get_pointer_size_def)

lemma ex_after: "after_unit ex_start ex_comp_unit = ex_d" "unit_cu ex_start ex_comp_unit = ex_c" "root_off ex_start = 11"
  "first_off ex_start ex_comp_unit = 20"
proof -
  show after: "after_unit ex_start ex_comp_unit = ex_d"
    by (simp add: after_unit_def ex_start_def ex_comp_unit_def ex_d_def dwarf_init_def frame_params_init_def)
  show cu: "unit_cu ex_start ex_comp_unit = ex_c"
    by (simp add: unit_cu_def ex_start_def ex_comp_unit_def ex_c_def)
  show "root_off ex_start = 11" by (simp add: root_off_def ex_start_def)
  then show "first_off ex_start ex_comp_unit = 20"
    using ex_bytes(2) by (simp add: first_off_def after cu) (simp add: ex_comp_unit_def)
qed

lemma ex_lengths:
  "length (head_bytes ex_d ex_c 3 ex_f_attrs) = 19" "length (tree_bytes ex_d ex_c ex_abbrevs ex_f) = 27"
  "length (tree_bytes ex_d ex_c ex_abbrevs ex_g) = 19" "length (tree_bytes ex_d ex_c ex_abbrevs ex_x) = 7"
  by (simp_all add: ex_f_def ex_g_def ex_x_def ex_f_attrs_def head_bytes_def attr_bytes_def has_children_def abbrev_of_def
      ex_abbrevs_def dw_children_defs ex_c_def uleb128.simps)

lemma image_unit_at: "ex_image m \<Longrightarrow> unit_at m ex_si ex_str ex_start ex_comp_unit"
proof -
  assume m: "ex_image m"
  have le: "le_bytes 4 65 = [65, 0, 0, 0]" "le_bytes 2 2 = [2, 0]" "le_bytes 1 8 = [8]" by code_simp+
  have start: "\<not> dbg_msb ex_start" "curr_off_dbginfo ex_start = 0" "dbg_info_offset_elf ex_start = 0x130"
    "dbg_info_size ex_start = 69" by (simp_all add: ex_start_def)
  have "cu_header ex_start 65 2 0 8 = [65, 0, 0, 0,  2, 0,  0, 0, 0, 0,  8]"
    using start(1) le by (simp add: cu_header_def enc_def ex_le(4))
  moreover have "holds_at m 0x130 [65, 0, 0, 0,  2, 0,  0, 0, 0, 0,  8]"
    using ex_image_parts(2) [OF m] unfolding ex_info_split holds_at_append by simp
  ultimately have header: "holds_at m (dbg_info_offset_elf ex_start + curr_off_dbginfo ex_start) (cu_header ex_start 65 2 0 8)"
    by (simp add: start)
  have entry: "entry_at m ex_d ex_c ex_abbrevs 11 1 ex_root"
    using image_holds(1) [OF m] ex_ok(2) ex_bytes(2)
    by (simp add: entry_at_def) (simp add: numbers_ok_def ex_root_def dw_at_defs)
  have sib: "siblings_ok ex_d ex_c ex_abbrevs ex_str 20 ex_children"
    by (simp add: ex_children_def sibling_ok_def ex_f_def ex_g_def attr_of_def dw_at_defs)
  have has: "has_children ex_abbrevs 1" "ex_children \<noteq> []"
    by (simp_all add: has_children_def abbrev_of_def ex_abbrevs_def dw_children_defs ex_children_def)
  have u: "un_length ex_comp_unit = 65" "un_version ex_comp_unit = 2" "un_abbrev_offset ex_comp_unit = 0"
    "un_abbrevs ex_comp_unit = ex_abbrevs" "un_entry ex_comp_unit = 1" "un_attrs ex_comp_unit = ex_root"
    "un_children ex_comp_unit = ex_children" by (simp_all add: ex_comp_unit_def)
  show ?thesis
    unfolding unit_at_def ex_after u using header entry sib has image_env [OF m] image_children_at [OF m] start by simp
qed

lemma ex_x_attrs:
  "entry_attrs ex_d ex_c ex_str 20 3 ex_f_attrs =
     [attr_of ex_str 0x145 (3, 8, VString [0x66]), attr_of ex_str 0x147 (17, 1, VAddr 0x8004201000),
      attr_of ex_str 0x14F (18, 1, VAddr 0x8004201010)]"
  "entry_attrs ex_d ex_c ex_str 11 1 ex_root =
     [attr_of ex_str 0x13C (3, 8, VString [0x61, 0x2E, 0x63]), attr_of ex_str 0x140 (16, 6, VNum 4 0)]"
  "entry_attrs ex_d ex_c ex_str 39 4 [(3, 8, VString [0x78]), (73, 19, VNum 4 66)] =
     [attr_of ex_str 0x158 (3, 8, VString [0x78]), attr_of ex_str 0x15A (73, 19, VNum 4 66)]"
  "entry_attrs ex_d ex_c ex_str 66 5 [(11, 11, VNum 1 4)] = [attr_of ex_str 0x173 (11, 11, VNum 1 4)]"
  by (simp_all add: entry_attrs_def ex_f_attrs_def ex_root_def uleb128.simps ex_c_def)

lemmas attr_eval = attr_in_def attr_of_def dw_at_defs dw_form_defs entry_name_def attr_name_def named_def

lemma ex_found:
  "find_function ex_start ex_str 0x8004201008 [ex_comp_unit] =
     Some (ex_start, ex_comp_unit, 20, 3, ex_f_attrs, [ex_x])"
proof -
  have u: "un_abbrevs ex_comp_unit = ex_abbrevs" "un_children ex_comp_unit = ex_children"
    by (simp_all add: ex_comp_unit_def)
  have "covers ex_d ex_c ex_abbrevs ex_str 0x8004201008 20 3 ex_f_attrs"
    unfolding covers_def ex_x_attrs by (simp add: attr_eval tag_of_def abbrev_of_def ex_abbrevs_def dw_tag_defs)
  then show ?thesis
    by (simp add: unit_covering_def ex_after u ex_children_def ex_f_parts)
qed

lemma image_entry_type: "ex_image m \<Longrightarrow> entry_at m ex_d ex_c ex_abbrevs 66 5 [(11, 11, VNum 1 4)]"
proof -
  assume m: "ex_image m"
  have h: "holds_at m (0x172) (tree_bytes ex_d ex_c ex_abbrevs (Node 5 [(11, 11, VNum 1 4)] []))"
    using image_holds(2) [OF m] unfolding ex_children_def forest_bytes.simps holds_at_append ex_lengths by simp
  moreover have "\<not> has_children ex_abbrevs 5"
    by (simp add: has_children_def abbrev_of_def ex_abbrevs_def dw_children_defs)
  moreover have "head_ok ex_d ex_c ex_abbrevs 66 5 [(11, 11, VNum 1 4)]"
    using ex_ok(1) unfolding ex_children_def forest_ok.simps ex_lengths by simp
  moreover have "length (tree_bytes ex_d ex_c ex_abbrevs (Node 5 [(11, 11, VNum 1 4)] [])) = 2"
    using \<open>\<not> has_children ex_abbrevs 5\<close> by (simp add: head_bytes_def attr_bytes_def uleb128.simps)
  ultimately show ?thesis by (simp add: entry_at_def numbers_ok_def)
qed

lemma image_f_sizes: "ex_image m \<Longrightarrow> func_sizes m ex_d ex_c ex_abbrevs ex_str 20 3 ex_f_attrs [ex_x] [4]"
proof -
  assume m: "ex_image m"
  have has: "has_children ex_abbrevs 3" by (simp add: has_children_def abbrev_of_def ex_abbrevs_def dw_children_defs)
  have tag: "tag_of ex_abbrevs 4 = DW_TAG_formal_parameter"
    by (simp add: tag_of_def abbrev_of_def ex_abbrevs_def dw_tag_defs)
  have "type_chain m ex_d ex_c ex_abbrevs ex_str 66 4"
    by (rule type_chain.sized [OF image_entry_type [OF m]]) (unfold ex_x_attrs, simp add: attr_eval)
  then have "first_size m ex_d ex_c ex_abbrevs ex_str
      (entry_attrs ex_d ex_c ex_str 39 4 [(3, 8, VString [0x78]), (73, 19, VNum 4 66)]) 4"
    unfolding ex_x_attrs by (simp add: first_size_def attr_eval)
  moreover have "sibling_ok ex_d ex_c ex_abbrevs ex_str 39 ex_x" "tree_depth ex_x < 2 ^ 30"
    by (simp_all add: ex_x_def sibling_ok_def attr_of_def dw_at_defs)
  ultimately show ?thesis
    using has tag ex_lengths by (simp add: func_sizes_def ex_x_def)
qed

lemma image_lines: "ex_image m \<Longrightarrow> lines_at m ex_si ex_d (entry_attrs ex_d ex_c ex_str 11 1 ex_root) ex_unit"
proof -
  assume m: "ex_image m"
  have "length ex_line_bytes = 55" by (simp add: ex_line_bytes_def)
  then show ?thesis
    using ex_image_parts(3) [OF m] ex_unit_fits unfolding lines_at_def ex_x_attrs ex_unit_bytes
    by (simp add: attr_eval ex_si_def find_section_def)
qed

lemma ex_line_8: "line_of ex_d ex_unit 0x8004201008 = 7"
proof -
  let ?rows = "line_rows (unit_info ex_d ex_unit) (reset_registers (unit_info ex_d ex_unit)) (lu_program ex_unit)"
  have "upto_pc 0x8004201008 ?rows = take 2 ?rows"
    using ex_rows by (auto simp: upto_pc_def map_eq_Cons_conv)
  then show ?thesis using ex_rows by (auto simp: line_of_def map_eq_Cons_conv Let_def)
qed

lemma image_name: "ex_image m \<Longrightarrow> cstr m 0x145 [0x66]" "ex_image m \<Longrightarrow> cstr m 0x13C [0x61, 0x2E, 0x63]"
proof -
  show "cstr m 0x145 [0x66]" if "ex_image m"
  proof -
    have "holds_at m 0x144 (head_bytes ex_d ex_c 3 ex_f_attrs)"
      using image_holds(2) [OF that] by (simp add: ex_children_def ex_f_parts holds_at_append)
    then show ?thesis by (simp add: head_bytes_def attr_bytes_def ex_f_attrs_def uleb128.simps holds_at_Cons)
  qed
  show "cstr m 0x13C [0x61, 0x2E, 0x63]" if "ex_image m"
    using image_holds(1) [OF that] unfolding ex_bytes(2) by (simp add: holds_at_Cons)
qed

lemma image_func_ok: "ex_image m \<Longrightarrow> func_ok m ex_si ex_str ex_start ex_comp_unit ex_unit 20 3 ex_f_attrs [ex_x] [0x66] [4]"
proof -
  assume m: "ex_image m"
  have root: "root_attrs ex_start ex_str ex_comp_unit = entry_attrs ex_d ex_c ex_str 11 1 ex_root"
    by (simp add: root_attrs_def ex_after) (simp add: ex_comp_unit_def)
  have u: "un_abbrevs ex_comp_unit = ex_abbrevs" by (simp add: ex_comp_unit_def)
  have names: "named (entry_attrs ex_d ex_c ex_str 11 1 ex_root)" "named (entry_attrs ex_d ex_c ex_str 20 3 ex_f_attrs)"
    "entry_name (entry_attrs ex_d ex_c ex_str 20 3 ex_f_attrs) = 0x145"
    unfolding ex_x_attrs by (simp_all add: attr_eval)
  show ?thesis
    unfolding func_ok_def root ex_after u using names image_lines [OF m] image_f_sizes [OF m] image_name(1) [OF m] by simp
qed

text \<open>What the look-up of an address in \<^verbatim>\<open>f\<close> gives, in every memory with these sections.\<close>

definition ex_info1 :: ripdebuginfo where
  "ex_info1 = \<lparr>ri_file = 0x13C, ri_line = 7, ri_fn_name = 0x145, ri_fn_namelen = 1, ri_fn_addr = 0x8004201000,
       ri_fn_narg = 1, ri_size_fn_arg = [4, 0, 0, 0, 0, 0, 0, 0, 0, 0]\<rparr>"

lemma ex_result:
  "func_result ex_str ex_start ex_comp_unit ex_unit 0x8004201008 20 3 ex_f_attrs [0x66] [4] ex_info0 = ex_info1"
  "func_result ex_str ex_start ex_comp_unit ex_unit 0x8004201008 20 3 ex_f_attrs [0x66] [4] ex_info1 = ex_info1"
proof -
  have root: "root_attrs ex_start ex_str ex_comp_unit = entry_attrs ex_d ex_c ex_str 11 1 ex_root"
    by (simp add: root_attrs_def ex_after) (simp add: ex_comp_unit_def)
  show "func_result ex_str ex_start ex_comp_unit ex_unit 0x8004201008 20 3 ex_f_attrs [0x66] [4] ex_info0 = ex_info1"
    "func_result ex_str ex_start ex_comp_unit ex_unit 0x8004201008 20 3 ex_f_attrs [0x66] [4] ex_info1 = ex_info1"
    unfolding func_result_def func_info_def root ex_after ex_line_8 ex_x_attrs
    by (simp_all add: attr_eval ex_info0_def ex_info1_def replicate_numeral)
qed

lemma image_answer:
  assumes "ex_image m" and "m (0x10000 + KERNBASE + 4) = 0" and "m (0x10000 + KERNBASE + 5) = 0"
    and "info = ex_info0 \<or> info = ex_info1"
  shows "debuginfo_rip m ex_si unknown c0 junk 0x8004201008 info = Some (0, ex_info1, ex_d)"
proof -
  let ?sect = "\<lparr>ds_name = ''.debug_info'', ds_data = 0x130, ds_addr = 0x130, ds_size = 69\<rparr>"
  have addr: "ULIM \<le> 0x8004201008" by (simp add: layout_defs)
  have sect: "find_section ex_si ''.debug_info'' = Some ?sect" by (simp add: ex_si_def find_section_def)
  have start: "ex_start = (dwarf_init m (0x10000 + KERNBASE))
      \<lparr>dbg_info_offset_elf := ds_data ?sect, dbg_info_size := ds_size ?sect\<rparr>"
    using image_opened [of m] assms(2,3) by simp
  have units: "units_at m ex_si ex_str ex_start [ex_comp_unit]" using image_unit_at [OF assms(1)] by simp
  have "length (ri_size_fn_arg info) = 10" using assms(4) by (auto simp: ex_info0_def ex_info1_def)
  from debuginfo_rip_answer [OF addr sect _ start units ex_found image_func_ok [OF assms(1)] this, of unknown c0 junk]
  show ?thesis using assms(4) ex_result by (auto simp: ex_after)
qed

theorem debuginfo_rip_finds_witness:
  "\<forall>c0 junk. debuginfo_rip ex_mem ex_si 0x400 c0 junk 0x8004201008 ex_info0 =
     Some (0, \<lparr>ri_file = 0x13C, ri_line = 7, ri_fn_name = 0x145, ri_fn_namelen = 1, ri_fn_addr = 0x8004201000,
       ri_fn_narg = 1, ri_size_fn_arg = [4, 0, 0, 0, 0, 0, 0, 0, 0, 0]\<rparr>, ex_d) \<and>
   func_declared ex_mem ex_d ex_c ex_abbrevs ex_str 20 3 ex_f_attrs [ex_x] [4]"
proof (intro allI)
  fix c0 junk
  let ?sect = "\<lparr>ds_name = ''.debug_info'', ds_data = 0x130, ds_addr = 0x130, ds_size = 69\<rparr>"
  have addr: "ULIM \<le> 0x8004201008" by (simp add: layout_defs)
  have sect: "find_section ex_si ''.debug_info'' = Some ?sect" by (simp add: ex_si_def find_section_def)
  have "ex_mem (0x10000 + KERNBASE + 4) = 0" "ex_mem (0x10000 + KERNBASE + 5) = 0"
    by (simp_all add: ex_mem_outside span_iff KERNBASE_def)
  then have start: "ex_start = (dwarf_init ex_mem (0x10000 + KERNBASE))
      \<lparr>dbg_info_offset_elf := ds_data ?sect, dbg_info_size := ds_size ?sect\<rparr>"
    by (simp add: image_opened)
  have units: "units_at ex_mem ex_si ex_str ex_start [ex_comp_unit]" using image_unit_at [OF ex_mem_image] by simp
  have sized: "func_sized ex_mem ex_d ex_c ex_abbrevs ex_str 20 3 ex_f_attrs [ex_x]" by (simp add: func_sized_def)
  have as: "un_abbrevs ex_comp_unit = ex_abbrevs" by (simp add: ex_comp_unit_def)
  show "debuginfo_rip ex_mem ex_si 0x400 c0 junk 0x8004201008 ex_info0 =
     Some (0, \<lparr>ri_file = 0x13C, ri_line = 7, ri_fn_name = 0x145, ri_fn_namelen = 1, ri_fn_addr = 0x8004201000,
       ri_fn_narg = 1, ri_size_fn_arg = [4, 0, 0, 0, 0, 0, 0, 0, 0, 0]\<rparr>, ex_d) \<and>
     func_declared ex_mem ex_d ex_c ex_abbrevs ex_str 20 3 ex_f_attrs [ex_x] [4]"
    using debuginfo_rip_finds [OF addr sect _ start units ex_found image_func_ok [OF ex_mem_image], of ex_info0 "0x400" c0 junk]
      ex_result(1) sized as
    by (simp add: ex_after ex_info0_def ex_info1_def)
qed

end
