(* ===== verification/Monitor.thy ===== *)
theory Monitor
  imports Readline Kdebug "HOL-Library.Signed_Division"
begin

text \<open>
  The kernel monitor of \<^verbatim>\<open>kern/monitor.c\<close> and the start-up and panic paths of \<^verbatim>\<open>kern/init.c\<close>. The
  command line is parsed in place in \<^verbatim>\<open>ram\<close>: the parser writes NULs over white space and keeps
  pointers into the line. The back trace asks \<^verbatim>\<open>debuginfo_rip\<close> of the theory \<open>Kdebug\<close>, on the sections that
  \<^verbatim>\<open>read_section_headers\<close> of the theory \<open>ElfRw\<close> has placed in memory. The linker's symbols, the registers that
  inline assembly reads and what uninitialised variables hold are arguments.
\<close>

section \<open>Basic commands\<close>

text \<open>
  What the commands use of their surroundings: \<^verbatim>\<open>section_info\<close>, the address of the literal
  \<^verbatim>\<open>"<unknown>"\<close>, what the local variables of \<^verbatim>\<open>debuginfo_rip\<close> and the structure at the null pointer \<^verbatim>\<open>info\<close>
  hold, symbols and registers.
\<close>

record env =
  sections :: "dsection list"
  unknown_lit :: addr
  cu_junk :: cu
  die_junk :: die
  info_at_null :: ripdebuginfo
  sym_start :: u64
  sym_entry :: u64
  sym_etext :: u64
  sym_edata :: u64
  sym_end :: u64
  read_rbp :: u64
  read_rip :: u64

definition peek64 :: "mem \<Rightarrow> addr \<Rightarrow> u64" where
  "peek64 m a = foldr (\<lambda>b acc. ucast b OR push_bit 8 acc) (bytes_at m a 8) 0"

definition nl :: string where "nl = [CHR 10]"

definition commands :: "(string \<times> string) list" where
  "commands =
     [(''help'', ''Display this list of commands''),
      (''kerninfo'', ''Display information about the kernel''),
      (''backtrace'', ''Display Stack Backtrace'')]"

text \<open>A sequence of \<^verbatim>\<open>cprintf\<close> calls.\<close>

fun prints :: "(string \<times> varg list) list \<Rightarrow> machine \<Rightarrow> machine option" where
  "prints [] M = Some M"
| "prints ((fmt, ap) # ps) M = Option.bind (print fmt ap M) (prints ps)"

definition mon_help :: "machine \<Rightarrow> (u32 \<times> machine) option" where
  "mon_help M =
     map_option (\<lambda>M. (0, M))
       (prints (map (\<lambda>(name, desc). (''%s - %s'' @ nl, [VStr (Some name), VStr (Some desc)])) commands) M)"

text \<open>The difference of two pointers is a signed number, and so is the rounded size that is divided.\<close>

definition mon_kerninfo :: "env \<Rightarrow> machine \<Rightarrow> (u32 \<times> machine) option" where
  "mon_kerninfo E M =
     map_option (\<lambda>M. (0, M))
       (prints
         [(''Special kernel symbols:'' @ nl, []),
          (''  _start                  %08x (phys)'' @ nl, [VInt (sym_start E)]),
          (''  entry  %08x (virt)  %08x (phys)'' @ nl, [VInt (sym_entry E), VInt (sym_entry E - KERNBASE)]),
          (''  etext  %08x (virt)  %08x (phys)'' @ nl, [VInt (sym_etext E), VInt (sym_etext E - KERNBASE)]),
          (''  edata  %08x (virt)  %08x (phys)'' @ nl, [VInt (sym_edata E), VInt (sym_edata E - KERNBASE)]),
          (''  end    %08x (virt)  %08x (phys)'' @ nl, [VInt (sym_end E), VInt (sym_end E - KERNBASE)]),
          (''Kernel executable memory footprint: %dKB'' @ nl,
             [VInt (of_int (sint (ROUNDUP (sym_end E - sym_entry E) 1024) sdiv 1024))])] M)"

text \<open>The characters of a C string, as \<^verbatim>\<open>%s\<close> reads them.\<close>

partial_function (option) string_at :: "mem \<Rightarrow> addr \<Rightarrow> string option" where
  "string_at m p =
     (if m p = 0 then Some []
      else Option.bind (string_at m (p + 1)) (\<lambda>s. Some (char_of (unat (m p)) # s)))"

text \<open>\<^verbatim>\<open>debuginfo_rip(addr, info)\<close>; its result is not looked at.\<close>

definition look_up :: "env \<Rightarrow> u64 \<Rightarrow> ripdebuginfo \<Rightarrow> machine \<Rightarrow> ripdebuginfo option" where
  "look_up E addr info M =
     map_option (\<lambda>(r, info, d). info)
       (debuginfo_rip (ram M) (sections E) (unknown_lit E) (cu_junk E) (die_junk E) addr info)"

definition print_info :: "ripdebuginfo \<Rightarrow> u64 \<Rightarrow> machine \<Rightarrow> machine option" where
  "print_info info y M =
     Option.bind (string_at (ram M) (ri_file info)) (\<lambda>file.
     Option.bind (string_at (ram M) (ri_fn_name info)) (\<lambda>name.
     print (nl @ ''%s:%d:  %s+%016x args:%d '')
       [VStr (Some file), VInt (ucast (ri_line info)), VStr (Some name),
        VInt (y - ri_fn_addr info), VInt (ucast (ri_fn_narg info))] M))"

text \<open>
  \<^verbatim>\<open>while (count--)\<close> with \<open>i\<close> counting up: the arguments of the frame at \<open>x\<close>. The upper half of each
  slot is printed.
\<close>

function print_args :: "(mem \<Rightarrow> u64 \<Rightarrow> u64) \<Rightarrow> u64 \<Rightarrow> u32 \<Rightarrow> machine \<Rightarrow> machine option" where
  "print_args arg count i M =
     (if count \<noteq> 0
      then Option.bind (print ''%016x '' [VInt (drop_bit 32 (arg (ram M) (scast i)))] M)
             (print_args arg (count - 1) (i + 1))
      else Some M)"
  by pat_completeness auto
termination
  by (relation "measure (\<lambda>(arg, count, i, M). unat count)") (auto simp: word_step)

text \<open>The loop over the saved frame pointers; a cyclic chain runs forever.\<close>

partial_function (option) backtrace_loop :: "env \<Rightarrow> addr \<Rightarrow> ripdebuginfo \<Rightarrow> machine \<Rightarrow> machine option" where
  "backtrace_loop E x info M =
     (if x \<noteq> 0
      then let ret = peek64 (ram M) (x + 8)
           in Option.bind (look_up E ret info M) (\<lambda>info.
              Option.bind (print ''rbp %016x rip %016x'' [VInt (peek64 (ram M) x), VInt ret] M) (\<lambda>M.
              Option.bind (print_info info (peek64 (ram M) (x + 8)) M) (\<lambda>M.
              Option.bind (print_args (\<lambda>m i. peek64 m (x + 8 * (3 + i))) (scast (ri_fn_narg info)) 0 M) (\<lambda>M.
              Option.bind (print nl [] M) (\<lambda>M. backtrace_loop E (peek64 (ram M) x) info M)))))
      else Some M)"

definition mon_backtrace :: "env \<Rightarrow> machine \<Rightarrow> (u32 \<times> machine) option" where
  "mon_backtrace E M =
     (let rip = read_rip E
      in Option.bind (look_up E rip (info_at_null E) M) (\<lambda>info.
         Option.bind (print ''rbp %016x rip %016x'' [VInt (rip - 1), VInt rip] M) (\<lambda>M.
         Option.bind (print_info info rip M) (\<lambda>M.
         Option.bind (print_args (\<lambda>m i. rip + 3 + i) (scast (ri_fn_narg info)) 0 M) (\<lambda>M.
         Option.bind (print nl [] M) (\<lambda>M.
         map_option (\<lambda>M. (0, M)) (backtrace_loop E (read_rbp E) info M)))))))"

section \<open>The command interpreter\<close>

definition MAXARGS :: nat where "MAXARGS = 16"

text \<open>\<^verbatim>\<open>strchr(WHITESPACE, c)\<close> for a character other than NUL.\<close>

definition whitespace :: "u8 \<Rightarrow> bool" where
  "whitespace c \<longleftrightarrow> c \<in> {9, 13, 10, 32}"

partial_function (option) gobble :: "mem \<Rightarrow> addr \<Rightarrow> (addr \<times> mem) option" where
  "gobble m buf =
     (if m buf \<noteq> 0 \<and> whitespace (m buf) then gobble (m(buf := 0)) (buf + 1) else Some (buf, m))"

partial_function (option) scan_arg :: "mem \<Rightarrow> addr \<Rightarrow> addr option" where
  "scan_arg m buf =
     (if m buf \<noteq> 0 \<and> \<not> whitespace (m buf) then scan_arg m (buf + 1) else Some buf)"

text \<open>The arguments, or \<open>None\<close> when there are too many, and the memory.\<close>

partial_function (option) parse_args :: "mem \<Rightarrow> addr \<Rightarrow> addr list \<Rightarrow> (addr list option \<times> mem) option" where
  "parse_args m buf argv =
     Option.bind (gobble m buf) (\<lambda>(buf, m).
       if m buf = 0 then Some (Some argv, m)
       else if length argv = MAXARGS - 1 then Some (None, m)
       else Option.bind (scan_arg m buf) (\<lambda>buf'. parse_args m buf' (argv @ [buf])))"

text \<open>\<^verbatim>\<open>strcmp(argv[0], name) == 0\<close> against a literal, by \<open>cstr\<close>.\<close>

definition runcmd :: "env \<Rightarrow> addr \<Rightarrow> machine \<Rightarrow> (u32 \<times> machine) option" where
  "runcmd E buf M =
     Option.bind (parse_args (ram M) buf []) (\<lambda>(r, m).
       let M = M\<lparr>ram := m\<rparr>
       in case r of
            None \<Rightarrow> map_option (\<lambda>M. (0, M))
              (print (''Too many arguments (max %d)'' @ nl) [VInt (of_nat MAXARGS)] M)
          | Some [] \<Rightarrow> Some (0, M)
          | Some (arg0 # _) \<Rightarrow>
              if cstr (ram M) arg0 (lit ''help'') then mon_help M
              else if cstr (ram M) arg0 (lit ''kerninfo'') then mon_kerninfo E M
              else if cstr (ram M) arg0 (lit ''backtrace'') then mon_backtrace E M
              else Option.bind (string_at (ram M) arg0) (\<lambda>s. map_option (\<lambda>M. (0, M))
                (print (''Unknown command '' @ [CHR 0x27] @ ''%s'' @ [CHR 0x27] @ nl) [VStr (Some s)] M)))"

text \<open>\<^verbatim>\<open>while (1) { buf = readline("K> "); ... }\<close>\<close>

partial_function (option) monitor_loop :: "env \<Rightarrow> machine \<Rightarrow> machine option" where
  "monitor_loop E M =
     Option.bind (readline (Some ''K> '') M) (\<lambda>(buf, M).
       if buf \<noteq> 0
       then Option.bind (runcmd E buf M) (\<lambda>(r, M).
              if sint r < 0 then Some M else monitor_loop E M)
       else monitor_loop E M)"

definition monitor :: "env \<Rightarrow> machine \<Rightarrow> machine option" where
  "monitor E M =
     Option.bind
       (prints [(''Welcome to the JOS kernel monitor!'' @ nl, []),
                (''Type '' @ [CHR 0x27] @ ''help'' @ [CHR 0x27] @ '' for a list of commands.'' @ nl, [])] M)
       (monitor_loop E)"

section \<open>Start-up and panic (kern/init.c)\<close>

function test_backtrace :: "env \<Rightarrow> u32 \<Rightarrow> machine \<Rightarrow> machine option" where
  "test_backtrace E x M =
     Option.bind (print (''entering test_backtrace %d'' @ nl) [VInt (ucast x)] M) (\<lambda>M.
     Option.bind
       (if 0 < sint x then test_backtrace E (x - 1) M else map_option snd (mon_backtrace E M)) (\<lambda>M.
     print (''leaving test_backtrace %d'' @ nl) [VInt (ucast x)] M))"
  by pat_completeness auto
termination
  by (relation "measure (\<lambda>(E, x, M). unat x)") (auto simp: down_step')

text \<open>\<^verbatim>\<open>while (1) monitor(NULL);\<close>\<close>

partial_function (option) monitor_forever :: "env \<Rightarrow> machine \<Rightarrow> machine option" where
  "monitor_forever E M = Option.bind (monitor E M) (monitor_forever E)"

text \<open>
  The static variables without an initial value lie in \<^verbatim>\<open>.bss\<close>, between \<^verbatim>\<open>edata\<close> and \<^verbatim>\<open>end\<close>; those that the
  machine keeps as fields are cleared with it.
\<close>

definition clear_bss :: "env \<Rightarrow> machine \<Rightarrow> machine" where
  "clear_bss E M = M\<lparr>ram := snd (memset (ram M) (sym_edata E) 0 (sym_end E - sym_edata E)),
     serial_exists := False, addr_6845 := 0, crt_buf := 0, crt_pos := 0, shift := 0,
     cons := \<lparr>cbuf = replicate CONSBUFSIZE 0, rpos = 0, wpos = 0\<rparr>, panicstr := None\<rparr>"

text \<open>
  The kernel's entry: \<^verbatim>\<open>memset(edata, 0, end - edata)\<close>, the console, a greeting, the debug sections from the
  disk \<open>D\<close>, the backtrace test, the monitor.
\<close>

definition i386_init :: "env \<Rightarrow> diskm \<Rightarrow> machine \<Rightarrow> machine option" where
  "i386_init E D M =
     (let M = clear_bss E M
      in Option.bind (cons_init M) (\<lambda>M.
         Option.bind (print (''6828 decimal is %o octal!'' @ nl) [VInt 6828] M) (\<lambda>M.
         Option.bind (read_section_headers (0x10000 + KERNBASE) (sym_end E) section_info0 (D\<lparr>dmem := ram M\<rparr>))
           (\<lambda>(end_debug, si, D).
         let E = E\<lparr>sections := si\<rparr>; M = M\<lparr>ram := dmem D\<rparr>
         in Option.bind (test_backtrace E 5 M) (\<lambda>M. monitor_forever E M)))))"

definition panic :: "env \<Rightarrow> string \<Rightarrow> u32 \<Rightarrow> string \<Rightarrow> varg list \<Rightarrow> machine \<Rightarrow> machine option" where
  "panic E file line fmt ap M =
     Option.bind
       (if panicstr M \<noteq> None then Some M
        else Option.bind (print ''kernel panic at %s:%d: '' [VStr (Some file), VInt (ucast line)]
                    (M\<lparr>panicstr := Some fmt\<rparr>))
               (\<lambda>M. Option.bind (print fmt ap M) (print nl [])))
       (monitor_forever E)"

definition warn :: "string \<Rightarrow> u32 \<Rightarrow> string \<Rightarrow> varg list \<Rightarrow> machine \<Rightarrow> machine option" where
  "warn file line fmt ap M =
     Option.bind (print ''kernel warning at %s:%d: '' [VStr (Some file), VInt (ucast line)] M)
       (\<lambda>M. Option.bind (print fmt ap M) (print nl []))"

section \<open>The monitor never returns\<close>

lemma zero_result: "map_option (\<lambda>M. (0, M)) a = Some (r, M') \<Longrightarrow> r = 0"
  by auto

lemma bind_result: "Option.bind a f = Some y \<Longrightarrow> (\<And>x. f x = Some y \<Longrightarrow> P) \<Longrightarrow> P"
  by (cases a) auto

lemma mon_zero:
  "mon_help M = Some (r, M') \<Longrightarrow> r = 0"
  "mon_kerninfo E M = Some (r, M') \<Longrightarrow> r = 0"
  "mon_backtrace E M = Some (r, M') \<Longrightarrow> r = 0"
    apply (unfold mon_help_def, erule zero_result)
   apply (unfold mon_kerninfo_def, erule zero_result)
  apply (unfold mon_backtrace_def Let_def, elim bind_result, erule zero_result)
  done

lemma runcmd_zero:
  assumes "runcmd E buf M = Some (r, M')"
  shows "r = 0"
proof -
  obtain a m where p: "parse_args (ram M) buf [] = Some (a, m)"
    using assms by (cases "parse_args (ram M) buf []") (auto simp: runcmd_def)
  show ?thesis
  proof (cases a)
    case None
    then show ?thesis using assms p by (auto simp: runcmd_def Let_def)
  next
    case (Some argv)
    then show ?thesis
      using assms p mon_zero unfolding runcmd_def
      by (cases argv) (auto simp: Let_def bind_eq_Some_conv split: if_splits)
  qed
qed

lemma monitor_loop_None:
  assumes "monitor_loop E M = Some M'"
  shows False
proof (rule monitor_loop.raw_induct [OF _ assms, of "\<lambda>_ _ _. False"])
  fix rec :: "env \<Rightarrow> machine \<Rightarrow> machine option" and E M M'
  assume IH: "\<And>E M M'. rec E M = Some M' \<Longrightarrow> False"
    and body: "Option.bind (readline (Some ''K> '') M) (\<lambda>(buf, M).
       if buf \<noteq> 0
       then Option.bind (runcmd E buf M) (\<lambda>(r, M). if sint r < 0 then Some M else rec E M)
       else rec E M) = Some M'"
  then show False using runcmd_zero by (fastforce simp: bind_eq_Some_conv split: if_splits)
qed

lemma monitor_None: "monitor E M = None" "monitor_forever E M = None"
proof -
  show m: "monitor E M = None" for E M
  proof (rule ccontr)
    assume "monitor E M \<noteq> None"
    then obtain M1 M' where "monitor_loop E M1 = Some M'"
      by (auto simp: monitor_def bind_eq_None_conv)
    then show False by (rule monitor_loop_None)
  qed
  show "monitor_forever E M = None" by (subst monitor_forever.simps) (simp add: m)
qed

text \<open>
  C40. The monitor never returns: every command returns 0, so the negative result that would end
  its loop never occurs. Hence neither \<^verbatim>\<open>_panic\<close> nor the kernel's entry \<^verbatim>\<open>i386_init\<close>, which enter the monitor last,
  returns.
\<close>

theorem monitor_never_returns:
  "monitor E M = None \<and> panic E file line fmt ap M = None \<and> i386_init E D M = None"
  by (simp add: monitor_None panic_def i386_init_def Let_def bind_eq_None_conv split: prod.split)

end
