(* ===== verification/Directives.thy ===== *)
theory Directives
  imports Printfmt
begin

text \<open>
  What a format string means, apart from the interpreter of \<^verbatim>\<open>lib/printfmt.c\<close>: a format is a list of directives, each
  with its text, the arguments it takes and the characters it stands for. \<^verbatim>\<open>vprintfmt\<close> on the text of the
  directives puts out their characters.
\<close>

section \<open>Directives\<close>

text \<open>A width or a precision is absent, written as a number, or a \<^verbatim>\<open>*\<close> with an argument.\<close>

datatype field = Absent | Written nat | Star u32

text \<open>The padding: none given, the flag \<^verbatim>\<open>0\<close>, or the flag \<^verbatim>\<open>-\<close>.\<close>

datatype padding = Blanks | Zeros | Minus

datatype conversion =
    Char u64
  | Error u64
  | String "string option"
  | Decimal u64
  | Unsigned u64
  | Octal u64
  | Hex u64
  | Pointer u64

datatype directive =
    Text char
  | Percent
  | Unknown char
  | Conv padding bool field "field option" nat conversion

section \<open>Their text and their arguments\<close>

fun padding_text :: "padding \<Rightarrow> string" where
  "padding_text Blanks = []"
| "padding_text Zeros = ''0''"
| "padding_text Minus = ''-''"

fun field_text :: "field \<Rightarrow> string" where
  "field_text Absent = []"
| "field_text (Written n) = decimal (int n)"
| "field_text (Star w) = ''*''"

fun field_args :: "field \<Rightarrow> varg list" where
  "field_args (Star w) = [VInt (ucast w)]"
| "field_args _ = []"

fun conversion_char :: "conversion \<Rightarrow> char" where
  "conversion_char (Char _) = CHR ''c''"
| "conversion_char (Error _) = CHR ''e''"
| "conversion_char (String _) = CHR ''s''"
| "conversion_char (Decimal _) = CHR ''d''"
| "conversion_char (Unsigned _) = CHR ''u''"
| "conversion_char (Octal _) = CHR ''o''"
| "conversion_char (Hex _) = CHR ''x''"
| "conversion_char (Pointer _) = CHR ''p''"

fun conversion_arg :: "conversion \<Rightarrow> varg" where
  "conversion_arg (Char v) = VInt v"
| "conversion_arg (Error v) = VInt v"
| "conversion_arg (String p) = VStr p"
| "conversion_arg (Decimal v) = VInt v"
| "conversion_arg (Unsigned v) = VInt v"
| "conversion_arg (Octal v) = VInt v"
| "conversion_arg (Hex v) = VInt v"
| "conversion_arg (Pointer v) = VInt v"

fun directive_text :: "directive \<Rightarrow> string" where
  "directive_text (Text c) = [c]"
| "directive_text Percent = ''%%''"
| "directive_text (Unknown c) = [CHR ''%'', c]"
| "directive_text (Conv pad alt width prec longs cv) =
     ''%'' @ padding_text pad @ (if alt then ''#'' else []) @ field_text width
     @ (case prec of None \<Rightarrow> [] | Some p \<Rightarrow> ''.'' @ field_text p) @ replicate longs (CHR ''l'') @ [conversion_char cv]"

fun directive_args :: "directive \<Rightarrow> varg list" where
  "directive_args (Conv pad alt width prec longs cv) =
     field_args width @ (case prec of None \<Rightarrow> [] | Some p \<Rightarrow> field_args p) @ [conversion_arg cv]"
| "directive_args _ = []"

section \<open>Their meaning\<close>

definition ascii :: "string \<Rightarrow> u32 list" where
  "ascii s = map of_char s"

fun field_value :: "field \<Rightarrow> int" where
  "field_value Absent = - 1"
| "field_value (Written n) = int n"
| "field_value (Star w) = sint w"

fun padding_char :: "padding \<Rightarrow> char" where
  "padding_char Blanks = CHR '' ''"
| "padding_char Zeros = CHR ''0''"
| "padding_char Minus = CHR ''-''"

text \<open>Padding on the left to a width.\<close>

definition pad_left :: "char \<Rightarrow> int \<Rightarrow> u32 list \<Rightarrow> u32 list" where
  "pad_left c width xs = replicate (nat (width - int (length xs))) (of_char c) @ xs"

definition numeral_of :: "nat \<Rightarrow> nat \<Rightarrow> u32 list" where
  "numeral_of b n = ascii (map (\<lambda>d. ''0123456789abcdef'' ! d) (digits b n))"

text \<open>
  The characters of a string: cut to a precision that is not negative, and under the flag \<^verbatim>\<open>#\<close> with question marks
  for what is not printable. A character is signed. Only the flag \<^verbatim>\<open>-\<close> pads a string on the right, with blanks.
\<close>

definition string_chars :: "bool \<Rightarrow> int \<Rightarrow> string \<Rightarrow> u32 list" where
  "string_chars alt prec s =
     map (\<lambda>c. if alt \<and> \<not> (32 \<le> (of_char c :: nat) \<and> (of_char c :: nat) \<le> 126) then of_char (CHR ''?'') else char_int c)
       (if prec < 0 then s else take (nat prec) s)"

fun conversion_output :: "padding \<Rightarrow> bool \<Rightarrow> int \<Rightarrow> int \<Rightarrow> conversion \<Rightarrow> u32 list" where
  "conversion_output pad alt width prec (Char v) = [ucast v]"
| "conversion_output pad alt width prec (Error v) = ascii (error_message (nat \<bar>sint (ucast v :: u32)\<bar>))"
| "conversion_output pad alt width prec (String p) =
     (let xs = string_chars alt prec (case p of None \<Rightarrow> ''(null)'' | Some s \<Rightarrow> s)
      in if pad = Minus then xs @ replicate (nat (width - int (length xs))) (of_char (CHR '' ''))
         else pad_left (padding_char pad) width xs)"
| "conversion_output pad alt width prec (Decimal v) =
     (if sint v < 0 then ascii ''-'' @ pad_left (padding_char pad) width (numeral_of 10 (nat (- sint v)))
      else pad_left (padding_char pad) width (numeral_of 10 (nat (sint v))))"
| "conversion_output pad alt width prec (Unsigned v) = pad_left (padding_char pad) width (numeral_of 10 (unat v))"
| "conversion_output pad alt width prec (Octal v) = pad_left (padding_char pad) width (numeral_of 8 (unat v))"
| "conversion_output pad alt width prec (Hex v) = pad_left (padding_char pad) width (numeral_of 16 (unat v))"
| "conversion_output pad alt width prec (Pointer v) =
     ascii ''0x'' @ pad_left (padding_char pad) width (numeral_of 16 (unat v))"

fun directive_output :: "directive \<Rightarrow> u32 list" where
  "directive_output (Text c) = [of_char c]"
| "directive_output Percent = ascii ''%''"
| "directive_output (Unknown c) = ascii [CHR ''%'', c]"
| "directive_output (Conv pad alt width prec longs cv) =
     conversion_output pad alt (field_value width) (case prec of None \<Rightarrow> - 1 | Some p \<Rightarrow> field_value p) cv"

text \<open>
  The directives whose meaning is defined. A written width starts with a digit other than 0 (\<^verbatim>\<open>0\<close> is a flag, and a
  precision \<^verbatim>\<open>.0\<close> is this flag too), sizes are far from the bounds of an \<^verbatim>\<open>int\<close>, and the error code is not the one
  whose negation overflows.
\<close>

fun field_ok :: "field \<Rightarrow> bool" where
  "field_ok Absent = True"
| "field_ok (Written n) \<longleftrightarrow> 1 \<le> n \<and> n < 2 ^ 31"
| "field_ok (Star w) \<longleftrightarrow> - (2 ^ 30) \<le> sint w"

fun conversion_ok :: "conversion \<Rightarrow> bool" where
  "conversion_ok (Error v) \<longleftrightarrow> (ucast v :: u32) \<noteq> 0x80000000"
| "conversion_ok (String (Some s)) \<longleftrightarrow> length s < 2 ^ 30"
| "conversion_ok _ \<longleftrightarrow> True"

fun directive_ok :: "directive \<Rightarrow> bool" where
  "directive_ok (Text c) \<longleftrightarrow> c \<noteq> CHR ''%''"
| "directive_ok Percent \<longleftrightarrow> True"
| "directive_ok (Unknown c) \<longleftrightarrow> c \<notin> set ''-0123456789*.#lcesduoxp%''"
| "directive_ok (Conv pad alt width prec longs cv) \<longleftrightarrow>
     field_ok width \<and> (case prec of None \<Rightarrow> True | Some p \<Rightarrow> p \<noteq> Absent \<and> field_ok p) \<and> conversion_ok cv"

section \<open>Reading the flags\<close>

lemma dir_padding:
  "vpf_dir putch eh s esc (padding_text pad @ fmt) ap flags0 = vpf_dir putch eh s esc fmt ap (flags0\<lparr>fl_padc := padding_char pad\<rparr>)"
  by (cases pad) (simp_all add: vpf_dir.simps flags0_def)

lemma dir_alt:
  "fl_altflag f = False \<Longrightarrow>
   vpf_dir putch eh s esc ((if alt then ''#'' else []) @ fmt) ap f = vpf_dir putch eh s esc fmt ap (f\<lparr>fl_altflag := alt\<rparr>)"
  by (cases f) (simp add: vpf_dir.simps)

lemma dir_longs:
  "vpf_dir putch eh s esc (replicate n (CHR ''l'') @ fmt) ap f =
     vpf_dir putch eh s esc fmt ap (f\<lparr>fl_lflag := fl_lflag f + of_nat n\<rparr>)"
  by (induction n arbitrary: f) (simp_all add: vpf_dir.simps algebra_simps)

definition is_digit :: "char \<Rightarrow> bool" where
  "is_digit c \<longleftrightarrow> 48 \<le> (of_char c :: nat) \<and> (of_char c :: nat) \<le> 57"

lemma scan_width_digits:
  "\<forall>d \<in> set ds. is_digit d \<Longrightarrow> \<not> is_digit c \<Longrightarrow>
   scan_width p d0 (ds @ c # fmt) = (foldl (\<lambda>p d. p * 10 + of_char d - 48) p (d0 # ds), c # fmt)"
  by (induction ds arbitrary: p d0) (auto simp: is_digit_def Let_def not_le)

lemma digit_value: "d < 10 \<Longrightarrow> of_char (''0123456789'' ! d) = (48 + of_nat d :: u32) \<and> is_digit (''0123456789'' ! d)"
proof -
  assume "d < 10"
  then have "d \<in> {0, 1, 2, 3, 4, 5, 6, 7, 8, 9}" by auto
  then show ?thesis by (auto simp: is_digit_def)
qed

lemma decimal_value: "foldl (\<lambda>p d. p * 10 + of_char d - 48) 0 (map (\<lambda>d. ''0123456789'' ! d) (digits 10 n)) = (of_nat n :: u32)"
proof (induction n rule: less_induct)
  case (less n)
  show ?case
  proof (cases "n < 10")
    case True
    then show ?thesis using digit_value [of n] by (subst digits.simps) simp
  next
    case False
    have "of_char (''0123456789'' ! (n mod 10)) = (48 + of_nat (n mod 10) :: u32)"
      using digit_value [of "n mod 10"] by simp
    moreover have "(of_nat (n div 10) * 10 + of_nat (n mod 10) :: u32) = of_nat n"
    proof -
      have "(of_nat (n div 10) * 10 + of_nat (n mod 10) :: u32) = of_nat (n div 10 * 10 + n mod 10)"
        by (simp only: of_nat_add of_nat_mult of_nat_numeral)
      then show ?thesis by (simp only: div_mult_mod_eq)
    qed
    ultimately show ?thesis using False less [of "n div 10"] by (subst digits.simps) simp
  qed
qed

lemma digits_leading: "1 \<le> n \<Longrightarrow> 2 \<le> b \<Longrightarrow> hd (digits b n) \<noteq> 0"
proof (induction b n rule: digits.induct)
  case (1 b n)
  then show ?case by (cases "n < b"; subst digits.simps) (auto simp: Suc_le_eq div_greater_zero_iff)
qed

lemma decimal_pos: "decimal (int n) = map (\<lambda>d. ''0123456789'' ! d) (digits 10 n)"
  by (simp add: decimal_def)

lemma dir_field:
  assumes "field_ok w" and "\<not> is_digit c"
  shows "vpf_dir putch eh s esc (field_text w @ c # fmt) (field_args w @ ap) f =
    vpf_dir putch eh s esc (c # fmt) ap (if w = Absent then f else process_precision f (of_int (field_value w)))"
proof (cases w)
  case (Star x)
  then show ?thesis by (simp add: vpf_dir.simps(2) [of _ _ _ _ "CHR ''*''"] va_int_def int_slot)
next
  case (Written n)
  then have n: "1 \<le> n" using assms(1) by simp
  obtain d ds where ds: "digits 10 n = d # ds" using digits_nonempty by (cases "digits 10 n") blast+
  have all: "e < 10" if "e \<in> set (d # ds)" for e using digits_less [of 10 e n] that ds by simp
  have d: "d \<in> {1, 2, 3, 4, 5, 6, 7, 8, 9}" using digits_leading [OF n, of 10] all [of d] ds by auto
  have dig: "\<forall>x \<in> set (map (\<lambda>d. ''0123456789'' ! d) ds). is_digit x" using digit_value all by auto
  have c1: "''0123456789'' ! d \<noteq> CHR ''-''" "''0123456789'' ! d \<noteq> CHR ''0''"
    "49 \<le> (of_char (''0123456789'' ! d) :: nat) \<and> (of_char (''0123456789'' ! d) :: nat) \<le> 57"
    using d by auto
  have ft: "field_text w = ''0123456789'' ! d # map (\<lambda>d. ''0123456789'' ! d) ds"
    unfolding Written field_text.simps decimal_pos ds by simp
  have scan: "scan_width 0 (''0123456789'' ! d) (map (\<lambda>d. ''0123456789'' ! d) ds @ c # fmt) = (of_nat n, c # fmt)"
    using scan_width_digits [OF dig assms(2), of 0 "''0123456789'' ! d" fmt] decimal_value [of n] ds by simp
  have "vpf_dir putch eh s esc (''0123456789'' ! d # map (\<lambda>d. ''0123456789'' ! d) ds @ c # fmt) ap f =
      vpf_dir putch eh s esc (c # fmt) ap (process_precision f (of_nat n))"
    using c1 by (subst vpf_dir.simps(2)) (simp only: scan fst_conv snd_conv if_False if_True simp_thms)
  then show ?thesis unfolding ft using Written by simp
qed simp

section \<open>Conversions\<close>

lemma sint_minus_len: "- (2 ^ 30) \<le> sint w \<Longrightarrow> k < 2 ^ 30 \<Longrightarrow> sint (w - of_nat k) = sint w - int k" for w :: u32
proof -
  assume a: "- (2 ^ 30) \<le> sint w" "k < 2 ^ 30"
  have "sint w < 2 ^ 31" using sint_lt [of w] by simp
  moreover have "w - of_nat k = of_int (sint w - int k)" by simp
  ultimately show ?thesis using a by (simp only: signed_of_int) (simp add: signed_take_bit_int_eq_self)
qed

lemma char_int_padding: "char_int (padding_char pad) = of_char (padding_char pad)"
  by (cases pad) (simp_all add: char_int_def)

lemma digit_char_hex: "d < 16 \<Longrightarrow> digit_char (of_nat d) = of_char (''0123456789abcdef'' ! d)"
  by (simp add: digit_char_def unat_of_nat64)

lemma num_text_padded:
  assumes "2 \<le> unat base" and "unat base \<le> 16" and "- (2 ^ 30) \<le> sint w"
  shows "num_text v base w (char_int (padding_char pad)) =
    pad_left (padding_char pad) (sint w) (numeral_of (unat base) (unat v))"
proof -
  have "length (digits (unat base) (unat v)) \<le> 64"
    using digits_length [OF assms(1), of "unat v" 64] unsigned_less [of v] by simp
  then have len: "sint (w - of_nat (length (digits (unat base) (unat v)))) = sint w - int (length (digits (unat base) (unat v)))"
    by (intro sint_minus_len assms(3)) simp
  have "\<forall>d \<in> set (digits (unat base) (unat v)). digit_char (of_nat d) = of_char (''0123456789abcdef'' ! d)"
    using digits_less [OF assms(1)] digit_char_hex assms(2) by (meson order_less_le_trans)
  then show ?thesis
    by (simp add: num_text_def Let_def len pad_left_def numeral_of_def ascii_def char_int_padding)
qed

lemma sint_widen:
  "sint (scast x :: u32) = sint x" "sint (scast y :: u64) = sint y" for x :: u8 and y :: u32
  by (rule sint_up_scast, simp add: is_up)+

lemma sint_char_int:
  "sint (char_int c) = (if (of_char c :: nat) < 128 then int (of_char c) else int (of_char c) - 256)"
proof -
  define k where "k = (of_char c :: nat)"
  have k: "k < 256" by (simp add: k_def)
  have "(of_char c :: u8) = of_int (int k)" unfolding k_def of_int_of_nat_eq by (rule of_nat_of_char [symmetric])
  then have c: "(of_char c :: u8) = of_int (if k < 128 then int k else int k - 256)" by simp
  have "sint (char_int c) = sint (of_char c :: u8)" by (simp only: char_int_def sint_widen)
  also have "\<dots> = (if k < 128 then int k else int k - 256)"
    unfolding c signed_of_int using k by (simp add: signed_take_bit_int_eq_self)
  finally show ?thesis unfolding k_def .
qed

lemma string_chars_cut: "map (shown alt) (cut prec s) = string_chars alt (sint prec) s"
proof -
  have "shown alt c = (if alt \<and> \<not> (32 \<le> (of_char c :: nat) \<and> (of_char c :: nat) \<le> 126) then of_char (CHR ''?'') else char_int c)" for c
    using nat_of_char_less_256 [of c] by (cases "(of_char c :: nat) < 128") (auto simp: shown_def sint_char_int simp del: nat_of_char_less_256)
  then show ?thesis by (simp add: string_chars_def cut_def)
qed

lemma strnlen_cut: "length s < 2 ^ 30 \<Longrightarrow> strnlen_int s prec = of_nat (length (cut prec s))"
proof (cases "0 \<le> sint prec")
  case True
  have "unat prec < 2 ^ 64" using unsigned_less [of prec, where ?'a = nat] by simp
  then have "unat (of_nat (unat prec) :: u64) = nat (sint prec)"
    using sint_pos [OF True] by (simp only: unat_of_nat64 nat_int)
  then have "unat (scast prec :: u64) = nat (sint prec)" unfolding scast_pos [OF True] .
  then show ?thesis using True by (auto simp: strnlen_int_def cut_def min.commute)
next
  case False
  assume len: "length s < 2 ^ 30"
  have "unat (scast prec :: u64) \<ge> 2 ^ 30"
  proof (rule ccontr)
    assume "\<not> 2 ^ 30 \<le> unat (scast prec :: u64)"
    then have small: "unat (scast prec :: u64) < 2 ^ 30" by simp
    define k where "k = unat (scast prec :: u64)"
    have "sint (of_nat k :: u64) = int k"
      using small by (simp add: k_def [symmetric] signed_of_nat signed_take_bit_int_eq_self)
    then have "0 \<le> sint (scast prec :: u64)" by (simp add: k_def)
    then show False using False by (simp add: sint_widen)
  qed
  then show ?thesis using False len by (simp add: strnlen_int_def cut_def)
qed

lemma str_text_output:
  assumes "length s < 2 ^ 30" and "- (2 ^ 30) \<le> sint w"
  shows "str_text s w prec (padding_char pad) alt = conversion_output pad alt (sint w) (sint prec) (String (Some s))"
proof -
  define n where "n = length (cut prec s)"
  have n: "n < 2 ^ 30" using assms(1) by (auto simp: n_def cut_def)
  have w: "sint (w - of_nat n) = sint w - int n" by (rule sint_minus_len [OF assms(2) n])
  have z: "sint (0 - of_nat n :: u32) = - int n" using sint_minus_len [of 0 n] n by simp
  have ww: "sint (w - of_nat n - of_nat n) = sint w - int n - int n" if "0 < sint w"
    using that sint_minus_len [of "w - of_nat n" n] w n by simp
  have len: "length (string_chars alt (sint prec) s) = n"
    unfolding string_chars_cut [symmetric] by (simp add: n_def)
  have minus: "padding_char pad = CHR ''-'' \<longleftrightarrow> pad = Minus" by (cases pad) simp_all
  show ?thesis
  proof (cases "0 < sint w \<and> pad \<noteq> Minus")
    case True
    then show ?thesis
      using w z ww
      by (simp add: str_text_def Let_def strnlen_cut [OF assms(1)] n_def [symmetric] string_chars_cut len minus
          pad_left_def char_int_padding)
  next
    case False
    then show ?thesis
      using w by (auto simp: str_text_def Let_def strnlen_cut [OF assms(1)] n_def [symmetric] string_chars_cut len minus
          pad_left_def char_int_padding)
  qed
qed

lemma conversion_output_width:
  "nat w = nat w' \<Longrightarrow> conversion_output pad alt w prec cv = conversion_output pad alt w' prec cv"
proof -
  assume "nat w = nat w'"
  then have "nat (w - int k) = nat (w' - int k)" for k by linarith
  then show ?thesis by (cases cv) (simp_all add: pad_left_def Let_def)
qed

lemma put_num: "2 \<le> unat base \<Longrightarrow> unat base \<le> 16 \<Longrightarrow> - (2 ^ 30) \<le> sint w \<Longrightarrow>
  printnum putch s v base w (char_int (padding_char pad)) =
    Some (fold putch (pad_left (padding_char pad) (sint w) (numeral_of (unat base) (unat v))) s)"
  by (simp add: printnum_fold num_text_padded)

lemma dir_conversion:
  assumes "- (2 ^ 30) \<le> sint (fl_width f)" and "conversion_ok cv" and "fl_padc f = padding_char pad" and "fl_altflag f = alt"
  shows "vpf_dir putch (put_error putch) s esc (conversion_char cv # fmt) (conversion_arg cv # ap) f =
    vpf putch (put_error putch) (fold putch (conversion_output pad alt (sint (fl_width f)) (sint (fl_precision f)) cv) s) fmt ap"
proof (cases cv)
  case (Char v)
  then show ?thesis by (simp add: vpf_dir.simps va_int_def)
next
  case (Error v)
  then show ?thesis
    using assms(2) put_error_fold [of putch "ucast v" s]
    by (simp add: vpf_dir.simps va_int_def put_error_text ascii_def)
next
  case (String p)
  have len: "length (case p of None \<Rightarrow> ''(null)'' | Some s \<Rightarrow> s) < 2 ^ 30"
    using assms(2) String by (cases p) simp_all
  show ?thesis
    using str_text_output [OF len assms(1), of "fl_precision f" pad alt] assms(3,4)
    by (simp add: String vpf_dir.simps va_str_def put_str_fold)
next
  case (Decimal v)
  have "sint v < 0 \<Longrightarrow> unat (- v) = nat (- sint v)" "\<not> sint v < 0 \<Longrightarrow> unat v = nat (sint v)"
    using unat_minus_neg [of v] sint_pos [of v] by simp_all
  then show ?thesis
    using assms(1,3)
    by (simp add: Decimal vpf_dir.simps getint_def put_dec_def put_num ascii_def)
qed (use assms(1,3) in \<open>simp_all add: vpf_dir.simps getuint_def put_num ascii_def\<close>)

section \<open>Whole directives\<close>

lemma dir_width:
  assumes "field_ok w" and "\<not> is_digit c" and "fl_width f = - 1" and "fl_precision f = - 1"
  shows "vpf_dir putch eh s esc (field_text w @ c # fmt) (field_args w @ ap) f =
    vpf_dir putch eh s esc (c # fmt) ap (f\<lparr>fl_width := of_int (field_value w)\<rparr>)"
  using assms(3,4) by (cases f) (simp add: dir_field [OF assms(1,2)] process_precision_def)

lemma dir_precision:
  assumes "case prec of None \<Rightarrow> True | Some p \<Rightarrow> p \<noteq> Absent \<and> field_ok p" and "\<not> is_digit c"
  shows "vpf_dir putch eh s esc ((case prec of None \<Rightarrow> [] | Some p \<Rightarrow> ''.'' @ field_text p) @ c # fmt)
      ((case prec of None \<Rightarrow> [] | Some p \<Rightarrow> field_args p) @ ap) f =
    vpf_dir putch eh s esc (c # fmt) ap
      (case prec of None \<Rightarrow> f
       | Some p \<Rightarrow> f\<lparr>fl_width := (if sint (fl_width f) < 0 then 0 else fl_width f), fl_precision := of_int (field_value p)\<rparr>)"
proof (cases prec)
  case (Some p)
  let ?f = "if sint (fl_width f) < 0 then f\<lparr>fl_width := 0\<rparr> else f"
  have p: "p \<noteq> Absent" "field_ok p" using assms(1) Some by simp_all
  have "vpf_dir putch eh s esc (''.'' @ field_text p @ c # fmt) (field_args p @ ap) f =
      vpf_dir putch eh s esc (field_text p @ c # fmt) (field_args p @ ap) ?f"
    by (simp add: vpf_dir.simps(2) [of _ _ _ _ "CHR ''.''"])
  also have "\<dots> = vpf_dir putch eh s esc (c # fmt) ap (process_precision ?f (of_int (field_value p)))"
    using p(1) by (simp only: dir_field [OF p(2) assms(2)] if_False)
  finally show ?thesis using Some by (cases f) (simp add: process_precision_def)
qed simp

lemma field_sint: "field_ok w \<Longrightarrow> sint (of_int (field_value w) :: u32) = field_value w \<and> - (2 ^ 30) \<le> field_value w"
  by (cases w) (simp_all add: signed_of_nat signed_take_bit_int_eq_self)

lemma no_digit: "\<not> is_digit (CHR ''.'')" "\<not> is_digit (CHR ''l'')" "\<not> is_digit (conversion_char cv)"
  by (simp_all add: is_digit_def) (cases cv; simp)

lemma longs_tail: "\<exists>c rest. replicate n (CHR ''l'') @ conversion_char cv # fmt = c # rest \<and> \<not> is_digit c"
  using no_digit by (cases n) auto

lemma precision_tail:
  "\<exists>c rest. (case prec of None \<Rightarrow> [] | Some p \<Rightarrow> ''.'' @ field_text p) @ replicate n (CHR ''l'') @ conversion_char cv # fmt = c # rest
     \<and> \<not> is_digit c"
  using longs_tail no_digit(1) by (cases prec) auto

lemma char_among: "(of_char c :: nat) \<in> of_char ` S \<Longrightarrow> c \<in> S"
  by (auto dest: of_char_eqI)

lemma directive_step:
  assumes "directive_ok d"
  shows "vpf putch (put_error putch) s (directive_text d @ fmt) (directive_args d @ ap) =
    vpf putch (put_error putch) (fold putch (directive_output d) s) fmt ap"
proof (cases d)
  case (Text c)
  then show ?thesis using assms by (simp add: vpf.simps)
next
  case Percent
  then show ?thesis by (simp add: vpf.simps vpf_dir.simps ascii_def)
next
  case (Unknown c)
  have "(of_char c :: nat) < 49 \<or> 57 < (of_char c :: nat)"
  proof (rule ccontr)
    assume "\<not> ?thesis"
    then have "(of_char c :: nat) \<in> {49, 50, 51, 52, 53, 54, 55, 56, 57}" by auto
    then have "(of_char c :: nat) \<in> of_char ` set ''123456789''" by simp
    then have "c \<in> set ''123456789''" by (rule char_among)
    then show False using assms Unknown by auto
  qed
  then show ?thesis using assms Unknown by (auto simp: vpf.simps vpf_dir.simps ascii_def)
next
  case (Conv pad alt width prec longs cv)
  have ok: "field_ok width" "case prec of None \<Rightarrow> True | Some p \<Rightarrow> p \<noteq> Absent \<and> field_ok p" "conversion_ok cv"
    using assms Conv by simp_all
  let ?v = "vpf_dir putch (put_error putch) s"
  define tl where "tl = replicate longs (CHR ''l'') @ conversion_char cv # fmt"
  define pt where "pt = (case prec of None \<Rightarrow> [] | Some p \<Rightarrow> ''.'' @ field_text p) @ tl"
  define pa where "pa = (case prec of None \<Rightarrow> [] | Some p \<Rightarrow> field_args p) @ conversion_arg cv # ap"
  define f0 where "f0 = flags0\<lparr>fl_padc := padding_char pad, fl_altflag := alt\<rparr>"
  define f1 where "f1 = f0\<lparr>fl_width := of_int (field_value width)\<rparr>"
  define f2 where "f2 = (case prec of None \<Rightarrow> f1
    | Some p \<Rightarrow> f1\<lparr>fl_width := (if sint (fl_width f1) < 0 then 0 else fl_width f1), fl_precision := of_int (field_value p)\<rparr>)"
  define f3 where "f3 = f2\<lparr>fl_lflag := fl_lflag f2 + of_nat longs\<rparr>"
  let ?esc = "padding_text pad @ (if alt then ''#'' else []) @ field_text width @ pt"
  obtain c rest where c: "tl = c # rest" "\<not> is_digit c" using longs_tail unfolding tl_def by blast
  obtain c' rest' where c': "pt = c' # rest'" "\<not> is_digit c'" using precision_tail unfolding pt_def tl_def by blast
  have flags: "fl_padc f3 = padding_char pad" "fl_altflag f3 = alt"
    by (simp_all add: f3_def f2_def f1_def f0_def split: option.split)
  have w: "- (2 ^ 30) \<le> sint (fl_width f3)" "nat (sint (fl_width f3)) = nat (field_value width)"
    using field_sint [OF ok(1)] by (auto simp: f3_def f2_def f1_def f0_def split: option.split)
  have p: "sint (fl_precision f3) = (case prec of None \<Rightarrow> - 1 | Some p \<Rightarrow> field_value p)"
    using ok(2) field_sint by (auto simp: f3_def f2_def f1_def f0_def flags0_def split: option.splits)
  have "?v ?esc ?esc (field_args width @ pa) flags0 =
      ?v ?esc ((if alt then ''#'' else []) @ field_text width @ pt) (field_args width @ pa) (flags0\<lparr>fl_padc := padding_char pad\<rparr>)"
    by (rule dir_padding)
  also have "\<dots> = ?v ?esc (field_text width @ pt) (field_args width @ pa) f0"
    unfolding f0_def by (subst dir_alt) (simp_all add: flags0_def)
  also have "\<dots> = ?v ?esc pt pa f1"
    unfolding c'(1) f1_def by (rule dir_width [OF ok(1) c'(2)]) (simp_all add: f0_def flags0_def)
  also have "\<dots> = ?v ?esc tl (conversion_arg cv # ap) f2"
    unfolding pt_def pa_def c(1) f2_def by (rule dir_precision [OF ok(2) c(2)])
  also have "\<dots> = ?v ?esc (conversion_char cv # fmt) (conversion_arg cv # ap) f3"
    unfolding tl_def f3_def by (rule dir_longs)
  also have "\<dots> = vpf putch (put_error putch)
      (fold putch (conversion_output pad alt (field_value width) (case prec of None \<Rightarrow> - 1 | Some p \<Rightarrow> field_value p) cv) s) fmt ap"
    unfolding dir_conversion [OF w(1) ok(3) flags] p by (simp only: conversion_output_width [OF w(2)])
  finally show ?thesis
    using Conv by (simp add: vpf.simps(2) [of _ _ _ "CHR ''%''"] pt_def tl_def pa_def)
qed

lemma vprintfmt_output:
  assumes "\<forall>d \<in> set ds. directive_ok d"
  shows "vprintfmt putch s (concat (map directive_text ds)) (concat (map directive_args ds)) =
    Some (fold putch (concat (map directive_output ds)) s)"
  using assms
  by (induction ds arbitrary: s) (simp_all add: vprintfmt_def vpf.simps directive_step)

lemma format_output:
  assumes "\<forall>d \<in> set ds. directive_ok d"
  shows "format (concat (map directive_text ds)) (concat (map directive_args ds)) = Some (concat (map directive_output ds))"
  unfolding format_def vprintfmt_output [OF assms] by simp

section \<open>The property\<close>



end
