(* ===== verification/Commands.thy ===== *)
theory Commands
  imports Monitor Directives
begin

text \<open>
  The monitor at work: \<^verbatim>\<open>lib/readline.c\<close>, the parser and the dispatch of \<^verbatim>\<open>kern/monitor.c\<close> put together
  on a machine whose input is what waits in the console ring. Here the routines return: a typed
  line is read, cut into words, and its command runs.
\<close>

section \<open>Input that waits in the ring\<close>

text \<open>No device has anything new; \<open>xs\<close> waits in the ring.\<close>

definition silent :: "machine \<Rightarrow> bool" where
  "silent M \<longleftrightarrow> (\<forall>k. dev M k 0x3FD AND 1 = 0 \<and> dev M k 0x64 AND 1 = 0)"

definition waiting :: "machine \<Rightarrow> u8 list \<Rightarrow> bool" where
  "waiting M xs \<longleftrightarrow> silent M \<and> ring_ok (cons M) \<and> ring_items (cons M) = xs \<and> 0 \<notin> set xs"

lemma silent_polls:
  assumes "silent M"
  shows "\<exists>k. serial_intr M = Some (M\<lparr>clk := k\<rparr>)" "\<exists>k. kbd_intr M = Some (M\<lparr>clk := k\<rparr>)"
proof -
  have st: "dev M (clk M) 0x3FD AND 1 = 0" "dev M (clk M) 0x64 AND 1 = 0" using assms by (simp_all add: silent_def)
  have "cons_intr serial_proc_data M = Some (M\<lparr>clk := clk M + 1\<rparr>)"
    using st(1) by (intro polls_cons_intr [OF polls.silent]) (simp add: serial_proc_data_def inb_def COM1_def)
  moreover have "M = M\<lparr>clk := clk M\<rparr>" by simp
  ultimately show "\<exists>k. serial_intr M = Some (M\<lparr>clk := k\<rparr>)" unfolding serial_intr_def by (metis (full_types))
  have "cons_intr kbd_proc_data M = Some (M\<lparr>clk := clk M + 1\<rparr>)"
    using st(2) by (intro polls_cons_intr [OF polls.silent]) (simp add: kbd_proc_data_def inb_def)
  then show "\<exists>k. kbd_intr M = Some (M\<lparr>clk := k\<rparr>)" by (auto simp: kbd_intr_def)
qed

lemma waiting_getchar:
  assumes "waiting M (x # xs)"
  shows "\<exists>M1. getchar M = Some (ucast x, M1) \<and> waiting M1 xs"
proof -
  have w: "silent M" "ring_ok (cons M)" "ring_items (cons M) = x # xs" "x \<noteq> 0" "0 \<notin> set xs"
    using assms by (auto simp: waiting_def)
  obtain k where s: "serial_intr M = Some (M\<lparr>clk := k\<rparr>)" using silent_polls(1) [OF w(1)] by blast
  have "silent (M\<lparr>clk := k\<rparr>)" using w(1) by (simp add: silent_def)
  then obtain l where kb: "kbd_intr (M\<lparr>clk := k\<rparr>) = Some (M\<lparr>clk := l\<rparr>)" using silent_polls(2) by force
  obtain r where r: "ring_get (cons M) = Some (x, r)" "ring_ok r" "ring_items r = xs"
    using ring_get_some [OF w(2,3)] by blast
  have "(ucast x :: u32) \<noteq> 0"
  proof
    assume "(ucast x :: u32) = 0"
    then have "unat x = 0" by (simp add: word_unat_eq_iff unat_ucast_wider)
    then show False using w(4) by (simp add: unat_eq_0)
  qed
  then have "getchar M = Some (ucast x, M\<lparr>clk := l, cons := r\<rparr>)"
    by (subst getchar.simps) (simp add: cons_getc_def s kb r(1))
  moreover have "waiting (M\<lparr>clk := l, cons := r\<rparr>) xs"
    using w r by (simp add: waiting_def silent_def)
  ultimately show ?thesis by blast
qed

lemma waiting_keeps:
  assumes "waiting M xs"
  shows "waiting (cputchar c M) xs" "waiting (echo c M) xs" "waiting (buf_write i x M) xs" "waiting (M\<lparr>ram := m\<rparr>) xs"
  using assms by (simp_all add: waiting_def silent_def echo_def buf_write_def)

lemma waiting_prints: "waiting M xs \<Longrightarrow> waiting (fold cputchar out M) xs"
  by (induction out arbitrary: M) (simp_all add: waiting_keeps)

section \<open>Reading a line\<close>

lemma ucast_inj8: "(ucast x :: u32) = ucast y \<longleftrightarrow> x = y" for x y :: u8
  by (simp add: word_unat_eq_iff unat_ucast_wider)

text \<open>A character that does not end the line is one step of the editor.\<close>

lemma rl_progress:
  assumes "getchar M = Some (c, M1)" and "c \<noteq> 10" and "c \<noteq> 13"
  shows "\<exists>j M2. rl_step (i, M) c (j, M2) \<and> readline_loop i M = readline_loop j M2 \<and>
    (M2 = M1 \<or> M2 = echo 8 M1 \<or> M2 = buf_write i (ucast c) (echo c M1))"
proof -
  have pos: "\<not> sint c < 0" using getchar_chars [OF assms(1)] by simp
  consider "(c = 8 \<or> c = 0x7F) \<and> 0 < sint i"
    | "\<not> ((c = 8 \<or> c = 0x7F) \<and> 0 < sint i)" "32 \<le> sint c \<and> sint i < int BUFLEN - 1"
    | "\<not> ((c = 8 \<or> c = 0x7F) \<and> 0 < sint i)" "\<not> (32 \<le> sint c \<and> sint i < int BUFLEN - 1)"
    by blast
  then show ?thesis
  proof cases
    case 1
    then show ?thesis using rl_step.erase [OF assms(1)] pos
      by (intro exI [of _ "i - 1"] exI [of _ "echo 8 M1"]) (subst readline_loop.simps, auto simp: assms(1))
  next
    case 2
    then show ?thesis using rl_step.insert [OF assms(1)] pos
      by (intro exI [of _ "i + 1"] exI [of _ "buf_write i (ucast c) (echo c M1)"])
        (subst readline_loop.simps, auto simp: assms(1))
  next
    case 3
    then show ?thesis using rl_step.ignore [OF assms(1)] assms(2,3) pos
      by (intro exI [of _ i] exI [of _ M1]) (subst readline_loop.simps, auto simp: assms(1))
  qed
qed

lemma readline_loop_typed:
  assumes "rl_rep (i, M) line" and "waiting M (cs @ c # rest)" and "c = 10 \<or> c = 13"
    and "10 \<notin> set cs" and "13 \<notin> set cs"
  shows "\<exists>M'. readline_loop i M = Some (readline_buf M, M') \<and>
    cstr (ram M') (readline_buf M) (fold edit (map ucast cs) line) \<and> waiting M' rest \<and> crt_ok M' \<and> buf_apart M'
    \<and> readline_buf M' = readline_buf M"
  using assms(1,2,4,5)
proof (induction cs arbitrary: i M line)
  case Nil
  obtain M1 where M1: "getchar M = Some (ucast c, M1)" "waiting M1 rest"
    using waiting_getchar Nil.prems(2) by fastforce
  have c: "(ucast c :: u32) = 10 \<or> (ucast c :: u32) = 13" using assms(3) by auto
  have end_line: "rl_end (i, M) (readline_buf M1, buf_write i 0 (echo 10 M1))"
    using M1(1) c by (auto simp: rl_end_def)
  have f: "frame M M1" using frame_getchar [OF M1(1)] by simp
  note r1 = rl_rep_frame [OF Nil.prems(1) f]
  note r2 = rl_rep_frame [OF conjunct1 [OF r1] frame_echo, of 10]
  have "readline_loop i M = Some (readline_buf M1, buf_write i 0 (echo 10 M1))"
    using c r2 r1 by (subst readline_loop.simps) (auto simp: M1(1) echo_def)
  then show ?case
    using rl_end_cstr [OF end_line Nil.prems(1)] waiting_keeps [OF M1(2)] waiting_keeps(3) r1 r2
    by (auto simp: buf_write_def rl_rep_def buf_apart_def waiting_keeps)
next
  case (Cons x cs)
  obtain M1 where M1: "getchar M = Some (ucast x, M1)" "waiting M1 (cs @ c # rest)"
    using waiting_getchar Cons.prems(2) by fastforce
  have x: "(ucast x :: u32) \<noteq> 10" "(ucast x :: u32) \<noteq> 13"
    using Cons.prems(3,4) ucast_inj8 [of x 10] ucast_inj8 [of x 13] by auto
  obtain j M2 where st: "rl_step (i, M) (ucast x) (j, M2)" "readline_loop i M = readline_loop j M2"
      "M2 = M1 \<or> M2 = echo 8 M1 \<or> M2 = buf_write i (ucast (ucast x :: u32)) (echo (ucast x) M1)"
    using rl_progress [OF M1(1) x] by blast
  have "waiting M2 (cs @ c # rest)" using st(3) M1(2) by (auto intro: waiting_keeps)
  moreover note rep = rl_step_rep [OF st(1) Cons.prems(1)]
  ultimately show ?case using Cons.IH [of j M2 "edit (ucast x) line"] Cons.prems(3,4) st(2) by simp
qed


lemma shown_plain: "shown False = char_int"
  by (auto simp: shown_def)

text \<open>The spaces behind a string that is longer than an \<^verbatim>\<open>int\<close> are an overflow of the width.\<close>

lemma format_s:
  "format ''%s'' [VStr (Some s)] =
     Some (map char_int s @ replicate (nat (sint (- 1 - of_nat (length s) :: u32))) 32)"
  by (simp add: format_def vprintfmt_def vpf.simps vpf_dir.simps flags0_def va_str_def put_str_fold str_text_def cut_def
      shown_plain del: fold_replicate)

lemma readline_waiting:
  assumes "waiting M (cs @ c # rest)" and "c = 10 \<or> c = 13" and "10 \<notin> set cs" and "13 \<notin> set cs"
    and "crt_ok M" and "buf_apart M"
  shows "\<exists>M'. readline prompt M = Some (readline_buf M, M') \<and>
    cstr (ram M') (readline_buf M) (fold edit (map ucast cs) []) \<and> waiting M' rest \<and> crt_ok M' \<and> buf_apart M' \<and>
    readline_buf M' = readline_buf M"
proof -
  obtain M0 where M0: "(case prompt of None \<Rightarrow> Some M | Some p \<Rightarrow> print ''%s'' [VStr (Some p)] M) = Some M0"
      "frame M M0" "waiting M0 (cs @ c # rest)"
  proof (cases prompt)
    case None
    then show ?thesis using that [of M] assms(1) by simp
  next
    case (Some p)
    obtain out where "format ''%s'' [VStr (Some p)] = Some out" using format_s by blast
    then have "print ''%s'' [VStr (Some p)] M = Some (fold cputchar out M)" by (simp add: print_fold)
    then show ?thesis
      using that [of "fold cputchar out M"] Some frame_print waiting_prints [OF assms(1)] by auto
  qed
  have "rl_rep (0, M) []" using assms(5,6) by (simp add: rl_rep_def BUFLEN_def)
  note r = rl_rep_frame [OF this M0(2)]
  show ?thesis
    using readline_loop_typed [OF conjunct1 [OF r] M0(3) assms(2-4)] M0(1) r by (simp add: readline_def)
qed

section \<open>The words of a line\<close>

function words :: "u8 list \<Rightarrow> u8 list list" where
  "words [] = []"
| "words (x # xs) =
     (if whitespace x then words xs
      else (x # takeWhile (\<lambda>c. \<not> whitespace c) xs) # words (dropWhile (\<lambda>c. \<not> whitespace c) xs))"
  by pat_completeness auto
termination
  by (relation "measure length") (auto simp: less_Suc_eq_le length_dropWhile_le)

lemma gobble_line:
  "cstr m buf xs \<Longrightarrow>
   \<exists>m'. gobble m buf = Some (buf + of_nat (length (takeWhile whitespace xs)), m') \<and>
     cstr m' (buf + of_nat (length (takeWhile whitespace xs))) (dropWhile whitespace xs) \<and>
     (\<forall>a. a \<notin> span buf (length xs) \<longrightarrow> m' a = m a) \<and> (\<forall>a. m' a = m a \<or> m' a = 0) \<and>
     (takeWhile whitespace xs \<noteq> [] \<longrightarrow> m' buf = 0)"
proof (induction xs arbitrary: m buf)
  case Nil
  then show ?case by (subst gobble.simps) simp
next
  case (Cons x xs)
  show ?case
  proof (cases "whitespace x")
    case False
    then show ?thesis using Cons.prems by (subst gobble.simps) simp
  next
    case True
    have "length (x # xs) < 2 ^ 64" by (rule cstr_short [OF Cons.prems])
    then have out: "buf \<notin> span (buf + 1) (Suc (length xs))" by (intro not_in_next_span) simp
    then have c: "cstr (m(buf := 0)) (buf + 1) xs" using Cons.prems by (simp add: cstr_upd)
    obtain m' where m': "gobble (m(buf := 0)) (buf + 1) =
          Some (buf + 1 + of_nat (length (takeWhile whitespace xs)), m')"
        "cstr m' (buf + 1 + of_nat (length (takeWhile whitespace xs))) (dropWhile whitespace xs)"
        "\<And>a. a \<notin> span (buf + 1) (length xs) \<Longrightarrow> m' a = (m(buf := 0)) a"
        "\<And>a. m' a = (m(buf := 0)) a \<or> m' a = 0"
      using Cons.IH [OF c] by blast
    have g: "gobble m buf = Some (buf + of_nat (length (takeWhile whitespace (x # xs))), m')"
      using Cons.prems True m'(1) by (subst gobble.simps) (simp add: add.assoc)
    have "m' a = m a" if "a \<notin> span buf (length (x # xs))" for a
      using that m'(3) [of a] by (auto simp: span_Suc)
    moreover have "m' a = m a \<or> m' a = 0" for a using m'(4) [of a] by (auto split: if_splits)
    moreover have "m' buf = 0" using m'(4) [of buf] by auto
    ultimately show ?thesis using g m'(2) True by (simp add: add.assoc)
  qed
qed

lemma scan_arg_line:
  "cstr m buf xs \<Longrightarrow> scan_arg m buf = Some (buf + of_nat (length (takeWhile (\<lambda>c. \<not> whitespace c) xs)))"
proof (induction xs arbitrary: buf)
  case Nil
  then show ?case by (subst scan_arg.simps) simp
next
  case (Cons x xs)
  then show ?case by (subst scan_arg.simps) (simp add: add.assoc)
qed

lemma words_skip: "words xs = words (dropWhile whitespace xs)"
  by (induction xs) simp_all


lemma parse_args_line:
  "cstr m buf xs \<Longrightarrow> length argv \<le> MAXARGS - 1 \<Longrightarrow>
   \<exists>r m'. parse_args m buf argv = Some (r, m') \<and> (\<forall>a. a \<notin> span buf (length xs) \<longrightarrow> m' a = m a) \<and>
     (\<forall>a. m' a = m a \<or> m' a = 0) \<and> (xs \<noteq> [] \<and> whitespace (hd xs) \<longrightarrow> m' buf = 0) \<and>
     (if length argv + length (words xs) \<le> MAXARGS - 1
      then \<exists>ps. r = Some (argv @ ps) \<and> list_all2 (cstr m') ps (words xs) else r = None)"
proof (induction "length xs" arbitrary: xs m buf argv rule: less_induct)
  case less
  let ?k = "length (takeWhile whitespace xs)" and ?b = "buf + of_nat (length (takeWhile whitespace xs))"
  let ?ys = "dropWhile whitespace xs"
  obtain m1 where m1: "gobble m buf = Some (?b, m1)" "cstr m1 ?b ?ys"
      "\<And>a. a \<notin> span buf (length xs) \<Longrightarrow> m1 a = m a" "\<And>a. m1 a = m a \<or> m1 a = 0"
      "takeWhile whitespace xs \<noteq> [] \<Longrightarrow> m1 buf = 0"
    using gobble_line [OF less.prems(1)] by blast
  have head: "xs \<noteq> [] \<and> whitespace (hd xs) \<Longrightarrow> m1 buf = 0" using m1(5) by (cases xs) auto
  show ?case
  proof (cases ?ys)
    case Nil
    have "m1 ?b = 0" "words xs = []" using m1(2) words_skip [of xs] unfolding Nil by simp_all
    then show ?thesis
      using m1 head less.prems(2) by (subst parse_args.simps) auto
  next
    case (Cons y yt)
    define w where "w = y # takeWhile (\<lambda>c. \<not> whitespace c) yt"
    define rest where "rest = dropWhile (\<lambda>c. \<not> whitespace c) yt"
    define b where "b = ?b"
    have y: "\<not> whitespace y" using Cons by (metis hd_dropWhile list.sel(1) list.simps(3))
    note m1 = m1 [folded b_def]
    have ne: "m1 b \<noteq> 0" using m1(2) unfolding Cons by auto
    have ws: "words xs = w # words rest" using words_skip [of xs] y unfolding Cons by (simp add: w_def rest_def)
    show ?thesis
    proof (cases "length argv = MAXARGS - 1")
      case True
      then show ?thesis
        using m1 ne head by (subst parse_args.simps) (auto simp: ws)
    next
      case False
      define b' where "b' = b + of_nat (length w)"
      have split: "?ys = w @ rest" using Cons by (simp add: w_def rest_def)
      have len: "length xs = ?k + length w + length rest"
        using arg_cong [OF takeWhile_dropWhile_id [of whitespace xs], of length]
          arg_cong [OF takeWhile_dropWhile_id [of "\<lambda>c. \<not> whitespace c" yt], of length]
        unfolding Cons w_def rest_def by (simp del: takeWhile_dropWhile_id)
      have c: "0 \<notin> set w" "bytes_at m1 b (length w) = w" "cstr m1 b' rest"
        using m1(2) unfolding split cstr_append b'_def by blast+
      have scan: "scan_arg m1 b = Some b'"
        using scan_arg_line [OF m1(2)] y unfolding Cons by (simp add: w_def b'_def)
      have "length rest < length xs" "length (argv @ [b]) \<le> MAXARGS - 1"
        using len less.prems(2) False by (simp_all add: w_def)
      note IH = less.hyps [OF this(1) c(3) this(2)]
      obtain r m2 where m2: "parse_args m1 b' (argv @ [b]) = Some (r, m2)"
          "\<And>a. a \<notin> span b' (length rest) \<Longrightarrow> m2 a = m1 a" "\<And>a. m2 a = m1 a \<or> m2 a = 0"
          "rest \<noteq> [] \<and> whitespace (hd rest) \<longrightarrow> m2 b' = 0"
          "if length (argv @ [b]) + length (words rest) \<le> MAXARGS - 1
           then \<exists>ps. r = Some ((argv @ [b]) @ ps) \<and> list_all2 (cstr m2) ps (words rest) else r = None"
        using IH by blast
      have small: "length xs < 2 ^ 64" by (rule cstr_short [OF less.prems(1)])
      have stop: "m2 b' = 0"
      proof (cases rest)
        case Nil
        have "m1 b' = 0" using c(3) unfolding Nil by simp
        moreover have "m2 b' = m1 b'" by (rule m2(2)) (simp only: Nil list.size span_0 empty_iff not_False_eq_True)
        ultimately show ?thesis by simp
      next
        case (Cons z zs)
        then have "whitespace z" unfolding rest_def by (metis dropWhile_eq_Cons_conv)
        then show ?thesis using m2(4) Cons by simp
      qed
      have "bytes_at m2 b (length w) = bytes_at m1 b (length w)"
        using span_disjoint [of "length w" "length rest" _ b] len small
        by (intro bytes_at_cong m2(2)) (simp add: b'_def)
      then have "cstr m2 b (w @ [])" unfolding cstr_append b'_def [symmetric] using c(1,2) stop by simp
      then have word: "cstr m2 b w" by simp
      have inside: "span b' (length rest) \<subseteq> span buf (length xs)"
        unfolding len add.assoc span_append [of buf ?k] span_append [of _ "length w"] b'_def b_def by blast
      have "m2 a = m a" if "a \<notin> span buf (length xs)" for a
      proof -
        have "a \<notin> span b' (length rest)" using that inside by blast
        then show ?thesis using m1(3) [OF that] m2(2) by simp
      qed
      moreover have "m2 a = m a \<or> m2 a = 0" for a using m1(4) [of a] m2(3) [of a] by auto
      moreover have "xs \<noteq> [] \<and> whitespace (hd xs) \<Longrightarrow> m2 buf = 0" using head m2(3) [of buf] by auto
      moreover have "parse_args m buf argv = Some (r, m2)"
        using m1(1) ne False scan m2(1) by (subst parse_args.simps) simp
      moreover have "if length argv + length (words xs) \<le> MAXARGS - 1
          then \<exists>ps. r = Some (argv @ ps) \<and> list_all2 (cstr m2) ps (words xs) else r = None"
        using m2(5) word by (auto simp: ws split: if_splits)
      ultimately show ?thesis by blast
    qed
  qed
qed


section \<open>Commands\<close>

text \<open>The calls of \<^verbatim>\<open>cprintf\<close> in the monitor all have the arguments that their formats ask for.\<close>

lemmas eval_format = format_def vprintfmt_def vpf.simps vpf_dir.simps flags0_def getint_def getuint_def va_str_def
  put_dec_def printnum_fold put_str_fold char_int_def process_precision_def

lemma prints_out:
  "\<forall>(fmt, ap) \<in> set ps. format fmt ap \<noteq> None \<Longrightarrow> \<exists>out. prints ps M = Some (fold cputchar out M)"
proof (induction ps arbitrary: M)
  case Nil
  have "prints [] M = Some (fold cputchar [] M)" by simp
  then show ?case by blast
next
  case (Cons p ps)
  obtain fmt ap where p: "p = (fmt, ap)" by (cases p)
  obtain o1 where o1: "format fmt ap = Some o1" using Cons.prems p by auto
  obtain o2 where "prints ps (fold cputchar o1 M) = Some (fold cputchar o2 (fold cputchar o1 M))"
    using Cons by fastforce
  then have "prints (p # ps) M = Some (fold cputchar (o1 @ o2) M)" by (simp add: p print_fold o1)
  then show ?case by blast
qed

subsection \<open>What the commands print\<close>

text \<open>The texts of the commands, spelled out apart from the formats of the code.\<close>

definition help_output :: "u32 list" where
  "help_output = ascii
     (''help - Display this list of commands'' @ nl @
      ''kerninfo - Display information about the kernel'' @ nl @
      ''backtrace - Display Stack Backtrace'' @ nl)"

text \<open>An address as at least 8 hexadecimal digits; the pair of a virtual address and the physical one behind it.\<close>

definition hex08 :: "u64 \<Rightarrow> u32 list" where
  "hex08 a = pad_left (CHR ''0'') 8 (numeral_of 16 (unat a))"

definition symbol_output :: "string \<Rightarrow> u64 \<Rightarrow> u32 list" where
  "symbol_output name a =
     ascii (''  '' @ name @ ''  '') @ hex08 a @ ascii '' (virt)  '' @ hex08 (a - 0x8004000000) @ ascii ('' (phys)'' @ nl)"

text \<open>The size of the kernel in kilobytes, rounded up, as a signed 64-bit number.\<close>

definition footprint :: "env \<Rightarrow> int" where
  "footprint E = signed_take_bit 63 ((sint (sym_end E - sym_entry E) + 1023) div 1024 * 1024) div 1024"

definition kerninfo_output :: "env \<Rightarrow> u32 list" where
  "kerninfo_output E =
     ascii (''Special kernel symbols:'' @ nl) @
     ascii (''  _start                  '') @ hex08 (sym_start E) @ ascii ('' (phys)'' @ nl) @
     symbol_output ''entry'' (sym_entry E) @ symbol_output ''etext'' (sym_etext E) @
     symbol_output ''edata'' (sym_edata E) @ symbol_output ''end  '' (sym_end E) @
     ascii (''Kernel executable memory footprint: '' @ decimal (footprint E) @ ''KB'' @ nl)"

text \<open>What the monitor prints for a line, by its words; the backtrace is not among these commands.\<close>

definition command_output :: "env \<Rightarrow> u8 list list \<Rightarrow> u32 list" where
  "command_output E ws =
     (if 15 < length ws then ascii (''Too many arguments (max 16)'' @ nl)
      else if ws = [] then []
      else if hd ws = lit ''help'' then help_output
      else if hd ws = lit ''kerninfo'' then kerninfo_output E
      else ascii (''Unknown command '' @ [CHR 0x27]) @ map scast (hd ws) @ ascii ([CHR 0x27] @ nl))"

subsection \<open>The commands print it\<close>

lemma print_directives:
  assumes "\<forall>d \<in> set ds. directive_ok d" and "fmt = concat (map directive_text ds)" and "ap = concat (map directive_args ds)"
    and "out = concat (map directive_output ds)"
  shows "print fmt ap M = Some (fold cputchar out M)"
  unfolding assms(2-4) print_fold format_output [OF assms(1)] by simp

abbreviation plain :: "string \<Rightarrow> directive list" where
  "plain s \<equiv> map Text s"

lemma plain_simps [simp]:
  "concat (map (directive_text \<circ> Text) s) = s" "concat (map (directive_args \<circ> Text) s) = []"
  "concat (map (directive_output \<circ> Text) s) = map of_char s"
  by (induction s) simp_all

abbreviation show_hex :: "u64 \<Rightarrow> directive" where
  "show_hex a \<equiv> Conv Zeros False (Written 8) None 0 (Hex a)"

abbreviation show_str :: "string \<Rightarrow> directive" where
  "show_str s \<equiv> Conv Blanks False Absent None 0 (String (Some s))"

abbreviation show_dec :: "u64 \<Rightarrow> directive" where
  "show_dec v \<equiv> Conv Blanks False Absent None 0 (Decimal v)"

lemma show_hex_simps: "directive_text (show_hex a) = ''%08x''" "directive_output (show_hex a) = hex08 a"
  by (simp_all add: hex08_def decimal_def digits.simps)

lemma show_str_simps: "directive_text (show_str s) = ''%s''" "directive_output (show_str s) = map char_int s"
  by (simp_all add: pad_left_def string_chars_def)

lemma show_dec_simps: "directive_text (show_dec v) = ''%d''" "directive_output (show_dec v) = ascii (decimal (sint v))"
proof -
  have "numeral_of 10 n = ascii (map (\<lambda>d. ''0123456789'' ! d) (digits 10 n))" for n
  proof -
    have "''0123456789abcdef'' ! d = ''0123456789'' ! d" if "d \<in> set (digits 10 n)" for d
    proof -
      have "d < 10" using digits_less that by simp
      then have "d \<in> {0, 1, 2, 3, 4, 5, 6, 7, 8, 9}" by auto
      then show ?thesis by auto
    qed
    then show ?thesis unfolding numeral_of_def by (intro arg_cong [of _ _ ascii] map_cong) simp_all
  qed
  then show "directive_output (show_dec v) = ascii (decimal (sint v))" by (simp add: pad_left_def decimal_def ascii_def)
qed simp

lemmas show_simps = show_hex_simps show_str_simps show_dec_simps

text \<open>Text of the program is ASCII, so its characters print as they are.\<close>

lemma mon_help_prints: "mon_help M = Some (0, fold cputchar help_output M)"
proof -
  have p: "print (''%s - %s'' @ nl) [VStr (Some a), VStr (Some b)] M =
      Some (fold cputchar (map char_int a @ ascii '' - '' @ map char_int b @ ascii nl) M)"
    if "length a < 2 ^ 30" "length b < 2 ^ 30" for a b M
    by (rule print_directives [of "[show_str a] @ plain '' - '' @ [show_str b] @ plain nl"])
      (use that in \<open>simp_all add: show_simps nl_def ascii_def del: directive_text.simps(4) directive_output.simps(4)\<close>)
  have h: "print (''%s - %s'' @ nl) [VStr (Some ''help''), VStr (Some ''Display this list of commands'')] M =
      Some (fold cputchar (map char_int ''help'' @ ascii '' - '' @ map char_int ''Display this list of commands'' @ ascii nl) M)"
    "print (''%s - %s'' @ nl) [VStr (Some ''kerninfo''), VStr (Some ''Display information about the kernel'')] M =
      Some (fold cputchar (map char_int ''kerninfo'' @ ascii '' - '' @ map char_int ''Display information about the kernel'' @ ascii nl) M)"
    "print (''%s - %s'' @ nl) [VStr (Some ''backtrace''), VStr (Some ''Display Stack Backtrace'')] M =
      Some (fold cputchar (map char_int ''backtrace'' @ ascii '' - '' @ map char_int ''Display Stack Backtrace'' @ ascii nl) M)" for M
    by (rule p; simp)+
  have out: "help_output = (map char_int ''help'' @ ascii '' - '' @ map char_int ''Display this list of commands'' @ ascii nl) @
      (map char_int ''kerninfo'' @ ascii '' - '' @ map char_int ''Display information about the kernel'' @ ascii nl) @
      (map char_int ''backtrace'' @ ascii '' - '' @ map char_int ''Display Stack Backtrace'' @ ascii nl)"
    by (simp add: help_output_def ascii_def char_int_def nl_def)
  show ?thesis
    unfolding mon_help_def commands_def out
    by (simp only: list.map prod.case prints.simps h Option.bind.simps option.map fold_append o_apply)
qed

lemma print_symbol:
  assumes "CHR ''%'' \<notin> set name"
  shows "print (''  '' @ name @ ''  %08x (virt)  %08x (phys)'' @ nl) [VInt a, VInt (a - KERNBASE)] M =
    Some (fold cputchar (symbol_output name a) M)"
  by (rule print_directives [of "plain (''  '' @ name @ ''  '') @ [show_hex a] @ plain '' (virt)  '' @ [show_hex (a - KERNBASE)] @
        plain ('' (phys)'' @ nl)"])
    (use assms in \<open>auto simp: show_simps symbol_output_def nl_def ascii_def KERNBASE_def simp del: directive_text.simps(4) directive_output.simps(4)\<close>)

text \<open>The rounded size, as the signed word that is divided.\<close>

lemma footprint_eq: "sint (of_int (sint (ROUNDUP (sym_end E - sym_entry E) 1024) sdiv 1024) :: u64) = footprint E"
proof -
  define d where "d = sym_end E - sym_entry E"
  define v where "v = (sint d + 1023) div 1024 * 1024"
  define r where "r = signed_take_bit 63 v"
  have "uint (d + 1023) mod 1024 = (sint d + 1023) mod 1024"
  proof -
    have "d + 1023 = of_int (sint d + 1023)" by simp
    then have "uint (d + 1023) = (sint d + 1023) mod 2 ^ 64" by (simp only: unsigned_of_int take_bit_eq_mod) simp
    then show ?thesis by (simp add: mod_mod_cancel)
  qed
  moreover have "(d + 1023) mod 1024 = of_int (uint (d + 1023) mod 1024)" by (simp add: word_mod_def)
  ultimately have "(d + 1023) mod 1024 = of_int ((sint d + 1023) mod 1024)" by simp
  moreover have "d + 1024 - 1 = d + 1023" by simp
  ultimately have "ROUNDUP d 1024 = of_int (sint d + 1023 - (sint d + 1023) mod 1024)"
    unfolding ROUNDUP_def ROUNDDOWN_def by (simp add: add.commute)
  also have "sint d + 1023 - (sint d + 1023) mod 1024 = v" by (simp add: v_def minus_mod_eq_div_mult)
  finally have s: "sint (ROUNDUP d 1024) = r" by (simp add: signed_of_int r_def)
  have "1024 dvd r"
  proof -
    have "r mod 1024 = take_bit 10 (signed_take_bit 63 v)" by (simp add: r_def take_bit_eq_mod)
    also have "\<dots> = take_bit 10 v" by (rule bit_eqI) (auto simp: bit_simps min_def)
    also have "\<dots> = 0" by (simp add: v_def take_bit_eq_mod)
    finally show ?thesis by auto
  qed
  then have q: "r sdiv 1024 = r div 1024"
    by (auto simp: signed_divide_int_def sgn_if elim!: dvdE)
  have "- (2 ^ 63) \<le> r" "r < 2 ^ 63" using signed_take_bit_int_greater_eq_minus_exp [of 63 v] signed_take_bit_int_less_exp [of 63 v]
    by (simp_all add: r_def)
  then have "signed_take_bit 63 (r div 1024) = r div 1024" by (intro signed_take_bit_int_eq_self) simp_all
  moreover have "footprint E = r div 1024" by (simp only: footprint_def r_def v_def d_def)
  ultimately show ?thesis unfolding d_def [symmetric] s q signed_of_int by simp
qed

lemma mon_kerninfo_prints: "mon_kerninfo E M = Some (0, fold cputchar (kerninfo_output E) M)"
proof -
  have p1: "print (''Special kernel symbols:'' @ nl) [] M = Some (fold cputchar (ascii (''Special kernel symbols:'' @ nl)) M)" for M
    by (rule print_directives [of "plain (''Special kernel symbols:'' @ nl)"]) (simp_all add: nl_def ascii_def)
  have p2: "print (''  _start                  %08x (phys)'' @ nl) [VInt a] M =
      Some (fold cputchar (ascii (''  _start                  '') @ hex08 a @ ascii ('' (phys)'' @ nl)) M)" for a M
    by (rule print_directives [of "plain (''  _start                  '') @ [show_hex a] @ plain ('' (phys)'' @ nl)"])
      (simp_all add: show_simps nl_def ascii_def del: directive_text.simps(4) directive_output.simps(4))
  have p3: "print (''Kernel executable memory footprint: %dKB'' @ nl) [VInt v] M =
      Some (fold cputchar (ascii (''Kernel executable memory footprint: '' @ decimal (sint v) @ ''KB'' @ nl)) M)" for v M
    by (rule print_directives [of "plain (''Kernel executable memory footprint: '') @ [show_dec v] @ plain (''KB'' @ nl)"])
      (simp_all add: show_simps nl_def ascii_def del: directive_text.simps(4) directive_output.simps(4))
  have p4: "print (''  '' @ name @ ''  %08x (virt)  %08x (phys)'' @ nl) [VInt a, VInt (a - KERNBASE)] M =
      Some (fold cputchar (symbol_output name a) M)"
    if "name \<in> {''entry'', ''etext'', ''edata'', ''end  ''}" for name a M
    by (rule print_symbol) (use that in auto)
  have out: "kerninfo_output E = ascii (''Special kernel symbols:'' @ nl) @
     (ascii (''  _start                  '') @ hex08 (sym_start E) @ ascii ('' (phys)'' @ nl)) @
     symbol_output ''entry'' (sym_entry E) @ symbol_output ''etext'' (sym_etext E) @
     symbol_output ''edata'' (sym_edata E) @ symbol_output ''end  '' (sym_end E) @
     ascii (''Kernel executable memory footprint: '' @
       decimal (sint (of_int (sint (ROUNDUP (sym_end E - sym_entry E) 1024) sdiv 1024) :: u64)) @ ''KB'' @ nl)"
    by (simp add: kerninfo_output_def footprint_eq)
  note p5 = p4 [of "''entry''", simplified] p4 [of "''etext''", simplified] p4 [of "''edata''", simplified] p4 [of "''end  ''", simplified]
  show ?thesis
    unfolding mon_kerninfo_def out
    by (simp add: p1 [simplified] p2 [simplified] p3 [simplified] p5)
qed

lemma print_too_many:
  "print (''Too many arguments (max %d)'' @ nl) [VInt (of_nat MAXARGS)] M =
    Some (fold cputchar (ascii (''Too many arguments (max 16)'' @ nl)) M)"
proof -
  have sixteen: "decimal 16 = ''16''" by (simp add: decimal_def digits.simps)
  show ?thesis
    by (rule print_directives [of "plain (''Too many arguments (max '') @ [show_dec 16] @ plain ('')'' @ nl)"])
      (simp_all add: show_simps sixteen nl_def ascii_def MAXARGS_def del: directive_text.simps(4) directive_output.simps(4))
qed

definition unknown_command :: "u8 list \<Rightarrow> string \<times> varg list" where
  "unknown_command w =
     (''Unknown command '' @ [CHR 0x27] @ ''%s'' @ [CHR 0x27] @ nl, [VStr (Some (map (\<lambda>x. char_of (unat x)) w))])"

lemma print_unknown:
  assumes "length w < 2 ^ 30"
  shows "print (fst (unknown_command w)) (snd (unknown_command w)) M =
    Some (fold cputchar (ascii (''Unknown command '' @ [CHR 0x27]) @ map scast w @ ascii ([CHR 0x27] @ nl)) M)"
proof -
  have "char_int (char_of (unat x)) = scast x" for x :: u8
  proof -
    have "unat x < 256" using unsigned_less [of x, where ?'a = nat] by simp
    then have "(of_char (char_of (unat x)) :: nat) = unat x" by simp
    then have "(of_nat (of_char (char_of (unat x))) :: u8) = x" by simp
    then have "(of_char (char_of (unat x)) :: u8) = x" by (simp only: of_nat_of_char)
    then show ?thesis by (simp add: char_int_def)
  qed
  then have chars: "map char_int (map (\<lambda>x. char_of (unat x)) w) = map scast w" by simp
  show ?thesis
    unfolding unknown_command_def fst_conv snd_conv
    by (rule print_directives [of "plain (''Unknown command '' @ [CHR 0x27]) @ [show_str (map (\<lambda>x. char_of (unat x)) w)] @ plain ([CHR 0x27] @ nl)"])
      (use assms chars in \<open>simp_all add: show_simps nl_def ascii_def del: directive_text.simps(4) directive_output.simps(4)\<close>)
qed

subsection \<open>Dispatch\<close>

lemma parse_args_start:
  assumes "cstr m buf xs"
  shows "\<exists>r m'. parse_args m buf [] = Some (r, m') \<and> (\<forall>a. a \<notin> span buf (length xs) \<longrightarrow> m' a = m a) \<and>
    (if length (words xs) \<le> MAXARGS - 1 then \<exists>ps. r = Some ps \<and> list_all2 (cstr m') ps (words xs) else r = None)"
proof -
  have "length ([] :: addr list) \<le> MAXARGS - 1" by simp
  from parse_args_line [OF assms this] show ?thesis unfolding append_Nil list.size add_0 by blast
qed

lemma string_at_cstr: "cstr m p xs \<Longrightarrow> string_at m p = Some (map (\<lambda>x. char_of (unat x)) xs)"
proof (induction xs arbitrary: p)
  case Nil
  then show ?case by (subst string_at.simps) simp
next
  case (Cons x xs)
  then show ?case by (subst string_at.simps) simp
qed

text \<open>What \<^verbatim>\<open>runcmd\<close> does with a line, by its words.\<close>

definition dispatch :: "env \<Rightarrow> u8 list list \<Rightarrow> machine \<Rightarrow> (u32 \<times> machine) option" where
  "dispatch E ws M =
     (if MAXARGS - 1 < length ws then
        map_option (\<lambda>M. (0, M)) (print (''Too many arguments (max %d)'' @ nl) [VInt (of_nat MAXARGS)] M)
      else if ws = [] then Some (0, M)
      else if hd ws = lit ''help'' then mon_help M
      else if hd ws = lit ''kerninfo'' then mon_kerninfo E M
      else if hd ws = lit ''backtrace'' then mon_backtrace E M
      else map_option (\<lambda>M. (0, M)) (print (fst (unknown_command (hd ws))) (snd (unknown_command (hd ws))) M))"

lemma runcmd_dispatches:
  assumes "cstr (ram M) buf xs"
  shows "\<exists>m'. runcmd E buf M = dispatch E (words xs) (M\<lparr>ram := m'\<rparr>) \<and>
    (\<forall>a. a \<notin> span buf (length xs) \<longrightarrow> m' a = ram M a)"
proof -
  obtain r m' where p: "parse_args (ram M) buf [] = Some (r, m')"
      "\<And>a. a \<notin> span buf (length xs) \<Longrightarrow> m' a = ram M a"
      "if length (words xs) \<le> MAXARGS - 1 then \<exists>ps. r = Some ps \<and> list_all2 (cstr m') ps (words xs) else r = None"
    using parse_args_start [OF assms] by blast
  have "runcmd E buf M = dispatch E (words xs) (M\<lparr>ram := m'\<rparr>)"
  proof (cases "length (words xs) \<le> MAXARGS - 1")
    case False
    then show ?thesis using p(1,3) by (simp add: runcmd_def dispatch_def)
  next
    case True
    then obtain ps where ps: "r = Some ps" "list_all2 (cstr m') ps (words xs)" using p(3) by auto
    show ?thesis
    proof (cases "words xs")
      case Nil
      then show ?thesis using p(1) ps by (simp add: runcmd_def dispatch_def)
    next
      case (Cons w ws)
      then obtain a as where a: "ps = a # as" "cstr m' a w" using ps(2) by (auto simp: list_all2_Cons2)
      have eq: "cstr m' a ys \<longleftrightarrow> w = ys" for ys using a(2) cstr_unique by blast
      show ?thesis
        using p(1) True string_at_cstr [OF a(2)]
        by (simp add: runcmd_def dispatch_def Cons ps(1) a(1) eq unknown_command_def)
    qed
  qed
  then show ?thesis using p(2) by blast
qed

definition runs_backtrace :: "u8 list list \<Rightarrow> bool" where
  "runs_backtrace ws \<longleftrightarrow> ws \<noteq> [] \<and> length ws \<le> 15 \<and> hd ws = lit ''backtrace''"

lemma dispatch_prints:
  assumes "\<not> runs_backtrace ws" and "ws \<noteq> [] \<Longrightarrow> length (hd ws) < 2 ^ 30"
  shows "dispatch E ws M = Some (0, fold cputchar (command_output E ws) M)"
proof (cases "ws = []")
  case True
  then show ?thesis by (simp add: dispatch_def command_output_def)
next
  case False
  then have "length (hd ws) < 2 ^ 30" by (rule assms(2))
  note unknown = print_unknown [OF this]
  have *: "runs_backtrace ws \<longleftrightarrow> \<not> MAXARGS - 1 < length ws \<and> hd ws = lit ''backtrace''" "MAXARGS - 1 = 15"
    using False by (auto simp: runs_backtrace_def MAXARGS_def)
  show ?thesis
    using assms(1) False
    unfolding dispatch_def command_output_def print_too_many mon_help_prints mon_kerninfo_prints unknown * option.map by (simp only: if_True if_False HOL.simp_thms split: if_split) blast
qed

lemma words_length: "w \<in> set (words xs) \<Longrightarrow> length w \<le> length xs"
proof (induction xs rule: words.induct)
  case (2 x xs)
  then show ?case
    using length_takeWhile_le [of "\<lambda>c. \<not> whitespace c" xs] length_dropWhile_le [of "\<lambda>c. \<not> whitespace c" xs]
    by (fastforce split: if_splits)
qed simp

lemma edited_length: "length line < BUFLEN \<Longrightarrow> length (fold edit cs line) < BUFLEN"
  by (induction cs arbitrary: line) (simp_all add: edit_def BUFLEN_def)

section \<open>Properties\<close>

text \<open>
  C10. The parser of \<^verbatim>\<open>runcmd\<close> ends on every NUL-terminated line, writes only inside it, and cuts it at white
  space: the arguments are the words of the line in their order, each NUL-terminated in place, or the line
  is refused when it has more than 15 words.
\<close>

theorem parse_args_words:
  assumes "cstr m buf xs"
  shows "\<exists>r m'. parse_args m buf [] = Some (r, m') \<and> (\<forall>a. a \<notin> span buf (length xs) \<longrightarrow> m' a = m a) \<and>
    (if length (words xs) \<le> 15 then \<exists>ps. r = Some ps \<and> list_all2 (cstr m') ps (words xs) else r = None)"
  using parse_args_start [OF assms] unfolding MAXARGS_def by simp

theorem parse_args_words_witness:
  "\<exists>ps m'. parse_args (store (\<lambda>_. 0) 100 (lit '' ls  -l'')) 100 [] = Some (Some ps, m') \<and>
     list_all2 (cstr m') ps [lit ''ls'', lit ''-l'']"
proof -
  have "cstr (store (\<lambda>_. 0) 100 (lit '' ls  -l'')) 100 (lit '' ls  -l'')"
    by (simp add: lit_def)
  from parse_args_words [OF this] show ?thesis
    by (auto simp: lit_def whitespace_def split: if_splits)
qed

text \<open>
  C9. One round of the monitor: with a line waiting in the ring and silent devices, \<^verbatim>\<open>readline\<close> returns the line
  as the user edited it, and \<^verbatim>\<open>runcmd\<close> runs the command that its first word names, on a memory that differs from the
  one before only inside the line. For \<^verbatim>\<open>backtrace\<close> this is \<^verbatim>\<open>mon_backtrace\<close>, whose chain of frames may be endless. For
  every other line \<^verbatim>\<open>runcmd\<close> returns 0 having put out exactly the text of the command: the list of commands, the
  symbols of the kernel and its size, the complaint about too many words or about an unknown one, or nothing
  for a blank line. The machine is then ready for the next round with the rest of the input.
\<close>

theorem monitor_round:
  assumes "waiting M (cs @ c # rest)" and "c = 10 \<or> c = 13" and "10 \<notin> set cs" and "13 \<notin> set cs"
    and "crt_ok M" and "buf_apart M" and "line = fold edit (map ucast cs) []"
  shows "\<exists>M1 m'. readline (Some ''K> '') M = Some (readline_buf M, M1) \<and> cstr (ram M1) (readline_buf M) line \<and>
    waiting M1 rest \<and> (\<forall>a. a \<notin> span (readline_buf M) (length line) \<longrightarrow> m' a = ram M1 a) \<and>
    (if runs_backtrace (words line) then runcmd E (readline_buf M) M1 = mon_backtrace E (M1\<lparr>ram := m'\<rparr>)
     else let M2 = fold cputchar (command_output E (words line)) (M1\<lparr>ram := m'\<rparr>)
          in runcmd E (readline_buf M) M1 = Some (0, M2) \<and> waiting M2 rest \<and> crt_ok M2 \<and> buf_apart M2)"
proof -
  obtain M1 where M1: "readline (Some ''K> '') M = Some (readline_buf M, M1)" "cstr (ram M1) (readline_buf M) line"
      "waiting M1 rest" "crt_ok M1" "buf_apart M1"
    using readline_waiting [OF assms(1-6)] unfolding assms(7) by blast
  obtain m' where run: "runcmd E (readline_buf M) M1 = dispatch E (words line) (M1\<lparr>ram := m'\<rparr>)"
      "\<forall>a. a \<notin> span (readline_buf M) (length line) \<longrightarrow> m' a = ram M1 a"
    using runcmd_dispatches [OF M1(2)] by blast
  have "length line < BUFLEN" unfolding assms(7) by (rule edited_length) (simp add: BUFLEN_def)
  then have len: "words line \<noteq> [] \<Longrightarrow> length (hd (words line)) < 2 ^ 30"
    using words_length [of "hd (words line)" line] by (fastforce simp: BUFLEN_def)
  let ?M2 = "fold cputchar (command_output E (words line)) (M1\<lparr>ram := m'\<rparr>)"
  have f: "frame M (fold cputchar out M)" for out M
  proof (induction out arbitrary: M)
    case (Cons c out)
    then show ?case using frame_trans [OF frame_cputchar [of M c]] by simp
  qed simp
  have "crt_ok (M1\<lparr>ram := m'\<rparr>)" "buf_apart (M1\<lparr>ram := m'\<rparr>)"
    using M1(4,5) by (simp_all add: crt_ok_def buf_apart_def)
  then have ready: "crt_ok ?M2" "buf_apart ?M2" "waiting ?M2 rest"
    using f [of "M1\<lparr>ram := m'\<rparr>"] waiting_prints [OF waiting_keeps(4) [OF M1(3)]]
    by (auto simp: frame_def frame0_def buf_apart_def)
  have "if runs_backtrace (words line) then runcmd E (readline_buf M) M1 = mon_backtrace E (M1\<lparr>ram := m'\<rparr>)
     else runcmd E (readline_buf M) M1 = Some (0, ?M2)"
    using run(1) dispatch_prints [OF _ len] by (auto simp: dispatch_def runs_backtrace_def MAXARGS_def lit_def)
  then show ?thesis using M1(1-3) run(2) ready unfolding Let_def by (intro exI [of _ M1] exI [of _ m']) auto
qed

text \<open>The line \<^verbatim>\<open>hi\<close>, mistyped once, in the ring of the machine at rest.\<close>

definition typed_line :: machine where
  "typed_line = quiet\<lparr>cons := \<lparr>cbuf = [104, 105, 120, 8, 10] @ replicate 507 0, rpos = 0, wpos = 5\<rparr>\<rparr>"

theorem monitor_round_witness:
  "\<forall>E. \<exists>M1 m'. readline (Some ''K> '') typed_line = Some (0x8004300000, M1) \<and> cstr (ram M1) 0x8004300000 (lit ''hi'') \<and>
     runcmd E 0x8004300000 M1 =
       Some (0, fold cputchar (ascii (''Unknown command '' @ [CHR 0x27] @ ''hi'' @ [CHR 0x27] @ nl)) (M1\<lparr>ram := m'\<rparr>))"
proof
  fix E
  have "ring_items (cons typed_line) = [104, 105, 120, 8, 10]"
    by (simp add: ring_items_def ring_count_def typed_line_def CONSBUFSIZE_def upt_conv_Cons)
  then have w: "waiting typed_line ([104, 105, 120, 8] @ 10 # [])"
    by (simp add: waiting_def silent_def ring_ok_def typed_line_def quiet_def CONSBUFSIZE_def)
  have ed: "lit ''hi'' = fold edit (map ucast [104, 105, 120, 8 :: u8]) []"
    by (simp add: edit_def BUFLEN_def lit_def)
  have ok: "crt_ok typed_line" using quiet_crt_ok by (simp add: typed_line_def crt_ok_def)
  have ap: "buf_apart typed_line" using newline_waiting_apart by (simp add: buf_apart_def typed_line_def newline_waiting_def)
  have ws: "words (lit ''hi'') = [lit ''hi'']" by (simp add: lit_def whitespace_def)
  have no: "\<not> runs_backtrace [lit ''hi'']" by (simp add: runs_backtrace_def lit_def)
  have out: "command_output E [lit ''hi''] = ascii (''Unknown command '' @ [CHR 0x27] @ ''hi'' @ [CHR 0x27] @ nl)"
    by (simp add: command_output_def lit_def ascii_def)
  have buf: "readline_buf typed_line = 0x8004300000" by (simp add: typed_line_def quiet_def)
  show "\<exists>M1 m'. readline (Some ''K> '') typed_line = Some (0x8004300000, M1) \<and> cstr (ram M1) 0x8004300000 (lit ''hi'') \<and>
     runcmd E 0x8004300000 M1 =
       Some (0, fold cputchar (ascii (''Unknown command '' @ [CHR 0x27] @ ''hi'' @ [CHR 0x27] @ nl)) (M1\<lparr>ram := m'\<rparr>))"
    using monitor_round [OF w _ _ _ ok ap ed, of E] no unfolding ws out buf Let_def by auto
qed

end
