(* ===== verification/Backtrace.thy ===== *)
theory Backtrace
  imports Commands
begin

text \<open>
  The backtrace of \<^verbatim>\<open>kern/monitor.c\<close> on a stack as compiled code leaves it: every saved frame pointer points to
  the pair of the next saved frame pointer and the return address, the chain ends with a null pointer, and
  \<^verbatim>\<open>debuginfo_rip\<close> answers for every return address. The text that the loop prints is described by the list of its
  \<^verbatim>\<open>cprintf\<close> calls.
\<close>

section \<open>Stacks\<close>

text \<open>The memories that differ from that of \<open>M\<close> only on the text screen, where output goes.\<close>

definition off_screen :: "machine \<Rightarrow> mem \<Rightarrow> bool" where
  "off_screen M m \<longleftrightarrow> (\<forall>a. a \<notin> span (crt_buf M) (2 * CRT_SIZE) \<longrightarrow> m a = ram M a)"

text \<open>A 64-bit slot outside the screen.\<close>

definition slot :: "machine \<Rightarrow> addr \<Rightarrow> u64 \<Rightarrow> bool" where
  "slot M a v \<longleftrightarrow> span a 8 \<inter> span (crt_buf M) (2 * CRT_SIZE) = {} \<and> peek64 (ram M) a = v"

record stack_frame =
  sf_next :: u64
  sf_ret :: u64
  sf_info :: ripdebuginfo
  sf_file :: "u8 list"
  sf_name :: "u8 list"
  sf_args :: "u64 list"

text \<open>
  What the look-up of an address gives: the information, and the strings that it points to. \<open>info\<close> is what the
  structure holds before; \<^verbatim>\<open>debuginfo_rip\<close> leaves the sizes beyond the last argument in it.
\<close>

definition resolves :: "env \<Rightarrow> machine \<Rightarrow> u64 \<Rightarrow> ripdebuginfo \<Rightarrow> ripdebuginfo \<Rightarrow> u8 list \<Rightarrow> u8 list \<Rightarrow> bool" where
  "resolves E M addr info info' file name \<longleftrightarrow> 0 \<le> sint (ri_fn_narg info') \<and>
     (\<forall>m. off_screen M m \<longrightarrow>
        (\<exists>r d. debuginfo_rip m (sections E) (unknown_lit E) (cu_junk E) (die_junk E) addr info = Some (r, info', d))
        \<and> cstr m (ri_file info') file \<and> cstr m (ri_fn_name info') name)"

text \<open>The slots that are shown as arguments lie three slots behind the saved frame pointer.\<close>

fun stack_at :: "env \<Rightarrow> machine \<Rightarrow> addr \<Rightarrow> ripdebuginfo \<Rightarrow> stack_frame list \<Rightarrow> bool" where
  "stack_at E M x info [] = (x = 0)"
| "stack_at E M x info (f # fs) =
     (x \<noteq> 0 \<and> slot M x (sf_next f) \<and> slot M (x + 8) (sf_ret f)
      \<and> resolves E M (sf_ret f) info (sf_info f) (sf_file f) (sf_name f)
      \<and> length (sf_args f) = unat (ri_fn_narg (sf_info f))
      \<and> (\<forall>i<length (sf_args f). slot M (x + 8 * (3 + of_nat i)) (sf_args f ! i))
      \<and> stack_at E M (sf_next f) (sf_info f) fs)"

section \<open>The text\<close>

definition text_of :: "u8 list \<Rightarrow> string" where
  "text_of xs = map (\<lambda>x. char_of (unat x)) xs"

definition frame_calls ::
    "u64 \<Rightarrow> u64 \<Rightarrow> ripdebuginfo \<Rightarrow> u8 list \<Rightarrow> u8 list \<Rightarrow> u64 list \<Rightarrow> (string \<times> varg list) list" where
  "frame_calls rbp rip info file name args =
     [(''rbp %016x rip %016x'', [VInt rbp, VInt rip]),
      (nl @ ''%s:%d:  %s+%016x args:%d '',
       [VStr (Some (text_of file)), VInt (ucast (ri_line info)), VStr (Some (text_of name)),
        VInt (rip - ri_fn_addr info), VInt (ucast (ri_fn_narg info))])]
     @ map (\<lambda>v. (''%016x '', [VInt (drop_bit 32 v)])) args @ [(nl, [])]"

definition stack_calls :: "stack_frame list \<Rightarrow> (string \<times> varg list) list" where
  "stack_calls fs =
     concat (map (\<lambda>f. frame_calls (sf_next f) (sf_ret f) (sf_info f) (sf_file f) (sf_name f) (sf_args f)) fs)"

section \<open>One frame\<close>

lemma prints_append: "prints (ps @ qs) M = Option.bind (prints ps M) (prints qs)"
proof (induction ps arbitrary: M)
  case (Cons p ps)
  then show ?case by (cases p; cases "print (fst p) (snd p) M") simp_all
qed simp

lemma prints_single: "prints [c] M = print (fst c) (snd c) M"
  by (cases c; cases "print (fst c) (snd c) M") simp_all

lemma frame_prints: "prints ps M = Some M' \<Longrightarrow> frame M M'"
proof (induction ps M rule: prints.induct)
  case (2 fmt ap ps M)
  then show ?case by (auto simp: bind_eq_Some_conv intro: frame_trans frame_print)
qed simp

text \<open>What printing keeps of the stack.\<close>

definition same_stack :: "machine \<Rightarrow> machine \<Rightarrow> bool" where
  "same_stack M0 M \<longleftrightarrow> crt_ok M \<and> off_screen M0 (ram M) \<and> crt_buf M = crt_buf M0"

lemma same_stack_refl: "crt_ok M \<Longrightarrow> same_stack M M"
  by (simp add: same_stack_def off_screen_def)

lemma same_stack_frame: "same_stack M0 M \<Longrightarrow> frame M M' \<Longrightarrow> same_stack M0 M'"
  by (auto simp: same_stack_def off_screen_def frame_def frame0_def)

lemma same_stack_print: "same_stack M0 M \<Longrightarrow> print fmt ap M = Some M' \<Longrightarrow> same_stack M0 M'"
  by (blast intro: same_stack_frame frame_print)

lemma slot_screen:
  assumes "slot M0 a v" and "off_screen M0 m"
  shows "peek64 m a = v"
proof -
  have "bytes_at m a 8 = bytes_at (ram M0) a 8"
    using assms by (intro bytes_at_cong) (auto simp: slot_def off_screen_def)
  then show ?thesis using assms(1) by (simp add: slot_def peek64_def)
qed

lemma slot_peek: "slot M0 a v \<Longrightarrow> same_stack M0 M \<Longrightarrow> peek64 (ram M) a = v"
  using slot_screen same_stack_def by blast

lemma frame_calls_formats: "(fmt, ap) \<in> set (frame_calls rbp rip info file name args) \<Longrightarrow> format fmt ap \<noteq> None"
proof -
  have "format ''rbp %016x rip %016x'' [VInt a, VInt b] \<noteq> None" "format ''%016x '' [VInt a] \<noteq> None" "format nl [] \<noteq> None"
    for a b by (simp_all add: eval_format nl_def)
  moreover have "format (nl @ ''%s:%d:  %s+%016x args:%d '') [VStr (Some s), VInt a, VStr (Some t), VInt b, VInt c] \<noteq> None"
    for s t a b c by (simp add: eval_format nl_def del: fold_replicate)
  ultimately show "(fmt, ap) \<in> set (frame_calls rbp rip info file name args) \<Longrightarrow> format fmt ap \<noteq> None"
    by (auto simp: frame_calls_def)
qed

text \<open>The parts of one round are the calls in order.\<close>

lemma print_info_calls:
  assumes "cstr (ram M) (ri_file info) file" and "cstr (ram M) (ri_fn_name info) name"
  shows "print_info info y M = prints [(nl @ ''%s:%d:  %s+%016x args:%d '',
       [VStr (Some (text_of file)), VInt (ucast (ri_line info)), VStr (Some (text_of name)),
        VInt (y - ri_fn_addr info), VInt (ucast (ri_fn_narg info))])] M"
  using string_at_cstr [OF assms(1)] string_at_cstr [OF assms(2)]
  by (simp add: print_info_def text_of_def prints_single del: prints.simps)

lemma print_args_calls:
  assumes "same_stack M0 M" and "unat count = length vs" and "k + length vs < 2 ^ 31"
    and "\<And>i m. i < length vs \<Longrightarrow> off_screen M0 m \<Longrightarrow> arg m (of_nat (k + i)) = vs ! i"
  shows "print_args arg count (of_nat k) M = prints (map (\<lambda>v. (''%016x '', [VInt (drop_bit 32 v)])) vs) M"
  using assms
proof (induction vs arbitrary: count k M)
  case Nil
  then have "count = 0" by (simp add: unat_eq_0)
  then show ?case by (subst print_args.simps) simp
next
  case (Cons v vs)
  have ne: "count \<noteq> 0" using Cons.prems(2) by auto
  then have count: "count \<noteq> 0" "unat (count - 1) = length vs" using unat_pred [OF ne] Cons.prems(2) by simp_all
  have k: "(scast (of_nat k :: u32) :: u64) = of_nat k" using Cons.prems(3) by (intro scast_len) simp
  have v: "arg (ram M) (of_nat k) = v"
    using Cons.prems(4) [of 0 "ram M"] Cons.prems(1) by (simp add: same_stack_def)
  have "print_args arg (count - 1) (of_nat (Suc k)) M' = prints (map (\<lambda>v. (''%016x '', [VInt (drop_bit 32 v)])) vs) M'"
    if "print ''%016x '' [VInt (drop_bit 32 v)] M = Some M'" for M'
  proof (rule Cons.IH)
    show "same_stack M0 M'" by (rule same_stack_print [OF Cons.prems(1) that])
    show "arg m (of_nat (Suc k + i)) = vs ! i" if "i < length vs" "off_screen M0 m" for i m
      using Cons.prems(4) [of "Suc i" m] that by simp
  qed (use Cons.prems(3) count in simp_all)
  then show ?case
    using count(1) v by (subst print_args.simps)
      (cases "print ''%016x '' [VInt (drop_bit 32 v)] M"; simp add: k add.commute)
qed

text \<open>The calls from the line of the frame on to its end.\<close>

lemma frame_rest:
  assumes "same_stack M0 M" and "resolves E M0 y info info' file name"
    and "length vs = unat (ri_fn_narg info')"
    and "\<And>i m. i < length vs \<Longrightarrow> off_screen M0 m \<Longrightarrow> arg m (of_nat i) = vs ! i"
    and rip: "\<And>M1. same_stack M0 M1 \<Longrightarrow> rip M1 = y"
  shows "Option.bind (print ''rbp %016x rip %016x'' [VInt x, VInt y] M) (\<lambda>M.
      Option.bind (print_info info' (rip M) M) (\<lambda>M.
      Option.bind (print_args arg (scast (ri_fn_narg info')) 0 M) (\<lambda>M.
      Option.bind (print nl [] M) f)))
    = Option.bind (prints (frame_calls x y info' file name vs) M) f"
proof -
  have n: "unat (scast (ri_fn_narg info') :: u64) = length vs" "0 + length vs < 2 ^ 31"
  proof -
    have pos: "0 \<le> sint (ri_fn_narg info')" using assms(2) by (simp add: resolves_def)
    then have "int (unat (ri_fn_narg info')) = sint (ri_fn_narg info')" by (simp only: sint_pos)
    moreover have "sint (ri_fn_narg info') < 2 ^ 31" using sint_lt [of "ri_fn_narg info'"] by simp
    ultimately have "int (unat (ri_fn_narg info')) < int (2 ^ 31)" by simp
    then show "0 + length vs < 2 ^ 31" unfolding assms(3) of_nat_less_iff by simp
    then show "unat (scast (ri_fn_narg info') :: u64) = length vs"
      unfolding scast_pos [OF pos] assms(3) by (intro unat_of_nat64) simp
  qed
  have info: "cstr (ram M1) (ri_file info') file \<and> cstr (ram M1) (ri_fn_name info') name" if "same_stack M0 M1" for M1
    using assms(2) that unfolding resolves_def same_stack_def by blast
  define c1 where "c1 = (''rbp %016x rip %016x'', [VInt x, VInt y])"
  define c2 where "c2 = (nl @ ''%s:%d:  %s+%016x args:%d '',
       [VStr (Some (text_of file)), VInt (ucast (ri_line info')), VStr (Some (text_of name)),
        VInt (y - ri_fn_addr info'), VInt (ucast (ri_fn_narg info'))])"
  define cs where "cs = map (\<lambda>v. (''%016x '', [VInt (drop_bit 32 v)])) vs"
  have calls: "frame_calls x y info' file name vs = [c1] @ [c2] @ cs @ [(nl, [])]"
    by (simp add: frame_calls_def c1_def c2_def cs_def)
  have p1: "print ''rbp %016x rip %016x'' [VInt x, VInt y] M = prints [c1] M" by (simp add: c1_def prints_single del: prints.simps)
  show ?thesis unfolding calls prints_append p1
  proof (cases "prints [c1] M")
    case (Some M1)
    then have s1: "same_stack M0 M1" by (metis assms(1) frame_prints same_stack_frame)
    have p2: "print_info info' (rip M1) M1 = prints [c2] M1"
      unfolding c2_def rip [OF s1] using info [OF s1] by (intro print_info_calls) simp_all
    have p3: "print_args arg (scast (ri_fn_narg info')) 0 M2 = prints cs M2" if "prints [c2] M1 = Some M2" for M2
    proof -
      have "same_stack M0 M2" by (metis s1 that frame_prints same_stack_frame)
      from print_args_calls [OF this n, of arg] assms(4) show ?thesis by (simp add: cs_def)
    qed
    show "Option.bind (prints [c1] M) (\<lambda>M. Option.bind (print_info info' (rip M) M) (\<lambda>M.
        Option.bind (print_args arg (scast (ri_fn_narg info')) 0 M) (\<lambda>M. Option.bind (print nl [] M) f)))
      = Option.bind (Option.bind (prints [c1] M) (\<lambda>M. Option.bind (prints [c2] M) (\<lambda>M.
          Option.bind (prints cs M) (prints [(nl, [])])))) f"
      using Some p2 p3 by (cases "prints [c2] M1") simp_all
  qed simp
qed

section \<open>The whole backtrace\<close>

lemma look_up_resolves:
  "resolves E M0 addr info info' file name \<Longrightarrow> same_stack M0 M \<Longrightarrow> look_up E addr info M = Some info'"
  unfolding resolves_def same_stack_def look_up_def by fastforce

lemma backtrace_loop_calls:
  "stack_at E M0 x info fs \<Longrightarrow> same_stack M0 M \<Longrightarrow> backtrace_loop E x info M = prints (stack_calls fs) M"
proof (induction fs arbitrary: x info M)
  case Nil
  then show ?case by (subst backtrace_loop.simps) (simp add: stack_calls_def)
next
  case (Cons f fs)
  note st = Cons.prems(1) [unfolded stack_at.simps] and same = Cons.prems(2)
  have x: "x \<noteq> 0" and ret: "peek64 (ram M') (x + 8) = sf_ret f" and nxt: "peek64 (ram M') x = sf_next f"
    if "same_stack M0 M'" for M'
    using st that slot_peek by blast+
  have look: "look_up E (sf_ret f) info M = Some (sf_info f)" using st same look_up_resolves by blast
  have args: "peek64 m (x + 8 * (3 + of_nat i)) = sf_args f ! i" if "i < length (sf_args f)" "off_screen M0 m" for i m
    using st that slot_screen by blast
  let ?c = "frame_calls (sf_next f) (sf_ret f) (sf_info f) (sf_file f) (sf_name f) (sf_args f)"
  have len: "length (sf_args f) = unat (ri_fn_narg (sf_info f))"
    and res: "resolves E M0 (sf_ret f) info (sf_info f) (sf_file f) (sf_name f)" using st by blast+
  have "backtrace_loop E x info M =
      Option.bind (prints ?c M) (\<lambda>M. backtrace_loop E (peek64 (ram M) x) (sf_info f) M)"
    using frame_rest [OF same res len, of "\<lambda>m i. peek64 m (x + 8 * (3 + i))" "\<lambda>M. peek64 (ram M) (x + 8)" "sf_next f"
        "\<lambda>M. backtrace_loop E (peek64 (ram M) x) (sf_info f) M"] args ret x [OF same] look
    by (subst backtrace_loop.simps) (simp add: ret [OF same] nxt [OF same])
  moreover have "backtrace_loop E (peek64 (ram M') x) (sf_info f) M' = prints (stack_calls fs) M'"
    if "prints ?c M = Some M'" for M'
  proof -
    have s: "same_stack M0 M'" by (rule same_stack_frame [OF same frame_prints [OF that]])
    then show ?thesis using st Cons.IH [OF _ s] nxt [OF s] by simp
  qed
  ultimately show ?case by (cases "prints ?c M") (simp_all add: stack_calls_def prints_append)
qed

text \<open>
  Everything that \<^verbatim>\<open>mon_backtrace\<close> prints: first its own position, with numbers next to it in place of
  arguments, and then the frames of the stack.
\<close>

definition backtrace_calls ::
    "u64 \<Rightarrow> ripdebuginfo \<Rightarrow> u8 list \<Rightarrow> u8 list \<Rightarrow> stack_frame list \<Rightarrow> (string \<times> varg list) list" where
  "backtrace_calls rip info file name fs =
     frame_calls (rip - 1) rip info file name (map (\<lambda>i. rip + 3 + of_nat i) [0..<unat (ri_fn_narg info)]) @ stack_calls fs"

lemma backtrace_prints: "\<exists>out. prints (backtrace_calls rip info file name fs) M = Some (fold cputchar out M)"
proof (rule prints_out, intro ballI)
  fix c assume "c \<in> set (backtrace_calls rip info file name fs)"
  then show "case c of (fmt, ap) \<Rightarrow> format fmt ap \<noteq> None"
    using frame_calls_formats by (fastforce simp: backtrace_calls_def stack_calls_def)
qed

text \<open>
  C11. \<^verbatim>\<open>mon_backtrace\<close> on a stack whose chain of saved frame pointers ends and whose return addresses
  \<^verbatim>\<open>debuginfo_rip\<close> can look up: it returns 0 and prints, besides its own position, exactly one entry for every frame, from
  the innermost to the outermost, with the saved frame pointer, the return address, the position in the source and as
  many slots of the stack as the function has arguments. Output to the screen does not disturb the walk.
\<close>

theorem backtrace_walks:
  assumes "crt_ok M" and "resolves E M (read_rip E) (info_at_null E) info file name"
    and "stack_at E M (read_rbp E) info fs"
  shows "\<exists>out. prints (backtrace_calls (read_rip E) info file name fs) M = Some (fold cputchar out M)
    \<and> mon_backtrace E M = Some (0, fold cputchar out M) \<and> crt_ok (fold cputchar out M)"
proof -
  let ?args = "map (\<lambda>i. read_rip E + 3 + of_nat i) [0..<unat (ri_fn_narg info)]"
  let ?c = "frame_calls (read_rip E - 1) (read_rip E) info file name ?args"
  have same: "same_stack M M" using assms(1) by (rule same_stack_refl)
  have look: "look_up E (read_rip E) (info_at_null E) M = Some info"
    using assms(2) same by (rule look_up_resolves)
  have "mon_backtrace E M =
      Option.bind (prints ?c M) (\<lambda>M. map_option (\<lambda>M. (0, M)) (backtrace_loop E (read_rbp E) info M))"
    using frame_rest [OF same assms(2), of ?args "\<lambda>m i. read_rip E + 3 + i" "\<lambda>M. read_rip E" "read_rip E - 1"
        "\<lambda>M. map_option (\<lambda>M. (0, M)) (backtrace_loop E (read_rbp E) info M)"]
    by (simp add: mon_backtrace_def Let_def look)
  moreover have "backtrace_loop E (read_rbp E) info M' = prints (stack_calls fs) M'" if "prints ?c M = Some M'" for M'
    using assms(3) same_stack_frame [OF same frame_prints [OF that]] by (rule backtrace_loop_calls)
  ultimately have run: "mon_backtrace E M =
      map_option (\<lambda>M. (0, M)) (prints (backtrace_calls (read_rip E) info file name fs) M)"
    by (cases "prints ?c M") (simp_all add: backtrace_calls_def prints_append)
  obtain out where out: "prints (backtrace_calls (read_rip E) info file name fs) M = Some (fold cputchar out M)"
    using backtrace_prints by blast
  then have "crt_ok (fold cputchar out M)" using frame_prints assms(1) unfolding frame_def by blast
  then show ?thesis using run out by auto
qed

text \<open>
  Two frames on the stack of the machine at rest, with the sections of the example in memory: \<^verbatim>\<open>backtrace\<close> was
  called in \<^verbatim>\<open>f\<close>, which another \<^verbatim>\<open>f\<close> called with the argument 7.
\<close>

definition ex_stack :: "u8 list" where
  "ex_stack = [0x20, 0, 0x21, 0x04, 0x80, 0, 0, 0,  0x08, 0x10, 0x20, 0x04, 0x80, 0, 0, 0,
     0, 0, 0, 0, 0, 0, 0, 0,  0, 0, 0, 0, 7, 0, 0, 0,
     0, 0, 0, 0, 0, 0, 0, 0,  0x08, 0x10, 0x20, 0x04, 0x80, 0, 0, 0,
     0, 0, 0, 0, 0, 0, 0, 0,  0, 0, 0, 0, 9, 0, 0, 0]"

definition ex_machine :: machine where
  "ex_machine = quiet\<lparr>ram := store ex_mem 0x8004210000 ex_stack\<rparr>"

definition ex_frames :: "stack_frame list" where
  "ex_frames =
     [\<lparr>sf_next = 0x8004210020, sf_ret = 0x8004201008, sf_info = ex_info1, sf_file = lit ''a.c'', sf_name = lit ''f'',
       sf_args = [0x700000000]\<rparr>,
      \<lparr>sf_next = 0, sf_ret = 0x8004201008, sf_info = ex_info1, sf_file = lit ''a.c'', sf_name = lit ''f'',
       sf_args = [0x900000000]\<rparr>]"

definition backtrace_env :: "env \<Rightarrow> env" where
  "backtrace_env E = E\<lparr>sections := ex_si, info_at_null := ex_info0, read_rbp := 0x8004210000, read_rip := 0x8004201008\<rparr>"

lemma ex_crt_ok: "crt_ok ex_machine"
  using quiet_crt_ok by (simp add: crt_ok_def ex_machine_def)

lemma ex_machine_screen: "a \<in> span (crt_buf ex_machine) (2 * CRT_SIZE) \<longleftrightarrow> 0x80040B8000 \<le> unat a \<and> unat a < 0x80040B8FA0"
  by (simp add: ex_machine_def quiet_def crt_consts span_interval)

lemma ex_machine_ram:
  assumes "off_screen ex_machine m" and "unat a < 0x80040B8000"
  shows "m a = ex_mem a"
proof -
  have "a \<notin> span (crt_buf ex_machine) (2 * CRT_SIZE)" using assms(2) by (simp add: ex_machine_screen)
  then have "m a = ram ex_machine a" using assms(1) by (simp add: off_screen_def)
  moreover have "a \<notin> span 0x8004210000 (length ex_stack)" using assms(2) by (simp add: ex_stack_def span_interval)
  ultimately show ?thesis by (simp add: ex_machine_def store_outside)
qed

lemma off_screen_image:
  assumes "off_screen ex_machine m"
  shows "ex_image m" "m (0x10000 + KERNBASE + 4) = 0" "m (0x10000 + KERNBASE + 5) = 0"
proof -
  have "bytes_at m 0x100 (length (ex_abbrev_bytes @ ex_info_bytes @ ex_line_bytes)) =
      bytes_at ex_mem 0x100 (length (ex_abbrev_bytes @ ex_info_bytes @ ex_line_bytes))"
    by (rule bytes_at_cong, rule ex_machine_ram [OF assms])
      (simp add: ex_abbrev_bytes_def ex_info_bytes_def ex_line_bytes_def span_interval)
  then show "ex_image m" using ex_mem_image unfolding ex_image_def holds_at_def by simp
  have "ex_mem (0x10000 + KERNBASE + 4) = 0" "ex_mem (0x10000 + KERNBASE + 5) = 0"
    by (simp_all add: ex_mem_outside span_iff KERNBASE_def)
  then show "m (0x10000 + KERNBASE + 4) = 0" "m (0x10000 + KERNBASE + 5) = 0"
    using ex_machine_ram [OF assms, of "0x10000 + KERNBASE + 4"] ex_machine_ram [OF assms, of "0x10000 + KERNBASE + 5"]
    by (simp_all add: KERNBASE_def)
qed

lemma ex_resolves:
  assumes "info = ex_info0 \<or> info = ex_info1"
  shows "resolves (backtrace_env E) ex_machine 0x8004201008 info ex_info1 (lit ''a.c'') (lit ''f'')"
proof -
  have "lit ''a.c'' = [0x61, 0x2E, 0x63]" "lit ''f'' = [0x66]" by (simp_all add: lit_def)
  moreover have "ri_file ex_info1 = 0x13C" "ri_fn_name ex_info1 = 0x145" "ri_fn_narg ex_info1 = 1"
    by (simp_all add: ex_info1_def)
  moreover have "debuginfo_rip m ex_si unknown c0 junk 0x8004201008 info = Some (0, ex_info1, ex_d)"
    "cstr m 0x145 [0x66]" "cstr m 0x13C [0x61, 0x2E, 0x63]" if "off_screen ex_machine m" for m unknown c0 junk
    using image_answer [OF off_screen_image [OF that] assms] image_name off_screen_image(1) [OF that] by blast+
  ultimately show ?thesis by (simp add: resolves_def backtrace_env_def del: cstr.simps)
qed

lemma ex_slot:
  assumes "k + 8 \<le> 64"
  shows "slot ex_machine (0x8004210000 + of_nat k) (foldr (\<lambda>b acc. ucast b OR push_bit 8 acc) (take 8 (drop k ex_stack)) 0)"
proof -
  have len: "length ex_stack = 64" by (simp add: ex_stack_def)
  have "holds_at (store ex_mem 0x8004210000 ex_stack) (0x8004210000 + of_nat k) (take 8 (drop k ex_stack))"
    using assms by (intro holds_at_inside) (simp_all add: len)
  then have "bytes_at (ram ex_machine) (0x8004210000 + of_nat k) 8 = take 8 (drop k ex_stack)"
    using assms by (simp add: holds_at_def ex_machine_def len)
  moreover have "span (0x8004210000 + of_nat k) 8 \<inter> span (crt_buf ex_machine) (2 * CRT_SIZE) = {}"
  proof -
    have "unat (0x8004210000 + of_nat k :: addr) = 0x8004210000 + k"
      using assms unat_plus_nat [of "0x8004210000" k] by simp
    then show ?thesis using assms by (auto simp: span_interval ex_machine_screen)
  qed
  ultimately show ?thesis by (simp add: slot_def peek64_def)
qed

lemma ex_stack_at: "stack_at (backtrace_env E) ex_machine 0x8004210000 ex_info1 ex_frames"
proof -
  have args: "ri_fn_narg ex_info1 = 1" by (simp add: ex_info1_def)
  have r: "resolves (backtrace_env E) ex_machine 0x8004201008 ex_info1 ex_info1 (lit ''a.c'') (lit ''f'')"
    by (rule ex_resolves) simp
  show ?thesis
    using r ex_slot [of 0] ex_slot [of 8] ex_slot [of 24] ex_slot [of 32] ex_slot [of 40] ex_slot [of 56]
    by (simp add: ex_frames_def args ex_stack_def)
qed

theorem backtrace_walks_witness:
  "\<forall>E. \<exists>out. mon_backtrace (backtrace_env E) ex_machine = Some (0, fold cputchar out ex_machine)
     \<and> prints (frame_calls 0x8004201007 0x8004201008 ex_info1 (lit ''a.c'') (lit ''f'') [0x800420100B] @ stack_calls ex_frames)
         ex_machine = Some (fold cputchar out ex_machine)"
proof
  fix E
  have r: "resolves (backtrace_env E) ex_machine (read_rip (backtrace_env E)) (info_at_null (backtrace_env E)) ex_info1
      (lit ''a.c'') (lit ''f'')"
    using ex_resolves [of ex_info0 E] by (simp add: backtrace_env_def)
  have s: "stack_at (backtrace_env E) ex_machine (read_rbp (backtrace_env E)) ex_info1 ex_frames"
    using ex_stack_at by (simp add: backtrace_env_def)
  have "read_rip (backtrace_env E) = 0x8004201008" "unat (ri_fn_narg ex_info1) = 1"
    by (simp_all add: backtrace_env_def ex_info1_def)
  then show "\<exists>out. mon_backtrace (backtrace_env E) ex_machine = Some (0, fold cputchar out ex_machine)
     \<and> prints (frame_calls 0x8004201007 0x8004201008 ex_info1 (lit ''a.c'') (lit ''f'') [0x800420100B] @ stack_calls ex_frames)
         ex_machine = Some (fold cputchar out ex_machine)"
    using backtrace_walks [OF ex_crt_ok r s] by (auto simp: backtrace_calls_def)
qed

end
