(* ===== verification/Boot.thy ===== *)
theory Boot
  imports Disk
begin

text \<open>
  The boot loader \<^verbatim>\<open>boot/main.c\<close>. It runs in 32-bit mode: addresses, counts and offsets are words
  of 32 bits and wrap as such. The \<^verbatim>\<open>outw\<close> of the failure branch and the jump to the kernel end
  the run and are its two results.
\<close>

section \<open>The loader\<close>

definition ELF_MAGIC :: u32 where "ELF_MAGIC = 0x464C457F"
definition ELFHDR :: u32 where "ELFHDR = 0x10000"

definition readsect_boot :: "u32 \<Rightarrow> u32 \<Rightarrow> diskm \<Rightarrow> diskm option" where
  "readsect_boot dst sector D = readsect (ucast dst) (ucast sector) D"

text \<open>\<^verbatim>\<open>while (pa < end_pa)\<close>; it runs forever when \<^verbatim>\<open>pa\<close> wraps below \<^verbatim>\<open>end_pa\<close>.\<close>

partial_function (option) readseg_loop :: "u32 \<Rightarrow> u32 \<Rightarrow> u32 \<Rightarrow> diskm \<Rightarrow> diskm option" where
  "readseg_loop pa end_pa sector D =
     (if pa < end_pa
      then Option.bind (readsect_boot pa sector D) (readseg_loop (pa + of_nat SECTSIZE) end_pa (sector + 1))
      else Some D)"

definition readseg :: "u32 \<Rightarrow> u32 \<Rightarrow> u32 \<Rightarrow> diskm \<Rightarrow> diskm option" where
  "readseg pa count offset D =
     (let end_pa = pa + count;
          pa = pa AND NOT (of_nat SECTSIZE - 1);
          offset = offset div of_nat SECTSIZE + 1
      in readseg_loop pa end_pa offset D)"

text \<open>Little-endian loads.\<close>

definition load16 :: "mem \<Rightarrow> addr \<Rightarrow> u16" where
  "load16 m a = foldr (\<lambda>b acc. ucast b OR push_bit 8 acc) (bytes_at m a 2) 0"

definition load32 :: "mem \<Rightarrow> addr \<Rightarrow> u32" where
  "load32 m a = foldr (\<lambda>b acc. ucast b OR push_bit 8 acc) (bytes_at m a 4) 0"

definition load64 :: "mem \<Rightarrow> addr \<Rightarrow> u64" where
  "load64 m a = foldr (\<lambda>b acc. ucast b OR push_bit 8 acc) (bytes_at m a 8) 0"

text \<open>
  \<^verbatim>\<open>for (; ph < eph; ph++) readseg(ph->p_pa, ph->p_memsz, ph->p_offset);\<close> The 64-bit fields of a
  program header (at 24, 40 and 8 of its 56 bytes) are cut to 32 bits by the call.
\<close>

partial_function (option) load_segments :: "u32 \<Rightarrow> u32 \<Rightarrow> diskm \<Rightarrow> diskm option" where
  "load_segments ph eph D =
     (if ph < eph
      then Option.bind
             (readseg (ucast (load64 (dmem D) (ucast ph + 24))) (ucast (load64 (dmem D) (ucast ph + 40)))
                (ucast (load64 (dmem D) (ucast ph + 8))) D)
             (load_segments (ph + 56) eph)
      else Some D)"

datatype boot = Bad | Enter u32

definition bootmain :: "diskm \<Rightarrow> (boot \<times> diskm) option" where
  "bootmain D =
     Option.bind (readseg ELFHDR (of_nat SECTSIZE * 8) 0 D) (\<lambda>D.
       if load32 (dmem D) (ucast ELFHDR) \<noteq> ELF_MAGIC then Some (Bad, D)
       else
         let ph = ELFHDR + ucast (load64 (dmem D) (ucast ELFHDR + 32));
             eph = ph + 56 * ucast (load16 (dmem D) (ucast ELFHDR + 56))
         in map_option (\<lambda>D. (Enter (ucast (load64 (dmem D) (ucast ELFHDR + 24))), D))
              (load_segments ph eph D))"

section \<open>What a segment load does\<close>

lemma sector_down: "unat (pa AND NOT (of_nat SECTSIZE - 1)) = unat pa - unat pa mod SECTSIZE" for pa :: u32
proof -
  have "(pa AND 0x1FF) AND (pa AND NOT 0x1FF) = 0" by (rule bit_word_eqI) (auto simp: bit_simps)
  then have "(pa AND 0x1FF) + (pa AND NOT 0x1FF) = (pa AND 0x1FF) OR (pa AND NOT 0x1FF)"
    by (rule disjunctive_add_eq_or)
  also have "\<dots> = pa" by (rule bit_word_eqI) (auto simp: bit_simps)
  finally have "(pa AND 0x1FF) + (pa AND NOT 0x1FF) = pa" .
  then have "pa AND NOT 0x1FF = pa - (pa AND 0x1FF)" by (metis add_diff_cancel_left')
  moreover have m: "pa AND 0x1FF = pa mod 0x200"
    using take_bit_eq_mask [of 9 pa] by (simp add: take_bit_eq_mod mask_eq_exp_minus_1)
  moreover have "pa mod 0x200 \<le> pa" by (simp add: word_le_nat_alt unat_mod_distrib)
  ultimately have "unat (pa AND NOT 0x1FF) = unat pa - unat pa mod 0x200"
    by (simp add: unat_sub unat_mod_distrib)
  then show ?thesis by (simp add: SECTSIZE_def)
qed

lemma readseg_loop_reads:
  assumes "unat e \<le> unat pa + n * SECTSIZE" and "n = 0 \<or> unat pa + (n - 1) * SECTSIZE < unat e"
    and "unat pa + n * SECTSIZE < 2 ^ 32" and "unat s + n < 2 ^ 32"
  shows "readseg_loop pa e s D = ide.reads n (ucast pa) (ucast s) D"
  using assms
proof (induction n arbitrary: pa s D)
  case 0
  then show ?case by (subst readseg_loop.simps) (simp add: word_less_nat_alt)
next
  case (Suc n)
  have pa: "unat (pa + of_nat SECTSIZE) = unat pa + SECTSIZE"
    using Suc.prems(3) by (simp add: unat_word_ariths SECTSIZE_def)
  have s: "unat (s + 1) = unat s + 1" using Suc.prems(4) by (simp add: unat_word_ariths)
  have up: "(ucast pa :: u64) + 512 = ucast (pa + of_nat SECTSIZE)" "(ucast s :: u64) + 1 = ucast (s + 1)"
  proof -
    have "unat (ucast pa + 512 :: u64) = unat (ucast (pa + of_nat SECTSIZE) :: u64)"
      using pa Suc.prems(3) by (simp add: unat_word_ariths unat_ucast_wider SECTSIZE_def)
    then show "(ucast pa :: u64) + 512 = ucast (pa + of_nat SECTSIZE)" by (simp add: word_unat_eq_iff)
    have "unat (ucast s + 1 :: u64) = unat (ucast (s + 1) :: u64)"
      using s Suc.prems(4) by (simp add: unat_word_ariths unat_ucast_wider)
    then show "(ucast s :: u64) + 1 = ucast (s + 1)" by (simp add: word_unat_eq_iff)
  qed
  have less: "pa < e" using Suc.prems(2) by (simp add: word_less_nat_alt)
  have "readseg_loop (pa + of_nat SECTSIZE) e (s + 1) D' =
      ide.reads n (ucast (pa + of_nat SECTSIZE)) (ucast (s + 1)) D'" for D'
    using Suc.prems pa s by (intro Suc.IH) (auto simp: SECTSIZE_def)
  then have "readseg_loop (pa + of_nat SECTSIZE) e (s + 1) = ide.reads n (ucast pa + 512) (ucast s + 1)"
    unfolding up by blast
  then show ?case
    using less by (subst readseg_loop.simps) (simp add: readsect_boot_def)
qed

text \<open>
  \<^verbatim>\<open>readseg\<close>, with a ready drive and a segment whose address and file offset agree modulo the sector size (and
  that does not reach the end of the 32-bit space), returns with the \<^verbatim>\<open>count\<close> bytes of the kernel image from \<^verbatim>\<open>offset\<close> on
  at \<^verbatim>\<open>pa\<close>. It writes only the sectors that hold the segment.
\<close>

lemma readseg_loads:
  assumes "drive_ready D" and "unat pa mod SECTSIZE = unat offset mod SECTSIZE"
    and "unat pa + unat count + SECTSIZE < 2 ^ 32"
  shows "\<exists>D'. readseg pa count offset D = Some D' \<and> drive_ready D' \<and> sector_of D' = sector_of D
    \<and> (\<forall>k < unat count. dmem D' (ucast pa + of_nat k) = disk_image D (unat offset + k))
    \<and> (\<forall>a. unat a < unat pa - unat pa mod SECTSIZE \<or> unat pa + unat count + SECTSIZE \<le> unat a
          \<longrightarrow> dmem D' a = dmem D a)"
proof -
  let ?r = "unat pa mod SECTSIZE" and ?c = "unat count"
  define p0 where "p0 = pa AND NOT (of_nat SECTSIZE - 1)"
  define n where "n = (?r + ?c + (SECTSIZE - 1)) div SECTSIZE"
  define s where "s = offset div of_nat SECTSIZE + (1 :: u32)"
  have p0: "unat p0 = unat pa - ?r" unfolding p0_def by (rule sector_down)
  have r: "?r \<le> unat pa" "?r < SECTSIZE" by (simp_all add: SECTSIZE_def)
  have n_ub: "n * SECTSIZE < ?r + ?c + SECTSIZE" and n_lb: "?r + ?c \<le> n * SECTSIZE"
    unfolding n_def by (rule sectors_needed)+
  have n_last: "n = 0 \<or> (n - 1) * SECTSIZE < ?r + ?c" using n_ub by (cases n) simp_all
  have e: "unat (pa + count) = unat pa + ?c" using assms(3) by (simp add: unat_word_ariths)
  have sd: "unat (offset div of_nat SECTSIZE) = unat offset div SECTSIZE"
    by (simp add: unat_div_distrib SECTSIZE_def)
  have lim: "unat offset div SECTSIZE < 2 ^ 23"
    using unsigned_less [of offset] unfolding SECTSIZE_def by (intro less_mult_imp_div_less) simp
  then have s: "unat s = unat offset div SECTSIZE + 1"
    unfolding s_def using sd by (simp add: unat_word_ariths)
  have us: "(ucast s :: u64) = of_nat (unat offset div SECTSIZE) + 1"
    using s by (metis of_nat_Suc Suc_eq_plus1 add.commute of_nat_unat)
  have nn: "n \<le> 2 ^ 23"
  proof -
    have "n * SECTSIZE \<le> 2 ^ 32" using n_ub r(1) assms(3) by linarith
    then show ?thesis by (simp add: SECTSIZE_def)
  qed
  have "readseg pa count offset D = readseg_loop p0 (pa + count) s D"
    by (simp add: readseg_def p0_def s_def Let_def)
  also have "\<dots> = ide.reads n (ucast p0) (of_nat (unat offset div SECTSIZE) + 1) D"
    unfolding us [symmetric]
  proof (rule readseg_loop_reads)
    show "unat (pa + count) \<le> unat p0 + n * SECTSIZE" using n_lb r(1) p0 e by linarith
    show "n = 0 \<or> unat p0 + (n - 1) * SECTSIZE < unat (pa + count)"
      using n_last r(1) p0 e by linarith
    show "unat p0 + n * SECTSIZE < 2 ^ 32" using n_ub r(1) p0 assms(3) by linarith
    show "unat s + n < 2 ^ 32" using s lim nn by simp
  qed
  finally have run: "readseg pa count offset D =
      ide.reads n (ucast p0) (of_nat (unat offset div SECTSIZE) + 1) D" .
  define off where "off = unat offset - unat offset mod SECTSIZE"
  have off: "off mod SECTSIZE = 0" "off div SECTSIZE = unat offset div SECTSIZE"
    "off + ?r = unat offset"
    unfolding off_def assms(2) by (simp_all add: SECTSIZE_def minus_mod_eq_mult_div)
  have "n * SECTSIZE \<le> 2 ^ 64" using nn by (simp add: SECTSIZE_def)
  from ide_image [OF assms(1) this off(1), of "ucast p0"] obtain D' where
    D': "readseg pa count offset D = Some D'" "drive_ready D'" "sector_of D' = sector_of D"
    and inside: "\<And>k. k < n * SECTSIZE \<Longrightarrow> dmem D' (ucast p0 + of_nat k) = disk_image D (off + k)"
    and outside: "\<And>a. a \<notin> span (ucast p0) (n * SECTSIZE) \<Longrightarrow> dmem D' a = dmem D a"
    unfolding off(2) run by blast
  have pa: "(ucast pa :: u64) = ucast p0 + of_nat ?r"
  proof -
    have "unat (ucast p0 + of_nat ?r :: u64) = unat (ucast pa :: u64)"
      using r p0 assms(3) by (simp add: unat_word_ariths unat_ucast_wider unat_of_nat64)
    then show ?thesis by (simp add: word_unat_eq_iff)
  qed
  have "dmem D' (ucast pa + of_nat k) = disk_image D (unat offset + k)" if "k < ?c" for k
    using inside [of "?r + k"] that n_lb off(3) by (simp add: pa add_ac)
  moreover have "dmem D' a = dmem D a"
    if "unat a < unat pa - ?r \<or> unat pa + ?c + SECTSIZE \<le> unat a" for a
  proof -
    have "unat (ucast p0 :: u64) = unat p0" by (rule unat_ucast_wider) simp
    moreover have "unat p0 + n * SECTSIZE < 2 ^ 32" using n_ub r(1) p0 assms(3) by linarith
    ultimately have "a \<notin> span (ucast p0) (n * SECTSIZE)"
      using that n_ub r(1) p0 by (subst span_interval) auto
    then show ?thesis by (rule outside)
  qed
  ultimately show ?thesis using D' by blast
qed

lemma readseg_copies:
  assumes "drive_ready D" and "unat pa mod SECTSIZE = unat offset mod SECTSIZE"
    and "unat pa + unat count + SECTSIZE < 2 ^ 32"
  shows "\<exists>D'. readseg pa count offset D = Some D' \<and> drive_ready D' \<and> sector_of D' = sector_of D
    \<and> copied (dmem D') (ucast pa) D (ucast offset) (unat count)
    \<and> kept (unat pa - unat pa mod SECTSIZE) (unat pa + unat count + SECTSIZE) (dmem D) (dmem D')"
proof -
  have "unat (ucast offset + of_nat k :: u64) = unat offset + k" if "k < unat count" for k
  proof -
    have "unat (ucast offset :: u64) = unat offset" by (rule unat_ucast_wider) simp
    moreover have "unat offset + k < 2 ^ 64" using that assms(3) unsigned_less [of offset, where ?'a = nat] by simp
    ultimately show ?thesis by (metis unat_plus_nat)
  qed
  then show ?thesis
    using readseg_loads [OF assms] by (auto simp: copied_def kept_def elf_file_def)
qed

section \<open>The whole loader\<close>

text \<open>A segment as its program header describes it; the loader writes whole sectors from \<open>seg_start\<close> on.\<close>

record segment =
  sg_pa :: u64
  sg_memsz :: u64
  sg_offset :: u64

definition prog_header :: "mem \<Rightarrow> addr \<Rightarrow> segment \<Rightarrow> bool" where
  "prog_header m a s \<longleftrightarrow>
     load64 m (a + 24) = sg_pa s \<and> load64 m (a + 40) = sg_memsz s \<and> load64 m (a + 8) = sg_offset s"

primrec prog_headers :: "mem \<Rightarrow> addr \<Rightarrow> segment list \<Rightarrow> bool" where
  "prog_headers m a [] = True"
| "prog_headers m a (s # ss) = (prog_header m a s \<and> prog_headers m (a + 56) ss)"

definition seg_start :: "segment \<Rightarrow> nat" where
  "seg_start s = unat (sg_pa s) - unat (sg_pa s) mod SECTSIZE"

definition seg_end :: "segment \<Rightarrow> nat" where
  "seg_end s = unat (sg_pa s) + unat (sg_memsz s)"

definition seg_ok :: "segment \<Rightarrow> bool" where
  "seg_ok s \<longleftrightarrow> 0x11000 \<le> seg_start s \<and> seg_end s + SECTSIZE < 2 ^ 32 \<and> unat (sg_offset s) < 2 ^ 32
     \<and> unat (sg_pa s) mod SECTSIZE = unat (sg_offset s) mod SECTSIZE"

text \<open>The segments are listed in increasing order, as linkers do.\<close>

primrec segs_ok :: "segment list \<Rightarrow> bool" where
  "segs_ok [] = True"
| "segs_ok (s # ss) = (seg_ok s \<and> (\<forall>t \<in> set ss. seg_end s \<le> seg_start t) \<and> segs_ok ss)"

text \<open>The kernel image on the disk: an ELF header with the program headers in the first eight sectors.\<close>

definition boot_image :: "diskm \<Rightarrow> u64 \<Rightarrow> segment list \<Rightarrow> bool" where
  "boot_image D entry segs \<longleftrightarrow>
     load32 (elf_file D) 0 = ELF_MAGIC \<and> load64 (elf_file D) 24 = entry
     \<and> load16 (elf_file D) 56 = of_nat (length segs)
     \<and> unat (load64 (elf_file D) 32) + 56 * length segs \<le> 8 * SECTSIZE
     \<and> prog_headers (elf_file D) (load64 (elf_file D) 32) segs \<and> segs_ok segs"

text \<open>One segment, with the 64-bit fields of its header.\<close>

lemma readseg_segment:
  assumes "drive_ready D" and "seg_ok s"
  shows "\<exists>D'. readseg (ucast (sg_pa s)) (ucast (sg_memsz s)) (ucast (sg_offset s)) D = Some D' \<and> drive_ready D'
    \<and> sector_of D' = sector_of D \<and> copied (dmem D') (sg_pa s) D (sg_offset s) (unat (sg_memsz s))
    \<and> agree (seg_start s) (dmem D) (dmem D')"
proof -
  have u: "unat (ucast (sg_pa s) :: u32) = unat (sg_pa s)" "unat (ucast (sg_memsz s) :: u32) = unat (sg_memsz s)"
    "unat (ucast (sg_offset s) :: u32) = unat (sg_offset s)"
    using assms(2) by (auto simp: seg_ok_def seg_end_def intro!: ucast_narrow)
  have id: "ucast (ucast w :: u32) = w" if "unat (ucast w :: u32) = unat w" for w :: u64
    using that by (simp add: word_unat_eq_iff unat_ucast_wider)
  have "unat (sg_pa s) mod SECTSIZE = unat (sg_offset s) mod SECTSIZE" "seg_end s + SECTSIZE < 2 ^ 32"
    using assms(2) by (simp_all add: seg_ok_def)
  then show ?thesis
    using readseg_copies [OF assms(1), of "ucast (sg_pa s)" "ucast (sg_offset s)" "ucast (sg_memsz s)"] kept_agree
    unfolding u id [OF u(1)] id [OF u(3)] seg_end_def seg_start_def by blast
qed

lemma prog_header_copied:
  assumes "copied m (0x10000 + of_nat j) D (of_nat j) 56"
  shows "load64 m (0x10000 + of_nat j + 24) = load64 (elf_file D) (of_nat j + 24)"
    "load64 m (0x10000 + of_nat j + 40) = load64 (elf_file D) (of_nat j + 40)"
    "load64 m (0x10000 + of_nat j + 8) = load64 (elf_file D) (of_nat j + 8)"
proof -
  have "bytes_at m (0x10000 + of_nat j + of_nat i) 8 = bytes_at (elf_file D) (of_nat j + of_nat i) 8" if "i + 8 \<le> 56" for i
    using copied_bytes [OF copied_sub [OF assms that]] .
  from this [of 24] this [of 40] this [of 8] show
    "load64 m (0x10000 + of_nat j + 24) = load64 (elf_file D) (of_nat j + 24)"
    "load64 m (0x10000 + of_nat j + 40) = load64 (elf_file D) (of_nat j + 40)"
    "load64 m (0x10000 + of_nat j + 8) = load64 (elf_file D) (of_nat j + 8)"
    by (simp_all add: load64_def)
qed

lemma load_segments_run:
  assumes "drive_ready D" and "copied (dmem D) 0x10000 D 0 (8 * SECTSIZE)" and "prog_headers (elf_file D) (of_nat j) segs"
    and "j + 56 * length segs \<le> 8 * SECTSIZE" and "segs_ok segs"
  shows "\<exists>D'. load_segments (of_nat (0x10000 + j)) (of_nat (0x10000 + j + 56 * length segs)) D = Some D'
    \<and> (\<forall>s \<in> set segs. copied (dmem D') (sg_pa s) D (sg_offset s) (unat (sg_memsz s)))
    \<and> (\<forall>lim. (\<forall>s \<in> set segs. lim \<le> seg_start s) \<longrightarrow> agree lim (dmem D) (dmem D'))"
  using assms
proof (induction segs arbitrary: j D)
  case Nil
  then show ?case by (subst load_segments.simps) (simp add: agree_def)
next
  case (Cons s ss)
  have j: "j + 56 + 56 * length ss \<le> 8 * SECTSIZE" using Cons.prems(4) by simp
  have s: "seg_ok s" "segs_ok ss" and next_seg: "\<forall>t \<in> set ss. seg_end s \<le> seg_start t" using Cons.prems(5) by simp_all
  have "copied (dmem D) (0x10000 + of_nat j) D (of_nat j) 56"
    using copied_sub [OF Cons.prems(2), of j 56] j by simp
  note hdr = prog_header_copied [OF this]
  have ph32: "unat (of_nat (0x10000 + j) :: u32) = 0x10000 + j"
    "unat (of_nat (0x10000 + j + 56 * length (s # ss)) :: u32) = 0x10000 + j + 56 * length (s # ss)"
    using j by (auto simp: SECTSIZE_def simp del: of_nat_add intro!: unat_of_nat32)
  then have less: "(of_nat (0x10000 + j) :: u32) < of_nat (0x10000 + j + 56 * length (s # ss))"
    unfolding word_less_nat_alt by simp
  have "(ucast (of_nat (0x10000 + j) :: u32) :: u64) = of_nat (0x10000 + j)" by (metis ph32(1) of_nat_unat)
  then have ph: "(ucast (0x10000 + of_nat j :: u32) :: u64) = 0x10000 + of_nat j" by simp
  have "seg_start s \<le> unat (sg_pa s)" by (simp add: seg_start_def)
  then have st: "0x11000 \<le> seg_start s" "seg_start s \<le> 2 ^ 64"
    using s(1) by (simp_all add: seg_ok_def seg_end_def)
  obtain D1 where run: "readseg (ucast (sg_pa s)) (ucast (sg_memsz s)) (ucast (sg_offset s)) D = Some D1"
    and D1: "drive_ready D1" "sector_of D1 = sector_of D"
    and data: "copied (dmem D1) (sg_pa s) D (sg_offset s) (unat (sg_memsz s))"
    and low: "agree (seg_start s) (dmem D) (dmem D1)"
    using readseg_segment [OF Cons.prems(1) s(1)] by blast
  have "load_segments (of_nat (0x10000 + j)) (of_nat (0x10000 + j + 56 * length (s # ss))) D
      = load_segments (of_nat (0x10000 + (j + 56))) (of_nat (0x10000 + (j + 56) + 56 * length ss)) D1"
    using Cons.prems(3) run less by (subst load_segments.simps) (simp add: ph hdr [simplified] prog_header_def add.assoc)
  moreover have "copied (dmem D1) 0x10000 D1 0 (8 * SECTSIZE)"
    unfolding copied_cong [OF D1(2)]
    using st by (intro copied_agree [OF Cons.prems(2) low]) (simp_all add: SECTSIZE_def)
  then have "\<exists>D'. load_segments (of_nat (0x10000 + (j + 56))) (of_nat (0x10000 + (j + 56) + 56 * length ss)) D1 = Some D'
    \<and> (\<forall>s \<in> set ss. copied (dmem D') (sg_pa s) D1 (sg_offset s) (unat (sg_memsz s)))
    \<and> (\<forall>lim. (\<forall>s \<in> set ss. lim \<le> seg_start s) \<longrightarrow> agree lim (dmem D1) (dmem D'))"
    using Cons.prems(3) j s(2) elf_file_cong [OF D1(2)] D1(1)
    by (intro Cons.IH) (simp_all add: add.commute)
  then obtain D' where D': "load_segments (of_nat (0x10000 + (j + 56))) (of_nat (0x10000 + (j + 56) + 56 * length ss)) D1 = Some D'"
    and later: "\<And>t. t \<in> set ss \<Longrightarrow> copied (dmem D') (sg_pa t) D (sg_offset t) (unat (sg_memsz t))"
    and frame: "\<And>lim. (\<forall>t \<in> set ss. lim \<le> seg_start t) \<Longrightarrow> agree lim (dmem D1) (dmem D')"
    unfolding copied_cong [OF D1(2)] by blast
  moreover have "copied (dmem D') (sg_pa s) D (sg_offset s) (unat (sg_memsz s))"
    using s(1) by (intro copied_agree [OF data frame [OF next_seg]]) (simp_all add: seg_end_def seg_ok_def)
  moreover have "agree lim (dmem D) (dmem D')" if "\<forall>t \<in> set (s # ss). lim \<le> seg_start t" for lim
    using that by (intro agree_trans [OF agree_mono [OF low] frame]) simp_all
  ultimately show ?case by auto
qed

text \<open>The fields of the ELF header after the first read.\<close>

lemma elf_header_copied:
  assumes "copied m 0x10000 D 0 (8 * SECTSIZE)"
  shows "load32 m 0x10000 = load32 (elf_file D) 0" "load64 m (0x10000 + 32) = load64 (elf_file D) 32"
    "load16 m (0x10000 + 56) = load16 (elf_file D) 56" "load64 m (0x10000 + 24) = load64 (elf_file D) 24"
proof -
  have b: "bytes_at m (0x10000 + of_nat i) n = bytes_at (elf_file D) (of_nat i) n" if "i + n \<le> 64" for i n
    using copied_bytes [OF copied_sub [OF assms, of i n]] that by (simp add: SECTSIZE_def)
  from b [of 0 4] b [of 32 8] b [of 56 2] b [of 24 8] show
    "load32 m 0x10000 = load32 (elf_file D) 0" "load64 m (0x10000 + 32) = load64 (elf_file D) 32"
    "load16 m (0x10000 + 56) = load16 (elf_file D) 56" "load64 m (0x10000 + 24) = load64 (elf_file D) 24"
    by (simp_all add: load32_def load64_def load16_def)
qed

lemma first_read:
  assumes "drive_ready D"
  shows "\<exists>D'. readseg ELFHDR (of_nat SECTSIZE * 8) 0 D = Some D' \<and> drive_ready D' \<and> sector_of D' = sector_of D
    \<and> copied (dmem D') 0x10000 D 0 (8 * SECTSIZE) \<and> agree 0x10000 (dmem D) (dmem D')"
proof -
  have "unat (of_nat SECTSIZE * 8 :: u32) = 8 * SECTSIZE" "unat ELFHDR = 0x10000" "(ucast ELFHDR :: u64) = 0x10000"
    by (simp_all add: SECTSIZE_def ELFHDR_def)
  then show ?thesis
    using readseg_copies [OF assms, of ELFHDR 0 "of_nat SECTSIZE * 8"] kept_agree
    by (auto simp: SECTSIZE_def)
qed

text \<open>A file without the magic number is refused.\<close>

lemma bootmain_bad:
  assumes "drive_ready D" and "load32 (elf_file D) 0 \<noteq> ELF_MAGIC"
  shows "\<exists>D'. bootmain D = Some (Bad, D')"
  using first_read [OF assms(1)] elf_header_copied(1) assms(2) by (fastforce simp: bootmain_def ELFHDR_def)

text \<open>
  C19. \<^verbatim>\<open>bootmain\<close> with a ready drive and a kernel image whose program headers lie in the first eight
  sectors, with segments in increasing order behind them: it jumps to the entry point, and then every segment
  has all its bytes at its address, as far as \<^verbatim>\<open>p_memsz\<close> goes. Nothing below the header is written, and no segment is
  damaged by the whole sectors that are read for a later one.
\<close>

theorem bootmain_loads:
  assumes "drive_ready D" and "boot_image D entry segs"
  shows "\<exists>D'. bootmain D = Some (Enter (ucast entry), D') \<and> agree 0x10000 (dmem D) (dmem D')
    \<and> (\<forall>s \<in> set segs. copied (dmem D') (sg_pa s) D (sg_offset s) (unat (sg_memsz s)))"
proof -
  let ?F = "elf_file D"
  define j where "j = unat (load64 ?F 32)"
  have img: "load32 ?F 0 = ELF_MAGIC" "load64 ?F 24 = entry" "load16 ?F 56 = of_nat (length segs)"
    "j + 56 * length segs \<le> 8 * SECTSIZE" "prog_headers ?F (of_nat j) segs" "segs_ok segs"
    using assms(2) by (simp_all add: boot_image_def j_def)
  obtain D1 where run: "readseg ELFHDR (of_nat SECTSIZE * 8) 0 D = Some D1" and D1: "drive_ready D1" "sector_of D1 = sector_of D"
    and hdr: "copied (dmem D1) 0x10000 D 0 (8 * SECTSIZE)" and low: "agree 0x10000 (dmem D) (dmem D1)"
    using first_read [OF assms(1)] by blast
  have "prog_headers (elf_file D1) (of_nat j) segs" "copied (dmem D1) 0x10000 D1 0 (8 * SECTSIZE)"
    using img(5) hdr elf_file_cong [OF D1(2)] copied_cong [OF D1(2)] by simp_all
  from load_segments_run [OF D1(1) this(2,1) img(4,6)] obtain D' where
    load: "load_segments (of_nat (0x10000 + j)) (of_nat (0x10000 + j + 56 * length segs)) D1 = Some D'"
    and data: "\<forall>s \<in> set segs. copied (dmem D') (sg_pa s) D (sg_offset s) (unat (sg_memsz s))"
    and frame: "\<And>lim. (\<forall>s \<in> set segs. lim \<le> seg_start s) \<Longrightarrow> agree lim (dmem D1) (dmem D')"
    unfolding copied_cong [OF D1(2)] by blast
  have start: "0x11000 \<le> seg_start s" if "s \<in> set segs" for s
    using img(6) that by (induction segs) (auto simp: seg_ok_def)
  have after: "agree 0x11000 (dmem D1) (dmem D')" using start by (intro frame) blast
  have "copied (dmem D') 0x10000 D 0 (8 * SECTSIZE)"
    by (rule copied_agree [OF hdr after]) (simp_all add: SECTSIZE_def)
  then have entry: "load64 (dmem D') (0x10000 + 24) = entry" using elf_header_copied(4) img(2) by simp
  have "agree 0x10000 (dmem D) (dmem D')" by (intro agree_trans [OF low] agree_mono [OF after]) simp
  moreover have "bootmain D = Some (Enter (ucast entry), D')"
  proof -
    have len: "length segs \<le> 73" using img(4) by (simp add: SECTSIZE_def)
    have "(ucast (load64 ?F 32) :: u32) = of_nat j" by (simp add: j_def)
    moreover have "unat (of_nat (length segs) :: u16) = length segs" using len by (simp add: unat_of_nat)
    then have "(ucast (of_nat (length segs) :: u16) :: u32) = of_nat (length segs)" by (metis of_nat_unat)
    ultimately show ?thesis
      using run load elf_header_copied [OF hdr] img(1-3) entry
      by (simp add: bootmain_def ELFHDR_def Let_def)
  qed
  ultimately show ?thesis using data by blast
qed

text \<open>A kernel image with one segment of 600 bytes, linked at the address of its second sector.\<close>

definition boot_file :: "nat \<Rightarrow> u8" where
  "boot_file = (\<lambda>n. if 512 \<le> n \<and> n < 1112 then 7 else 0)
     (0 := 0x7F, 1 := 0x45, 2 := 0x4C, 3 := 0x46, 26 := 0x10, 32 := 64, 56 := 1,
      73 := 2, 90 := 0x10, 104 := 0x58, 105 := 2)"

definition boot_disk :: diskm where
  "boot_disk = nat_disk boot_file (\<lambda>_. 0)"

lemma boot_disk_file: "unat a < 130560 \<Longrightarrow> elf_file boot_disk a = boot_file (unat a)"
  by (simp add: elf_file_def boot_disk_def nat_disk_image)

lemma boot_disk_image: "boot_image boot_disk 0x100000 [\<lparr>sg_pa = 0x100000, sg_memsz = 600, sg_offset = 512\<rparr>]"
  by (simp add: boot_image_def prog_header_def load16_def load32_def load64_def bytes_at_numeral boot_disk_file boot_file_def
      ELF_MAGIC_def SECTSIZE_def seg_ok_def seg_start_def seg_end_def)

theorem bootmain_loads_witness:
  "\<exists>D'. bootmain boot_disk = Some (Enter 0x100000, D') \<and> bytes_at (dmem D') 0x100254 4 = [7, 7, 7, 7]"
proof -
  have "drive_ready boot_disk" by (simp add: drive_ready_def boot_disk_def nat_disk_def)
  from bootmain_loads [OF this boot_disk_image] obtain D' where
    run: "bootmain boot_disk = Some (Enter 0x100000, D')" and data: "copied (dmem D') 0x100000 boot_disk 512 600"
    by auto
  have "copied (dmem D') (0x100000 + of_nat 596) boot_disk (512 + of_nat 596) 4"
    by (rule copied_sub [OF data]) simp
  from copied_bytes [OF this] have "bytes_at (dmem D') 0x100254 4 = [7, 7, 7, 7]"
    by (simp add: bytes_at_numeral boot_disk_file boot_file_def)
  with run show ?thesis by blast
qed

end
