(* ===== verification/ConsoleState.thy ===== *)
theory ConsoleState
  imports Readline
begin

text \<open>
  The state of \<^verbatim>\<open>kern/console.c\<close> as a whole: the cursor is on the screen, and the positions of the input ring
  are inside its buffer. Every routine of the interface keeps it so, and \<^verbatim>\<open>cons_init\<close> establishes it when the
  display reports a position on the screen.
\<close>

section \<open>The state of the console\<close>

definition console_ok :: "machine \<Rightarrow> bool" where
  "console_ok M \<longleftrightarrow> crt_ok M \<and> ring_ok (cons M)"

lemma console_ok_frame: "frame M M' \<Longrightarrow> ring_ok (cons M') \<Longrightarrow> console_ok M \<Longrightarrow> console_ok M'"
  by (simp add: console_ok_def frame_def)

lemma console_cputchar: "console_ok M \<Longrightarrow> console_ok (cputchar c M)"
  by (rule console_ok_frame [OF frame_cputchar]) (simp_all add: console_ok_def)

lemma console_print: "print fmt ap M = Some M' \<Longrightarrow> console_ok M \<Longrightarrow> console_ok M'"
  using console_ok_frame [OF frame_print] cons_print by (fastforce simp: console_ok_def)

lemma console_cons_putc: "console_ok M \<Longrightarrow> console_ok (cons_putc c M)"
  using console_cputchar by (simp add: cputchar_def)

lemma ring_polls:
  assumes "cons_intr proc M = Some M'" and "keeps_cons proc" and "ring_ok (cons M)"
  shows "ring_ok (cons M')"
  using cons_intr_polls [OF assms(1)] polls_ring [OF _ assms(2)] consq.puts_ok [OF assms(3)] by auto

lemma ring_queue_step:
  assumes "ring_ok r" and "ring_get r = Some (x, r')"
  shows "ring_ok r'"
  using assms ring_get_none [OF assms(1)] ring_get_some [OF assms(1)] by (cases "ring_items r") fastforce+

lemma console_polls:
  assumes "cons_intr proc M = Some M'" and "keeps_cons proc" and "frames proc" and "console_ok M"
  shows "console_ok M'"
  using assms(4) ring_polls [OF assms(1,2)] cons_intr_polls [OF assms(1)] frame_polls [OF _ assms(3)]
  by (fastforce simp: console_ok_def frame_def)

lemma console_interrupts:
  "serial_intr M = Some M' \<Longrightarrow> console_ok M \<Longrightarrow> console_ok M'"
  "kbd_intr M = Some M' \<Longrightarrow> console_ok M \<Longrightarrow> console_ok M'"
  using console_polls [OF _ serial_keeps_cons frames_serial] console_polls [OF _ kbd_keeps_cons frames_kbd]
  by (auto simp: serial_intr_def kbd_intr_def split: if_splits)

lemma console_cons_getc:
  assumes "cons_getc M = Some (c, M')" and "console_ok M"
  shows "console_ok M'"
proof -
  obtain M1 M2 where s: "serial_intr M = Some M1" and k: "kbd_intr M1 = Some M2"
    and g: "(case ring_get (cons M2) of Some (c, r) \<Rightarrow> Some (ucast c, M2\<lparr>cons := r\<rparr>) | None \<Rightarrow> Some (0, M2)) = Some (c, M')"
    using assms(1) unfolding cons_getc_def bind_eq_Some_conv by blast
  have M2: "console_ok M2" using console_interrupts s k assms(2) by blast
  then have "ring_ok (cons M')"
    using g ring_queue_step by (auto simp: console_ok_def split: option.splits)
  moreover have "frame M2 M'" using g by (auto split: option.splits)
  ultimately show ?thesis using console_ok_frame M2 by blast
qed

lemma console_getchar:
  assumes "getchar M = Some r"
  shows "console_ok M \<longrightarrow> console_ok (snd r)"
proof (rule getchar.raw_induct [OF _ assms, of "\<lambda>M r. console_ok M \<longrightarrow> console_ok (snd r)"])
  fix rec :: "machine \<Rightarrow> (u32 \<times> machine) option" and M r
  assume IH: "\<And>M r. rec M = Some r \<Longrightarrow> console_ok M \<longrightarrow> console_ok (snd r)"
    and body: "Option.bind (cons_getc M) (\<lambda>(c, M). if c = 0 then rec M else Some (c, M)) = Some r"
  from body obtain c M1 where g: "cons_getc M = Some (c, M1)" by (cases "cons_getc M") auto
  then show "console_ok M \<longrightarrow> console_ok (snd r)"
    using body IH console_cons_getc [OF g] by (auto split: if_splits)
qed

lemma console_readline_loop:
  assumes "readline_loop i M = Some r" and "console_ok M"
  shows "console_ok (snd r)"
proof -
  have echo: "console_ok (echo c M)" if "console_ok M" for c M
    using that console_cputchar by (simp add: echo_def)
  have buf: "console_ok (buf_write i x M)" if "console_ok M" for i x M
    using that by (simp add: console_ok_def buf_write_def crt_ok_def)
  have step: "console_ok (snd s) \<Longrightarrow> console_ok (snd s')" if "rl_step s c s'" for s c s'
    using that by (induction rule: rl_step.induct) (auto dest!: console_getchar intro!: echo buf)
  have run: "console_ok (snd s) \<Longrightarrow> console_ok (snd s')" if "rl_run s cs s'" for s cs s'
    using that by (induction rule: rl_run.induct) (auto dest: step)
  obtain cs s where s: "rl_run (i, M) cs s" "rl_end s r" using readline_loop_run [OF assms(1)] by blast
  then have "console_ok (snd s)" using run [OF s(1)] assms(2) by simp
  then show ?thesis using s(2) by (auto simp: rl_end_def dest!: console_getchar intro!: echo buf split: prod.splits)
qed

lemma console_readline:
  assumes "readline prompt M = Some (p, M')" and "console_ok M"
  shows "console_ok M'"
proof (cases prompt)
  case None
  then show ?thesis using assms console_readline_loop [of 0 M "(p, M')"] by (simp add: readline_def)
next
  case (Some x)
  then obtain M0 where "print ''%s'' [VStr (Some x)] M = Some M0" "readline_loop 0 M0 = Some (p, M')"
    using assms(1) by (auto simp: readline_def bind_eq_Some_conv)
  then show ?thesis using console_readline_loop [of 0 M0 "(p, M')"] console_print assms(2) by simp
qed

section \<open>Initialisation\<close>

text \<open>
  The cursor position that \<^verbatim>\<open>cga_init\<close> asks the display for: two reads of the data port, of the colour or of the
  monochrome controller. The code takes it as it comes.
\<close>

definition reported_cursor :: "machine \<Rightarrow> nat" where
  "reported_cursor M =
     (let port = (if cga_probe M = 0xA55A then 0x3D5 else 0x3B5)
      in 256 * unat (dev M (clk M) port) + unat (dev M (clk M + 1) port))"

lemma cursor_bytes:
  "unat (ucast (push_bit 8 (ucast hi :: u32) OR ucast lo) :: u16) = 256 * unat hi + unat lo" for hi lo :: u8
proof -
  have "(ucast (push_bit 8 (ucast hi :: u32) OR ucast lo) :: u16) = push_bit 8 (ucast hi) + ucast lo"
    by (subst disjunctive_add) (auto intro!: bit_word_eqI simp: bit_simps dest: bit_imp_le_length)
  moreover have "unat hi < 256" "unat lo < 256"
    using unsigned_less [of hi, where ?'a = nat] unsigned_less [of lo, where ?'a = nat] by simp_all
  then have "unat (push_bit 8 (ucast hi :: u16) + ucast lo) = 256 * unat hi + unat lo"
    by (simp add: push_bit_eq_mult unat_word_ariths unat_ucast_wider)
  ultimately show ?thesis by simp
qed

lemma cga_init_ok:
  assumes "reported_cursor M < CRT_SIZE"
  shows "crt_ok (cga_init M) \<and> cons (cga_init M) = cons M"
  using assms cursor_bytes
  by (auto simp: cga_init_def crt_ok_def reported_cursor_def Let_def inb_def outb_def crt_consts CGA_BASE_def MONO_BASE_def
      CGA_BUF_def MONO_BUF_def KERNBASE_def)

lemma serial_init_ok: "crt_ok (serial_init M) = crt_ok M \<and> cons (serial_init M) = cons M"
  by (simp add: serial_init_def crt_ok_def inb_def inb_skip_def outb_def Let_def)

lemma console_init:
  assumes "ring_ok (cons M)" and "reported_cursor M < CRT_SIZE"
  shows "\<exists>M'. cons_init M = Some M' \<and> console_ok M'"
proof -
  let ?M = "serial_init (kbd_init (cga_init M))"
  have ok: "console_ok ?M"
    using cga_init_ok [OF assms(2)] serial_init_ok assms(1) by (simp add: console_ok_def kbd_init_def)
  have "format (''Serial port does not exist!'' @ [CHR 10]) [] \<noteq> None"
    by (simp add: format_def vprintfmt_def vpf.simps)
  then obtain M' where "print (''Serial port does not exist!'' @ [CHR 10]) [] ?M = Some M'"
    by (auto simp: print_fold)
  then show ?thesis using ok console_print by (auto simp: cons_init_def Let_def)
qed

section \<open>The property\<close>

text \<open>
  C35. The state of the console is well formed, the cursor on the screen and both positions of the ring inside the
  buffer, and every routine of its interface keeps it so, whatever the devices deliver: \<^verbatim>\<open>cons_putc\<close>, \<^verbatim>\<open>cputchar\<close>,
  \<^verbatim>\<open>cprintf\<close>, both interrupt routines, \<^verbatim>\<open>cons_getc\<close>, \<^verbatim>\<open>getchar\<close> and \<^verbatim>\<open>readline\<close>. On an empty ring, \<^verbatim>\<open>cons_init\<close>
  returns and establishes it when the display reports a cursor position on the screen, which the code does not test.
\<close>

theorem console_stays_ok:
  "(console_ok M \<longrightarrow> console_ok (cons_putc c M) \<and> console_ok (cputchar c M) \<and>
     (\<forall>fmt ap r M'. cprintf fmt ap M = Some (r, M') \<longrightarrow> console_ok M') \<and>
     (\<forall>M'. serial_intr M = Some M' \<longrightarrow> console_ok M') \<and> (\<forall>M'. kbd_intr M = Some M' \<longrightarrow> console_ok M') \<and>
     (\<forall>c M'. cons_getc M = Some (c, M') \<longrightarrow> console_ok M') \<and>
     (\<forall>c M'. getchar M = Some (c, M') \<longrightarrow> console_ok M') \<and>
     (\<forall>prompt p M'. readline prompt M = Some (p, M') \<longrightarrow> console_ok M')) \<and>
   (ring_ok (cons M) \<and> reported_cursor M < CRT_SIZE \<longrightarrow> (\<exists>M'. cons_init M = Some M' \<and> console_ok M'))"
proof (intro conjI impI allI)
  assume ok: "console_ok M"
  show "console_ok (cons_putc c M)" "console_ok (cputchar c M)"
    using console_cons_putc console_cputchar ok by blast+
  show "console_ok M'" if "cprintf fmt ap M = Some (r, M')" for fmt ap r M'
    using that console_print [of fmt ap M M'] ok by (simp add: print_def)
  show "console_ok M'" if "serial_intr M = Some M'" for M' using console_interrupts(1) that ok by blast
  show "console_ok M'" if "kbd_intr M = Some M'" for M' using console_interrupts(2) that ok by blast
  show "console_ok M'" if "cons_getc M = Some (c, M')" for c M' using console_cons_getc that ok by blast
  show "console_ok M'" if "getchar M = Some (c, M')" for c M' using console_getchar [OF that] ok by simp
  show "console_ok M'" if "readline prompt M = Some (p, M')" for prompt p M' using console_readline that ok by blast
next
  assume "ring_ok (cons M) \<and> reported_cursor M < CRT_SIZE"
  then show "\<exists>M'. cons_init M = Some M' \<and> console_ok M'" using console_init by blast
qed

theorem console_stays_ok_witness: "console_ok (cputchar 65 quiet) \<and> (\<exists>M'. cons_init quiet = Some M' \<and> console_ok M')"
proof -
  have r: "ring_ok (cons quiet)" by (simp add: ring_ok_def quiet_def CONSBUFSIZE_def)
  then have "console_ok quiet" using quiet_crt_ok by (simp add: console_ok_def)
  moreover have "reported_cursor quiet < CRT_SIZE" by (simp add: reported_cursor_def quiet_def crt_consts)
  ultimately show ?thesis using console_stays_ok [of quiet 65] r by blast
qed

end
