(* ===== verification/Relocate.thy ===== *)
theory Relocate
  imports Kdebug
begin

text \<open>
  The debugging sections of \<^verbatim>\<open>kern/kdebug.c\<close> at other addresses. A look-up in copies of the sections gives the same
  answer as in the original, up to the addresses of the two names, which are addresses of the same strings.
\<close>

section \<open>Copies of sections\<close>

definition sec_copy :: "mem \<Rightarrow> dsection \<Rightarrow> mem \<Rightarrow> dsection \<Rightarrow> bool" where
  "sec_copy m s m' s' \<longleftrightarrow> ds_size s' = ds_size s \<and>
     bytes_at m' (ds_data s') (unat (ds_size s)) = bytes_at m (ds_data s) (unat (ds_size s))"

lemma sec_copy_bytes:
  assumes "sec_copy m s m' s'" and "unat w + n \<le> unat (ds_size s)"
  shows "bytes_at m' (ds_data s' + w) n = bytes_at m (ds_data s + w) n"
proof (rule nth_equalityI)
  fix k assume "k < length (bytes_at m' (ds_data s' + w) n)"
  then have k: "k < n" by simp
  have at: "bytes_at mm a (unat (ds_size s)) ! (unat w + k) = mm (a + w + of_nat k)" for mm a
    using k assms(2) by (simp add: bytes_at_nth add.assoc)
  have "m' (ds_data s' + w + of_nat k) = m (ds_data s + w + of_nat k)"
    using assms(1) at [of m' "ds_data s'"] at [of m "ds_data s"] by (simp add: sec_copy_def)
  then show "bytes_at m' (ds_data s' + w) n ! k = bytes_at m (ds_data s + w) n ! k"
    using k by (simp add: bytes_at_nth)
qed simp

lemma sec_copy_holds:
  assumes "sec_copy m s m' s'" and "holds_at m (ds_data s + w) xs" and "unat w + length xs \<le> unat (ds_size s)"
  shows "holds_at m' (ds_data s' + w) xs"
  using assms(2) sec_copy_bytes [OF assms(1,3)] by (simp add: holds_at_def)

lemma sec_copy_cstr:
  assumes "sec_copy m s m' s'" and "cstr m (ds_data s + w) xs" and "unat w + length xs < unat (ds_size s)"
  shows "cstr m' (ds_data s' + w) xs"
proof -
  have "unat w + Suc (length xs) \<le> unat (ds_size s)" using assms(3) by simp
  from sec_copy_bytes [OF assms(1) this] show ?thesis
    using assms(2) unfolding cstr_bytes by simp
qed

text \<open>The same state of the reader, with \<^verbatim>\<open>.debug_info\<close> at another address.\<close>

definition rebase :: "addr \<Rightarrow> dwdebug \<Rightarrow> dwdebug" where
  "rebase b d = d\<lparr>dbg_info_offset_elf := b\<rparr>"

lemma rebase_simps [simp]:
  "dbg_info_offset_elf (rebase b d) = b" "dbg_info_size (rebase b d) = dbg_info_size d"
  "curr_off_dbginfo (rebase b d) = curr_off_dbginfo d" "enc (rebase b d) = enc d"
  by (simp_all add: rebase_def enc_def fun_eq_iff)

lemma rebase_bytes [simp]:
  "val_bytes (rebase b d) c v = val_bytes d c v" "attr_bytes (rebase b d) c avs = attr_bytes d c avs"
  "head_bytes (rebase b d) c e avs = head_bytes d c e avs"
proof -
  show v: "val_bytes (rebase b d) c v = val_bytes d c v" for v by (cases v) simp_all
  show "attr_bytes (rebase b d) c avs = attr_bytes d c avs" by (simp add: attr_bytes_def v)
  then show "head_bytes (rebase b d) c e avs = head_bytes d c e avs" by (simp add: head_bytes_def)
qed

lemma rebase_tree_bytes [simp]:
  "tree_bytes (rebase b d) c as t = tree_bytes d c as t"
  "forest_bytes (rebase b d) c as ts = forest_bytes d c as ts"
  by (induction d c as t and d c as ts rule: tree_bytes_forest_bytes.induct) simp_all

lemma rebase_attrs_ok [simp]: "attrs_ok (rebase b d) c sz off avs = attrs_ok d c sz off avs"
  by (induction d c sz off avs rule: attrs_ok.induct) simp_all

lemma rebase_head_ok [simp]: "head_ok (rebase b d) c as off e avs = head_ok d c as off e avs"
  by (simp add: head_ok_def)

lemma rebase_tree_ok [simp]:
  "tree_ok (rebase b d) c as off t = tree_ok d c as off t"
  "forest_ok (rebase b d) c as off ts = forest_ok d c as off ts"
  by (induction d c as off t and d c as off ts rule: tree_ok_forest_ok.induct) simp_all

lemma rebase_unit [simp]:
  "after_unit (rebase b d) u = rebase b (after_unit d u)" "unit_cu (rebase b d) u = unit_cu d u"
  "root_off (rebase b d) = root_off d" "cu_header (rebase b d) = cu_header d"
  by (simp_all add: rebase_def after_unit_def unit_cu_def root_off_def cu_header_def enc_def fun_eq_iff)

lemma rebase_first_off [simp]: "first_off (rebase b d) u = first_off d u"
  by (simp add: first_off_def)

lemma rebase_lines [simp]:
  "unit_bytes (rebase b d) lu = unit_bytes d lu" "unit_info (rebase b d) lu = unit_info d lu"
  "line_of (rebase b d) lu addr = line_of d lu addr"
proof -
  have "encode_op (rebase b d) = encode_op d"
  proof
    show "encode_op (rebase b d) op = encode_op d op" for op by (cases op) simp_all
  qed
  then have p: "encode_program (rebase b d) ops = encode_program d ops" for ops by (simp add: encode_program_def)
  show "unit_bytes (rebase b d) lu = unit_bytes d lu" by (simp add: unit_bytes_def p)
  show i: "unit_info (rebase b d) lu = unit_info d lu" by (simp add: unit_info_def p)
  show "line_of (rebase b d) lu addr = line_of d lu addr" by (simp add: line_of_def i)
qed

section \<open>Attributes\<close>

text \<open>What the code reads of an attribute as a number does not depend on where the section is.\<close>

definition numbers :: "u64 set" where
  "numbers = {DW_AT_sibling, DW_AT_byte_size, DW_AT_stmt_list, DW_AT_low_pc, DW_AT_high_pc, DW_AT_type}"

lemma find_moved:
  assumes "numbers_ok avs" and "A \<in> numbers"
  shows "map_option (\<lambda>at. (at_form at, at_u0 at)) (find (\<lambda>at. at_attrib at = A) (attrs_at (rebase b d) c str' p' avs)) =
    map_option (\<lambda>at. (at_form at, at_u0 at)) (find (\<lambda>at. at_attrib at = A) (attrs_at d c str p avs))"
  using assms(1)
proof (induction avs arbitrary: p p')
  case (Cons x avs)
  obtain a f v where x: "x = (a, f, v)" by (cases x)
  show ?case
  proof (cases "of_nat a = A")
    case True
    with Cons.prems assms(2) have "fst (val_words str' q' v) = fst (val_words str q v)" for q q'
      by (cases v) (auto simp: x numbers_ok_def numbers_def)
    then show ?thesis using True by (simp add: x attr_of_def)
  next
    case False
    then show ?thesis using Cons.IH Cons.prems by (simp add: x attr_of_def numbers_ok_def)
  qed
qed simp

lemma attr_in_moved:
  assumes "numbers_ok avs" and "A \<in> numbers"
  shows "attr_in A (entry_attrs (rebase b d) c str' off e avs) = attr_in A (entry_attrs d c str off e avs)"
proof -
  have snd: "map_option at_u0 r = map_option snd (map_option (\<lambda>at. (at_form at, at_u0 at)) r)" for r
    by (cases r) simp_all
  show ?thesis
    unfolding attr_in_def entry_attrs_def snd by (rule arg_cong [OF find_moved [OF assms]])
qed

lemma named_moved: "named (entry_attrs (rebase b d) c str' off e avs) = named (entry_attrs d c str off e avs)"
proof -
  have eq: "map (\<lambda>at. (at_attrib at, at_form at)) (attrs_at (rebase b d) c str' p' avs) =
      map (\<lambda>at. (at_attrib at, at_form at)) (attrs_at d c str p avs)" for p p'
    by (induction avs arbitrary: p p') (auto simp: attr_of_def)
  have nm: "named ats \<longleftrightarrow> (\<exists>(a, f) \<in> set (map (\<lambda>at. (at_attrib at, at_form at)) ats).
      a = DW_AT_name \<and> (f = DW_FORM_strp \<or> f = DW_FORM_string))" for ats
    by (auto simp: named_def)
  show ?thesis
    unfolding nm entry_attrs_def by (rule arg_cong [OF eq])
qed

text \<open>Every reference to \<^verbatim>\<open>.debug_str\<close> is a string that ends within the section.\<close>

definition strings_in :: "mem \<Rightarrow> dsection \<Rightarrow> attr_spec list \<Rightarrow> bool" where
  "strings_in m str avs \<longleftrightarrow>
     list_all (\<lambda>(a, f, v). case v of
         VStrp w \<Rightarrow> \<exists>xs. cstr m (ds_data str + w) xs \<and> unat w + length xs < unat (ds_size str)
       | _ \<Rightarrow> True) avs"

definition same_string :: "mem \<Rightarrow> addr \<Rightarrow> mem \<Rightarrow> addr \<Rightarrow> bool" where
  "same_string m p m' p' \<longleftrightarrow> (\<exists>xs. cstr m p xs \<and> cstr m' p' xs)"

lemma same_string_upto: "same_string m p m' p' \<Longrightarrow> cstr m p xs \<Longrightarrow> cstr m' p' xs"
  using cstr_unique by (auto simp: same_string_def)

lemma attr_name_moved:
  assumes "sec_copy m str m' str'" and "strings_in m str [(a, f, v)]" and "val_ok c sz off v"
    and "of_nat f \<in> set (val_forms v)" and "holds_at m p (val_bytes d c v)" and "holds_at m' p' (val_bytes d c v)"
    and "named [attr_of str p (a, f, v)]"
  shows "same_string m (attr_name (attr_of str p (a, f, v)) n) m' (attr_name (attr_of str' p' (a, f, v)) n')"
proof -
  have name: "of_nat a = DW_AT_name" "of_nat f = DW_FORM_strp \<or> of_nat f = DW_FORM_string"
    using assms(7) by (simp_all add: named_def attr_of_def)
  then consider (strp) w where "v = VStrp w" "of_nat f = DW_FORM_strp"
    | (string) xs where "v = VString xs" "of_nat f = DW_FORM_string"
    using assms(4) by (cases v) (auto simp: dw_form_defs split: if_splits)
  then show ?thesis
  proof cases
    case strp
    then obtain xs where "cstr m (ds_data str + w) xs" "unat w + length xs < unat (ds_size str)"
      using assms(2) by (auto simp: strings_in_def)
    with sec_copy_cstr [OF assms(1) this] show ?thesis
      using name(1) strp by (auto simp: same_string_def attr_name_def attr_of_def)
  next
    case string
    then have "cstr m p xs" "cstr m' p' xs"
      using assms(3,5,6) by (simp_all add: cstr_bytes holds_at_def)
    then show ?thesis
      using name(1) string by (auto simp: same_string_def attr_name_def attr_of_def dw_form_defs)
  qed
qed

lemma fold_names_moved:
  assumes "sec_copy m str m' str'" and "strings_in m str avs" and "attrs_ok d c sz off avs"
    and "holds_at m p (attr_bytes d c avs)" and "holds_at m' p' (attr_bytes d c avs)"
    and "same_string m n m' n' \<or> named (attrs_at d c str p avs)"
  shows "same_string m (fold attr_name (attrs_at d c str p avs) n) m'
    (fold attr_name (attrs_at (rebase b d) c str' p' avs) n')"
  using assms(2-)
proof (induction avs arbitrary: p p' n n' off)
  case Nil
  then show ?case by (simp add: named_def)
next
  case (Cons x avs)
  obtain a f v where x: "x = (a, f, v)" by (cases x)
  have here: "strings_in m str [(a, f, v)]" "val_ok c sz off v" "of_nat f \<in> set (val_forms v)"
      "holds_at m p (val_bytes d c v)" "holds_at m' p' (val_bytes d c v)"
    and rest: "strings_in m str avs" "attrs_ok d c sz (off + of_nat (length (val_bytes d c v))) avs"
      "holds_at m (p + of_nat (length (val_bytes d c v))) (attr_bytes d c avs)"
      "holds_at m' (p' + of_nat (length (val_bytes d c v))) (attr_bytes d c avs)"
    using Cons.prems(1-4) by (simp_all add: x strings_in_def attr_bytes_def holds_at_append)
  have "same_string m (attr_name (attr_of str p (a, f, v)) n) m' (attr_name (attr_of str' p' (a, f, v)) n')
      \<or> named (attrs_at d c str (p + of_nat (length (val_bytes d c v))) avs)"
  proof (cases "named [attr_of str p (a, f, v)]")
    case True
    from attr_name_moved [OF assms(1) here True, of n n'] show ?thesis ..
  next
    case False
    then have "attr_name (attr_of str p (a, f, v)) n = n" "attr_name (attr_of str' p' (a, f, v)) n' = n'"
      by (auto simp: named_def attr_name_def attr_of_def)
    with False Cons.prems(5) show ?thesis by (auto simp: x named_def)
  qed
  from Cons.IH [OF rest this] show ?case by (simp add: x)
qed

lemma entry_name_moved:
  assumes "sec_copy m str m' str'" and "strings_in m str avs" and "head_ok d c as off e avs"
    and "holds_at m (dbg_info_offset_elf d + off) (head_bytes d c e avs)" and "holds_at m' (b + off) (head_bytes d c e avs)"
    and "named (entry_attrs d c str off e avs)"
  shows "same_string m (entry_name (entry_attrs d c str off e avs)) m'
    (entry_name (entry_attrs (rebase b d) c str' off e avs))"
  unfolding entry_name_def entry_attrs_def
proof (rule fold_names_moved [OF assms(1,2)])
  show "attrs_ok d c (dbg_info_size d) (off + of_nat (length (uleb128 e))) avs"
    using assms(3) by (simp add: head_ok_def)
  show "holds_at m (dbg_info_offset_elf d + (off + of_nat (length (uleb128 e)))) (attr_bytes d c avs)"
    "holds_at m' (dbg_info_offset_elf (rebase b d) + (off + of_nat (length (uleb128 e)))) (attr_bytes d c avs)"
    using assms(4,5) by (simp_all add: head_bytes_def holds_at_append add.assoc)
  show "same_string m 0 m' 0 \<or>
      named (attrs_at d c str (dbg_info_offset_elf d + (off + of_nat (length (uleb128 e)))) avs)"
    using assms(6) by (simp add: entry_attrs_def)
qed

section \<open>Entries and their types\<close>

text \<open>Whatever lies within \<^verbatim>\<open>.debug_info\<close> lies at the same offset from \<open>b\<close>.\<close>

definition info_moved :: "mem \<Rightarrow> dwdebug \<Rightarrow> mem \<Rightarrow> addr \<Rightarrow> bool" where
  "info_moved m d m' b \<longleftrightarrow>
     (\<forall>off xs. unat off + length xs \<le> unat (dbg_info_size d) \<longrightarrow> holds_at m (dbg_info_offset_elf d + off) xs
        \<longrightarrow> holds_at m' (b + off) xs)"

lemma info_moved_holds:
  "info_moved m d m' b \<Longrightarrow> holds_at m (dbg_info_offset_elf d + off) xs \<Longrightarrow> unat off + length xs \<le> unat lim \<Longrightarrow>
   lim \<le> dbg_info_size d \<Longrightarrow> holds_at m' (b + off) xs"
  unfolding info_moved_def word_le_nat_alt by (meson order_trans)

lemma info_moved_after [simp]: "info_moved m (after_unit d u) m' b = info_moved m d m' b"
  by (simp add: info_moved_def after_unit_def)

lemma entry_at_moved:
  assumes "info_moved m d m' b" and "cu_next_offset c \<le> dbg_info_size d" and "entry_at m d c as off e avs"
  shows "entry_at m' (rebase b d) c as off e avs"
  using assms(3) info_moved_holds [OF assms(1) _ _ assms(2), of off] by (simp add: entry_at_def)

lemma children_at_moved:
  assumes "info_moved m d m' b" and "cu_next_offset c \<le> dbg_info_size d" and "children_at m d c as off ts"
  shows "children_at m' (rebase b d) c as off ts"
  using assms(3) info_moved_holds [OF assms(1) _ _ assms(2), of off "forest_bytes d c as ts @ [0]"]
  by (simp add: children_at_def add.assoc)

lemma type_chain_moved:
  assumes "info_moved m d m' b" and "cu_next_offset c \<le> dbg_info_size d" and "type_chain m d c as str off sz"
  shows "type_chain m' (rebase b d) c as str' off sz"
  using assms(3)
proof (induction rule: type_chain.induct)
  case (sized off e avs sz)
  then have "numbers_ok avs" by (simp add: entry_at_def)
  from attr_in_moved [OF this, where str = str] sized show ?case
    by (intro type_chain.sized [OF entry_at_moved [OF assms(1,2) sized(1)]]) (simp_all add: numbers_def)
next
  case (unsized off e avs)
  then have "numbers_ok avs" by (simp add: entry_at_def)
  from attr_in_moved [OF this, where str = str] unsized show ?case
    by (intro type_chain.unsized [OF entry_at_moved [OF assms(1,2) unsized(1)]]) (simp_all add: numbers_def)
next
  case (derived off e avs u sz)
  then have "numbers_ok avs" by (simp add: entry_at_def)
  from attr_in_moved [OF this, where str = str] derived show ?case
    by (intro type_chain.derived [OF entry_at_moved [OF assms(1,2) derived(1)]]) (simp_all add: numbers_def)
qed

lemma first_size_moved:
  assumes "info_moved m d m' b" and "cu_next_offset c \<le> dbg_info_size d" and "numbers_ok avs"
    and "first_size m d c as str (entry_attrs d c str off e avs) sz"
  shows "first_size m' (rebase b d) c as str' (entry_attrs (rebase b d) c str' off e avs) sz"
  using assms(4) type_chain_moved [OF assms(1,2)]
  by (auto simp: first_size_def attr_in_moved [OF assms(3), where str = str] numbers_def split: option.splits)

lemma later_size_moved:
  assumes "info_moved m d m' b" and "cu_next_offset c \<le> dbg_info_size d" and "numbers_ok avs"
    and "later_size m d c as str prev (entry_attrs d c str off e avs) sz"
  shows "later_size m' (rebase b d) c as str' prev (entry_attrs (rebase b d) c str' off e avs) sz"
proof -
  note eq = attr_in_moved [OF assms(3), where str = str and A = DW_AT_type]
  show ?thesis
  proof (cases "attr_in DW_AT_type (entry_attrs d c str off e avs)")
    case None
    then show ?thesis using assms(4) by (simp add: later_size_def eq numbers_def)
  next
    case (Some u)
    then obtain e' avs' where at: "entry_at m d c as (cu_offset c + u) e' avs'"
      "sz = (case attr_in DW_AT_byte_size (entry_attrs d c str (cu_offset c + u) e' avs') of
         Some z \<Rightarrow> z | None \<Rightarrow> prev)"
      using assms(4) by (auto simp: later_size_def)
    then have "numbers_ok avs'" by (simp add: entry_at_def)
    from attr_in_moved [OF this, where str = str] have
      "sz = (case attr_in DW_AT_byte_size (entry_attrs (rebase b d) c str' (cu_offset c + u) e' avs') of
         Some z \<Rightarrow> z | None \<Rightarrow> prev)"
      using at(2) by (simp add: numbers_def)
    then show ?thesis
      using Some entry_at_moved [OF assms(1,2) at(1)] by (auto simp: later_size_def eq numbers_def)
  qed
qed

section \<open>Trees\<close>

fun tree_numbers :: "die_tree \<Rightarrow> bool" where
  "tree_numbers (Node e avs ts) \<longleftrightarrow> numbers_ok avs \<and> list_all tree_numbers ts"

lemma later_args_moved:
  assumes "info_moved m d m' b" and "cu_next_offset c \<le> dbg_info_size d"
  shows "list_all tree_numbers ts \<Longrightarrow> later_args m d c as str prev off ts szs \<Longrightarrow>
    later_args m' (rebase b d) c as str' prev off ts szs"
proof (induction ts arbitrary: prev off szs)
  case (Cons t ts)
  obtain e avs us where t: "t = Node e avs us" by (cases t)
  show ?case
    using Cons.prems Cons.IH later_size_moved [OF assms, of avs as str prev off e _ str']
    by (auto simp: t simp del: tree_bytes.simps)
qed simp

lemma arg_sizes_moved:
  assumes "info_moved m d m' b" and "cu_next_offset c \<le> dbg_info_size d" and "list_all tree_numbers ts"
    and "arg_sizes m d c as str off ts szs"
  shows "arg_sizes m' (rebase b d) c as str' off ts szs"
proof (cases ts)
  case (Cons t ts)
  obtain e avs us where t: "t = Node e avs us" by (cases t)
  show ?thesis
    using assms(3,4) first_size_moved [OF assms(1,2), of avs as str off e _ str'] later_args_moved [OF assms(1,2), of ts]
    by (auto simp: t Cons simp del: tree_bytes.simps)
qed (use assms(4) in simp)

lemma sibling_ok_moved:
  assumes "tree_numbers t" and "sibling_ok d c as str off t"
  shows "sibling_ok (rebase b d) c as str' off t"
proof -
  obtain e avs us where t: "t = Node e avs us" by (cases t)
  then have nums: "numbers_ok avs" using assms(1) by simp
  let ?f = "\<lambda>d str. find (\<lambda>a. at_attrib a = DW_AT_sibling)
      (attrs_at d c str (dbg_info_offset_elf d + (off + of_nat (length (uleb128 e)))) avs)"
  have "map_option (\<lambda>at. (at_form at, at_u0 at)) (?f (rebase b d) str') = map_option (\<lambda>at. (at_form at, at_u0 at)) (?f d str)"
    using find_moved [OF nums] by (simp add: numbers_def)
  then show ?thesis
    using assms(2) by (cases "?f d str"; cases "?f (rebase b d) str'") (auto simp: sibling_ok_def t)
qed

lemma siblings_ok_moved:
  "list_all tree_numbers ts \<Longrightarrow> siblings_ok d c as str off ts \<Longrightarrow> siblings_ok (rebase b d) c as str' off ts"
  by (induction ts arbitrary: off) (auto simp: sibling_ok_moved)

lemma func_sizes_moved:
  assumes "info_moved m d m' b" and "cu_next_offset c \<le> dbg_info_size d" and "list_all tree_numbers ts"
    and "func_sizes m d c as str off e avs ts szs"
  shows "func_sizes m' (rebase b d) c as str' off e avs ts szs"
  using assms(4) siblings_ok_moved [OF assms(3)] arg_sizes_moved [OF assms(1-3)]
  by (auto simp: func_sizes_def split: if_splits)

lemma covers_moved:
  "numbers_ok avs \<Longrightarrow> covers (rebase b d) c as str' addr off e avs = covers d c as str addr off e avs"
  unfolding covers_def by (simp add: attr_in_moved [where str = str] numbers_def)

lemma covering_moved:
  "list_all tree_numbers ts \<Longrightarrow> covering (rebase b d) c as str' addr off ts = covering d c as str addr off ts"
proof (induction ts arbitrary: off)
  case (Cons t ts)
  obtain e avs us where t: "t = Node e avs us" by (cases t)
  show ?case using Cons by (simp add: t covers_moved [where str = str])
qed simp

text \<open>The entry that covers the address lies in the list, and so do its children.\<close>

lemma covering_at:
  assumes "children_at m d c as off ts" and "covering d c as str addr off ts = Some (off', e, avs, us, rest)"
  shows "children_at m d c as off' (Node e avs us # rest)"
  using assms
proof (induction ts arbitrary: off)
  case (Cons t ts)
  obtain e1 avs1 us1 where t: "t = Node e1 avs1 us1" by (cases t)
  show ?case
    using Cons.prems Cons.IH [OF children_at_step(1) [OF Cons.prems(1) [unfolded t]]] by (auto simp: t split: if_splits)
qed simp

lemma covering_in: "covering d c as str addr off ts = Some (off', e, avs, us, rest) \<Longrightarrow> Node e avs us \<in> set ts"
proof (induction ts arbitrary: off)
  case (Cons t ts)
  then show ?case by (cases t) (auto split: if_splits)
qed simp

section \<open>Units\<close>

definition unit_numbers :: "comp_unit \<Rightarrow> bool" where
  "unit_numbers u \<longleftrightarrow> numbers_ok (un_attrs u) \<and> list_all tree_numbers (un_children u)"

text \<open>The four sections that a look-up reads, in two tables.\<close>

definition moved :: "mem \<Rightarrow> dsection list \<Rightarrow> mem \<Rightarrow> dsection list \<Rightarrow> bool" where
  "moved m si m' si' \<longleftrightarrow>
     (\<forall>n \<in> set [''.debug_info'', ''.debug_abbrev'', ''.debug_line'', ''.debug_str'']. \<exists>s s'.
        find_section si n = Some s \<and> find_section si' n = Some s' \<and> sec_copy m s m' s' \<and>
        unat (ds_data s') + unat (ds_size s') < 2 ^ 64)"

lemma moved_find:
  assumes "moved m si m' si'" and "n \<in> set [''.debug_info'', ''.debug_abbrev'', ''.debug_line'', ''.debug_str'']"
    and "find_section si n = Some s"
  shows "\<exists>s'. find_section si' n = Some s' \<and> sec_copy m s m' s' \<and> unat (ds_data s') + unat (ds_size s') < 2 ^ 64"
  using assms unfolding moved_def by fastforce

text \<open>The reader \<open>d\<close> works on the sections of \<open>si\<close>, and \<open>b\<close> and \<open>str'\<close> belong to those of \<open>si'\<close>.\<close>

definition readers ::
    "mem \<Rightarrow> dsection list \<Rightarrow> dsection \<Rightarrow> dwdebug \<Rightarrow> mem \<Rightarrow> dsection list \<Rightarrow> dsection \<Rightarrow> addr \<Rightarrow> bool" where
  "readers m si str d m' si' str' b \<longleftrightarrow> moved m si m' si' \<and>
     (\<exists>inf'. find_section si' ''.debug_info'' = Some inf' \<and> ds_data inf' = b \<and> ds_size inf' = dbg_info_size d) \<and>
     find_section si' ''.debug_str'' = Some str' \<and> sec_copy m str m' str' \<and> info_moved m d m' b \<and>
     unat (dbg_info_size d) + 11 < 2 ^ 64"

lemma readers_after [simp]:
  "readers m si str (after_unit d u) m' si' str' b = readers m si str d m' si' str' b"
  by (simp add: readers_def) (simp add: after_unit_def)

lemma size_after [simp]: "dbg_info_size (after_unit d u) = dbg_info_size d"
  by (simp add: after_unit_def)

lemma readers_exist:
  assumes "moved m si m' si'" and "unit_env m si d c as str" and "unat (dbg_info_size d) + 11 < 2 ^ 64"
  shows "\<exists>str' b. readers m si str d m' si' str' b"
proof -
  obtain inf where inf: "find_section si ''.debug_info'' = Some inf" "ds_data inf = dbg_info_offset_elf d"
      "ds_size inf = dbg_info_size d" and str: "find_section si ''.debug_str'' = Some str"
    using assms(2) by (auto simp: unit_env_def)
  obtain inf' where inf': "find_section si' ''.debug_info'' = Some inf'" "sec_copy m inf m' inf'"
    using moved_find [OF assms(1) _ inf(1)] by auto
  obtain str' where str': "find_section si' ''.debug_str'' = Some str'" "sec_copy m str m' str'"
    using moved_find [OF assms(1) _ str] by auto
  have "info_moved m d m' (ds_data inf')"
    using sec_copy_holds [OF inf'(2)] by (simp add: info_moved_def inf)
  then have "readers m si str d m' si' str' (ds_data inf')"
    using assms(1,3) inf inf' str' by (auto simp: readers_def sec_copy_def)
  then show ?thesis by blast
qed

lemma unit_env_moved:
  assumes "readers m si str d m' si' str' b" and "unit_env m si d c as str"
  shows "unit_env m' si' (rebase b d) c as str'"
proof -
  obtain abd where abd: "find_section si ''.debug_abbrev'' = Some abd"
      "holds_at m (ds_data abd + cu_abbrev_offset c) (encode_abbrevs as)" "\<forall>sp \<in> set as. abbrev_fits sp"
      "unat (cu_abbrev_offset c) + length (encode_abbrevs as) \<le> unat (ds_size abd)" "cu_next_offset c \<le> dbg_info_size d"
    using assms(2) by (auto simp: unit_env_def)
  have "moved m si m' si'" using assms(1) by (simp add: readers_def)
  from moved_find [OF this _ abd(1)] obtain abd' where
    "find_section si' ''.debug_abbrev'' = Some abd'" "sec_copy m abd m' abd'" by auto
  moreover from this(2) have "holds_at m' (ds_data abd' + cu_abbrev_offset c) (encode_abbrevs as)"
    "unat (cu_abbrev_offset c) + length (encode_abbrevs as) \<le> unat (ds_size abd')"
    using sec_copy_holds [OF _ abd(2,4)] abd(4) by (simp_all add: sec_copy_def)
  ultimately show ?thesis
    using assms(1) abd(3,5) by (auto simp: unit_env_def readers_def)
qed

lemma unit_at_moved:
  assumes "readers m si str d m' si' str' b" and "unit_at m si str d u" and "unit_numbers u"
  shows "unit_at m' si' str' (rebase b d) u"
proof -
  have info: "info_moved m (after_unit d u) m' b" and room: "unat (dbg_info_size d) + 11 < 2 ^ 64"
    using assms(1) by (simp_all add: readers_def)
  have env: "unit_env m si (after_unit d u) (unit_cu d u) (un_abbrevs u) str"
    and entry: "entry_at m (after_unit d u) (unit_cu d u) (un_abbrevs u) (root_off d) (un_entry u) (un_attrs u)"
    and header: "holds_at m (dbg_info_offset_elf d + curr_off_dbginfo d)
       (cu_header d (un_length u) (un_version u) (un_abbrev_offset u) 8)"
    and le: "curr_off_dbginfo d \<le> dbg_info_size d"
    using assms(2) by (simp_all add: unit_at_def)
  have nxt: "cu_next_offset (unit_cu d u) \<le> dbg_info_size (after_unit d u)" using env by (auto simp: unit_env_def)
  note moved = info nxt
  have "unat (root_off d) = unat (curr_off_dbginfo d) + 11"
    unfolding root_off_def using le room by (simp add: unat_word_ariths word_le_nat_alt)
  then have "unat (curr_off_dbginfo d) + length (cu_header d (un_length u) (un_version u) (un_abbrev_offset u) 8)
      \<le> unat (cu_next_offset (unit_cu d u))"
    using entry by (simp add: entry_at_def cu_header_def)
  from info_moved_holds [OF info _ this nxt]
  have "holds_at m' (b + curr_off_dbginfo d) (cu_header d (un_length u) (un_version u) (un_abbrev_offset u) 8)"
    using header by (simp add: after_unit_def)
  moreover have "unit_env m' si' (rebase b (after_unit d u)) (unit_cu d u) (un_abbrevs u) str'"
    using unit_env_moved [OF _ env] assms(1) by simp
  moreover note entry_at_moved [OF moved entry]
  moreover have "list_all tree_numbers (un_children u)" using assms(3) by (simp add: unit_numbers_def)
  ultimately show ?thesis
    using assms(2) children_at_moved [OF moved] siblings_ok_moved [where str = str]
    by (simp add: unit_at_def split: if_splits)
qed

lemma units_at_moved:
  "readers m si str d m' si' str' b \<Longrightarrow> units_at m si str d us \<Longrightarrow> list_all unit_numbers us \<Longrightarrow>
   units_at m' si' str' (rebase b d) us"
  by (induction us arbitrary: d) (simp_all add: unit_at_moved)

lemma find_function_moved:
  "list_all unit_numbers us \<Longrightarrow>
   find_function (rebase b d) str' addr us = map_option (apfst (rebase b)) (find_function d str addr us)"
proof (induction us arbitrary: d)
  case (Cons u us)
  have "unit_covering (rebase b d) str' addr u = unit_covering d str addr u"
    using Cons.prems covering_moved [where str = str] by (simp add: unit_covering_def unit_numbers_def)
  then show ?case using Cons by (auto split: option.splits)
qed simp

lemma find_function_unit:
  assumes "units_at m si str d us" and "find_function d str addr us = Some (d', u, off, e, avs, ts)"
  shows "u \<in> set us \<and> unit_at m si str d' u \<and> (\<exists>rest. unit_covering d' str addr u = Some (off, e, avs, ts, rest))
    \<and> dbg_info_size d' = dbg_info_size d
    \<and> (readers m si str d' m' si' str' b \<longleftrightarrow> readers m si str d m' si' str' b)"
  using assms
proof (induction us arbitrary: d)
  case (Cons v us)
  show ?case
  proof (cases "unit_covering d str addr v")
    case None
    then show ?thesis using Cons.IH [of "after_unit d v"] Cons.prems by simp
  next
    case (Some r)
    then show ?thesis using Cons.prems by (cases r) auto
  qed
qed simp

section \<open>The look-up\<close>

lemma lines_at_moved:
  assumes "moved m si m' si'" and "numbers_ok avs" and "lines_at m si d (entry_attrs d c str off e avs) lu"
  shows "lines_at m' si' (rebase b d) (entry_attrs (rebase b d) c str' off e avs) lu"
proof -
  obtain ds at where ds: "attr_in DW_AT_stmt_list (entry_attrs d c str off e avs) = Some at"
      "find_section si ''.debug_line'' = Some ds" "holds_at m (ds_data ds + at) (unit_bytes d lu)" "unit_fits lu"
      "unat at + length (unit_bytes d lu) \<le> unat (ds_size ds)" "unat (ds_size ds) < 2 ^ 31"
    using assms(3) by (auto simp: lines_at_def)
  from moved_find [OF assms(1) _ ds(2)] obtain ds' where
    ds': "find_section si' ''.debug_line'' = Some ds'" "sec_copy m ds m' ds'"
      "unat (ds_data ds') + unat (ds_size ds') < 2 ^ 64" by auto
  have "holds_at m' (ds_data ds' + at) (unit_bytes d lu)" using ds'(2) ds(3,5) by (rule sec_copy_holds)
  moreover have "ds_size ds' = ds_size ds" using ds'(2) by (simp add: sec_copy_def)
  moreover have "attr_in DW_AT_stmt_list (entry_attrs (rebase b d) c str' off e avs) = Some at"
    using attr_in_moved [OF assms(2), where str = str] ds(1) by (simp add: numbers_def)
  ultimately show ?thesis using ds(4-6) ds'(1,3) by (auto simp: lines_at_def)
qed

text \<open>Equal answers, apart from the addresses of the two names.\<close>

definition same_answer :: "mem \<Rightarrow> ripdebuginfo \<Rightarrow> mem \<Rightarrow> ripdebuginfo \<Rightarrow> bool" where
  "same_answer m i m' i' \<longleftrightarrow>
     same_string m (ri_file i) m' (ri_file i') \<and> same_string m (ri_fn_name i) m' (ri_fn_name i') \<and>
     ri_line i' = ri_line i \<and> ri_fn_namelen i' = ri_fn_namelen i \<and> ri_fn_addr i' = ri_fn_addr i \<and>
     ri_fn_narg i' = ri_fn_narg i \<and> ri_size_fn_arg i' = ri_size_fn_arg i"

text \<open>The function that is found, in the copy.\<close>

lemma found_moved:
  assumes "readers m si str d m' si' str' b" and "unit_at m si str d u" and "unit_numbers u"
    and "unit_covering d str addr u = Some (off, e, avs, ts, rest)"
    and "func_ok m si str d u lu off e avs ts name szs" and "strings_in m str (un_attrs u)" and "strings_in m str avs"
  shows "func_ok m' si' str' (rebase b d) u lu off e avs ts name szs"
    and "same_answer m (func_result str d u lu addr off e avs name szs info) m'
      (func_result str' (rebase b d) u lu addr off e avs name szs info)"
proof -
  let ?d = "after_unit d u" and ?c = "unit_cu d u" and ?as = "un_abbrevs u"
  note ok = assms(5) [unfolded func_ok_def]
  have copy: "sec_copy m str m' str'" "moved m si m' si'" "info_moved m ?d m' b"
    using assms(1) by (simp_all add: readers_def)
  have root: "entry_at m ?d ?c ?as (root_off d) (un_entry u) (un_attrs u)"
    and env: "unit_env m si ?d ?c ?as str" using assms(2) by (simp_all add: unit_at_def)
  have nxt: "cu_next_offset ?c \<le> dbg_info_size ?d" using env by (auto simp: unit_env_def)
  have cov: "covering ?d ?c ?as str addr (first_off d u) (un_children u) = Some (off, e, avs, ts, rest)"
    using assms(4) by (simp add: unit_covering_def)
  then have "un_children u \<noteq> []" by auto
  then have "children_at m ?d ?c ?as (first_off d u) (un_children u)"
    using assms(2) by (simp add: unit_at_def split: if_splits)
  note at = covering_at [OF this cov]
  have nums: "numbers_ok (un_attrs u)" "numbers_ok avs" "list_all tree_numbers ts"
    using covering_in [OF cov] assms(3) by (auto simp: unit_numbers_def list_all_iff)
  have head: "head_ok ?d ?c ?as off e avs" "holds_at m (dbg_info_offset_elf ?d + off) (head_bytes ?d ?c e avs)"
    "holds_at m' (dbg_info_offset_elf (rebase b ?d) + off) (head_bytes ?d ?c e avs)"
    using at children_at_moved [OF copy(3) nxt at] by (simp_all add: children_at_def holds_at_append)
  have names: "same_string m (entry_name (root_attrs d str u)) m' (entry_name (root_attrs (rebase b d) str' u))"
    "same_string m (entry_name (entry_attrs ?d ?c str off e avs)) m'
      (entry_name (entry_attrs (rebase b ?d) ?c str' off e avs))"
    using entry_name_moved [OF copy(1) assms(6), of ?d ?c ?as "root_off d" "un_entry u" b]
      entry_name_moved [OF copy(1) assms(7) head(1,2), of b] entry_at_moved [OF copy(3) nxt root] root head(3) ok
    by (simp_all add: root_attrs_def entry_at_def)
  have sizes: "func_sizes m' (rebase b ?d) ?c ?as str' off e avs ts szs"
    using ok by (intro func_sizes_moved [OF copy(3) nxt nums(3), of _ str]) simp
  have lines: "lines_at m' si' (rebase b ?d) (root_attrs (rebase b d) str' u) lu"
    using ok lines_at_moved [OF copy(2) nums(1), of ?d ?c str] by (simp add: root_attrs_def)
  show "func_ok m' si' str' (rebase b d) u lu off e avs ts name szs"
    using ok sizes lines same_string_upto [OF names(2)] named_moved [of b ?d ?c str' _ _ _ str]
    by (simp add: func_ok_def root_attrs_def)
  have "attr_in DW_AT_low_pc (entry_attrs (rebase b ?d) ?c str' off e avs) = attr_in DW_AT_low_pc (entry_attrs ?d ?c str off e avs)"
    using nums(2) by (intro attr_in_moved) (simp_all add: numbers_def)
  then show "same_answer m (func_result str d u lu addr off e avs name szs info) m'
      (func_result str' (rebase b d) u lu addr off e avs name szs info)"
    using names by (simp add: same_answer_def func_result_def func_info_def)
qed

lemma debuginfo_rip_moved:
  assumes "moved m si m' si'" and "addr \<ge> ULIM" and "find_section si ''.debug_info'' = Some sect"
    and "ds_size sect \<noteq> 0" and "unat (ds_size sect) + 11 < 2 ^ 64"
    and "d = (dwarf_init m' (0x10000 + KERNBASE))\<lparr>dbg_info_offset_elf := ds_data sect, dbg_info_size := ds_size sect\<rparr>"
    and "units_at m si str d us" and "list_all unit_numbers us"
    and "find_function d str addr us = Some (d', u, off, e, avs, ts)"
    and "func_ok m si str d' u lu off e avs ts name szs"
    and "strings_in m str (un_attrs u)" and "strings_in m str avs" and "length (ri_size_fn_arg info) = 10"
  shows "\<exists>info' dbg. debuginfo_rip m' si' unknown c0 junk addr info = Some (0, info', dbg)
    \<and> same_answer m (func_result str d' u lu addr off e avs name szs info) m' info'"
proof -
  obtain rest where u: "u \<in> set us" "unit_at m si str d' u" "unit_covering d' str addr u = Some (off, e, avs, ts, rest)"
      "dbg_info_size d' = dbg_info_size d" using find_function_unit [OF assms(7,9)] by blast
  then have nums: "unit_numbers u" using assms(8) by (simp add: list_all_iff)
  have env: "unit_env m si (after_unit d' u) (unit_cu d' u) (un_abbrevs u) str" using u(2) by (simp add: unit_at_def)
  have size: "dbg_info_size d = ds_size sect" by (simp add: assms(6))
  obtain str' b where "readers m si str (after_unit d' u) m' si' str' b"
    using readers_exist [OF assms(1) env] u(4) size assms(5) by auto
  then have rd': "readers m si str d' m' si' str' b" and rd: "readers m si str d m' si' str' b"
    using find_function_unit [OF assms(7,9), of m' si' str' b] by simp_all
  obtain sect' where sect': "find_section si' ''.debug_info'' = Some sect'" "ds_data sect' = b"
      "ds_size sect' = dbg_info_size d" using rd by (auto simp: readers_def)
  have d: "rebase b d = (dwarf_init m' (0x10000 + KERNBASE))
      \<lparr>dbg_info_offset_elf := ds_data sect', dbg_info_size := ds_size sect'\<rparr>"
    by (simp add: rebase_def assms(6) sect'(2,3))
  have found: "find_function (rebase b d) str' addr us = Some (rebase b d', u, off, e, avs, ts)"
    by (simp add: find_function_moved [OF assms(8), where str = str] assms(9))
  have "ds_size sect' \<noteq> 0" using assms(4) size sect'(3) by simp
  from debuginfo_rip_answer [OF assms(2) sect'(1) this d units_at_moved [OF rd assms(7,8)] found
      found_moved(1) [OF rd' u(2) nums u(3) assms(10-12)] assms(13)]
  show ?thesis using found_moved(2) [OF rd' u(2) nums u(3) assms(10-12)] by blast
qed

end
