(* ===== verification/ElfLoad.thy ===== *)
theory ElfLoad
  imports ElfRw
begin

text \<open>
  What \<^verbatim>\<open>read_section_headers\<close> of \<^verbatim>\<open>kern/elf_rw.c\<close> achieves as a whole. An ELF file on the disk is described by the list
  of its sections; afterwards the table \<^verbatim>\<open>section_info\<close> describes copies of the debugging sections in memory.
  The three reads of the routine share \<open>kvoffset\<close>: everything below it stays as it was read.
\<close>

section \<open>Headers and segments\<close>

text \<open>The fields of a header and the strings of a name table are those of the file.\<close>

lemma copied_header:
  assumes "copied m h D q 64"
  shows "sh_name m h = sh_name (elf_file D) q" "sh_addr m h = sh_addr (elf_file D) q"
    "sh_offset m h = sh_offset (elf_file D) q" "sh_size m h = sh_size (elf_file D) q"
proof -
  have "bytes_at m (h + of_nat j) l = bytes_at (elf_file D) (q + of_nat j) l" if "j + l \<le> 64" for j l
    using copied_bytes [OF copied_sub [OF assms that]] .
  from this [of 0 4] this [of 16 8] this [of 24 8] this [of 32 8] show
    "sh_name m h = sh_name (elf_file D) q" "sh_addr m h = sh_addr (elf_file D) q"
    "sh_offset m h = sh_offset (elf_file D) q" "sh_size m h = sh_size (elf_file D) q"
    by (simp_all add: sh_name_def sh_addr_def sh_offset_def sh_size_def field32_def field64_def)
qed

text \<open>
  One segment read into the area behind \<open>kvbase\<close>: from the old to the new value of \<open>kvoffset\<close> the area is
  written, and the data that the caller asked for are at \<open>data_at\<close>.
\<close>

definition data_at :: "addr \<Rightarrow> u64 \<Rightarrow> u64 \<Rightarrow> addr" where
  "data_at kvbase kv offset = kvbase + kv + OFFSET_CORRECT offset"

definition segment_read :: "addr \<Rightarrow> u64 \<Rightarrow> u64 \<Rightarrow> u64 \<Rightarrow> u64 \<Rightarrow> diskm \<Rightarrow> diskm \<Rightarrow> bool" where
  "segment_read kvbase kv kv' offset count D D' \<longleftrightarrow>
     drive_ready D' \<and> sector_of D' = sector_of D
     \<and> copied (dmem D') (data_at kvbase kv offset) D offset (unat count)
     \<and> unat kv \<le> unat kv' \<and> unat kv' < unat kv + unat count + 2 * SECTSIZE \<and> unat kv' mod SECTSIZE = 0
     \<and> kept (unat kvbase + unat kv) (unat kvbase + unat kv') (dmem D) (dmem D')
     \<and> (count = 0 \<or> unat (data_at kvbase kv offset) + unat count \<le> unat kvbase + unat kv')"

lemma OFFSET_CORRECT_mod: "OFFSET_CORRECT x = of_nat (unat x mod SECTSIZE)"
proof -
  have "OFFSET_CORRECT x = x mod of_nat SECTSIZE" by (simp add: OFFSET_CORRECT_def ROUNDDOWN_def)
  moreover have "unat (x mod of_nat SECTSIZE) = unat x mod SECTSIZE"
    by (simp add: unat_mod_distrib SECTSIZE_def)
  moreover have "of_nat (unat (x mod of_nat SECTSIZE)) = x mod (of_nat SECTSIZE :: u64)" by simp
  ultimately show ?thesis by simp
qed

lemma kreadseg_at:
  assumes "drive_ready D" and "unat kvbase mod SECTSIZE = 0" and "unat kv mod SECTSIZE = 0"
    and "unat kvbase + unat kv + unat count + 2 * SECTSIZE < 2 ^ 64" and "unat offset + unat count < 2 ^ 64"
  shows "\<exists>kv' D'. kreadseg (kvbase + kv) count offset kv D = Some (kv', D')
    \<and> segment_read kvbase kv kv' offset count D D'"
proof -
  have pa: "unat (kvbase + kv) = unat kvbase + unat kv" using assms(4) by (simp add: unat_word_ariths)
  have al: "unat (kvbase + kv) mod SECTSIZE = 0"
    unfolding pa using assms(2,3) by (metis add.right_neutral mod_add_right_eq)
  have small: "unat (kvbase + kv) + unat count + 2 * SECTSIZE < 2 ^ 64" unfolding pa by (rule assms(4))
  obtain n D' where run: "kreadseg (kvbase + kv) count offset kv D = Some (kv + of_nat (n * SECTSIZE), D')"
    and D': "drive_ready D'" "sector_of D' = sector_of D"
    and bytes: "\<And>k. k < unat count \<Longrightarrow>
      dmem D' (kvbase + kv + of_nat (unat offset mod SECTSIZE + k)) = disk_image D (unat offset + k)"
    and rest: "\<And>a. unat a < unat (kvbase + kv) \<or> unat (kvbase + kv) + n * SECTSIZE \<le> unat a \<Longrightarrow> dmem D' a = dmem D a"
    and n: "n * SECTSIZE < unat count + 2 * SECTSIZE"
    and enough: "unat count \<noteq> 0 \<Longrightarrow> unat offset mod SECTSIZE + unat count \<le> n * SECTSIZE"
    by (rule kreadseg_loads [OF assms(1) al assms(3) small, of offset]) blast
  have kv: "unat (kv + of_nat (n * SECTSIZE)) = unat kv + n * SECTSIZE"
    using n assms(4) by (intro unat_plus_nat) simp
  have "copied (dmem D') (data_at kvbase kv offset) D offset (unat count)"
    unfolding copied_def
  proof (intro allI impI)
    fix k assume k: "k < unat count"
    then have "unat (offset + of_nat k) = unat offset + k"
      using assms(5) by (intro unat_plus_nat) simp
    then show "dmem D' (data_at kvbase kv offset + of_nat k) = elf_file D (offset + of_nat k)"
      using bytes [OF k] by (simp add: elf_file_def data_at_def OFFSET_CORRECT_mod add.assoc)
  qed
  moreover have "count = 0 \<or> unat (data_at kvbase kv offset) + unat count \<le> unat kvbase + unat kv + n * SECTSIZE"
  proof (cases "count = 0")
    case False
    then have "unat offset mod SECTSIZE + unat count \<le> n * SECTSIZE" using enough by (simp add: unat_eq_0)
    moreover from this have "unat (data_at kvbase kv offset) = unat kvbase + unat kv + unat offset mod SECTSIZE"
      unfolding data_at_def OFFSET_CORRECT_mod pa [symmetric] using n small by (intro unat_plus_nat) simp
    ultimately show ?thesis by simp
  qed simp
  ultimately have "segment_read kvbase kv (kv + of_nat (n * SECTSIZE)) offset count D D'"
    using D' rest n assms(3) unfolding segment_read_def kv pa by (simp add: kept_def add.assoc)
  with run show ?thesis by blast
qed

section \<open>Sections and the table\<close>

record elf_section =
  es_name :: "u8 list"
  es_addr :: u64
  es_offset :: u64
  es_size :: u64

definition kind_of :: "u8 list \<Rightarrow> nat option" where
  "kind_of xs =
     (if xs = lit ''.debug_info'' then Some DEBUG_INFO
      else if xs = lit ''.debug_abbrev'' then Some DEBUG_ABBREV
      else if xs = lit ''.debug_line'' then Some DEBUG_LINE
      else if xs = lit ''.eh_frame'' then Some DEBUG_FRAME
      else if xs = lit ''.debug_str'' then Some DEBUG_STR
      else None)"

lemma which_section_kind: "cstr m p xs \<Longrightarrow> which_section m p = kind_of xs"
proof -
  assume "cstr m p xs"
  then have "cstr m p ys \<longleftrightarrow> xs = ys" for ys using cstr_unique by blast
  then show ?thesis by (simp only: which_section_def kind_of_def)
qed

lemma kind_of_range: "kind_of xs = Some i \<Longrightarrow> i < 5"
  by (auto simp: kind_of_def DEBUG_INFO_def DEBUG_ABBREV_def DEBUG_LINE_def DEBUG_FRAME_def DEBUG_STR_def
      split: if_splits)

text \<open>The header at \<open>h\<close> describes the section \<open>s\<close>, with names at \<open>nametab\<close>.\<close>

definition header_at :: "mem \<Rightarrow> addr \<Rightarrow> addr \<Rightarrow> elf_section \<Rightarrow> bool" where
  "header_at m nametab h s \<longleftrightarrow> cstr m (nametab + sh_name m h) (es_name s)
     \<and> sh_addr m h = es_addr s \<and> sh_offset m h = es_offset s \<and> sh_size m h = es_size s"

text \<open>The last section of each kind is the one that the table describes in the end.\<close>

primrec last_named :: "nat \<Rightarrow> elf_section list \<Rightarrow> elf_section option" where
  "last_named j [] = None"
| "last_named j (s # ss) =
     (case last_named j ss of
        Some t \<Rightarrow> Some t
      | None \<Rightarrow> if kind_of (es_name s) = Some j then Some s else None)"

text \<open>
  An entry of the table for a section: its size, and where its bytes are. \<^verbatim>\<open>.eh_frame\<close> is loaded with the kernel
  and stays at its own address; the other sections are copied.
\<close>

definition entry_ok :: "diskm \<Rightarrow> mem \<Rightarrow> nat \<Rightarrow> elf_section \<Rightarrow> dsection \<Rightarrow> bool" where
  "entry_ok D m j s e \<longleftrightarrow> ds_size e = es_size s \<and> ds_addr e = ds_data e
     \<and> (if j = DEBUG_FRAME then ds_data e = es_addr s
        else copied m (ds_data e) D (es_offset s) (unat (es_size s)) \<and> unat (ds_data e) + unat (es_size s) < 2 ^ 64)"

definition placed :: "diskm \<Rightarrow> mem \<Rightarrow> elf_section list \<Rightarrow> dsection list \<Rightarrow> dsection list \<Rightarrow> bool" where
  "placed D m ss si si' \<longleftrightarrow> map ds_name si' = map ds_name si
     \<and> (\<forall>j<5. case last_named j ss of None \<Rightarrow> si' ! j = si ! j | Some s \<Rightarrow> entry_ok D m j s (si' ! j))"

lemma entry_ok_cong: "sector_of D' = sector_of D \<Longrightarrow> entry_ok D' m j s e = entry_ok D m j s e"
  unfolding entry_ok_def by (simp only: copied_cong [of D' D])

lemma placed_cong: "sector_of D' = sector_of D \<Longrightarrow> placed D' m ss si si' = placed D m ss si si'"
  unfolding placed_def by (simp only: entry_ok_cong [of D' D])

lemma placed_Nil: "placed D m [] si si"
  by (simp add: placed_def)

lemma placed_other: "kind_of (es_name s) = None \<Longrightarrow> placed D m ss si si' \<Longrightarrow> placed D m (s # ss) si si'"
proof -
  assume "kind_of (es_name s) = None"
  then have eq: "last_named j (s # ss) = last_named j ss" for j by (simp split: option.split)
  show "placed D m ss si si' \<Longrightarrow> placed D m (s # ss) si si'" unfolding placed_def eq .
qed

lemma placed_Cons:
  assumes "kind_of (es_name s) = Some i" and "length si = 5"
    and "placed D m ss (set_section i data sz si) si'"
    and "entry_ok D m i s ((si ! i)\<lparr>ds_data := data, ds_addr := data, ds_size := sz\<rparr>)"
  shows "placed D m (s # ss) si si'"
proof -
  have i: "i < 5" using assms(1) by (rule kind_of_range)
  have "map ds_name (set_section i data sz si) = map ds_name si"
    using i assms(2) by (simp add: set_section_def map_update) (metis list_update_id map_update)
  moreover have "set_section i data sz si ! j =
      (if j = i then (si ! i)\<lparr>ds_data := data, ds_addr := data, ds_size := sz\<rparr> else si ! j)" for j
    using i assms(2) by (simp add: set_section_def)
  ultimately show ?thesis
    using assms(1,3,4) unfolding placed_def by (auto split: option.splits)
qed

text \<open>The room that the copies take at most.\<close>

definition room :: "elf_section list \<Rightarrow> nat" where
  "room ss = sum_list (map (\<lambda>s. unat (es_size s) + 2 * SECTSIZE) ss)"

lemma room_simps [simp]: "room [] = 0" "room (s # ss) = unat (es_size s) + 2 * SECTSIZE + room ss"
  by (simp_all add: room_def)

lemma room_nth: "i < length ss \<Longrightarrow> unat (es_size (ss ! i)) + 2 * SECTSIZE \<le> room ss"
proof (induction ss arbitrary: i)
  case (Cons s ss)
  then show ?case by (cases i) (fastforce intro: trans_le_add2)+
qed simp

section \<open>The loop over the headers\<close>

text \<open>What the loop is to achieve.\<close>

definition sections_done ::
    "addr \<Rightarrow> u64 \<Rightarrow> diskm \<Rightarrow> elf_section list \<Rightarrow> dsection list \<Rightarrow> u64 \<times> dsection list \<times> diskm \<Rightarrow> bool" where
  "sections_done kvbase kv D ss si res \<longleftrightarrow>
     (case res of (kv', si', D') \<Rightarrow> unat kv \<le> unat kv' \<and> unat kv' \<le> unat kv + room ss
        \<and> kept (unat kvbase + unat kv) (unat kvbase + unat kv') (dmem D) (dmem D')
        \<and> placed D (dmem D') ss si si')"

lemma sections_done_Nil: "sections_done kvbase kv D [] si (kv, si, D)"
  by (simp add: sections_done_def placed_Nil kept_refl)

lemma sections_done_other:
  "kind_of (es_name s) = None \<Longrightarrow> sections_done kvbase kv D ss si res \<Longrightarrow> sections_done kvbase kv D (s # ss) si res"
  by (auto simp: sections_done_def placed_other split: prod.splits)

lemma sections_done_frame:
  assumes "kind_of (es_name s) = Some DEBUG_FRAME" and "length si = 5"
    and "sections_done kvbase kv D ss (set_section DEBUG_FRAME (es_addr s) (es_size s) si) res"
  shows "sections_done kvbase kv D (s # ss) si res"
proof -
  obtain kv' si' D' where res: "res = (kv', si', D')" by (cases res)
  have "placed D (dmem D') (s # ss) si si'"
    using assms(3) by (intro placed_Cons [OF assms(1,2)]) (simp_all add: sections_done_def res entry_ok_def)
  then show ?thesis using assms(3) by (simp add: sections_done_def res)
qed

lemma sections_done_copy:
  assumes "kind_of (es_name s) = Some i" and "i \<noteq> DEBUG_FRAME" and "length si = 5"
    and "segment_read kvbase kv kv1 (es_offset s) (es_size s) D D1" and "unat kvbase + unat kv1 < 2 ^ 64"
    and "sections_done kvbase kv1 D1 ss
      (set_section i (data_at kvbase kv (es_offset s)) (es_size s) si) res"
  shows "sections_done kvbase kv D (s # ss) si res"
proof -
  obtain kv' si' D' where res: "res = (kv', si', D')" by (cases res)
  have sec: "sector_of D1 = sector_of D" and kv1: "unat kv \<le> unat kv1"
      "unat kv1 < unat kv + unat (es_size s) + 2 * SECTSIZE"
    and data: "copied (dmem D1) (data_at kvbase kv (es_offset s)) D (es_offset s) (unat (es_size s))"
    and kept1: "kept (unat kvbase + unat kv) (unat kvbase + unat kv1) (dmem D) (dmem D1)"
    and fits: "es_size s = 0 \<or> unat (data_at kvbase kv (es_offset s)) + unat (es_size s) \<le> unat kvbase + unat kv1"
    using assms(4) unfolding segment_read_def by blast+
  have kept': "kept (unat kvbase + unat kv1) (unat kvbase + unat kv') (dmem D1) (dmem D')"
    and placed': "placed D (dmem D') ss (set_section i (data_at kvbase kv (es_offset s)) (es_size s) si) si'"
    and kv': "unat kv1 \<le> unat kv'" "unat kv' \<le> unat kv1 + room ss"
    using assms(6) placed_cong [OF sec] unfolding sections_done_def res prod.case by blast+
  have "unat (es_size s) = 0 \<or> unat (data_at kvbase kv (es_offset s)) + unat (es_size s) \<le> unat kvbase + unat kv1"
    using fits by (elim disjE) simp_all
  with data have "copied (dmem D') (data_at kvbase kv (es_offset s)) D (es_offset s) (unat (es_size s))"
    by (rule copied_agree [OF _ kept_agree [OF kept']]) (rule less_imp_le [OF assms(5)])
  moreover have "unat (data_at kvbase kv (es_offset s)) + unat (es_size s) < 2 ^ 64"
    using fits assms(5) unsigned_less [of "data_at kvbase kv (es_offset s)"] by auto
  ultimately have "placed D (dmem D') (s # ss) si si'"
    using assms(2) by (intro placed_Cons [OF assms(1,3) placed']) (simp add: entry_ok_def)
  moreover have "kept (unat kvbase + unat kv) (unat kvbase + unat kv') (dmem D) (dmem D')"
    using kv1(1) kv'(1) by (intro kept_trans [OF kept1 kept']) simp_all
  ultimately show ?thesis using kv1 kv' by (simp add: sections_done_def res)
qed

lemma sections_loop:
  assumes "drive_ready D" and "unat kvbase mod SECTSIZE = 0" and "unat kv mod SECTSIZE = 0"
    and "unat kvbase + unat kv + room secs < 2 ^ 64" and "length si = 5"
    and "\<And>m. agree (unat kvbase + unat kv) (dmem D) m \<Longrightarrow> list_all2 (header_at m nametab) hs secs"
    and "\<And>s. s \<in> set secs \<Longrightarrow> unat (es_offset s) + unat (es_size s) < 2 ^ 64"
  shows "\<exists>res. read_sections_loop hs nametab kvbase kv si D = Some res \<and> sections_done kvbase kv D secs si res"
  using assms
proof (induction secs arbitrary: hs kv si D)
  case Nil
  have "hs = []" using Nil.prems(6) [of "dmem D"] by (simp add: agree_def)
  then show ?case by (simp add: sections_done_Nil)
next
  case (Cons s ss)
  note all = Cons.prems(6)
  have "list_all2 (header_at (dmem D) nametab) hs (s # ss)" by (rule all) (simp add: agree_def)
  then obtain h hs' where hs: "hs = h # hs'" and "header_at (dmem D) nametab h s"
    by (auto simp: list_all2_Cons2)
  then have h: "which_section (dmem D) (nametab + sh_name (dmem D) h) = kind_of (es_name s)"
    "sh_addr (dmem D) h = es_addr s" "sh_offset (dmem D) h = es_offset s" "sh_size (dmem D) h = es_size s"
    by (auto simp: header_at_def which_section_kind)
  have kv: "kv mod of_nat SECTSIZE = 0" using Cons.prems(3) by (simp add: mod_sector_word)
  have tl: "list_all2 (header_at m nametab) hs' ss" if "agree (unat kvbase + unat kv) (dmem D) m" for m
    using all [OF that] by (simp add: hs)
  have ss: "unat (es_offset t) + unat (es_size t) < 2 ^ 64" if "t \<in> set ss" for t
    using Cons.prems(7) that by simp
  have bound: "unat kvbase + unat kv + room ss < 2 ^ 64" using Cons.prems(4) by simp
  note IH = Cons.IH [OF Cons.prems(1-3) bound _ tl ss]
  consider (other) "kind_of (es_name s) = None" | (frame) "kind_of (es_name s) = Some DEBUG_FRAME"
    | (copy) i where "kind_of (es_name s) = Some i" "i \<noteq> DEBUG_FRAME" by (cases "kind_of (es_name s)") auto
  then show ?case
  proof cases
    case other
    then have "read_sections_loop hs nametab kvbase kv si D = read_sections_loop hs' nametab kvbase kv si D"
      by (simp add: hs h kv)
    then show ?thesis using IH [OF Cons.prems(5)] sections_done_other [OF other] by (simp only:) blast
  next
    case frame
    have len: "length (set_section DEBUG_FRAME (es_addr s) (es_size s) si) = 5"
      using Cons.prems(5) by (simp add: set_section_def)
    have "read_sections_loop hs nametab kvbase kv si D
        = read_sections_loop hs' nametab kvbase kv (set_section DEBUG_FRAME (es_addr s) (es_size s) si) D"
      using frame by (simp add: hs h kv)
    then show ?thesis using IH [OF len] sections_done_frame [OF frame Cons.prems(5)] by (simp only:) blast
  next
    case copy
    have "unat kvbase + unat kv + unat (es_size s) + 2 * SECTSIZE < 2 ^ 64"
      "unat (es_offset s) + unat (es_size s) < 2 ^ 64" using Cons.prems(4,7) by simp_all
    from kreadseg_at [OF Cons.prems(1-3) this] obtain kv1 D1 where
      run: "kreadseg (kvbase + kv) (es_size s) (es_offset s) kv D = Some (kv1, D1)"
      and seg: "segment_read kvbase kv kv1 (es_offset s) (es_size s) D D1" by blast
    note rd = seg [unfolded segment_read_def]
    let ?si = "set_section i (data_at kvbase kv (es_offset s)) (es_size s) si"
    have same: "agree (unat kvbase + unat kv) (dmem D) (dmem D1)" using rd by (blast intro: kept_agree)
    have h1: "sh_offset (dmem D1) h = es_offset s" "sh_size (dmem D1) h = es_size s"
      using all [OF same] by (simp_all add: hs header_at_def)
    have step: "read_sections_loop hs nametab kvbase kv si D = read_sections_loop hs' nametab kvbase kv1 ?si D1"
      using copy by (simp add: hs h h1 kv run data_at_def)
    have tl1: "list_all2 (header_at m nametab) hs' ss" if "agree (unat kvbase + unat kv1) (dmem D1) m" for m
      using that rd by (intro tl agree_trans [OF same] agree_mono [OF that]) simp
    have "\<exists>res. read_sections_loop hs' nametab kvbase kv1 ?si D1 = Some res \<and> sections_done kvbase kv1 D1 ss ?si res"
    proof (rule Cons.IH [OF _ Cons.prems(2) _ _ _ tl1 ss])
      show "drive_ready D1" "unat kv1 mod SECTSIZE = 0" using rd by blast+
      show "unat kvbase + unat kv1 + room ss < 2 ^ 64" using rd Cons.prems(4) by simp
      show "length ?si = 5" using Cons.prems(5) by (simp add: set_section_def)
    qed
    moreover have "unat kvbase + unat kv1 < 2 ^ 64" using rd Cons.prems(4) by simp
    ultimately show ?thesis
      unfolding step using sections_done_copy [OF copy Cons.prems(5) seg] by blast
  qed
qed

section \<open>The whole routine\<close>

text \<open>
  The file on the disk has the sections \<open>secs\<close>: their headers are at \<open>offset\<close>, the names are strings of the
  section with the index \<open>strndx\<close>, and all lies within the range of addresses. \<^verbatim>\<open>secthdr_ptr\<close> has 20 elements.
\<close>

definition elf_sections :: "diskm \<Rightarrow> u64 \<Rightarrow> nat \<Rightarrow> elf_section list \<Rightarrow> bool" where
  "elf_sections D offset strndx secs \<longleftrightarrow>
     strndx < length secs \<and> length secs \<le> 20 \<and> unat offset + 64 * length secs < 2 ^ 64
     \<and> (\<forall>i<length secs. let s = secs ! i; str = secs ! strndx; h = offset + 64 * of_nat i in
          header_at (elf_file D) (es_offset str) h s
          \<and> unat (sh_name (elf_file D) h) + length (es_name s) < unat (es_size str)
          \<and> unat (es_offset s) + unat (es_size s) < 2 ^ 64)"

lemma copied_nth_header:
  assumes "copied m secthdr D offset (64 * n)" and "i < n"
  shows "copied m (secthdr + 64 * of_nat i) D (offset + 64 * of_nat i) 64"
  using copied_sub [OF assms(1), of "64 * i" 64] assms(2) by simp

lemma headers_listed:
  assumes "elf_sections D offset strndx secs" and "copied m secthdr D offset (64 * length secs)"
    and "copied m nametab D (es_offset (secs ! strndx)) (unat (es_size (secs ! strndx)))"
  shows "list_all2 (header_at m nametab) (map (\<lambda>i. secthdr + 64 * of_nat i) [0..<length secs]) secs"
proof (rule list_all2_all_nthI)
  fix i assume "i < length (map (\<lambda>i. secthdr + 64 * of_nat i) [0..<length secs])"
  then have i: "i < length secs" by simp
  define q where "q = offset + 64 * of_nat i"
  have desc: "header_at (elf_file D) (es_offset (secs ! strndx)) q (secs ! i)"
    "unat (sh_name (elf_file D) q) + length (es_name (secs ! i)) < unat (es_size (secs ! strndx))"
    using assms(1) i by (simp_all add: elf_sections_def Let_def q_def)
  have fields: "copied m (secthdr + 64 * of_nat i) D q 64"
    unfolding q_def using assms(2) i by (rule copied_nth_header)
  have "copied m (nametab + of_nat (unat (sh_name (elf_file D) q))) D
      (es_offset (secs ! strndx) + of_nat (unat (sh_name (elf_file D) q))) (Suc (length (es_name (secs ! i))))"
    using desc(2) by (intro copied_sub [OF assms(3)]) simp
  then have "cstr m (nametab + sh_name (elf_file D) q) (es_name (secs ! i))
      = cstr (elf_file D) (es_offset (secs ! strndx) + sh_name (elf_file D) q) (es_name (secs ! i))"
    using copied_cstr by simp
  then have "header_at m nametab (secthdr + 64 * of_nat i) (secs ! i)"
    using desc(1) copied_header [OF fields] by (simp add: header_at_def)
  then show "header_at m nametab (map (\<lambda>i. secthdr + 64 * of_nat i) [0..<length secs] ! i) (secs ! i)"
    using i by simp
qed simp

text \<open>The read of the headers, with the size computed in an \<^verbatim>\<open>int\<close>.\<close>

lemma header_bytes:
  assumes "n \<le> 20"
  shows "(scast (ucast (of_nat n * 64 :: u64) :: u32) :: u64) = of_nat (64 * n)"
proof -
  have "unat (of_nat n * 64 :: u64) = 64 * n" using assms unat_of_nat64 [of "n * 64"] by simp
  then have "unat (ucast (of_nat n * 64 :: u64) :: u32) = 64 * n"
    using assms by (simp add: unsigned_ucast_eq take_bit_nat_eq_self_iff)
  moreover have "unat (of_nat (64 * n) :: u32) = 64 * n" using assms by (intro unat_of_nat32) simp
  ultimately have eq: "(ucast (of_nat n * 64 :: u64) :: u32) = of_nat (64 * n)" by (simp only: word_unat_eq_iff)
  show ?thesis unfolding eq using assms by (intro scast_len) simp
qed

text \<open>Where the routine looks for the headers.\<close>

definition headers_offset :: "mem \<Rightarrow> addr \<Rightarrow> u64" where
  "headers_offset m elfhdr = (if elfhdr = KELFHDR then e_shoff m elfhdr else e_shoff m elfhdr + (elfhdr - KERNBASE))"

lemma e_shstrndx_cong: "agree lim m m' \<Longrightarrow> unat e + 64 \<le> lim \<Longrightarrow> lim \<le> 2 ^ 64 \<Longrightarrow> e_shstrndx m' e = e_shstrndx m e"
proof -
  assume a: "agree lim m m'" "unat e + 64 \<le> lim" "lim \<le> 2 ^ 64"
  then have "unat (e + of_nat 62) = unat e + 62" by (intro unat_plus_nat) simp
  then have "bytes_at m (e + 62) 2 = bytes_at m' (e + 62) 2"
    using a by (intro bytes_at_cong) (auto simp: agree_def span_interval)
  then show ?thesis by (simp add: e_shstrndx_def field16_def)
qed

text \<open>The parts of the routine put together: two segment reads and the loop.\<close>

lemma read_section_headers_parts:
  assumes "e_shnum (dmem D) elfhdr = of_nat n" and "e_shentsize (dmem D) elfhdr = 64" and "n \<le> 20"
    and "kreadseg kvbase (of_nat (64 * n)) offset 0 D = Some (kv1, D1)"
    and "e_shstrndx (dmem D1) elfhdr = of_nat strndx" and "strndx < n"
    and "sec_name = data_at kvbase 0 offset + 64 * of_nat strndx"
    and "kreadseg (kvbase + kv1) (sh_size (dmem D1) sec_name) (sh_offset (dmem D1) sec_name) kv1 D1 = Some (kv2, D2)"
    and "read_sections_loop (map (\<lambda>i. data_at kvbase 0 offset + 64 * of_nat i) [0..<n])
      (data_at kvbase kv1 (sh_offset (dmem D2) sec_name)) kvbase kv2 si D2 = Some (kv, si', D')"
    and "offset = headers_offset (dmem D) elfhdr" and "kvbase = ROUNDUP to_va (of_nat SECTSIZE)"
  shows "read_section_headers elfhdr to_va si D = Some (kvbase + kv, si', D')"
proof -
  have n: "unat (of_nat n :: u64) = n" "unat (of_nat strndx :: u64) = strndx"
    using assms(3,6) by (auto intro!: unat_of_nat64)
  have ptrs: "map (\<lambda>i. data_at kvbase 0 offset + 64 * of_nat i) [0..<n] ! strndx = sec_name"
    using assms(6,7) by simp
  have hdr: "kvbase + (offset - ROUNDDOWN offset (of_nat SECTSIZE)) = data_at kvbase 0 offset"
    by (simp add: data_at_def OFFSET_CORRECT_def)
  have tab: "kvbase + kv1 + OFFSET_CORRECT x = data_at kvbase kv1 x" for x by (simp add: data_at_def)
  have ok: "\<not> (20 < n \<or> n \<le> strndx)" using assms(3,6) by simp
  show ?thesis
    unfolding read_section_headers_def Let_def assms(11) [symmetric] assms(10) [unfolded headers_offset_def, symmetric]
      assms(1,2) header_bytes [OF assms(3)] assms(4) bind.simps prod.case hdr assms(5) n ptrs assms(8) tab
    using assms(9) ok by simp
qed

text \<open>The header of the section of names, after the first read.\<close>

lemma names_header:
  assumes "elf_sections D offset strndx secs" and "copied m secthdr D offset (64 * length secs)"
  shows "sh_size m (secthdr + 64 * of_nat strndx) = es_size (secs ! strndx)"
    and "sh_offset m (secthdr + 64 * of_nat strndx) = es_offset (secs ! strndx)"
proof -
  have i: "strndx < length secs" using assms(1) by (simp add: elf_sections_def)
  then have "header_at (elf_file D) (es_offset (secs ! strndx)) (offset + 64 * of_nat strndx) (secs ! strndx)"
    using assms(1) by (simp add: elf_sections_def Let_def)
  then show "sh_size m (secthdr + 64 * of_nat strndx) = es_size (secs ! strndx)"
    "sh_offset m (secthdr + 64 * of_nat strndx) = es_offset (secs ! strndx)"
    using copied_header [OF copied_nth_header [OF assms(2) i]] by (simp_all add: header_at_def)
qed

text \<open>What two reads leave in memory, and every memory that agrees with it below \<open>kvoffset\<close>.\<close>

lemma segment_read_stays:
  assumes "segment_read kvbase kv kv' offset count D D'" and "agree lim (dmem D') m"
    and "unat kvbase + unat kv' \<le> lim" and "lim \<le> 2 ^ 64"
  shows "copied m (data_at kvbase kv offset) D offset (unat count)"
proof (rule copied_agree [OF _ assms(2) _ assms(4)])
  show "copied (dmem D') (data_at kvbase kv offset) D offset (unat count)"
    using assms(1) by (simp add: segment_read_def)
  show "unat count = 0 \<or> unat (data_at kvbase kv offset) + unat count \<le> lim"
    using assms(1,3) by (auto simp: segment_read_def)
qed

lemma two_reads:
  assumes "elf_sections D offset strndx secs"
    and "segment_read kvbase 0 kv1 offset (of_nat (64 * length secs)) D D1"
    and "segment_read kvbase kv1 kv2 (es_offset (secs ! strndx)) (es_size (secs ! strndx)) D1 D2"
    and "unat kvbase + unat kv2 \<le> 2 ^ 64" and "agree (unat kvbase + unat kv2) (dmem D2) m"
  shows "copied m (data_at kvbase 0 offset) D offset (64 * length secs)"
    and "list_all2 (header_at m (data_at kvbase kv1 (es_offset (secs ! strndx))))
      (map (\<lambda>i. data_at kvbase 0 offset + 64 * of_nat i) [0..<length secs]) secs"
proof -
  have cnt: "unat (of_nat (64 * length secs) :: u64) = 64 * length secs"
    using assms(1) by (intro unat_of_nat64) (simp add: elf_sections_def)
  have D2: "sector_of D1 = sector_of D" "unat kv1 \<le> unat kv2" "agree (unat kvbase + unat kv1) (dmem D1) (dmem D2)"
    using assms(2,3) kept_agree unfolding segment_read_def by blast+
  have "agree (unat kvbase + unat kv1) (dmem D1) m"
    using D2(2) by (intro agree_trans [OF D2(3)] agree_mono [OF assms(5)]) simp
  from segment_read_stays [OF assms(2) this] show hdrs: "copied m (data_at kvbase 0 offset) D offset (64 * length secs)"
    using assms(4) D2(2) by (simp only: cnt)
  have "copied m (data_at kvbase kv1 (es_offset (secs ! strndx))) D (es_offset (secs ! strndx)) (unat (es_size (secs ! strndx)))"
    using segment_read_stays [OF assms(3,5)] assms(4) copied_cong [OF D2(1)] by blast
  with assms(1) hdrs show "list_all2 (header_at m (data_at kvbase kv1 (es_offset (secs ! strndx))))
      (map (\<lambda>i. data_at kvbase 0 offset + 64 * of_nat i) [0..<length secs]) secs"
    by (rule headers_listed)
qed

lemma run_two_reads:
  assumes "drive_ready D" and "elf_sections D offset strndx secs" and "unat kvbase mod SECTSIZE = 0"
    and "unat kvbase + 64 * length secs + unat (es_size (secs ! strndx)) + 4 * SECTSIZE + room secs < 2 ^ 64"
  shows "\<exists>kv1 D1 kv2 D2. kreadseg kvbase (of_nat (64 * length secs)) offset 0 D = Some (kv1, D1)
    \<and> segment_read kvbase 0 kv1 offset (of_nat (64 * length secs)) D D1
    \<and> copied (dmem D1) (data_at kvbase 0 offset) D offset (64 * length secs)
    \<and> kreadseg (kvbase + kv1) (es_size (secs ! strndx)) (es_offset (secs ! strndx)) kv1 D1 = Some (kv2, D2)
    \<and> segment_read kvbase kv1 kv2 (es_offset (secs ! strndx)) (es_size (secs ! strndx)) D1 D2
    \<and> unat kvbase + unat kv2 + room secs < 2 ^ 64"
proof -
  let ?n = "length secs" and ?str = "secs ! strndx"
  have n: "strndx < ?n" "?n \<le> 20" "unat offset + 64 * ?n < 2 ^ 64"
    and off: "unat (es_offset ?str) + unat (es_size ?str) < 2 ^ 64"
    using assms(2) by (simp_all add: elf_sections_def Let_def)
  have cnt: "unat (of_nat (64 * ?n) :: u64) = 64 * ?n" using n(2) by (intro unat_of_nat64) simp
  have "\<exists>kv1 D1. kreadseg (kvbase + 0) (of_nat (64 * ?n)) offset 0 D = Some (kv1, D1)
      \<and> segment_read kvbase 0 kv1 offset (of_nat (64 * ?n)) D D1"
    using assms(1,3,4) n(3) by (intro kreadseg_at) (simp_all only: cnt, simp_all)
  then obtain kv1 D1 where run1: "kreadseg kvbase (of_nat (64 * ?n)) offset 0 D = Some (kv1, D1)"
    and seg1: "segment_read kvbase 0 kv1 offset (of_nat (64 * ?n)) D D1" by auto
  then have D1: "drive_ready D1" "unat kv1 < 64 * ?n + 2 * SECTSIZE" "unat kv1 mod SECTSIZE = 0"
    and hdrs: "copied (dmem D1) (data_at kvbase 0 offset) D offset (64 * ?n)"
    unfolding segment_read_def cnt by auto
  have "unat kvbase + unat kv1 + unat (es_size ?str) + 2 * SECTSIZE < 2 ^ 64" using assms(4) D1(2) by simp
  from kreadseg_at [OF D1(1) assms(3) D1(3) this off] obtain kv2 D2 where
    run2: "kreadseg (kvbase + kv1) (es_size ?str) (es_offset ?str) kv1 D1 = Some (kv2, D2)"
    and seg2: "segment_read kvbase kv1 kv2 (es_offset ?str) (es_size ?str) D1 D2" by blast
  have "unat kvbase + unat kv2 + room secs < 2 ^ 64"
    using seg2 assms(4) D1(2) by (simp add: segment_read_def)
  then show ?thesis using run1 seg1 hdrs run2 seg2 by blast
qed

lemma read_sections_placed:
  assumes "drive_ready D" and "elf_sections D (headers_offset (dmem D) elfhdr) strndx secs"
    and "e_shnum (dmem D) elfhdr = of_nat (length secs)" and "e_shentsize (dmem D) elfhdr = 64"
    and "e_shstrndx (dmem D) elfhdr = of_nat strndx" and "unat elfhdr + 64 \<le> unat to_va"
    and "unat to_va + 64 * length secs + room (secs ! strndx # secs) + 3 * SECTSIZE < 2 ^ 64" and "length si = 5"
  shows "\<exists>top si' D'. read_section_headers elfhdr to_va si D = Some (top, si', D') \<and> placed D (dmem D') secs si si'
    \<and> unat to_va \<le> unat top \<and> kept (unat to_va) (unat top) (dmem D) (dmem D')"
proof -
  let ?n = "length secs" and ?str = "secs ! strndx"
  define offset kvbase where "offset = headers_offset (dmem D) elfhdr" and "kvbase = ROUNDUP to_va (of_nat SECTSIZE)"
  note elf = assms(2) [folded offset_def]
  have n: "strndx < ?n" "?n \<le> 20"
    and offs: "\<And>i. i < ?n \<Longrightarrow> unat (es_offset (secs ! i)) + unat (es_size (secs ! i)) < 2 ^ 64"
    using elf by (simp_all add: elf_sections_def Let_def)
  have base: "unat to_va \<le> unat kvbase" "unat kvbase mod SECTSIZE = 0" "unat kvbase < unat to_va + SECTSIZE"
    using ROUNDUP_le [of "of_nat SECTSIZE" to_va] assms(7) by (auto simp: kvbase_def SECTSIZE_def)
  have top: "unat kvbase + 64 * ?n + unat (es_size ?str) + 4 * SECTSIZE + room secs < 2 ^ 64"
    using base(3) assms(7) by simp
  from run_two_reads [OF assms(1) elf base(2) top] obtain kv1 D1 kv2 D2 where
    run1: "kreadseg kvbase (of_nat (64 * ?n)) offset 0 D = Some (kv1, D1)"
    and seg1: "segment_read kvbase 0 kv1 offset (of_nat (64 * ?n)) D D1"
    and hdrs: "copied (dmem D1) (data_at kvbase 0 offset) D offset (64 * ?n)"
    and run2: "kreadseg (kvbase + kv1) (es_size ?str) (es_offset ?str) kv1 D1 = Some (kv2, D2)"
    and seg2: "segment_read kvbase kv1 kv2 (es_offset ?str) (es_size ?str) D1 D2"
    and fits: "unat kvbase + unat kv2 + room secs < 2 ^ 64" by blast
  then have kept1: "kept (unat kvbase) (unat kvbase + unat kv1) (dmem D) (dmem D1)"
    and kept2: "kept (unat kvbase + unat kv1) (unat kvbase + unat kv2) (dmem D1) (dmem D2)"
    and D2: "drive_ready D2" "unat kv2 mod SECTSIZE = 0" "sector_of D2 = sector_of D" "unat kv1 \<le> unat kv2"
    by (simp_all add: segment_read_def)
  note name1 = names_header [OF elf hdrs]
  have strndx: "e_shstrndx (dmem D1) elfhdr = of_nat strndx"
    using e_shstrndx_cong [OF kept_agree [OF kept1]] assms(5,6) base(1) top by simp
  have le: "unat kvbase + unat kv2 \<le> 2 ^ 64" using fits by simp
  note two = two_reads [OF elf seg1 seg2 le]
  have "agree (unat kvbase + unat kv2) (dmem D2) (dmem D2)" by (simp add: agree_def)
  note name2 = names_header [OF elf two(1) [OF this]]
  have "unat (es_offset s) + unat (es_size s) < 2 ^ 64" if "s \<in> set secs" for s
    using offs that by (auto simp: in_set_conv_nth)
  from sections_loop [OF D2(1) base(2) D2(2) fits assms(8) two(2) this] obtain kv si' D' where
    run3: "read_sections_loop (map (\<lambda>i. data_at kvbase 0 offset + 64 * of_nat i) [0..<?n])
      (data_at kvbase kv1 (es_offset ?str)) kvbase kv2 si D2 = Some (kv, si', D')"
    and fin: "sections_done kvbase kv2 D2 secs si (kv, si', D')" by fastforce
  then have kv: "unat kv2 \<le> unat kv" "unat kv \<le> unat kv2 + room secs"
    and kept3: "kept (unat kvbase + unat kv2) (unat kvbase + unat kv) (dmem D2) (dmem D')"
    and placed: "placed D (dmem D') secs si si'" using placed_cong [OF D2(3)] by (simp_all add: sections_done_def)
  have sum: "unat (kvbase + kv) = unat kvbase + unat kv" using fits kv(2) by (simp add: unat_word_ariths)
  have "kept (unat kvbase) (unat kvbase + unat kv) (dmem D) (dmem D')"
    using D2(4) kv(1) by (intro kept_trans [OF kept_trans [OF kept1 kept2] kept3]) simp_all
  then have "kept (unat to_va) (unat (kvbase + kv)) (dmem D) (dmem D')"
    using base(1) unfolding sum kept_def by (meson order_less_le_trans)
  moreover have "read_section_headers elfhdr to_va si D = Some (kvbase + kv, si', D')"
    by (rule read_section_headers_parts
        [OF assms(3,4) n(2) run1 strndx n(1) refl, unfolded name1, OF run2, unfolded name2, OF run3 offset_def kvbase_def])
  ultimately show ?thesis using placed base(1) sum by auto
qed

text \<open>
  C20. \<^verbatim>\<open>read_section_headers\<close> on an ELF file with at most 20 sections, whose header is in memory below the area it
  fills: it returns, and every entry of \<^verbatim>\<open>section_info\<close> describes the last section of its name, with
  its size and with the address of a copy of its bytes (for \<^verbatim>\<open>.eh_frame\<close> the address it is linked at); entries without
  a section stay as they are. None of the copies overwrites another, or anything below \<^verbatim>\<open>to_va\<close> or from the returned
  address on.
\<close>

theorem read_section_headers_places:
  assumes "drive_ready D" and "elf_sections D (headers_offset (dmem D) elfhdr) strndx secs"
    and "e_shnum (dmem D) elfhdr = of_nat (length secs)" and "e_shentsize (dmem D) elfhdr = 64"
    and "e_shstrndx (dmem D) elfhdr = of_nat strndx" and "unat elfhdr + 64 \<le> unat to_va"
    and "unat to_va + 64 * length secs + room (secs ! strndx # secs) + 3 * SECTSIZE < 2 ^ 64" and "length si = 5"
  shows "\<exists>top si' D'. read_section_headers elfhdr to_va si D = Some (top, si', D') \<and> placed D (dmem D') secs si si'
    \<and> unat to_va \<le> unat top \<and> kept (unat to_va) (unat top) (dmem D) (dmem D')"
  using assms by (rule read_sections_placed)

text \<open>
  A file with two sections on a small disk: the names at offset 0, the headers at 64, and four bytes of
  \<^verbatim>\<open>.debug_info\<close> that straddle the first two sectors.
\<close>

definition ex_file :: "nat \<Rightarrow> u8" where
  "ex_file = (\<lambda>n. if n < 12 then (0 # lit ''.debug_info'') ! n else 0)
     (96 := 16, 128 := 1, 152 := 0xFE, 153 := 1, 160 := 4, 510 := 1, 511 := 2, 512 := 3, 513 := 4)"

definition ex_disk :: diskm where
  "ex_disk = nat_disk ex_file ((\<lambda>_. 0)(KELFHDR + 40 := 64, KELFHDR + 58 := 64, KELFHDR + 60 := 2))"

definition ex_sections :: "elf_section list" where
  "ex_sections =
     [\<lparr>es_name = [], es_addr = 0, es_offset = 0, es_size = 16\<rparr>,
      \<lparr>es_name = lit ''.debug_info'', es_addr = 0, es_offset = 510, es_size = 4\<rparr>]"

lemma ex_disk_file: "unat a < 130560 \<Longrightarrow> elf_file ex_disk a = ex_file (unat a)"
  by (simp add: elf_file_def ex_disk_def nat_disk_image)

lemma ex_disk_header:
  "e_shnum (dmem ex_disk) KELFHDR = of_nat (length ex_sections)" "e_shentsize (dmem ex_disk) KELFHDR = 64"
  "e_shstrndx (dmem ex_disk) KELFHDR = of_nat 0" "headers_offset (dmem ex_disk) KELFHDR = 64"
  by (simp_all add: e_shnum_def e_shentsize_def e_shstrndx_def headers_offset_def e_shoff_def field16_def field64_def
      bytes_at_numeral ex_disk_def nat_disk_def KELFHDR_def KERNBASE_def ex_sections_def)

lemma ex_disk_sections: "elf_sections ex_disk 64 0 ex_sections"
proof -
  have "header_at (elf_file ex_disk) 0 64 (ex_sections ! 0)" 
    by (simp add: header_at_def sh_name_def sh_addr_def sh_offset_def sh_size_def field32_def field64_def
        bytes_at_numeral ex_disk_file ex_file_def ex_sections_def)
  moreover have "header_at (elf_file ex_disk) 0 128 (ex_sections ! 1)"
    by (simp add: header_at_def sh_name_def sh_addr_def sh_offset_def sh_size_def field32_def field64_def
        bytes_at_numeral ex_disk_file ex_file_def ex_sections_def lit_def)
  moreover have "sh_name (elf_file ex_disk) 64 = 0" "sh_name (elf_file ex_disk) 128 = 1"
    by (simp_all add: sh_name_def field32_def bytes_at_numeral ex_disk_file ex_file_def)
  ultimately show ?thesis
    by (simp add: elf_sections_def ex_sections_def All_less_Suc lit_def)
qed

theorem read_section_headers_places_witness:
  "\<exists>top si' D'. read_section_headers KELFHDR 0x8004300000 section_info0 ex_disk = Some (top, si', D')
     \<and> ds_size (si' ! DEBUG_INFO) = 4 \<and> bytes_at (dmem D') (ds_data (si' ! DEBUG_INFO)) 4 = [1, 2, 3, 4]
     \<and> ds_size (si' ! DEBUG_LINE) = 0"
proof -
  have "drive_ready ex_disk" by (simp add: drive_ready_def ex_disk_def nat_disk_def)
  moreover have "unat KELFHDR + 64 \<le> unat (0x8004300000 :: u64)" by (simp add: KELFHDR_def KERNBASE_def)
  moreover have "unat (0x8004300000 :: u64) + 64 * length ex_sections + room (ex_sections ! 0 # ex_sections) + 3 * SECTSIZE < 2 ^ 64"
    by (simp add: ex_sections_def SECTSIZE_def)
  moreover have "length section_info0 = 5" by (simp add: section_info0_def)
  ultimately obtain top si' D' where
    run: "read_section_headers KELFHDR 0x8004300000 section_info0 ex_disk = Some (top, si', D')"
    and "placed ex_disk (dmem D') ex_sections section_info0 si'"
    using read_section_headers_places [of ex_disk KELFHDR 0 ex_sections "0x8004300000" section_info0]
      ex_disk_sections ex_disk_header by auto
  then have at: "case last_named j ex_sections of None \<Rightarrow> si' ! j = section_info0 ! j
      | Some s \<Rightarrow> entry_ok ex_disk (dmem D') j s (si' ! j)" if "j < 5" for j
    using that by (simp add: placed_def)
  have "entry_ok ex_disk (dmem D') 0 (ex_sections ! 1) (si' ! 0)"
    using at [of 0] by (simp add: ex_sections_def kind_of_def lit_def DEBUG_INFO_def)
  then have "ds_size (si' ! 0) = 4" "copied (dmem D') (ds_data (si' ! 0)) ex_disk 510 4"
    by (simp_all add: entry_ok_def ex_sections_def DEBUG_FRAME_def)
  moreover from copied_bytes [OF this(2)] have "bytes_at (dmem D') (ds_data (si' ! 0)) 4 = [1, 2, 3, 4]"
    by (simp add: bytes_at_numeral ex_disk_file ex_file_def)
  moreover have "si' ! 3 = section_info0 ! 3"
    using at [of 3] by (simp add: ex_sections_def kind_of_def lit_def DEBUG_INFO_def)
  then have "ds_size (si' ! 3) = 0" by (simp add: section_info0_def)
  ultimately show ?thesis using run by (simp add: DEBUG_INFO_def DEBUG_LINE_def)
qed

end
