(* ===== verification/DebugLoad.thy ===== *)
theory DebugLoad
  imports Relocate ElfLoad
begin

text \<open>
  \<^verbatim>\<open>kern/elf_rw.c\<close> and \<^verbatim>\<open>kern/kdebug.c\<close> together: the debugging sections of the kernel's own file, as
  \<^verbatim>\<open>read_section_headers\<close> copies them from the disk, answer \<^verbatim>\<open>debuginfo_rip\<close> as the sections in the file do.
\<close>

section \<open>The sections in the file\<close>

text \<open>The table \<^verbatim>\<open>section_info\<close> with the offsets of the sections in the file instead of addresses of copies.\<close>

definition file_table :: "elf_section list \<Rightarrow> dsection list" where
  "file_table secs =
     map (\<lambda>j. case last_named j secs of
         None \<Rightarrow> section_info0 ! j
       | Some s \<Rightarrow> (section_info0 ! j)\<lparr>ds_data := es_offset s, ds_addr := es_offset s, ds_size := es_size s\<rparr>) [0..<5]"

definition debug_name :: "nat \<Rightarrow> string" where
  "debug_name j = [''.debug_info'', ''.debug_abbrev'', ''.eh_frame'', ''.debug_line'', ''.debug_str''] ! j"

lemma find_section_named:
  assumes "map ds_name si = map ds_name section_info0" and "j < 5"
  shows "find_section si (debug_name j) = Some (si ! j)"
proof -
  have len: "length si = 5" using arg_cong [OF assms(1), of length] by (simp add: section_info0_def)
  then obtain a b c d e where si: "si = [a, b, c, d, e]" by (auto simp: numeral_eq_Suc length_Suc_conv)
  have "j = 0 \<or> j = 1 \<or> j = 2 \<or> j = 3 \<or> j = 4" using assms(2) by auto
  then show ?thesis
    using assms(1) by (elim disjE) (simp_all add: si find_section_def section_info0_def debug_name_def)
qed

lemma file_table_names: "map ds_name (file_table secs) = map ds_name section_info0"
proof -
  have "[0..<5] = [0, 1, 2, 3, 4::nat]" by (simp add: upt_rec)
  then show ?thesis
    by (simp add: file_table_def section_info0_def split: option.split)
qed

lemma file_table_nth:
  "j < 5 \<Longrightarrow> last_named j secs = Some s \<Longrightarrow> ds_data (file_table secs ! j) = es_offset s \<and> ds_size (file_table secs ! j) = es_size s"
  by (simp add: file_table_def)

lemma last_named_in: "last_named j secs = Some s \<Longrightarrow> s \<in> set secs"
  by (induction secs) (auto split: option.splits if_splits)

text \<open>The file has debugging information \<open>us\<close>, and all sections that a look-up reads.\<close>

definition file_debug :: "diskm \<Rightarrow> elf_section list \<Rightarrow> dsection \<Rightarrow> dwdebug \<Rightarrow> comp_unit list \<Rightarrow> bool" where
  "file_debug D secs str d us \<longleftrightarrow>
     (\<forall>j \<in> set [DEBUG_INFO, DEBUG_ABBREV, DEBUG_LINE, DEBUG_STR]. last_named j secs \<noteq> None) \<and>
     (\<exists>inf. last_named DEBUG_INFO secs = Some inf \<and> es_size inf \<noteq> 0 \<and>
        d = (dwarf_init (dmem D) KELFHDR)\<lparr>dbg_info_offset_elf := es_offset inf, dbg_info_size := es_size inf\<rparr>) \<and>
     units_at (elf_file D) (file_table secs) str d us \<and> list_all unit_numbers us"

lemma placed_sec_copy:
  assumes "placed D m secs section_info0 si'" and "j < 5" and "j \<noteq> DEBUG_FRAME" and "last_named j secs = Some s"
  shows "sec_copy (elf_file D) (file_table secs ! j) m (si' ! j) \<and>
    unat (ds_data (si' ! j)) + unat (ds_size (si' ! j)) < 2 ^ 64"
proof -
  have "entry_ok D m j s (si' ! j)" using assms(1,2,4) by (auto simp: placed_def split: option.splits)
  then have e: "ds_size (si' ! j) = es_size s" "copied m (ds_data (si' ! j)) D (es_offset s) (unat (es_size s))"
    "unat (ds_data (si' ! j)) + unat (es_size s) < 2 ^ 64" using assms(3) by (simp_all add: entry_ok_def)
  from copied_bytes [OF e(2)] show ?thesis
    using e(1,3) file_table_nth [OF assms(2,4)] by (simp add: sec_copy_def)
qed

lemma placed_moved:
  assumes "placed D m secs section_info0 si'" and "file_debug D secs str d us"
  shows "moved (elf_file D) (file_table secs) m si'"
proof -
  have names: "map ds_name si' = map ds_name section_info0" using assms(1) by (simp add: placed_def)
  have "\<exists>s s'. find_section (file_table secs) (debug_name j) = Some s \<and> find_section si' (debug_name j) = Some s' \<and>
      sec_copy (elf_file D) s m s' \<and> unat (ds_data s') + unat (ds_size s') < 2 ^ 64"
    if j: "j \<in> set [DEBUG_INFO, DEBUG_ABBREV, DEBUG_LINE, DEBUG_STR]" for j
  proof -
    have "j < 5" "j \<noteq> DEBUG_FRAME" "last_named j secs \<noteq> None"
      using j assms(2)
      by (auto simp: file_debug_def DEBUG_INFO_def DEBUG_ABBREV_def DEBUG_LINE_def DEBUG_STR_def DEBUG_FRAME_def)
    then show ?thesis
      using find_section_named [OF names] find_section_named [OF file_table_names] placed_sec_copy [OF assms(1)] by auto
  qed
  from this [of DEBUG_INFO] this [of DEBUG_ABBREV] this [of DEBUG_LINE] this [of DEBUG_STR] show ?thesis
    by (simp add: moved_def debug_name_def DEBUG_INFO_def DEBUG_ABBREV_def DEBUG_LINE_def DEBUG_STR_def)
qed

section \<open>From the disk to the answer\<close>

lemma dwarf_init_cong: "m' (obj + 4) = m (obj + 4) \<Longrightarrow> m' (obj + 5) = m (obj + 5) \<Longrightarrow> dwarf_init m' obj = dwarf_init m obj"
  by (simp add: dwarf_init_def elf_is_msb_def elf_get_pointer_size_def)

lemma dwarf_init_kept:
  assumes "kept lo hi m m'" and "unat KELFHDR + 64 \<le> lo"
  shows "dwarf_init m' KELFHDR = dwarf_init m KELFHDR"
proof -
  have "unat (KELFHDR + 4) < lo" "unat (KELFHDR + 5) < lo" using assms(2) by (simp_all add: KELFHDR_def KERNBASE_def)
  then show ?thesis using assms(1) by (intro dwarf_init_cong) (simp_all add: kept_def)
qed

lemma file_debug_answer:
  assumes "placed D m secs section_info0 si'" and "kept lo hi (dmem D) m" and "unat KELFHDR + 64 \<le> lo"
    and "room secs < 2 ^ 64" and "file_debug D secs str d us" and "addr \<ge> ULIM"
    and "find_function d str addr us = Some (d', u, off, e, avs, ts)"
    and "func_ok (elf_file D) (file_table secs) str d' u lu off e avs ts name szs"
    and "strings_in (elf_file D) str (un_attrs u)" and "strings_in (elf_file D) str avs"
    and "length (ri_size_fn_arg info) = 10"
  shows "\<exists>info' dbg. debuginfo_rip m si' unknown c0 junk addr info = Some (0, info', dbg)
    \<and> same_answer (elf_file D) (func_result str d' u lu addr off e avs name szs info) m info'"
proof -
  obtain inf where inf: "last_named DEBUG_INFO secs = Some inf" "es_size inf \<noteq> 0"
    and d: "d = (dwarf_init (dmem D) KELFHDR)\<lparr>dbg_info_offset_elf := es_offset inf, dbg_info_size := es_size inf\<rparr>"
    and us: "units_at (elf_file D) (file_table secs) str d us" "list_all unit_numbers us"
    using assms(5) by (auto simp: file_debug_def)
  let ?sect = "file_table secs ! DEBUG_INFO"
  have sect: "ds_data ?sect = es_offset inf" "ds_size ?sect = es_size inf"
    using file_table_nth [OF _ inf(1)] by (simp_all add: DEBUG_INFO_def)
  have find: "find_section (file_table secs) ''.debug_info'' = Some ?sect"
    using find_section_named [OF file_table_names, of DEBUG_INFO secs] by (simp add: DEBUG_INFO_def debug_name_def)
  obtain i where "i < length secs" "secs ! i = inf"
    using last_named_in [OF inf(1)] by (auto simp: in_set_conv_nth)
  then have "unat (ds_size ?sect) + 2 * SECTSIZE \<le> room secs" using room_nth [of i secs] sect(2) by simp
  then have small: "unat (ds_size ?sect) + 11 < 2 ^ 64" using assms(4) by (simp add: SECTSIZE_def)
  have start: "d = (dwarf_init m (0x10000 + KERNBASE))\<lparr>dbg_info_offset_elf := ds_data ?sect, dbg_info_size := ds_size ?sect\<rparr>"
    using dwarf_init_kept [OF assms(2,3)] by (simp add: d sect KELFHDR_def)
  have "ds_size ?sect \<noteq> 0" using inf(2) sect(2) by simp
  from debuginfo_rip_moved [OF placed_moved [OF assms(1,5)] assms(6) find this small start us assms(7-11)] show ?thesis .
qed

text \<open>
  C18. The debugging information on the disk reaches the one who asks: when the ELF file holds debugging sections as a
  producer writes them, \<^verbatim>\<open>read_section_headers\<close> returns, and in the memory and with the table that it leaves, a
  look-up of an address in a function returns the answer that the sections in the file give, with names that are
  the strings of the file, wherever the copies lie.
\<close>

theorem debug_info_from_disk:
  assumes "drive_ready D" and "elf_sections D (headers_offset (dmem D) KELFHDR) strndx secs"
    and "e_shnum (dmem D) KELFHDR = of_nat (length secs)" and "e_shentsize (dmem D) KELFHDR = 64"
    and "e_shstrndx (dmem D) KELFHDR = of_nat strndx" and "unat KELFHDR + 64 \<le> unat to_va"
    and "unat to_va + 64 * length secs + room (secs ! strndx # secs) + 3 * SECTSIZE < 2 ^ 64"
    and "file_debug D secs str d us" and "addr \<ge> ULIM"
    and "find_function d str addr us = Some (d', u, off, e, avs, ts)"
    and "func_ok (elf_file D) (file_table secs) str d' u lu off e avs ts name szs"
    and "strings_in (elf_file D) str (un_attrs u)" and "strings_in (elf_file D) str avs"
    and "length (ri_size_fn_arg info) = 10"
  shows "\<exists>top si' D'. read_section_headers KELFHDR to_va section_info0 D = Some (top, si', D') \<and>
    (\<forall>unknown c0 junk. \<exists>info' dbg. debuginfo_rip (dmem D') si' unknown c0 junk addr info = Some (0, info', dbg)
       \<and> same_answer (elf_file D) (func_result str d' u lu addr off e avs name szs info) (dmem D') info')"
proof -
  have five: "length section_info0 = 5" by (simp add: section_info0_def)
  obtain top si' D' where
    run: "read_section_headers KELFHDR to_va section_info0 D = Some (top, si', D')"
    and placed: "placed D (dmem D') secs section_info0 si'" "kept (unat to_va) (unat top) (dmem D) (dmem D')"
    using read_sections_placed [OF assms(1-7)] five by blast
  have "room secs < 2 ^ 64" using assms(7) by simp
  from file_debug_answer [OF placed assms(6) this assms(8-14)] run show ?thesis by blast
qed

section \<open>A file on a disk\<close>

text \<open>
  The sections of the example behind each other at offset 256, in front of them the names at 64 and behind them, at 512,
  the headers.
\<close>

definition img_names :: "u8 list" where
  "img_names = 0 # lit ''.debug_info'' @ 0 # lit ''.debug_abbrev'' @ 0 # lit ''.debug_line'' @ 0 # lit ''.debug_str'' @ [0]"

definition img_debug :: "u8 list" where
  "img_debug = ex_abbrev_bytes @ ex_info_bytes @ ex_line_bytes"

definition img_header :: "u8 \<Rightarrow> u8 list \<Rightarrow> u8 \<Rightarrow> u8 list" where
  "img_header name off sz = [name] @ replicate 23 0 @ off @ replicate 6 0 @ [sz] @ replicate 31 0"

definition img_bytes :: "u8 list" where
  "img_bytes = replicate 64 0 @ img_names @ replicate 142 0 @ img_debug
     @ replicate 84 0 @ img_header 0 [64, 0] 50 @ img_header 1 [0x30, 1] 69 @ img_header 13 [0, 1] 48
     @ img_header 27 [0x75, 1] 55 @ img_header 39 [0, 3] 0"

definition img_secs :: "elf_section list" where
  "img_secs =
     [\<lparr>es_name = [], es_addr = 0, es_offset = 64, es_size = 50\<rparr>,
      \<lparr>es_name = lit ''.debug_info'', es_addr = 0, es_offset = 0x130, es_size = 69\<rparr>,
      \<lparr>es_name = lit ''.debug_abbrev'', es_addr = 0, es_offset = 0x100, es_size = 48\<rparr>,
      \<lparr>es_name = lit ''.debug_line'', es_addr = 0, es_offset = 0x175, es_size = 55\<rparr>,
      \<lparr>es_name = lit ''.debug_str'', es_addr = 0, es_offset = 0x300, es_size = 0\<rparr>]"

definition img_disk :: diskm where
  "img_disk = nat_disk (\<lambda>n. if n < length img_bytes then img_bytes ! n else 0)
     ((\<lambda>_. 0)(KELFHDR + 41 := 2, KELFHDR + 58 := 64, KELFHDR + 60 := 5))"

lemma img_header_length [simp]: "length off = 2 \<Longrightarrow> length (img_header name off sz) = 64"
  by (simp add: img_header_def)

lemma img_lengths: "length img_names = 50" "length img_debug = 172" "length img_bytes = 832"
proof -
  show n: "length img_names = 50" by (simp add: img_names_def lit_def)
  show e: "length img_debug = 172"
    by (simp add: img_debug_def ex_abbrev_bytes_def ex_info_bytes_def ex_line_bytes_def)
  show "length img_bytes = 832" by (simp add: img_bytes_def n e)
qed

lemma img_holds: "holds_at (elf_file img_disk) 0 img_bytes"
  unfolding holds_at_def
proof (rule nth_equalityI)
  fix k assume "k < length (bytes_at (elf_file img_disk) 0 (length img_bytes))"
  then have k: "k < 832" by (simp add: img_lengths)
  then have "unat (of_nat k :: u64) = k" by (intro unat_of_nat64) simp
  then show "bytes_at (elf_file img_disk) 0 (length img_bytes) ! k = img_bytes ! k"
    using k by (simp add: bytes_at_nth elf_file_def img_disk_def nat_disk_image img_lengths)
qed simp

lemma img_parts:
  "holds_at (elf_file img_disk) 64 img_names" "ex_image (elf_file img_disk)"
  "holds_at (elf_file img_disk) 512 (img_header 0 [64, 0] 50)"
  "holds_at (elf_file img_disk) 576 (img_header 1 [0x30, 1] 69)"
  "holds_at (elf_file img_disk) 640 (img_header 13 [0, 1] 48)"
  "holds_at (elf_file img_disk) 704 (img_header 27 [0x75, 1] 55)"
  "holds_at (elf_file img_disk) 768 (img_header 39 [0, 3] 0)"
  using img_holds unfolding img_bytes_def ex_image_def img_debug_def [symmetric]
  by (simp_all add: holds_at_append img_lengths)

lemma img_fields:
  assumes "holds_at m h (img_header name [lo, hi] sz)"
  shows "sh_name m h = ucast name" "sh_addr m h = 0" "sh_offset m h = ucast lo OR push_bit 8 (ucast hi)"
    "sh_size m h = ucast sz"
proof -
  have "holds_at m h ((name # replicate 15 0) @ replicate 8 0 @ ([lo, hi] @ replicate 6 0) @ (sz # replicate 7 0) @ replicate 24 0)"
    using assms by (simp add: img_header_def numeral_eq_Suc)
  then have parts: "bytes_at m h 16 = name # replicate 15 0" "bytes_at m (h + 16) 8 = replicate 8 0"
    "bytes_at m (h + 24) 8 = [lo, hi] @ replicate 6 0" "bytes_at m (h + 32) 8 = sz # replicate 7 0"
    unfolding holds_at_append by (simp_all add: holds_at_def bytes_at_numeral replicate_numeral ac_simps)
  have "bytes_at m h 4 = take 4 (bytes_at m h 16)" by (simp add: bytes_at_numeral)
  also have "\<dots> = [name, 0, 0, 0]" unfolding parts(1) by (simp add: replicate_numeral)
  finally show "sh_name m h = ucast name" by (simp add: sh_name_def field32_def)
  show "sh_addr m h = 0" "sh_offset m h = ucast lo OR push_bit 8 (ucast hi)" "sh_size m h = ucast sz"
    unfolding sh_addr_def sh_offset_def sh_size_def field64_def parts(2-4) by (simp_all add: replicate_numeral)
qed

lemma img_strings:
  "cstr (elf_file img_disk) 64 []" "cstr (elf_file img_disk) 65 (lit ''.debug_info'')"
  "cstr (elf_file img_disk) 77 (lit ''.debug_abbrev'')" "cstr (elf_file img_disk) 91 (lit ''.debug_line'')"
  "cstr (elf_file img_disk) 103 (lit ''.debug_str'')"
  using img_parts(1) by (simp_all add: img_names_def lit_def holds_at_Cons)

lemma img_sections: "elf_sections img_disk 512 0 img_secs"
proof -
  note fields = img_fields [OF img_parts(3)] img_fields [OF img_parts(4)] img_fields [OF img_parts(5)]
    img_fields [OF img_parts(6)] img_fields [OF img_parts(7)]
  have "elf_file img_disk 64 = 0" using img_strings(1) by simp
  then show ?thesis
    by (simp add: elf_sections_def img_secs_def All_less_Suc header_at_def fields img_strings) (simp add: lit_def)
qed

lemma img_elf_header:
  "e_shnum (dmem img_disk) KELFHDR = of_nat (length img_secs)" "e_shentsize (dmem img_disk) KELFHDR = 64"
  "e_shstrndx (dmem img_disk) KELFHDR = of_nat 0" "headers_offset (dmem img_disk) KELFHDR = 512"
  by (simp_all add: e_shnum_def e_shentsize_def e_shstrndx_def headers_offset_def e_shoff_def field16_def field64_def
      bytes_at_numeral img_disk_def nat_disk_def KELFHDR_def KERNBASE_def img_secs_def)

text \<open>The table of the file has the entries of the example.\<close>

lemma img_table:
  "n \<in> set [''.debug_info'', ''.debug_abbrev'', ''.debug_line'', ''.debug_str''] \<Longrightarrow>
   find_section (file_table img_secs) n = find_section ex_si n"
proof -
  have "[0..<5] = [0, 1, 2, 3, 4::nat]" by (simp add: upt_rec)
  then have "file_table img_secs = [ex_si ! 0, ex_si ! 1, section_info0 ! 2, ex_si ! 2, ex_si ! 3]"
    by (simp add: file_table_def img_secs_def kind_of_def lit_def section_info0_def ex_si_def
        DEBUG_INFO_def DEBUG_ABBREV_def DEBUG_LINE_def DEBUG_STR_def DEBUG_FRAME_def)
  then show "n \<in> set [''.debug_info'', ''.debug_abbrev'', ''.debug_line'', ''.debug_str''] \<Longrightarrow>
      find_section (file_table img_secs) n = find_section ex_si n"
    by (auto simp: find_section_def ex_si_def section_info0_def)
qed

lemma img_unit:
  "unit_at (elf_file img_disk) (file_table img_secs) ex_str ex_start ex_comp_unit"
  "func_ok (elf_file img_disk) (file_table img_secs) ex_str ex_start ex_comp_unit ex_unit 20 3 ex_f_attrs [ex_x] [0x66] [4]"
  using image_unit_at [OF img_parts(2)] image_func_ok [OF img_parts(2)] img_table
  by (simp_all add: unit_at_def unit_env_def func_ok_def lines_at_def)

lemma img_debug_info: "file_debug img_disk img_secs ex_str ex_start [ex_comp_unit]"
proof -
  have "dmem img_disk (0x10000 + KERNBASE + 4) = 0" "dmem img_disk (0x10000 + KERNBASE + 5) = 0"
    by (simp_all add: img_disk_def nat_disk_def KELFHDR_def KERNBASE_def)
  then have "ex_start = (dwarf_init (dmem img_disk) KELFHDR)\<lparr>dbg_info_offset_elf := 0x130, dbg_info_size := 69\<rparr>"
    using image_opened [of "dmem img_disk"] by (simp add: KELFHDR_def)
  moreover have "unit_numbers ex_comp_unit"
    by (simp add: unit_numbers_def ex_comp_unit_def ex_root_def ex_children_def ex_f_def ex_g_def numbers_ok_def dw_at_defs)
  ultimately show ?thesis
    using img_unit(1)
    by (simp add: file_debug_def img_secs_def [unfolded lit_def] kind_of_def lit_def
        DEBUG_INFO_def DEBUG_ABBREV_def DEBUG_LINE_def DEBUG_STR_def DEBUG_FRAME_def)
qed

theorem debug_info_from_disk_witness:
  "\<exists>top si' D'. read_section_headers KELFHDR 0x8004300000 section_info0 img_disk = Some (top, si', D') \<and>
    (\<forall>unknown c0 junk. \<exists>info dbg. debuginfo_rip (dmem D') si' unknown c0 junk 0x8004201008 ex_info0 = Some (0, info, dbg)
       \<and> cstr (dmem D') (ri_file info) (lit ''a.c'') \<and> cstr (dmem D') (ri_fn_name info) (lit ''f'') \<and> ri_line info = 7)"
proof -
  let ?m = "elf_file img_disk"
  have ready: "drive_ready img_disk" by (simp add: drive_ready_def img_disk_def nat_disk_def)
  have below: "unat KELFHDR + 64 \<le> unat (0x8004300000 :: u64)" by (simp add: KELFHDR_def KERNBASE_def)
  have room: "unat (0x8004300000 :: u64) + 64 * length img_secs + room (img_secs ! 0 # img_secs) + 3 * SECTSIZE < 2 ^ 64"
    by (simp add: img_secs_def SECTSIZE_def)
  have strs: "strings_in ?m ex_str (un_attrs ex_comp_unit)" "strings_in ?m ex_str ex_f_attrs"
    by (simp_all add: strings_in_def ex_comp_unit_def ex_root_def ex_f_attrs_def)
  have addr: "ULIM \<le> 0x8004201008" and ten: "length (ri_size_fn_arg ex_info0) = 10"
    by (simp_all add: layout_defs ex_info0_def)
  have names: "cstr ?m 0x13C (lit ''a.c'')" "cstr ?m 0x145 (lit ''f'')"
    using image_name [OF img_parts(2)] by (simp_all add: lit_def)
  have answer: "cstr m' (ri_file info') (lit ''a.c'') \<and> cstr m' (ri_fn_name info') (lit ''f'') \<and> ri_line info' = 7"
    if "same_answer ?m ex_info1 m' info'" for m' info'
    using that names by (auto simp: same_answer_def ex_info1_def intro: same_string_upto)
  from debug_info_from_disk [OF ready _ img_elf_header(1-3) below room img_debug_info addr ex_found img_unit(2) strs ten,
      unfolded ex_result(1) img_elf_header(4), OF img_sections] obtain top si' D' where
    run: "read_section_headers KELFHDR 0x8004300000 section_info0 img_disk = Some (top, si', D')"
    and ans: "\<And>unknown c0 junk. \<exists>info' dbg. debuginfo_rip (dmem D') si' unknown c0 junk 0x8004201008 ex_info0 =
      Some (0, info', dbg) \<and> same_answer ?m ex_info1 (dmem D') info'"
    by blast
  from run show ?thesis using ans answer by blast
qed

end
