(* ===== verification/DwarfFrame.thy ===== *)
theory DwarfFrame
  imports DwarfInfo
begin

text \<open>
  Call frames: \<^verbatim>\<open>kern/libdwarf_frame.c\<close>. The entries of \<^verbatim>\<open>.eh_frame\<close> hold byte code for a machine whose
  state is a table of rules that say where a caller's registers are. The register table and its
  shadow copy are global objects of the program; memory is only read, except by the stores through the
  null pointer of \<^verbatim>\<open>dwarf_get_fde_info_for_all_regs\<close>. \<open>None\<close> stands for a run that does not come
  back: an endless loop, a failed assertion or a table that is not there.
\<close>

section \<open>Structures (kern/dwarf.h)\<close>

record frame_rule =
  dw_offset_relevant :: u8
  dw_value_type :: u8
  dw_regnum :: u16
  dw_offset_or_block_len :: u64
  dw_block_ptr :: addr

record regtable =
  rt3_cfa_rule :: frame_rule
  rt3_reg_table_size :: u16
  rt3_rules :: "frame_rule list"

definition rule0 :: frame_rule where
  "rule0 = \<lparr>dw_offset_relevant = 0, dw_value_type = 0, dw_regnum = 0, dw_offset_or_block_len = 0,
     dw_block_ptr = 0\<rparr>"

definition DW_EXPR_OFFSET :: u8 where "DW_EXPR_OFFSET = 0"
definition DW_EXPR_VAL_OFFSET :: u8 where "DW_EXPR_VAL_OFFSET = 1"
definition DW_EXPR_EXPRESSION :: u8 where "DW_EXPR_EXPRESSION = 2"
definition DW_EXPR_VAL_EXPRESSION :: u8 where "DW_EXPR_VAL_EXPRESSION = 3"
definition DW_FRAME_LAST_REG_NUM :: nat where "DW_FRAME_LAST_REG_NUM = 66"

text \<open>The static tables, with their arrays of rules.\<close>

definition regtable0 :: regtable where
  "regtable0 = \<lparr>rt3_cfa_rule = rule0, rt3_reg_table_size = 0,
     rt3_rules = replicate DW_FRAME_LAST_REG_NUM rule0\<rparr>"

text \<open>\<^verbatim>\<open>Dwarf_Regtable\<close>, the table that callers see.\<close>

record regrule =
  rr_offset_relevant :: u8
  rr_regnum :: u16
  rr_offset :: u64

definition DW_REG_TABLE_SIZE :: nat where "DW_REG_TABLE_SIZE = 66"

record cie =
  cie_offset :: u64
  cie_length :: u64
  cie_version :: u16
  cie_augment :: addr
  cie_ehdata :: u64
  cie_caf :: u64
  cie_daf :: u64
  cie_ra :: u64
  cie_auglen :: u64
  cie_augdata :: addr
  cie_fde_encode :: u8
  cie_initinst :: addr
  cie_instlen :: u64

record fde =
  fde_addr :: addr
  fde_offset :: u64
  fde_length :: u64
  fde_cieoff :: u64
  fde_initloc :: u64
  fde_adrange :: u64
  fde_auglen :: u64
  fde_augdata :: addr
  fde_inst :: addr
  fde_instlen :: u64

section \<open>Register tables\<close>

text \<open>The two \<^verbatim>\<open>for\<close> loops of \<^verbatim>\<open>_dwarf_frame_regtable_copy\<close>.\<close>

definition copy_rules :: "u16 \<Rightarrow> regtable \<Rightarrow> regtable \<Rightarrow> regtable" where
  "copy_rules undef dest src =
     (let n = unat (rt3_reg_table_size dest); k = min n (unat (rt3_reg_table_size src)); rs = rt3_rules dest
      in dest\<lparr>rt3_cfa_rule := rt3_cfa_rule src,
              rt3_rules := take k (rt3_rules src) @
                map (\<lambda>r. r\<lparr>dw_regnum := undef\<rparr>) (drop k (take n rs)) @ drop n rs\<rparr>)"

text \<open>
  A null destination is set to the shadow table, which takes the size of the source: the result is the
  new contents of the shadow table.
\<close>

definition copy_to_shadow :: "u16 \<Rightarrow> regtable \<Rightarrow> regtable \<Rightarrow> regtable" where
  "copy_to_shadow undef shadow src =
     copy_rules undef (shadow\<lparr>rt3_reg_table_size := rt3_reg_table_size src\<rparr>) src"

section \<open>The interpreter of call frame instructions\<close>

text \<open>
  \<open>fr_saved\<close> says whether \<^verbatim>\<open>saved_rt\<close> is set; it then points to the shadow table, as \<^verbatim>\<open>init_rt\<close> does.
  \<open>fr_log\<close> are the lines that the code prints.
\<close>

datatype frame_msg = PointerSize u8 | ProgramDone

record frame_run =
  fr_rt :: regtable
  fr_shadow :: regtable
  fr_saved :: bool
  fr_pc :: u64
  fr_row_pc :: u64
  fr_log :: "frame_msg list"

datatype frame_out = Stop u32 frame_run | Next addr frame_run

definition put_rule :: "nat \<Rightarrow> (frame_rule \<Rightarrow> frame_rule) \<Rightarrow> regtable \<Rightarrow> regtable" where
  "put_rule r f t = t\<lparr>rt3_rules := (rt3_rules t)[r := f (rt3_rules t ! r)]\<rparr>"

definition put_cfa :: "(frame_rule \<Rightarrow> frame_rule) \<Rightarrow> regtable \<Rightarrow> regtable" where
  "put_cfa f t = t\<lparr>rt3_cfa_rule := f (rt3_cfa_rule t)\<rparr>"

definition set_rule :: "u64 \<Rightarrow> (frame_rule \<Rightarrow> frame_rule) \<Rightarrow> frame_run \<Rightarrow> frame_run" where
  "set_rule reg f s = s\<lparr>fr_rt := put_rule (unat reg) f (fr_rt s)\<rparr>"

definition set_cfa :: "(frame_rule \<Rightarrow> frame_rule) \<Rightarrow> frame_run \<Rightarrow> frame_run" where
  "set_cfa f s = s\<lparr>fr_rt := put_cfa f (fr_rt s)\<rparr>"

definition mark_row :: "frame_run \<Rightarrow> frame_run" where
  "mark_row s = s\<lparr>fr_row_pc := fr_pc s\<rparr>"

text \<open>\<^verbatim>\<open>CHECK_TABLE_SIZE\<close>, before the rest of a case.\<close>

definition check_size :: "u64 \<Rightarrow> frame_run \<Rightarrow> frame_out \<Rightarrow> frame_out" where
  "check_size reg s rest =
     (if ucast (rt3_reg_table_size (fr_rt s)) \<le> reg then Stop DW_DLE_DF_REG_NUM_TOO_HIGH s else rest)"

definition advance_to :: "u64 \<Rightarrow> u64 \<Rightarrow> addr \<Rightarrow> frame_run \<Rightarrow> frame_out" where
  "advance_to pc_req pc p s =
     (if pc_req < pc then Stop DW_DLE_NONE (s\<lparr>fr_pc := pc\<rparr>) else Next p (s\<lparr>fr_pc := pc\<rparr>))"

definition offset_rule :: "u8 \<Rightarrow> u16 \<Rightarrow> u64 \<Rightarrow> frame_rule \<Rightarrow> frame_rule" where
  "offset_rule vt reg off r =
     r\<lparr>dw_offset_relevant := 1, dw_value_type := vt, dw_regnum := reg, dw_offset_or_block_len := off\<rparr>"

definition expr_rule :: "u8 \<Rightarrow> u64 \<Rightarrow> addr \<Rightarrow> frame_rule \<Rightarrow> frame_rule" where
  "expr_rule vt len p r =
     r\<lparr>dw_offset_relevant := 0, dw_value_type := vt, dw_offset_or_block_len := len, dw_block_ptr := p\<rparr>"

definition plain_rule :: "u16 \<Rightarrow> frame_rule \<Rightarrow> frame_rule" where
  "plain_rule reg r = r\<lparr>dw_offset_relevant := 0, dw_regnum := reg\<rparr>"

text \<open>The rest of an instruction behind an operand.\<close>

definition with_uleb :: "mem \<Rightarrow> addr \<Rightarrow> (u64 \<Rightarrow> addr \<Rightarrow> 'r option) \<Rightarrow> 'r option" where
  "with_uleb m p k = Option.bind (decode_uleb128 m p) (\<lambda>(x, p). k x p)"

definition with_sleb :: "mem \<Rightarrow> addr \<Rightarrow> (u64 \<Rightarrow> addr \<Rightarrow> 'r option) \<Rightarrow> 'r option" where
  "with_sleb m p k = Option.bind (decode_sleb128 m p) (\<lambda>(x, p). k x p)"

text \<open>The instructions with an operand in their low six bits; \<open>p\<close> is behind the opcode.\<close>

definition frame_high ::
    "mem \<Rightarrow> dwdebug \<Rightarrow> u64 \<Rightarrow> u64 \<Rightarrow> u64 \<Rightarrow> u8 \<Rightarrow> u8 \<Rightarrow> addr \<Rightarrow> frame_run \<Rightarrow> frame_out option" where
  "frame_high m d caf daf pc_req high2 low6 p s =
     (if high2 = DW_CFA_advance_loc then
        Some (advance_to pc_req (fr_pc s + ucast low6 * caf) p s)
      else if high2 = DW_CFA_offset then
        (let s = mark_row s
         in if ucast (rt3_reg_table_size (fr_rt s)) \<le> (ucast low6 :: u64)
            then Some (Stop DW_DLE_DF_REG_NUM_TOO_HIGH s)
            else with_uleb m p (\<lambda>x p. Some (Next p
              (set_rule (ucast low6) (offset_rule DW_EXPR_OFFSET (dbg_frame_cfa_value d) (x * daf)) s))))
      else if high2 = DW_CFA_restore then
        (let s = mark_row s
         in Some (check_size (ucast low6) s
              (Next p (set_rule (ucast low6) (\<lambda>_. rt3_rules (fr_shadow s) ! unat low6) s))))
      else Some (Stop DW_DLE_FRAME_INSTR_EXEC_ERROR s))"

definition offset_case ::
    "u8 \<Rightarrow> dwdebug \<Rightarrow> u64 \<Rightarrow> u64 \<Rightarrow> addr \<Rightarrow> frame_run \<Rightarrow> frame_out" where
  "offset_case vt d reg off p s =
     check_size reg s (Next p (set_rule reg (offset_rule vt (dbg_frame_cfa_value d) off) s))"

definition expr_case :: "mem \<Rightarrow> u8 \<Rightarrow> u64 \<Rightarrow> addr \<Rightarrow> frame_run \<Rightarrow> frame_out option" where
  "expr_case m vt reg p s =
     (if ucast (rt3_reg_table_size (fr_rt s)) \<le> reg then Some (Stop DW_DLE_DF_REG_NUM_TOO_HIGH s)
      else with_uleb m p (\<lambda>len p. Some (Next (p + len) (set_rule reg (expr_rule vt len p) s))))"

text \<open>The second half of \<^verbatim>\<open>switch (low6)\<close>: the rule of the CFA, and the younger instructions.\<close>

definition frame_cfa ::
    "mem \<Rightarrow> dwdebug \<Rightarrow> u64 \<Rightarrow> u8 \<Rightarrow> addr \<Rightarrow> frame_run \<Rightarrow> frame_out option" where
  "frame_cfa m d daf op p s =
     (if op = DW_CFA_def_cfa then
        with_uleb m p (\<lambda>reg p. with_uleb m p (\<lambda>uoff p.
          Some (Next p (set_cfa (offset_rule DW_EXPR_OFFSET (ucast reg) uoff) (mark_row s)))))
      else if op = DW_CFA_def_cfa_register then
        with_uleb m p (\<lambda>reg p. Some (Next p (set_cfa (\<lambda>r. r\<lparr>dw_regnum := ucast reg\<rparr>) (mark_row s))))
      else if op = DW_CFA_def_cfa_offset then
        with_uleb m p (\<lambda>uoff p.
          Some (Next p (set_cfa (\<lambda>r. offset_rule DW_EXPR_OFFSET (dw_regnum r) uoff r) (mark_row s))))
      else if op = DW_CFA_def_cfa_expression then
        with_uleb m p (\<lambda>len p.
          Some (Next (p + len) (set_cfa (expr_rule DW_EXPR_EXPRESSION len p) (mark_row s))))
      else if op = DW_CFA_expression then
        with_uleb m p (\<lambda>reg p. expr_case m DW_EXPR_EXPRESSION reg p (mark_row s))
      else if op = DW_CFA_offset_extended_sf then
        with_uleb m p (\<lambda>reg p. with_sleb m p (\<lambda>soff p.
          Some (offset_case DW_EXPR_OFFSET d reg (soff * daf) p (mark_row s))))
      else if op = DW_CFA_def_cfa_sf then
        with_uleb m p (\<lambda>reg p. with_sleb m p (\<lambda>soff p.
          Some (Next p (set_cfa (offset_rule DW_EXPR_OFFSET (ucast reg) (soff * daf)) (mark_row s)))))
      else if op = DW_CFA_def_cfa_offset_sf then
        with_sleb m p (\<lambda>soff p.
          Some (Next p (set_cfa (\<lambda>r. offset_rule DW_EXPR_OFFSET (dw_regnum r) (soff * daf) r) (mark_row s))))
      else if op = DW_CFA_val_offset then
        with_uleb m p (\<lambda>reg p. with_uleb m p (\<lambda>uoff p.
          Some (offset_case DW_EXPR_VAL_OFFSET d reg (uoff * daf) p (mark_row s))))
      else if op = DW_CFA_val_offset_sf then
        with_uleb m p (\<lambda>reg p. with_sleb m p (\<lambda>soff p.
          Some (offset_case DW_EXPR_VAL_OFFSET d reg (soff * daf) p (mark_row s))))
      else if op = DW_CFA_val_expression then
        with_uleb m p (\<lambda>reg p. expr_case m DW_EXPR_VAL_EXPRESSION reg p (mark_row s))
      else Some (Stop DW_DLE_FRAME_INSTR_EXEC_ERROR s))"

text \<open>The first half of \<^verbatim>\<open>switch (low6)\<close>. \<^verbatim>\<open>DW_CFA_set_loc\<close> ends the run whatever the address.\<close>

definition frame_low ::
    "mem \<Rightarrow> dwdebug \<Rightarrow> u64 \<Rightarrow> u64 \<Rightarrow> u64 \<Rightarrow> u8 \<Rightarrow> addr \<Rightarrow> frame_run \<Rightarrow> frame_out option" where
  "frame_low m d caf daf pc_req op p s =
     (if op = DW_CFA_set_loc then
        (let (pc, p) = ddecode d m p (unat (dbg_pointer_size d));
             log = fr_log s @ [PointerSize (dbg_pointer_size d)] @ (if pc_req < pc then [ProgramDone] else [])
         in Some (Stop DW_DLE_NONE (s\<lparr>fr_pc := pc, fr_log := log\<rparr>)))
      else if op = DW_CFA_advance_loc1 then
        (let (x, p) = ddecode d m p 1 in Some (advance_to pc_req (fr_pc s + x * caf) p s))
      else if op = DW_CFA_advance_loc2 then
        (let (x, p) = ddecode d m p 2 in Some (advance_to pc_req (fr_pc s + x * caf) p s))
      else if op = DW_CFA_advance_loc4 then
        (let (x, p) = ddecode d m p 4 in Some (advance_to pc_req (fr_pc s + x * caf) p s))
      else if op = DW_CFA_offset_extended then
        with_uleb m p (\<lambda>reg p. with_uleb m p (\<lambda>uoff p.
          Some (offset_case DW_EXPR_OFFSET d reg (uoff * daf) p (mark_row s))))
      else if op = DW_CFA_restore_extended then
        with_uleb m p (\<lambda>reg p. let s = mark_row s in
          Some (check_size reg s (Next p (set_rule reg (\<lambda>_. rt3_rules (fr_shadow s) ! unat reg) s))))
      else if op = DW_CFA_undefined then
        with_uleb m p (\<lambda>reg p. let s = mark_row s in
          Some (check_size reg s (Next p (set_rule reg (plain_rule (dbg_frame_undefined_value d)) s))))
      else if op = DW_CFA_same_value then
        with_uleb m p (\<lambda>reg p.
          Some (check_size reg s (Next p (set_rule reg (plain_rule (dbg_frame_same_value d)) s))))
      else if op = DW_CFA_register then
        with_uleb m p (\<lambda>reg p. with_uleb m p (\<lambda>reg2 p. let s = mark_row s in
          Some (check_size reg s (Next p (set_rule reg (plain_rule (ucast reg2)) s)))))
      else if op = DW_CFA_remember_state then
        (let undef = dbg_frame_undefined_value d;
             shadow = (if fr_saved s then copy_rules undef (fr_shadow s) (fr_rt s)
                       else copy_to_shadow undef (fr_shadow s) (fr_rt s))
         in Some (Next p (s\<lparr>fr_shadow := shadow, fr_saved := True\<rparr>)))
      else if op = DW_CFA_restore_state then
        (let s = mark_row s
         in if fr_saved s
            then Some (Next p
              (s\<lparr>fr_rt := copy_rules (dbg_frame_undefined_value d) (fr_rt s) (fr_shadow s)\<rparr>))
            else None)
      else frame_cfa m d daf op p s)"

definition frame_step ::
    "mem \<Rightarrow> dwdebug \<Rightarrow> u64 \<Rightarrow> u64 \<Rightarrow> u64 \<Rightarrow> addr \<Rightarrow> frame_run \<Rightarrow> frame_out option" where
  "frame_step m d caf daf pc_req p s =
     (if m p = DW_CFA_nop then Some (Next (p + 1) s)
      else
       let high2 = m p AND 0xC0; low6 = m p AND 0x3F; p = p + 1
       in if high2 > 0 then frame_high m d caf daf pc_req high2 low6 p s
          else frame_low m d caf daf pc_req low6 p s)"

text \<open>\<^verbatim>\<open>while (p < pe)\<close>\<close>

partial_function (option) frame_loop ::
    "mem \<Rightarrow> dwdebug \<Rightarrow> u64 \<Rightarrow> u64 \<Rightarrow> u64 \<Rightarrow> addr \<Rightarrow> addr \<Rightarrow> frame_run \<Rightarrow> (u32 \<times> frame_run) option" where
  "frame_loop m d caf daf pc_req pe p s =
     (if p < pe
      then Option.bind (frame_step m d caf daf pc_req p s) (\<lambda>out.
             case out of Stop ret s \<Rightarrow> Some (ret, s) | Next p s \<Rightarrow> frame_loop m d caf daf pc_req pe p s)
      else Some (DW_DLE_NONE, s))"

text \<open>The first copy makes \<^verbatim>\<open>init_rt\<close> the shadow table; \<^verbatim>\<open>saved_rt\<close> is null.\<close>

definition frame_start :: "dwdebug \<Rightarrow> regtable \<Rightarrow> regtable \<Rightarrow> u64 \<Rightarrow> frame_run" where
  "frame_start d rt shadow pc =
     \<lparr>fr_rt = rt, fr_shadow = copy_to_shadow (dbg_frame_undefined_value d) shadow rt, fr_saved = False,
      fr_pc = pc, fr_row_pc = pc, fr_log = []\<rparr>"

definition run_inst ::
    "mem \<Rightarrow> dwdebug \<Rightarrow> regtable \<Rightarrow> regtable \<Rightarrow> addr \<Rightarrow> u64 \<Rightarrow> u64 \<Rightarrow> u64 \<Rightarrow> u64 \<Rightarrow> u64
      \<Rightarrow> (u32 \<times> frame_run) option" where
  "run_inst m d rt shadow insts len caf daf pc pc_req =
     frame_loop m d caf daf pc_req (insts + len) insts (frame_start d rt shadow pc)"

section \<open>The table at a program counter\<close>

text \<open>
  The global objects: \<^verbatim>\<open>dbg\<close>, whether its \<^verbatim>\<open>dbg_internal_reg_table\<close> points to \<^verbatim>\<open>global_rt_table\<close> or
  is null, the two tables and \<^verbatim>\<open>debug_frame_sec\<close>. \<open>fs_log\<close> are the lines that were printed.
\<close>

record frame_state =
  fs_dbg :: dwdebug
  fs_has_table :: bool
  fs_table :: regtable
  fs_shadow :: regtable
  fs_section :: dsection
  fs_log :: "frame_msg list"

definition clear_table :: "u16 \<Rightarrow> regtable \<Rightarrow> regtable" where
  "clear_table initial t =
     (let n = unat (rt3_reg_table_size t); rs = rt3_rules t
      in t\<lparr>rt3_cfa_rule := rule0,
           rt3_rules := map (\<lambda>_. rule0\<lparr>dw_regnum := initial\<rparr>) (take n rs) @ drop n rs\<rparr>)"

definition set_tables :: "frame_run \<Rightarrow> frame_state \<Rightarrow> frame_state" where
  "set_tables s st =
     st\<lparr>fs_table := fr_rt s, fs_shadow := fr_shadow s, fs_log := fs_log st @ fr_log s\<rparr>"

text \<open>The result code, the tables and \<^verbatim>\<open>*ret_row_pc\<close>, which keeps its value when there is an error.\<close>

definition get_internal_table ::
    "mem \<Rightarrow> frame_state \<Rightarrow> cie \<Rightarrow> fde \<Rightarrow> u64 \<Rightarrow> u64 \<Rightarrow> (u32 \<times> frame_state \<times> u64) option" where
  "get_internal_table m st c f pc_req row_pc =
     (if \<not> fs_has_table st then None
      else
       let d = fs_dbg st; rt = clear_table (dbg_frame_rule_initial_value d) (fs_table st)
       in Option.bind
            (run_inst m d rt (fs_shadow st) (cie_initinst c) (cie_instlen c) (cie_caf c) (cie_daf c) 0 (- 1))
            (\<lambda>(ret, s).
              let st = set_tables s st
              in if ret \<noteq> DW_DLE_NONE then Some (ret, st, row_pc)
              else if fde_initloc f \<le> pc_req then
                map_option (\<lambda>(ret, s).
                    (ret, set_tables s st, if ret \<noteq> DW_DLE_NONE then row_pc else fr_row_pc s))
                  (run_inst m d (fs_table st) (fs_shadow st) (fde_inst f) (fde_instlen f) (cie_caf c)
                     (cie_daf c) (fde_initloc f) pc_req)
              else Some (DW_DLE_NONE, st, fr_row_pc s)))"

definition column :: "frame_rule \<Rightarrow> regrule" where
  "column r = \<lparr>rr_offset_relevant = dw_offset_relevant r, rr_regnum = dw_regnum r,
     rr_offset = dw_offset_or_block_len r\<rparr>"

definition copy_cfa :: "u16 \<Rightarrow> frame_rule \<Rightarrow> regrule list \<Rightarrow> regrule list" where
  "copy_cfa cfa r regs = (if unat cfa < DW_REG_TABLE_SIZE then regs[unat cfa := column r] else regs)"

definition copy_columns :: "u16 \<Rightarrow> u16 \<Rightarrow> frame_rule list \<Rightarrow> regrule list \<Rightarrow> regrule list" where
  "copy_columns cfa sz rs regs =
     map (\<lambda>i. if i < DW_REG_TABLE_SIZE \<and> i < unat sz \<and> i \<noteq> unat cfa then column (rs ! i) else regs ! i)
       [0..<length regs]"

text \<open>\<^verbatim>\<open>*(int *)0 = 0\<close>\<close>

definition null_store :: "mem \<Rightarrow> mem" where
  "null_store m = store m 0 [0, 0, 0, 0]"

definition get_fde_info_for_all_regs ::
    "mem \<Rightarrow> frame_state \<Rightarrow> cie \<Rightarrow> fde option \<Rightarrow> u64 \<Rightarrow> regrule list option \<Rightarrow> u64 option
      \<Rightarrow> (mem \<times> u32 \<times> frame_state \<times> regrule list option \<times> u64 option) option" where
  "get_fde_info_for_all_regs m st c fde pc_requested reg_table row_pc =
     (case (fde, reg_table, row_pc) of
        (Some f, Some regs, Some rpc) \<Rightarrow>
          if pc_requested < fde_initloc f \<or> fde_initloc f + fde_adrange f \<le> pc_requested
          then Some (null_store m, DW_DLV_ERROR, st, reg_table, row_pc)
          else
            map_option (\<lambda>(ret, st, pc).
              if ret \<noteq> DW_DLE_NONE then (null_store m, DW_DLV_ERROR, st, reg_table, row_pc)
              else
               let d = fs_dbg st; t = fs_table st; cfa = dbg_frame_cfa_value d;
                   regs = copy_cfa cfa (rt3_cfa_rule t) regs;
                   regs = copy_columns cfa (dbg_frame_rule_table_size d) (rt3_rules t) regs
               in (m, DW_DLV_OK, st, Some regs, Some pc))
              (get_internal_table m st c f pc_requested 0)
      | _ \<Rightarrow> Some (null_store m, DW_DLV_ERROR, st, reg_table, row_pc))"

section \<open>Start\<close>

definition internal_table_init :: "frame_state \<Rightarrow> u32 \<times> frame_state" where
  "internal_table_init st =
     (if fs_has_table st then (DW_DLE_NONE, st)
      else (DW_DLE_NONE,
        st\<lparr>fs_table := (fs_table st)\<lparr>rt3_reg_table_size := dbg_frame_rule_table_size (fs_dbg st)\<rparr>,
           fs_has_table := True\<rparr>))"

definition set_frame_cfa_value :: "dwdebug \<Rightarrow> u16 \<Rightarrow> u16 \<times> dwdebug" where
  "set_frame_cfa_value d v = (dbg_frame_cfa_value d, d\<lparr>dbg_frame_cfa_value := v\<rparr>)"

text \<open>The status of the search is not looked at.\<close>

definition section_load_eh :: "dsection list \<Rightarrow> frame_state \<Rightarrow> (u32 \<times> frame_state) option" where
  "section_load_eh si st =
     map_option (\<lambda>(status, ds). (DW_DLE_NONE, st\<lparr>fs_section := ds\<rparr>)) (find_section_enhanced si (fs_section st))"

definition init_eh_section :: "dsection list \<Rightarrow> frame_state \<Rightarrow> (u32 \<times> frame_state) option" where
  "init_eh_section si st =
     (let (ret, st) = (if fs_has_table st then (DW_DLE_NONE, st) else internal_table_init st)
      in if ret \<noteq> DW_DLE_NONE then Some (DW_DLV_ERROR, st)
         else map_option (\<lambda>(ret, st).
           if ret \<noteq> DW_DLE_NONE then (DW_DLV_ERROR, st)
           else (DW_DLV_OK, st\<lparr>fs_dbg := (fs_dbg st)
             \<lparr>dbg_eh_size := ds_size (fs_section st), dbg_eh_offset := 0\<rparr>\<rparr>))
           (section_load_eh si st))"

text \<open>\<^verbatim>\<open>memset(fde, 0, sizeof(struct _Dwarf_Fde))\<close>.\<close>

definition fde0 :: fde where
  "fde0 = \<lparr>fde_addr = 0, fde_offset = 0, fde_length = 0, fde_cieoff = 0, fde_initloc = 0, fde_adrange = 0,
     fde_auglen = 0, fde_augdata = 0, fde_inst = 0, fde_instlen = 0\<rparr>"

text \<open>The objects as the program has them at first.\<close>

definition frame_state0 :: "dwdebug \<Rightarrow> frame_state" where
  "frame_state0 d = \<lparr>fs_dbg = d, fs_has_table = False, fs_table = regtable0, fs_shadow = regtable0,
     fs_section = \<lparr>ds_name = ''.eh_frame'', ds_data = 0, ds_addr = 0, ds_size = 0\<rparr>, fs_log = []\<rparr>"

section \<open>Call frame programs\<close>

text \<open>The instructions but \<^verbatim>\<open>DW_CFA_set_loc\<close>, as a producer writes them, and their bytes.\<close>

datatype cfa_op =
    AdvanceLoc nat | AdvanceLoc1 u8 | AdvanceLoc2 u16 | AdvanceLoc4 u32
  | Offset nat nat | OffsetExtended nat nat | OffsetSf nat int | ValOffset nat nat | ValOffsetSf nat int
  | Restore nat | RestoreExtended nat | Undefined nat | SameValue nat | InRegister nat nat
  | DefCfa nat nat | DefCfaSf nat int | DefCfaRegister nat | DefCfaOffset nat | DefCfaOffsetSf int
  | DefCfaExpression "u8 list" | Expression nat "u8 list" | ValExpression nat "u8 list"
  | RememberState | RestoreState | NoOp

definition block_bytes :: "u8 list \<Rightarrow> u8 list" where
  "block_bytes bs = uleb128 (length bs) @ bs"

fun encode_cfa :: "dwdebug \<Rightarrow> cfa_op \<Rightarrow> u8 list" where
  "encode_cfa d (AdvanceLoc n) = [DW_CFA_advance_loc OR of_nat n]"
| "encode_cfa d (AdvanceLoc1 w) = DW_CFA_advance_loc1 # enc d 1 (ucast w)"
| "encode_cfa d (AdvanceLoc2 w) = DW_CFA_advance_loc2 # enc d 2 (ucast w)"
| "encode_cfa d (AdvanceLoc4 w) = DW_CFA_advance_loc4 # enc d 4 (ucast w)"
| "encode_cfa d (Offset r n) = (DW_CFA_offset OR of_nat r) # uleb128 n"
| "encode_cfa d (OffsetExtended r n) = DW_CFA_offset_extended # uleb128 r @ uleb128 n"
| "encode_cfa d (OffsetSf r i) = DW_CFA_offset_extended_sf # uleb128 r @ sleb128 i"
| "encode_cfa d (ValOffset r n) = DW_CFA_val_offset # uleb128 r @ uleb128 n"
| "encode_cfa d (ValOffsetSf r i) = DW_CFA_val_offset_sf # uleb128 r @ sleb128 i"
| "encode_cfa d (Restore r) = [DW_CFA_restore OR of_nat r]"
| "encode_cfa d (RestoreExtended r) = DW_CFA_restore_extended # uleb128 r"
| "encode_cfa d (Undefined r) = DW_CFA_undefined # uleb128 r"
| "encode_cfa d (SameValue r) = DW_CFA_same_value # uleb128 r"
| "encode_cfa d (InRegister r n) = DW_CFA_register # uleb128 r @ uleb128 n"
| "encode_cfa d (DefCfa r n) = DW_CFA_def_cfa # uleb128 r @ uleb128 n"
| "encode_cfa d (DefCfaSf r i) = DW_CFA_def_cfa_sf # uleb128 r @ sleb128 i"
| "encode_cfa d (DefCfaRegister r) = DW_CFA_def_cfa_register # uleb128 r"
| "encode_cfa d (DefCfaOffset n) = DW_CFA_def_cfa_offset # uleb128 n"
| "encode_cfa d (DefCfaOffsetSf i) = DW_CFA_def_cfa_offset_sf # sleb128 i"
| "encode_cfa d (DefCfaExpression bs) = DW_CFA_def_cfa_expression # block_bytes bs"
| "encode_cfa d (Expression r bs) = DW_CFA_expression # uleb128 r @ block_bytes bs"
| "encode_cfa d (ValExpression r bs) = DW_CFA_val_expression # uleb128 r @ block_bytes bs"
| "encode_cfa d RememberState = [DW_CFA_remember_state]"
| "encode_cfa d RestoreState = [DW_CFA_restore_state]"
| "encode_cfa d NoOp = [DW_CFA_nop]"

text \<open>Registers of a table of \<open>k\<close> rules, and numbers that the LEB128 readers handle.\<close>

fun cfa_fits :: "nat \<Rightarrow> cfa_op \<Rightarrow> bool" where
  "cfa_fits k (AdvanceLoc n) = (n < 64)"
| "cfa_fits k (Offset r n) = (r < k \<and> r < 64 \<and> n < 2 ^ 31)"
| "cfa_fits k (OffsetExtended r n) = (r < k \<and> n < 2 ^ 31)"
| "cfa_fits k (OffsetSf r i) = (r < k \<and> - (2 ^ 31) \<le> i \<and> i < 2 ^ 31)"
| "cfa_fits k (ValOffset r n) = (r < k \<and> n < 2 ^ 31)"
| "cfa_fits k (ValOffsetSf r i) = (r < k \<and> - (2 ^ 31) \<le> i \<and> i < 2 ^ 31)"
| "cfa_fits k (Restore r) = (r < k \<and> r < 64)"
| "cfa_fits k (RestoreExtended r) = (r < k)"
| "cfa_fits k (Undefined r) = (r < k)"
| "cfa_fits k (SameValue r) = (r < k)"
| "cfa_fits k (InRegister r n) = (r < k \<and> n < 2 ^ 31)"
| "cfa_fits k (DefCfa r n) = (r < 2 ^ 31 \<and> n < 2 ^ 31)"
| "cfa_fits k (DefCfaSf r i) = (r < 2 ^ 31 \<and> - (2 ^ 31) \<le> i \<and> i < 2 ^ 31)"
| "cfa_fits k (DefCfaRegister r) = (r < 2 ^ 31)"
| "cfa_fits k (DefCfaOffset n) = (n < 2 ^ 31)"
| "cfa_fits k (DefCfaOffsetSf i) = (- (2 ^ 31) \<le> i \<and> i < 2 ^ 31)"
| "cfa_fits k (DefCfaExpression bs) = (length bs < 2 ^ 31)"
| "cfa_fits k (Expression r bs) = (r < k \<and> length bs < 2 ^ 31)"
| "cfa_fits k (ValExpression r bs) = (r < k \<and> length bs < 2 ^ 31)"
| "cfa_fits k op = True"

text \<open>
  The machine of the DWARF standard: the current row, the row of the initial instructions, a stack of
  remembered rows, the location, and the location of the last change.
\<close>

record cfa_machine =
  cm_row :: regtable
  cm_init :: regtable
  cm_stack :: "regtable list"
  cm_pc :: u64
  cm_row_pc :: u64

definition on_row :: "(regtable \<Rightarrow> regtable) \<Rightarrow> cfa_machine \<Rightarrow> cfa_machine" where
  "on_row f st = st\<lparr>cm_row := f (cm_row st), cm_row_pc := cm_pc st\<rparr>"

text \<open>\<open>q\<close> is the address behind the instruction, where its block ends.\<close>

fun cfa_effect :: "dwdebug \<Rightarrow> u64 \<Rightarrow> u64 \<Rightarrow> addr \<Rightarrow> cfa_op \<Rightarrow> cfa_machine \<Rightarrow> cfa_machine" where
  "cfa_effect d caf daf q (AdvanceLoc n) st = st\<lparr>cm_pc := cm_pc st + of_nat n * caf\<rparr>"
| "cfa_effect d caf daf q (AdvanceLoc1 w) st = st\<lparr>cm_pc := cm_pc st + ucast w * caf\<rparr>"
| "cfa_effect d caf daf q (AdvanceLoc2 w) st = st\<lparr>cm_pc := cm_pc st + ucast w * caf\<rparr>"
| "cfa_effect d caf daf q (AdvanceLoc4 w) st = st\<lparr>cm_pc := cm_pc st + ucast w * caf\<rparr>"
| "cfa_effect d caf daf q (Offset r n) st =
     on_row (put_rule r (offset_rule DW_EXPR_OFFSET (dbg_frame_cfa_value d) (of_nat n * daf))) st"
| "cfa_effect d caf daf q (OffsetExtended r n) st =
     on_row (put_rule r (offset_rule DW_EXPR_OFFSET (dbg_frame_cfa_value d) (of_nat n * daf))) st"
| "cfa_effect d caf daf q (OffsetSf r i) st =
     on_row (put_rule r (offset_rule DW_EXPR_OFFSET (dbg_frame_cfa_value d) (word_of_int i * daf))) st"
| "cfa_effect d caf daf q (ValOffset r n) st =
     on_row (put_rule r (offset_rule DW_EXPR_VAL_OFFSET (dbg_frame_cfa_value d) (of_nat n * daf))) st"
| "cfa_effect d caf daf q (ValOffsetSf r i) st =
     on_row (put_rule r (offset_rule DW_EXPR_VAL_OFFSET (dbg_frame_cfa_value d) (word_of_int i * daf))) st"
| "cfa_effect d caf daf q (Restore r) st = on_row (put_rule r (\<lambda>_. rt3_rules (cm_init st) ! r)) st"
| "cfa_effect d caf daf q (RestoreExtended r) st = on_row (put_rule r (\<lambda>_. rt3_rules (cm_init st) ! r)) st"
| "cfa_effect d caf daf q (Undefined r) st = on_row (put_rule r (plain_rule (dbg_frame_undefined_value d))) st"
| "cfa_effect d caf daf q (SameValue r) st =
     st\<lparr>cm_row := put_rule r (plain_rule (dbg_frame_same_value d)) (cm_row st)\<rparr>"
| "cfa_effect d caf daf q (InRegister r n) st = on_row (put_rule r (plain_rule (of_nat n))) st"
| "cfa_effect d caf daf q (DefCfa r n) st = on_row (put_cfa (offset_rule DW_EXPR_OFFSET (of_nat r) (of_nat n))) st"
| "cfa_effect d caf daf q (DefCfaSf r i) st =
     on_row (put_cfa (offset_rule DW_EXPR_OFFSET (of_nat r) (word_of_int i * daf))) st"
| "cfa_effect d caf daf q (DefCfaRegister r) st = on_row (put_cfa (\<lambda>x. x\<lparr>dw_regnum := of_nat r\<rparr>)) st"
| "cfa_effect d caf daf q (DefCfaOffset n) st =
     on_row (put_cfa (\<lambda>x. offset_rule DW_EXPR_OFFSET (dw_regnum x) (of_nat n) x)) st"
| "cfa_effect d caf daf q (DefCfaOffsetSf i) st =
     on_row (put_cfa (\<lambda>x. offset_rule DW_EXPR_OFFSET (dw_regnum x) (word_of_int i * daf) x)) st"
| "cfa_effect d caf daf q (DefCfaExpression bs) st =
     on_row (put_cfa (expr_rule DW_EXPR_EXPRESSION (of_nat (length bs)) (q - of_nat (length bs)))) st"
| "cfa_effect d caf daf q (Expression r bs) st =
     on_row (put_rule r (expr_rule DW_EXPR_EXPRESSION (of_nat (length bs)) (q - of_nat (length bs)))) st"
| "cfa_effect d caf daf q (ValExpression r bs) st =
     on_row (put_rule r (expr_rule DW_EXPR_VAL_EXPRESSION (of_nat (length bs)) (q - of_nat (length bs)))) st"
| "cfa_effect d caf daf q RememberState st = st\<lparr>cm_stack := cm_row st # cm_stack st\<rparr>"
| "cfa_effect d caf daf q RestoreState st =
     on_row (\<lambda>_. hd (cm_stack st)) (st\<lparr>cm_stack := tl (cm_stack st)\<rparr>)"
| "cfa_effect d caf daf q NoOp st = st"

fun advances :: "cfa_op \<Rightarrow> bool" where
  "advances (AdvanceLoc n) = True"
| "advances (AdvanceLoc1 w) = True"
| "advances (AdvanceLoc2 w) = True"
| "advances (AdvanceLoc4 w) = True"
| "advances op = False"

text \<open>The machine at the row for \<open>pc_req\<close>: it stops at the first location beyond it.\<close>

fun cfa_machine_run ::
    "dwdebug \<Rightarrow> u64 \<Rightarrow> u64 \<Rightarrow> u64 \<Rightarrow> addr \<Rightarrow> cfa_op list \<Rightarrow> cfa_machine \<Rightarrow> cfa_machine" where
  "cfa_machine_run d caf daf pc_req p [] st = st"
| "cfa_machine_run d caf daf pc_req p (op # ops) st =
     (let q = p + of_nat (length (encode_cfa d op)); st = cfa_effect d caf daf q op st
      in if advances op \<and> pc_req < cm_pc st then st else cfa_machine_run d caf daf pc_req q ops st)"

text \<open>
  The programs on which one shadow table is enough: no row is remembered while another is, each
  \<^verbatim>\<open>restore_state\<close> has its \<^verbatim>\<open>remember_state\<close>, and no rule is restored behind a \<^verbatim>\<open>remember_state\<close>.
\<close>

datatype phase = Initial | Remembered | Restored

fun next_phase :: "cfa_op \<Rightarrow> phase \<Rightarrow> phase option" where
  "next_phase RememberState ph = (if ph = Remembered then None else Some Remembered)"
| "next_phase RestoreState ph = (if ph = Remembered then Some Restored else None)"
| "next_phase (Restore r) ph = (if ph = Initial then Some Initial else None)"
| "next_phase (RestoreExtended r) ph = (if ph = Initial then Some Initial else None)"
| "next_phase op ph = Some ph"

fun one_shadow :: "phase \<Rightarrow> cfa_op list \<Rightarrow> bool" where
  "one_shadow ph [] = True"
| "one_shadow ph (op # ops) = (case next_phase op ph of None \<Rightarrow> False | Some ph \<Rightarrow> one_shadow ph ops)"

section \<open>The interpreter implements the machine\<close>

definition table_of :: "u16 \<Rightarrow> regtable \<Rightarrow> bool" where
  "table_of N t \<longleftrightarrow> rt3_reg_table_size t = N \<and> length (rt3_rules t) = unat N"

lemma table_of_put [simp]:
  "table_of N (put_rule r f t) = table_of N t" "table_of N (put_cfa f t) = table_of N t"
  by (simp_all add: table_of_def put_rule_def put_cfa_def)

lemma copy_rules_eq: "table_of N dest \<Longrightarrow> table_of N src \<Longrightarrow> copy_rules undef dest src = src"
  by (cases dest; cases src) (simp add: table_of_def copy_rules_def)

lemma copy_to_shadow_eq:
  "length (rt3_rules shadow) = unat N \<Longrightarrow> table_of N src \<Longrightarrow> copy_to_shadow undef shadow src = src"
  unfolding copy_to_shadow_def by (rule copy_rules_eq [of N]) (simp_all add: table_of_def)

definition sim :: "u16 \<Rightarrow> phase \<Rightarrow> frame_run \<Rightarrow> cfa_machine \<Rightarrow> bool" where
  "sim N ph s st \<longleftrightarrow>
     fr_rt s = cm_row st \<and> fr_pc s = cm_pc st \<and> fr_row_pc s = cm_row_pc st \<and>
     table_of N (cm_row st) \<and> table_of N (fr_shadow s) \<and> fr_saved s = (ph \<noteq> Initial) \<and>
     (ph = Initial \<longrightarrow> fr_shadow s = cm_init st) \<and>
     cm_stack st = (if ph = Remembered then [fr_shadow s] else []) \<and> fr_log s = []"

definition step_sim :: "u16 \<Rightarrow> phase \<Rightarrow> cfa_machine \<Rightarrow> addr \<Rightarrow> bool \<Rightarrow> frame_out option \<Rightarrow> bool" where
  "step_sim N ph st q stop out \<longleftrightarrow>
     (case out of
        Some (Stop ret s) \<Rightarrow> stop \<and> ret = DW_DLE_NONE \<and> sim N ph s st
      | Some (Next p s) \<Rightarrow> \<not> stop \<and> p = q \<and> sim N ph s st
      | None \<Rightarrow> False)"

lemma six_bits:
  assumes "n < 64"
  shows "(DW_CFA_advance_loc OR of_nat n) AND 0xC0 = DW_CFA_advance_loc"
    "(DW_CFA_offset OR of_nat n) AND 0xC0 = DW_CFA_offset" "(DW_CFA_restore OR of_nat n) AND 0xC0 = DW_CFA_restore"
    "(DW_CFA_advance_loc OR of_nat n) AND 0x3F = of_nat n" "(DW_CFA_offset OR of_nat n) AND 0x3F = of_nat n"
    "(DW_CFA_restore OR of_nat n) AND 0x3F = of_nat n"
    "DW_CFA_advance_loc OR of_nat n \<noteq> DW_CFA_nop" "DW_CFA_offset OR of_nat n \<noteq> DW_CFA_nop"
    "DW_CFA_restore OR of_nat n \<noteq> DW_CFA_nop"
proof -
  define ok where "ok = (\<lambda>k. \<lambda>n. let x = k OR of_nat n :: u8
    in x AND 0xC0 = k \<and> x AND 0x3F = of_nat n \<and> x \<noteq> 0)"
  have "list_all (\<lambda>n. ok 0x40 n \<and> ok 0x80 n \<and> ok 0xC0 n) [0..<64]" unfolding ok_def by code_simp
  then have "ok 0x40 n \<and> ok 0x80 n \<and> ok 0xC0 n" using assms by (simp add: list_all_iff)
  then show "(DW_CFA_advance_loc OR of_nat n) AND 0xC0 = DW_CFA_advance_loc"
    "(DW_CFA_offset OR of_nat n) AND 0xC0 = DW_CFA_offset" "(DW_CFA_restore OR of_nat n) AND 0xC0 = DW_CFA_restore"
    "(DW_CFA_advance_loc OR of_nat n) AND 0x3F = of_nat n" "(DW_CFA_offset OR of_nat n) AND 0x3F = of_nat n"
    "(DW_CFA_restore OR of_nat n) AND 0x3F = of_nat n"
    "DW_CFA_advance_loc OR of_nat n \<noteq> DW_CFA_nop" "DW_CFA_offset OR of_nat n \<noteq> DW_CFA_nop"
    "DW_CFA_restore OR of_nat n \<noteq> DW_CFA_nop"
    by (simp_all add: ok_def Let_def dw_cfa_defs)
qed

lemma with_uleb_bytes:
  "holds_at m p (uleb128 n) \<Longrightarrow> n < 2 ^ 31 \<Longrightarrow>
   with_uleb m p k = k (of_nat n) (p + of_nat (length (uleb128 n)))"
  by (simp add: with_uleb_def decode_uleb128_bytes [folded holds_at_def])

lemma with_sleb_bytes:
  "holds_at m p (sleb128 i) \<Longrightarrow> - (2 ^ 31) \<le> i \<Longrightarrow> i < 2 ^ 31 \<Longrightarrow>
   with_sleb m p k = k (word_of_int i) (p + of_nat (length (sleb128 i)))"
  by (simp add: with_sleb_def decode_sleb128_bytes [folded holds_at_def])

lemma reg_in_table:
  fixes N :: u16
  assumes "r < unat N"
  shows "\<not> ucast N \<le> (of_nat r :: u64)" "unat (of_nat r :: u64) = r" "r < 2 ^ 31"
proof -
  have N: "unat N < 2 ^ 16" using unsigned_less [of N] by simp
  show u: "unat (of_nat r :: u64) = r" using assms N by (simp add: unat_of_nat64)
  show "r < 2 ^ 31" using assms N by simp
  show "\<not> ucast N \<le> (of_nat r :: u64)"
    unfolding word_le_nat_alt u using assms N by (simp add: unat_ucast_wider)
qed

lemma low_six_reg: "r < 64 \<Longrightarrow> ucast (of_nat r :: u8) = (of_nat r :: u64)"
  by (simp add: word_unat_eq_iff unat_ucast_wider unat_of_nat64 unat_of_nat take_bit_nat_eq_self)

lemmas frame_defs = step_sim_def sim_def on_row_def set_rule_def set_cfa_def mark_row_def

lemmas high_simps = holds_at_Cons holds_at_append check_size_def advance_to_def Let_def add.assoc frame_defs

lemmas step_simps = frame_step_def frame_low_def frame_cfa_def dw_cfa_defs offset_case_def expr_case_def block_bytes_def high_simps

text \<open>Instructions with an operand in the opcode.\<close>

lemma frame_step_high:
  assumes "n < 64"
  shows "m p = DW_CFA_advance_loc OR of_nat n \<Longrightarrow> frame_step m d caf daf pc_req p s =
      Some (advance_to pc_req (fr_pc s + ucast (of_nat n :: u8) * caf) (p + 1) s)"
    "m p = DW_CFA_offset OR of_nat n \<Longrightarrow> frame_step m d caf daf pc_req p s =
      frame_high m d caf daf pc_req DW_CFA_offset (of_nat n) (p + 1) s"
    "m p = DW_CFA_restore OR of_nat n \<Longrightarrow> frame_step m d caf daf pc_req p s =
      frame_high m d caf daf pc_req DW_CFA_restore (of_nat n) (p + 1) s"
  unfolding frame_step_def Let_def using six_bits [OF assms]
  by (simp_all only: if_False) (simp_all add: frame_high_def dw_cfa_defs)

lemma table_len: "table_of N t \<Longrightarrow> length (rt3_rules t) = unat N"
  by (simp add: table_of_def)

lemma low_six_unat: "r < 64 \<Longrightarrow> unat (of_nat r :: u8) = r"
  by (simp add: unat_of_nat)

lemma ucast_of_nat16: "ucast (of_nat n :: u64) = (of_nat n :: u16)"
  by (simp add: word_unat_eq_iff unsigned_ucast_eq unat_of_nat take_bit_eq_mod mod_mod_cancel)


lemma frame_step_op:
  assumes h: "holds_at m p (encode_cfa d op)" and fits: "cfa_fits (unat N) op" and sim: "sim N ph s st"
    and ph: "next_phase op ph = Some ph'"
  shows "step_sim N ph' (cfa_effect d caf daf (p + of_nat (length (encode_cfa d op))) op st)
    (p + of_nat (length (encode_cfa d op)))
    (advances op \<and> pc_req < cm_pc (cfa_effect d caf daf (p + of_nat (length (encode_cfa d op))) op st))
    (frame_step m d caf daf pc_req p s)"
proof -
  note u1 = with_uleb_bytes [of m "p + 1"] and u2 = with_uleb_bytes [of m "p + (1 + of_nat (length (uleb128 r)))" for r]
    and s1 = with_sleb_bytes [of m "p + 1"] and s2 = with_sleb_bytes [of m "p + (1 + of_nat (length (uleb128 r)))" for r]
  have sz: "rt3_reg_table_size (cm_row st) = N" using sim by (simp add: sim_def table_of_def)
  note a = h fits sim ph sz
  show ?thesis
  proof (cases op)
    case (AdvanceLoc n)
    then have "m p = DW_CFA_advance_loc OR of_nat n" "n < 64" using h fits by (simp_all add: holds_at_Cons)
    note f = frame_step_high(1) [of n m p, OF this(2,1)]
    from AdvanceLoc show ?thesis
      using a unfolding f by (simp add: frame_high_def dw_cfa_defs high_simps low_six_reg)
  next
    case (AdvanceLoc1 w)
    have "unat (ucast w :: u64) < 2 ^ (8 * 1)" using unsigned_less [of w, where ?'a = nat] by (simp add: unat_ucast_wider)
    then show ?thesis
      using a AdvanceLoc1 ddecode_enc [of m "p + 1" d 1 "ucast w"] by (simp add: step_simps size_ok_def)
  next
    case (AdvanceLoc2 w)
    have "unat (ucast w :: u64) < 2 ^ (8 * 2)" using unsigned_less [of w, where ?'a = nat] by (simp add: unat_ucast_wider)
    then show ?thesis
      using a AdvanceLoc2 ddecode_enc [of m "p + 1" d 2 "ucast w"] by (simp add: step_simps size_ok_def)
  next
    case (AdvanceLoc4 w)
    have "unat (ucast w :: u64) < 2 ^ (8 * 4)" using unsigned_less [of w, where ?'a = nat] by (simp add: unat_ucast_wider)
    then show ?thesis
      using a AdvanceLoc4 ddecode_enc [of m "p + 1" d 4 "ucast w"] by (simp add: step_simps size_ok_def)
  next
    case (Offset r n)
    then have "m p = DW_CFA_offset OR of_nat r" "r < 64" using h fits by (simp_all add: holds_at_Cons)
    note f = frame_step_high(2) [of r m p, OF this(2,1)]
    from Offset show ?thesis
      using a reg_in_table [of r N] unfolding f by (simp add: frame_high_def dw_cfa_defs high_simps low_six_reg u1 [of n])
  next
    case (OffsetExtended r n)
    then show ?thesis
      using a reg_in_table [of r N] by (simp add: step_simps u1 [of r] u2 [of r n])
  next
    case (ValOffset r n)
    then show ?thesis
      using a reg_in_table [of r N] by (simp add: step_simps u1 [of r] u2 [of r n])
  next
    case (InRegister r n)
    then show ?thesis
      using a reg_in_table [of r N] by (simp add: step_simps u1 [of r] u2 [of r n] ucast_of_nat16)
  next
    case (OffsetSf r i)
    then show ?thesis
      using a reg_in_table [of r N] by (simp add: step_simps u1 [of r] s2 [of r i])
  next
    case (ValOffsetSf r i)
    then show ?thesis
      using a reg_in_table [of r N] by (simp add: step_simps u1 [of r] s2 [of r i])
  next
    case (Restore r)
    then have "m p = DW_CFA_restore OR of_nat r" "r < 64" using h fits by (simp_all add: holds_at_Cons)
    note f = frame_step_high(3) [of r m p, OF this(2,1)]
    from Restore show ?thesis
      using a reg_in_table [of r N] unfolding f by (simp add: frame_high_def dw_cfa_defs high_simps low_six_reg low_six_unat split: if_splits)
  next
    case (RestoreExtended r)
    then show ?thesis
      using a reg_in_table [of r N] by (simp add: step_simps u1 [of r] split: if_splits)
  next
    case (Undefined r)
    then show ?thesis
      using a reg_in_table [of r N] by (simp add: step_simps u1 [of r])
  next
    case (SameValue r)
    then show ?thesis
      using a reg_in_table [of r N] by (simp add: step_simps u1 [of r])
  next
    case (DefCfa r n)
    then show ?thesis
      using a by (simp add: step_simps u1 [of r] u2 [of r n] ucast_of_nat16)
  next
    case (DefCfaSf r i)
    then show ?thesis
      using a by (simp add: step_simps u1 [of r] s2 [of r i] ucast_of_nat16)
  next
    case (DefCfaRegister r)
    then show ?thesis
      using a by (simp add: step_simps u1 [of r] ucast_of_nat16)
  next
    case (DefCfaOffset n)
    then show ?thesis
      using a by (simp add: step_simps u1 [of n])
  next
    case (DefCfaOffsetSf i)
    then show ?thesis
      using a by (simp add: step_simps s1 [of i])
  next
    case (DefCfaExpression bs)
    then show ?thesis
      using a by (simp add: step_simps u1 [of "length bs"])
  next
    case (Expression r bs)
    then show ?thesis
      using a reg_in_table [of r N] by (simp add: step_simps u1 [of r] u2 [of r "length bs"])
  next
    case (ValExpression r bs)
    then show ?thesis
      using a reg_in_table [of r N] by (simp add: step_simps u1 [of r] u2 [of r "length bs"])
  next
    case RememberState
    then show ?thesis
      using a by (auto simp: step_simps copy_rules_eq [of N] copy_to_shadow_eq [of "cm_init st" N] table_len [of N] split: if_splits)
  next
    case RestoreState
    then show ?thesis
      using a by (simp add: step_simps copy_rules_eq [of N] split: if_splits)
  next
    case NoOp
    then show ?thesis using a by (simp add: step_simps)
  qed
qed

lemma frame_loop_step:
  "p < pe \<Longrightarrow> frame_step m d caf daf pc_req p s = Some out \<Longrightarrow>
   frame_loop m d caf daf pc_req pe p s =
     (case out of Stop ret s \<Rightarrow> Some (ret, s) | Next p s \<Rightarrow> frame_loop m d caf daf pc_req pe p s)"
  by (subst frame_loop.simps) simp

lemma frame_loop_end: "\<not> p < pe \<Longrightarrow> frame_loop m d caf daf pc_req pe p s = Some (DW_DLE_NONE, s)"
  by (subst frame_loop.simps) simp

lemma encode_cfa_pos: "0 < length (encode_cfa d op)"
  by (cases op) simp_all

definition encode_cfas :: "dwdebug \<Rightarrow> cfa_op list \<Rightarrow> u8 list" where
  "encode_cfas d ops = concat (map (encode_cfa d) ops)"

lemma frame_loop_program:
  assumes "holds_at m p (encode_cfas d ops)" and "list_all (cfa_fits (unat N)) ops" and "sim N ph s st"
    and "one_shadow ph ops" and "unat p + length (encode_cfas d ops) = unat pe"
  shows "\<exists>s' ph'. frame_loop m d caf daf pc_req pe p s = Some (DW_DLE_NONE, s') \<and>
    sim N ph' s' (cfa_machine_run d caf daf pc_req p ops st)"
  using assms
proof (induction ops arbitrary: p s st ph)
  case Nil
  then have "\<not> p < pe" by (simp add: encode_cfas_def word_less_nat_alt)
  then show ?case using Nil.prems(3) by (auto simp: frame_loop_end)
next
  case (Cons op ops)
  define n where "n = length (encode_cfa d op)"
  define st' where "st' = cfa_effect d caf daf (p + of_nat n) op st"
  have split: "encode_cfas d (op # ops) = encode_cfa d op @ encode_cfas d ops"
    by (simp add: encode_cfas_def)
  have h: "holds_at m p (encode_cfa d op)" "holds_at m (p + of_nat n) (encode_cfas d ops)"
    using Cons.prems(1) by (simp_all add: split holds_at_append n_def)
  obtain ph' where ph': "next_phase op ph = Some ph'" "one_shadow ph' ops"
    using Cons.prems(4) by (auto split: option.splits)
  have le: "unat p + n \<le> unat pe" using Cons.prems(5) by (simp add: split n_def)
  note sec = off_in_section [OF le encode_cfa_pos [of d op, folded n_def]]
  have next_pe: "unat (p + of_nat n) + length (encode_cfas d ops) = unat pe"
    using Cons.prems(5) sec(3) by (simp add: split n_def)
  have fits: "cfa_fits (unat N) op" "list_all (cfa_fits (unat N)) ops" using Cons.prems(2) by simp_all
  have step: "step_sim N ph' st' (p + of_nat n) (advances op \<and> pc_req < cm_pc st')
      (frame_step m d caf daf pc_req p s)"
    using frame_step_op [OF h(1) fits(1) Cons.prems(3) ph'(1)] by (simp add: n_def st'_def)
  then obtain out where out: "frame_step m d caf daf pc_req p s = Some out"
    by (auto simp: step_sim_def split: option.splits)
  note loop = frame_loop_step [OF sec(1) out]
  show ?case
  proof (cases out)
    case (Stop ret s')
    then show ?thesis
      using step by (auto simp: loop step_sim_def out Let_def simp flip: n_def st'_def)
  next
    case (Next q s')
    then have s': "\<not> (advances op \<and> pc_req < cm_pc st')" "q = p + of_nat n" "sim N ph' s' st'"
      using step by (simp_all add: step_sim_def out)
    show ?thesis
      using Cons.IH [OF h(2) fits(2) s'(3) ph'(2) next_pe] Next s'(1,2)
      by (auto simp: loop Let_def simp flip: n_def st'_def)
  qed
qed

text \<open>A run of the standard's machine on a table, and the same for the interpreter.\<close>

definition machine_start :: "regtable \<Rightarrow> u64 \<Rightarrow> cfa_machine" where
  "machine_start rt pc = \<lparr>cm_row = rt, cm_init = rt, cm_stack = [], cm_pc = pc, cm_row_pc = pc\<rparr>"

lemma sim_start:
  "table_of N rt \<Longrightarrow> length (rt3_rules shadow) = unat N \<Longrightarrow>
   sim N Initial (frame_start d rt shadow pc) (machine_start rt pc)"
  by (simp add: sim_def frame_start_def machine_start_def copy_to_shadow_eq)

lemma run_inst_machine:
  assumes "holds_at m p (encode_cfas d ops)" and "list_all (cfa_fits (unat N)) ops" and "one_shadow Initial ops"
    and "table_of N rt" and "length (rt3_rules shadow) = unat N" and "unat p + length (encode_cfas d ops) < 2 ^ 64"
  shows "\<exists>s ph. run_inst m d rt shadow p (of_nat (length (encode_cfas d ops))) caf daf pc pc_req =
      Some (DW_DLE_NONE, s) \<and> sim N ph s (cfa_machine_run d caf daf pc_req p ops (machine_start rt pc))"
proof -
  have "unat p + length (encode_cfas d ops) = unat (p + of_nat (length (encode_cfas d ops)))"
    using assms(6) by (simp add: unat_word_ariths unat_of_nat64)
  then show ?thesis
    unfolding run_inst_def
    using frame_loop_program [OF assms(1,2) sim_start [OF assms(4,5)] assms(3)] by blast
qed

section \<open>The table at a program counter, as the standard has it\<close>

lemma table_of_clear: "table_of N t \<Longrightarrow> table_of N (clear_table initial t)"
  by (simp add: clear_table_def table_of_def)

text \<open>
  The initial instructions run on the cleared table, then those of the FDE on their result, up to the
  row for \<open>pc\<close>.
\<close>

definition standard_row ::
    "dwdebug \<Rightarrow> cie \<Rightarrow> fde \<Rightarrow> cfa_op list \<Rightarrow> cfa_op list \<Rightarrow> regtable \<Rightarrow> u64 \<Rightarrow> cfa_machine" where
  "standard_row d c f cops fops rt pc =
     (let clear = clear_table (dbg_frame_rule_initial_value d) rt;
          init = cfa_machine_run d (cie_caf c) (cie_daf c) (- 1) (cie_initinst c) cops (machine_start clear 0)
      in cfa_machine_run d (cie_caf c) (cie_daf c) pc (fde_inst f) fops
           (machine_start (cm_row init) (fde_initloc f)))"

text \<open>A program in memory that the interpreter can run with tables of \<open>N\<close> rules.\<close>

definition program_at :: "mem \<Rightarrow> dwdebug \<Rightarrow> u16 \<Rightarrow> addr \<Rightarrow> u64 \<Rightarrow> cfa_op list \<Rightarrow> bool" where
  "program_at m d N p len ops \<longleftrightarrow>
     holds_at m p (encode_cfas d ops) \<and> len = of_nat (length (encode_cfas d ops)) \<and>
     unat p + length (encode_cfas d ops) < 2 ^ 64 \<and> list_all (cfa_fits (unat N)) ops \<and> one_shadow Initial ops"

lemma run_inst_program:
  assumes "program_at m d N p len ops" and "table_of N rt" and "length (rt3_rules shadow) = unat N"
  obtains s where "run_inst m d rt shadow p len caf daf pc pc_req = Some (DW_DLE_NONE, s)"
    and "fr_rt s = cm_row (cfa_machine_run d caf daf pc_req p ops (machine_start rt pc))"
    and "fr_row_pc s = cm_row_pc (cfa_machine_run d caf daf pc_req p ops (machine_start rt pc))"
    and "table_of N (fr_rt s)" and "length (rt3_rules (fr_shadow s)) = unat N"
  using run_inst_machine [of m p d ops N rt shadow caf daf pc pc_req] assms
  by (auto simp: program_at_def sim_def table_of_def)

definition frame_ready :: "u16 \<Rightarrow> frame_state \<Rightarrow> bool" where
  "frame_ready N st \<longleftrightarrow> fs_has_table st \<and> table_of N (fs_table st) \<and> length (rt3_rules (fs_shadow st)) = unat N"

lemma get_internal_table_row:
  assumes "frame_ready N st" and "program_at m (fs_dbg st) N (cie_initinst c) (cie_instlen c) cops"
    and "program_at m (fs_dbg st) N (fde_inst f) (fde_instlen f) fops" and "fde_initloc f \<le> pc"
  shows "\<exists>st'. get_internal_table m st c f pc row_pc =
      Some (DW_DLE_NONE, st', cm_row_pc (standard_row (fs_dbg st) c f cops fops (fs_table st) pc)) \<and>
    fs_table st' = cm_row (standard_row (fs_dbg st) c f cops fops (fs_table st) pc) \<and>
    fs_dbg st' = fs_dbg st \<and> frame_ready N st'"
proof -
  let ?d = "fs_dbg st"
  let ?clear = "clear_table (dbg_frame_rule_initial_value ?d) (fs_table st)"
  have st: "fs_has_table st" "table_of N ?clear" "length (rt3_rules (fs_shadow st)) = unat N"
    using assms(1) by (simp_all add: frame_ready_def table_of_clear)
  obtain s where s: "run_inst m ?d ?clear (fs_shadow st) (cie_initinst c) (cie_instlen c) (cie_caf c) (cie_daf c)
        0 (- 1) = Some (DW_DLE_NONE, s)"
      "fr_rt s = cm_row (cfa_machine_run ?d (cie_caf c) (cie_daf c) (- 1) (cie_initinst c) cops (machine_start ?clear 0))"
      "table_of N (fr_rt s)" "length (rt3_rules (fr_shadow s)) = unat N"
    using run_inst_program [OF assms(2) st(2,3)] by metis
  obtain s2 where s2: "run_inst m ?d (fr_rt s) (fr_shadow s) (fde_inst f) (fde_instlen f) (cie_caf c) (cie_daf c)
        (fde_initloc f) pc = Some (DW_DLE_NONE, s2)"
      "fr_rt s2 = cm_row (standard_row ?d c f cops fops (fs_table st) pc)"
      "fr_row_pc s2 = cm_row_pc (standard_row ?d c f cops fops (fs_table st) pc)"
      "table_of N (fr_rt s2)" "length (rt3_rules (fr_shadow s2)) = unat N"
    unfolding standard_row_def Let_def s(2) [symmetric] using run_inst_program [OF assms(3) s(3,4)] by metis
  then show ?thesis
    using st(1) assms(4) s(1) by (auto simp: get_internal_table_def Let_def set_tables_def frame_ready_def)
qed

lemma copy_columns_all:
  assumes "length regs = DW_REG_TABLE_SIZE" and "length rs = DW_REG_TABLE_SIZE" and "unat sz = DW_REG_TABLE_SIZE"
    and "DW_REG_TABLE_SIZE \<le> unat cfa"
  shows "copy_columns cfa sz rs (copy_cfa cfa r regs) = map column rs"
  using assms by (intro nth_equalityI) (auto simp: copy_columns_def copy_cfa_def)

text \<open>
  C22. \<^verbatim>\<open>dwarf_get_fde_info_for_all_regs\<close> at a program counter inside an FDE (with the tables and the
  default \<^verbatim>\<open>dbg_frame_cfa_value\<close> of this program): it returns \<^verbatim>\<open>DW_DLV_OK\<close>, stores nothing through the
  null pointer, and gives for every register the rule that the machine of the DWARF standard has for
  this program counter, when the call frame programs need only one remembered row at a time.
\<close>

theorem fde_info_standard:
  assumes "frame_ready 66 st" and "dbg_frame_rule_table_size (fs_dbg st) = 66"
    and "66 \<le> dbg_frame_cfa_value (fs_dbg st)" and "length regs = 66"
    and "program_at m (fs_dbg st) 66 (cie_initinst c) (cie_instlen c) cops"
    and "program_at m (fs_dbg st) 66 (fde_inst f) (fde_instlen f) fops"
    and "fde_initloc f \<le> pc" and "pc < fde_initloc f + fde_adrange f"
  shows "map_option (\<lambda>(m, ret, st, regs, row_pc). (m, ret, regs, row_pc))
      (get_fde_info_for_all_regs m st c (Some f) pc (Some regs) (Some rpc)) =
    Some (m, DW_DLV_OK,
      Some (map column (rt3_rules (cm_row (standard_row (fs_dbg st) c f cops fops (fs_table st) pc)))),
      Some (cm_row_pc (standard_row (fs_dbg st) c f cops fops (fs_table st) pc)))"
proof -
  let ?M = "standard_row (fs_dbg st) c f cops fops (fs_table st) pc"
  obtain st' where st': "get_internal_table m st c f pc 0 = Some (DW_DLE_NONE, st', cm_row_pc ?M)"
      "fs_table st' = cm_row ?M" "fs_dbg st' = fs_dbg st" "frame_ready 66 st'"
    using get_internal_table_row [OF assms(1,5,6,7), of 0] by blast
  have "length (rt3_rules (fs_table st')) = 66"
    using st'(4) by (simp add: frame_ready_def table_of_def)
  moreover have "66 \<le> unat (dbg_frame_cfa_value (fs_dbg st))" using assms(3) by (simp add: word_le_nat_alt)
  moreover have "\<not> pc < fde_initloc f" "\<not> fde_initloc f + fde_adrange f \<le> pc" using assms(7,8) by simp_all
  ultimately show ?thesis
    using assms(2,4) st'(1,3) by (simp add: get_fde_info_for_all_regs_def Let_def st'(2) copy_columns_all
      DW_REG_TABLE_SIZE_def)
qed

theorem fde_info_standard_witness:
  "map_option (\<lambda>(m, ret, st, regs, row_pc). (ret, map_option (\<lambda>r. (r ! 6, r ! 16)) regs, row_pc))
     (get_fde_info_for_all_regs
       (store (store (\<lambda>_. 0) 1000 [0x0C, 7, 8, 0x90, 1]) 2000 [0x41, 0x0E, 16, 0x86, 2, 0x43, 0x0D, 6])
       (snd (internal_table_init (frame_state0 (dwarf_init (\<lambda>_. 0) 0))))
       \<lparr>cie_offset = 0, cie_length = 20, cie_version = 1, cie_augment = 0, cie_ehdata = 0, cie_caf = 1,
        cie_daf = - 8, cie_ra = 16, cie_auglen = 0, cie_augdata = 0, cie_fde_encode = 0, cie_initinst = 1000,
        cie_instlen = 5\<rparr>
       (Some (fde0\<lparr>fde_initloc := 0x8000, fde_adrange := 0x100, fde_inst := 2000, fde_instlen := 8\<rparr>)) 0x8002
       (Some (replicate 66 \<lparr>rr_offset_relevant = 0, rr_regnum = 0, rr_offset = 0\<rparr>)) (Some 0)) =
   Some (DW_DLV_OK, Some (\<lparr>rr_offset_relevant = 1, rr_regnum = 1436, rr_offset = - 16\<rparr>,
     \<lparr>rr_offset_relevant = 1, rr_regnum = 1436, rr_offset = - 8\<rparr>), Some 0x8001)"
proof -
  let ?m = "store (store (\<lambda>_. 0) 1000 [0x0C, 7, 8, 0x90, 1]) 2000 [0x41, 0x0E, 16, 0x86, 2, 0x43, 0x0D, 6]"
  let ?st = "snd (internal_table_init (frame_state0 (dwarf_init (\<lambda>_. 0) 0)))"
  let ?c = "\<lparr>cie_offset = 0, cie_length = 20, cie_version = 1, cie_augment = 0, cie_ehdata = 0, cie_caf = 1,
        cie_daf = - 8, cie_ra = 16, cie_auglen = 0, cie_augdata = 0, cie_fde_encode = 0, cie_initinst = 1000,
        cie_instlen = 5\<rparr>"
  let ?f = "fde0\<lparr>fde_initloc := 0x8000, fde_adrange := 0x100, fde_inst := 2000, fde_instlen := 8\<rparr>"
  let ?cops = "[DefCfa 7 8, Offset 16 1]"
  let ?fops = "[AdvanceLoc 1, DefCfaOffset 16, Offset 6 2, AdvanceLoc 3, DefCfaRegister 6]"
  let ?regs = "replicate 66 \<lparr>rr_offset_relevant = 0, rr_regnum = 0, rr_offset = 0\<rparr>"
  note defs = internal_table_init_def frame_state0_def dwarf_init_def frame_params_init_def
  have e: "encode_cfas d ?cops = [0x0C, 7, 8, 0x90, 1]"
      "encode_cfas d ?fops = [0x41, 0x0E, 16, 0x86, 2, 0x43, 0x0D, 6]" for d
    by (simp_all add: encode_cfas_def dw_cfa_defs uleb128.simps)
  have "frame_ready 66 ?st"
    by (simp add: defs frame_ready_def table_of_def regtable0_def DW_FRAME_LAST_REG_NUM_def)
  then have "map_option (\<lambda>(m, ret, st, regs, row_pc). (m, ret, regs, row_pc))
      (get_fde_info_for_all_regs ?m ?st ?c (Some ?f) 0x8002 (Some ?regs) (Some 0)) =
    Some (?m, DW_DLV_OK,
      Some (map column (rt3_rules (cm_row (standard_row (fs_dbg ?st) ?c ?f ?cops ?fops (fs_table ?st) 0x8002)))),
      Some (cm_row_pc (standard_row (fs_dbg ?st) ?c ?f ?cops ?fops (fs_table ?st) 0x8002)))"
    by (rule fde_info_standard) (simp_all add: program_at_def e [unfolded One_nat_def] holds_at_def fde0_def defs)
  then show ?thesis
    by (auto simp: standard_row_def machine_start_def defs clear_table_def regtable0_def DW_FRAME_LAST_REG_NUM_def
      dw_cfa_defs uleb128.simps on_row_def put_rule_def put_cfa_def offset_rule_def column_def fde0_def rule0_def
      Let_def)
qed

end
