(* ===== verification/EhFrame.thy ===== *)
theory EhFrame
  imports DwarfFrame
begin

text \<open>
  The search for the frame entry of a program counter: the second half of
  \<^verbatim>\<open>kern/libdwarf_frame.c\<close>, which reads the CIEs and FDEs of \<^verbatim>\<open>.eh_frame\<close> one after the other. The
  single CIE object of the caller is overwritten by each CIE that is read.
\<close>

section \<open>Entries of .eh_frame\<close>

text \<open>\<open>val\<close> is the value that the result parameter has before; \<^verbatim>\<open>DW_EH_PE_omit\<close> leaves it.\<close>

definition encoded_value ::
    "mem \<Rightarrow> dwdebug \<Rightarrow> addr \<Rightarrow> u64 \<Rightarrow> u8 \<Rightarrow> (u32 \<times> u64 \<times> u64) option" where
  "encoded_value m d data off encode =
     (let rd = (\<lambda>n. let (x, off) = dread d m data off n in Some (DW_DLE_NONE, x, off));
          signed = (\<lambda>f n. let (x, off) = dread d m data off n in Some (DW_DLE_NONE, f x, off));
          leb = map_option (\<lambda>(x, off). (DW_DLE_NONE, x, off))
      in if encode = DW_EH_PE_absptr then rd (unat (dbg_pointer_size d))
         else if encode = DW_EH_PE_uleb128 then leb (read_uleb128 m data off)
         else if encode = DW_EH_PE_udata2 then rd 2
         else if encode = DW_EH_PE_udata4 then rd 4
         else if encode = DW_EH_PE_udata8 then rd 8
         else if encode = DW_EH_PE_sleb128 then leb (read_sleb128 m data off)
         else if encode = DW_EH_PE_sdata2 then signed (\<lambda>x. scast (ucast x :: u16)) 2
         else if encode = DW_EH_PE_sdata4 then signed (\<lambda>x. scast (ucast x :: u32)) 4
         else if encode = DW_EH_PE_sdata8 then rd 8
         else Some (DW_DLE_FRAME_AUGMENTATION_UNKNOWN, 0, off))"

definition read_lsb_encoded ::
    "mem \<Rightarrow> dwdebug \<Rightarrow> u64 \<Rightarrow> addr \<Rightarrow> u64 \<Rightarrow> u8 \<Rightarrow> u64 \<Rightarrow> (u32 \<times> u64 \<times> u64) option" where
  "read_lsb_encoded m d val data off encode pc =
     (if encode = DW_EH_PE_omit then Some (DW_DLE_NONE, val, off)
      else
       let application = encode AND 0xF0; encode = encode AND 0x0F
       in map_option (\<lambda>(ret, x, off).
            if ret \<noteq> DW_DLE_NONE then (ret, val, off)
            else if application = DW_EH_PE_pcrel \<and> encode \<noteq> DW_EH_PE_absptr then (ret, x + pc, off)
            else (ret, x, off))
          (encoded_value m d data off encode))"

text \<open>The augmentation string and data of a CIE: \<^verbatim>\<open>while (*aug_p != '\0')\<close>.\<close>

partial_function (option) parse_augment_loop ::
    "mem \<Rightarrow> dwdebug \<Rightarrow> addr \<Rightarrow> addr \<Rightarrow> cie \<Rightarrow> (u32 \<times> cie) option" where
  "parse_augment_loop m d aug_p augdata_p c =
     (if m aug_p = 0 then Some (DW_DLE_NONE, c)
      else if m aug_p = of_char (CHR ''L'') then parse_augment_loop m d (aug_p + 1) (augdata_p + 1) c
      else if m aug_p = of_char (CHR ''P'') then
        Option.bind (read_lsb_encoded m d 0 (augdata_p + 1) 0 (m augdata_p) 0) (\<lambda>(ret, val, offset).
          if ret \<noteq> DW_DLE_NONE then Some (ret, c)
          else parse_augment_loop m d (aug_p + 1) (augdata_p + 1 + offset) c)
      else if m aug_p = of_char (CHR ''R'') then
        parse_augment_loop m d (aug_p + 1) (augdata_p + 1) (c\<lparr>cie_fde_encode := m augdata_p\<rparr>)
      else Some (DW_DLE_FRAME_AUGMENTATION_UNKNOWN, c))"

definition parse_lsb_cie_augment :: "mem \<Rightarrow> dwdebug \<Rightarrow> cie \<Rightarrow> (u32 \<times> cie) option" where
  "parse_lsb_cie_augment m d c =
     (if cie_augment c \<noteq> 0 \<and> m (cie_augment c) = of_char (CHR ''z'')
      then parse_augment_loop m d (cie_augment c + 1) (cie_augdata c) c else None)"

text \<open>\<^verbatim>\<open>while (p[(*off)++] != '\0')\<close>\<close>

partial_function (option) skip_augment :: "mem \<Rightarrow> addr \<Rightarrow> u64 \<Rightarrow> u64 option" where
  "skip_augment m data off =
     (if m (data + off) \<noteq> 0 then skip_augment m data (off + 1) else Some (off + 1))"

text \<open>The 4 or 12 bytes of a length field; \<^verbatim>\<open>dwarf_size\<close> is 4 or 8.\<close>

definition read_length :: "mem \<Rightarrow> dwdebug \<Rightarrow> addr \<Rightarrow> u64 \<Rightarrow> nat \<times> u64 \<times> u64" where
  "read_length m d data off =
     (let (len, off) = dread d m data off 4
      in if len = 0xFFFFFFFF then (8, dread d m data off 8) else (4, len, off))"

text \<open>The end of an entry as the code computes it, from its start and its length.\<close>

definition entry_end :: "nat \<Rightarrow> u64 \<Rightarrow> u64 \<Rightarrow> u64" where
  "entry_end dwarf_size start len = (if dwarf_size = 4 then start + 4 + len else start + 12 + len)"

text \<open>
  The fields of a CIE behind its augmentation string. The result is a code, the offset and the CIE.
  \<open>eh\<close> is the address of the literal \<^verbatim>\<open>"eh"\<close>.
\<close>

definition cie_fields ::
    "mem \<Rightarrow> dwdebug \<Rightarrow> dsection \<Rightarrow> addr \<Rightarrow> nat \<Rightarrow> u64 \<Rightarrow> cie \<Rightarrow> (u32 \<times> u64 \<times> cie) option" where
  "cie_fields m d ds eh dwarf_size off c =
     Option.bind (strstr m (cie_augment c) eh) (\<lambda>found.
     let data = ds_data ds;
         (c, off) =
           (if found \<noteq> 0
            then let (x, off) = dread d m data off (unat (dbg_pointer_size d)) in (c\<lparr>cie_ehdata := x\<rparr>, off)
            else (c, off))
     in Option.bind (read_uleb128 m data off) (\<lambda>(caf, off).
        Option.bind (read_sleb128 m data off) (\<lambda>(daf, off).
        Option.bind (if cie_version c = 1 then Some (dread d m data off 1) else read_uleb128 m data off)
        (\<lambda>(ra, off).
         let c = c\<lparr>cie_caf := caf, cie_daf := daf, cie_ra := ra\<rparr>;
             finish = (\<lambda>off c.
               let n = entry_end dwarf_size (cie_offset c) (cie_length c) - off
               in Some (DW_DLE_NONE, off + n, c\<lparr>cie_initinst := data + off, cie_instlen := n\<rparr>))
         in if m (cie_augment c) = of_char (CHR ''z'')
            then Option.bind (read_uleb128 m data off) (\<lambda>(auglen, off).
              Option.bind (parse_lsb_cie_augment m d (c\<lparr>cie_auglen := auglen, cie_augdata := data + off,
                cie_fde_encode := DW_EH_PE_absptr\<rparr>))
              (\<lambda>(ret, c). if ret \<noteq> DW_DLE_NONE then Some (ret, off + auglen, c) else finish (off + auglen) c))
            else finish off c))))"

definition set_cie ::
    "mem \<Rightarrow> dwdebug \<Rightarrow> dsection \<Rightarrow> addr \<Rightarrow> u64 \<Rightarrow> cie \<Rightarrow> (u32 \<times> u64 \<times> cie) option" where
  "set_cie m d ds eh off c =
     (let data = ds_data ds; c = c\<lparr>cie_offset := off\<rparr>;
          (dwarf_size, len, off) = read_length m d data off
      in if len > ds_size ds - off then Some (DW_DLE_DEBUG_FRAME_LENGTH_BAD, off, c)
      else
       let (_, off) = dread d m data off dwarf_size;
           (version, off) = dread d m data off 1;
           c = c\<lparr>cie_length := len, cie_version := ucast version\<rparr>
       in if cie_version c \<noteq> 1 \<and> cie_version c \<noteq> 3 \<and> cie_version c \<noteq> 4
       then Some (DW_DLE_FRAME_VERSION_BAD, off, c)
       else
        let c = c\<lparr>cie_augment := data + off\<rparr>
        in Option.bind (skip_augment m data off) (\<lambda>off.
           if m (cie_augment c) \<noteq> 0 \<and> m (cie_augment c) \<noteq> of_char (CHR ''z'')
           then Some (DW_DLE_NONE, entry_end dwarf_size (cie_offset c) (cie_length c), c)
           else cie_fields m d ds eh dwarf_size off c))"

text \<open>\<open>junk\<close> is the value of the local variable \<^verbatim>\<open>val\<close>, which is not initialised.\<close>

definition fde_range ::
    "mem \<Rightarrow> dwdebug \<Rightarrow> dsection \<Rightarrow> bool \<Rightarrow> cie \<Rightarrow> u64 \<Rightarrow> u64 \<Rightarrow> fde \<Rightarrow> (u32 \<times> u64 \<times> fde) option" where
  "fde_range m d ds eh_frame c junk off f =
     (let data = ds_data ds
      in if eh_frame then
        Option.bind (read_lsb_encoded m d junk data off (cie_fde_encode c) (ds_addr ds + off))
        (\<lambda>(ret, val, off).
         if ret \<noteq> DW_DLE_NONE then Some (ret, off, f)
         else
          let f = f\<lparr>fde_initloc := val\<rparr>
          in map_option (\<lambda>(ret, val, off).
               if ret \<noteq> DW_DLE_NONE then (ret, off, f) else (DW_DLE_NONE, off, f\<lparr>fde_adrange := val\<rparr>))
             (read_lsb_encoded m d val data off (cie_fde_encode c) 0))
      else
        let (x, off) = dread d m data off (unat (dbg_pointer_size d));
            (y, off) = dread d m data off (unat (dbg_pointer_size d))
        in Some (DW_DLE_NONE, off, f\<lparr>fde_initloc := x, fde_adrange := y\<rparr>))"

definition set_fde ::
    "mem \<Rightarrow> dwdebug \<Rightarrow> dsection \<Rightarrow> bool \<Rightarrow> cie \<Rightarrow> u64 \<Rightarrow> u64 \<Rightarrow> fde \<Rightarrow> (u32 \<times> u64 \<times> fde) option" where
  "set_fde m d ds eh_frame c junk off f =
     (let data = ds_data ds; f = f\<lparr>fde_addr := data + off, fde_offset := off\<rparr>;
          (dwarf_size, len, off) = read_length m d data off
      in if len > ds_size ds - off then Some (DW_DLE_DEBUG_FRAME_LENGTH_BAD, off, f)
      else
       let (cieoff, off) = dread d m data off (if eh_frame then 4 else dwarf_size);
           f = f\<lparr>fde_length := len, fde_cieoff := cieoff\<rparr>
       in if eh_frame \<and> off - (4 + cieoff) = fde_offset f then Some (DW_DLE_NO_CIE_FOR_FDE, off, f)
       else
        Option.bind (fde_range m d ds eh_frame c junk off f) (\<lambda>(ret, off, f).
          let finish = (\<lambda>off f.
                let n = entry_end dwarf_size (fde_offset f) (fde_length f) - off
                in (DW_DLE_NONE, off + n, f\<lparr>fde_inst := data + off, fde_instlen := n\<rparr>))
          in if ret \<noteq> DW_DLE_NONE then Some (ret, off, f)
          else if eh_frame \<and> m (cie_augment c) = of_char (CHR ''z'')
          then map_option (\<lambda>(auglen, off). finish (off + auglen)
                 (f\<lparr>fde_auglen := auglen, fde_augdata := data + off\<rparr>)) (read_uleb128 m data off)
          else Some (finish off f)))"

text \<open>
  One entry of the section, which is a CIE or an FDE. The result is the returned \<^verbatim>\<open>int\<close>, the offset
  that is stored in \<^verbatim>\<open>dbg_eh_offset\<close>, and both structures.
\<close>

definition get_next_fde ::
    "mem \<Rightarrow> addr \<Rightarrow> bool \<Rightarrow> u64 \<Rightarrow> frame_state \<Rightarrow> cie \<Rightarrow> fde \<Rightarrow> (u32 \<times> frame_state \<times> cie \<times> fde) option" where
  "get_next_fde m eh eh_frame junk st c f =
     (let d = fs_dbg st; ds = fs_section st; entry_off = dbg_eh_offset d; data = ds_data ds
      in if \<not> entry_off < ds_size ds then Some (0, st, c, f)
      else
       let (dwarf_size, len, off) = read_length m d data entry_off
       in if len > ds_size ds - off \<or> len = 0 \<and> \<not> eh_frame
       then Some (DW_DLE_DEBUG_FRAME_LENGTH_BAD, st, c, f)
       else if eh_frame \<and> len = 0 then Some (- 1, st, c, f)
       else
        let (cie_id, off) = dread d m data off dwarf_size;
            is_cie = (if eh_frame then cie_id = 0
              else dwarf_size = 4 \<and> cie_id = 0xFFFFFFFF \<or> dwarf_size = 8 \<and> cie_id = - 1);
            next = (\<lambda>off. st\<lparr>fs_dbg := d\<lparr>dbg_eh_offset := off\<rparr>\<rparr>)
        in if is_cie
           then map_option (\<lambda>(ret, off, c).
                  if ret \<noteq> DW_DLE_NONE then (- 1, st, c, f) else (0, next off, c, f))
                  (set_cie m d ds eh entry_off c)
           else map_option (\<lambda>(ret, off, f).
                  if ret \<noteq> DW_DLE_NONE then (- 1, st, c, f) else (0, next off, c, f))
                  (set_fde m d ds eh_frame c junk entry_off f))"

text \<open>\<open>rng\<close> stands for \<^verbatim>\<open>*lopc\<close> and \<^verbatim>\<open>*hipc\<close>. \<^verbatim>\<open>is_eh_frame\<close> is 1. The test is for negative results only.\<close>

partial_function (option) fde_at_pc_loop ::
    "mem \<Rightarrow> addr \<Rightarrow> u64 \<Rightarrow> u64 \<Rightarrow> u64 \<times> u64 \<Rightarrow> frame_state \<Rightarrow> cie \<Rightarrow> fde
      \<Rightarrow> (u32 \<times> (u64 \<times> u64) \<times> frame_state \<times> cie \<times> fde) option" where
  "fde_at_pc_loop m eh junk pc rng st c f =
     (if dbg_eh_offset (fs_dbg st) < dbg_eh_size (fs_dbg st) then
        Option.bind (get_next_fde m eh True junk st c f) (\<lambda>(ret, st, c, f).
          if sint ret < 0 then Some (DW_DLV_NO_ENTRY, rng, st, c, f)
          else if fde_initloc f \<le> pc \<and> pc < fde_initloc f + fde_adrange f
          then Some (DW_DLV_OK, (fde_initloc f, fde_initloc f + fde_adrange f - 1), st, c, f)
          else fde_at_pc_loop m eh junk pc rng st c f)
      else Some (DW_DLV_NO_ENTRY, rng, st, c, f))"

definition get_fde_at_pc ::
    "mem \<Rightarrow> addr \<Rightarrow> u64 \<Rightarrow> u64 \<Rightarrow> u64 \<times> u64 \<Rightarrow> frame_state \<Rightarrow> cie
      \<Rightarrow> (u32 \<times> (u64 \<times> u64) \<times> frame_state \<times> cie \<times> fde) option" where
  "get_fde_at_pc m eh junk pc rng st c = fde_at_pc_loop m eh junk pc rng st c fde0"

section \<open>A bad length makes the search endless\<close>

lemma fde_at_pc_loop_stuck:
  assumes "\<And>f. get_next_fde m eh True junk st c f = Some (ret, st, c, f)" and "0 \<le> sint ret"
    and "dbg_eh_offset (fs_dbg st) < dbg_eh_size (fs_dbg st)"
    and "\<not> (fde_initloc f \<le> pc \<and> pc < fde_initloc f + fde_adrange f)"
  shows "fde_at_pc_loop m eh junk pc rng st c f = None"
proof (cases "fde_at_pc_loop m eh junk pc rng st c f")
  case (Some y)
  have "(m, eh, junk, pc, st, c, f) = (m, eh, junk, pc, st, c, f) \<longrightarrow> False"
  proof (rule fde_at_pc_loop.raw_induct [OF _ Some, of "\<lambda>m' eh' junk' pc' _ st' c' f' _.
      (m', eh', junk', pc', st', c', f') = (m, eh, junk, pc, st, c, f) \<longrightarrow> False"], intro impI)
    fix loop m' eh' junk' pc' rng' st' c' f' y'
    assume IH: "\<And>m' eh' junk' pc' rng' st' c' f' y'. loop m' eh' junk' pc' rng' st' c' f' = Some y' \<Longrightarrow>
        (m', eh', junk', pc', st', c', f') = (m, eh, junk, pc, st, c, f) \<longrightarrow> False"
      and eq: "(m', eh', junk', pc', st', c', f') = (m, eh, junk, pc, st, c, f)"
      and body: "(if dbg_eh_offset (fs_dbg st') < dbg_eh_size (fs_dbg st')
        then Option.bind (get_next_fde m' eh' True junk' st' c' f')
          (\<lambda>(ret, st, c, f). if sint ret < 0 then Some (DW_DLV_NO_ENTRY, rng', st, c, f)
            else if fde_initloc f \<le> pc' \<and> pc' < fde_initloc f + fde_adrange f
            then Some (DW_DLV_OK, (fde_initloc f, fde_initloc f + fde_adrange f - 1), st, c, f)
            else loop m' eh' junk' pc' rng' st c f)
        else Some (DW_DLV_NO_ENTRY, rng', st', c', f')) = Some y'"
    from body have "loop m eh junk pc rng' st c f = Some y'" using eq assms by (simp split: if_splits)
    then show False using IH by blast
  qed
  then show ?thesis by simp
qed simp

lemma get_next_fde_bad_length:
  assumes "dbg_eh_offset (fs_dbg st) < ds_size (fs_section st)"
    and "read_length m (fs_dbg st) (ds_data (fs_section st)) (dbg_eh_offset (fs_dbg st)) = (n, len, off)"
    and "len > ds_size (fs_section st) - off"
  shows "get_next_fde m eh eh_frame junk st c f = Some (DW_DLE_DEBUG_FRAME_LENGTH_BAD, st, c, f)"
  using assms by (simp add: get_next_fde_def Let_def)

text \<open>
  C26. When the length of the entry at hand goes beyond the section, \<^verbatim>\<open>dwarf_get_fde_at_pc\<close> never
  returns: \<^verbatim>\<open>_dwarf_get_next_fde\<close> reports the error by a positive number and does not move on, and its
  caller only stops at negative ones.
\<close>

theorem bad_length_never_returns:
  assumes "dbg_eh_offset (fs_dbg st) < dbg_eh_size (fs_dbg st)"
    and "dbg_eh_offset (fs_dbg st) < ds_size (fs_section st)"
    and "read_length m (fs_dbg st) (ds_data (fs_section st)) (dbg_eh_offset (fs_dbg st)) = (n, len, off)"
    and "len > ds_size (fs_section st) - off"
  shows "get_fde_at_pc m eh junk pc rng st c = None"
  unfolding get_fde_at_pc_def
  using get_next_fde_bad_length [OF assms(2-4)] assms(1)
  by (intro fde_at_pc_loop_stuck) (auto simp: fde0_def DW_DLE_DEBUG_FRAME_LENGTH_BAD_def)

theorem bad_length_never_returns_witness:
  "\<forall>c. get_fde_at_pc (store (\<lambda>_. 0) 100 [0xFF, 0, 0, 0]) 0 0 0x8000 (0, 0)
     ((frame_state0 ((dwarf_init (\<lambda>_. 0) 0)\<lparr>dbg_eh_size := 4\<rparr>))
       \<lparr>fs_section := \<lparr>ds_name = ''.eh_frame'', ds_data = 100, ds_addr = 100, ds_size = 4\<rparr>\<rparr>) c = None"
proof (intro allI, rule bad_length_never_returns [where n = 4 and len = 255 and off = 4])
qed (simp_all add: frame_state0_def dwarf_init_def frame_params_init_def read_length_def elf_is_msb_def dread_def
    read_lsb_def size_ok_def lsb_value_def src_byte_def)

section \<open>Sections as the assembler writes them\<close>

text \<open>
  CIEs of version 1 with augmentation \<^verbatim>\<open>"zR"\<close> and pc-relative 4-byte addresses, and their FDEs, in the
  32-bit format. The entry at offset \<open>off\<close> of a section at address \<open>addr\<close>.
\<close>

record cie_src =
  cs_caf :: nat
  cs_daf :: int
  cs_ra :: u8
  cs_insts :: "u8 list"

record fde_src =
  fd_cieoff :: u64
  fd_loc :: u64
  fd_range :: u64
  fd_insts :: "u8 list"

definition PE_ENCODE :: u8 where "PE_ENCODE = DW_EH_PE_pcrel OR DW_EH_PE_sdata4"

definition cie_body :: "cie_src \<Rightarrow> u8 list" where
  "cie_body s = uleb128 (cs_caf s) @ sleb128 (cs_daf s) @ cs_ra s # uleb128 1 @ PE_ENCODE # cs_insts s"

definition cie_bytes :: "dwdebug \<Rightarrow> cie_src \<Rightarrow> u8 list" where
  "cie_bytes d s = enc d 4 (of_nat (8 + length (cie_body s))) @ enc d 4 0 @ enc d 1 1 @
     [of_char (CHR ''z''), of_char (CHR ''R''), 0] @ cie_body s"

text \<open>The low 32 bits of an address or a length.\<close>

definition low32 :: "u64 \<Rightarrow> u64" where
  "low32 w = ucast (ucast w :: u32)"

definition fde_bytes :: "dwdebug \<Rightarrow> u64 \<Rightarrow> fde_src \<Rightarrow> u8 list" where
  "fde_bytes d at s = enc d 4 (of_nat (13 + length (fd_insts s))) @ enc d 4 (fd_cieoff s) @
     enc d 4 (low32 (fd_loc s - (at + 8))) @ enc d 4 (low32 (fd_range s)) @ uleb128 0 @ fd_insts s"

text \<open>Distances that a signed 32-bit number holds.\<close>

definition signed32 :: "u64 \<Rightarrow> bool" where
  "signed32 w \<longleftrightarrow> scast (ucast w :: u32) = w"

definition cie_fits :: "cie_src \<Rightarrow> bool" where
  "cie_fits s \<longleftrightarrow> cs_caf s < 2 ^ 31 \<and> - (2 ^ 31) \<le> cs_daf s \<and> cs_daf s < 2 ^ 31 \<and>
     8 + length (cie_body s) < 0xFFFFFFFF"

definition fde_fits :: "u64 \<Rightarrow> fde_src \<Rightarrow> bool" where
  "fde_fits at s \<longleftrightarrow> 4 < fd_cieoff s \<and> fd_cieoff s < 2 ^ 32 \<and> signed32 (fd_loc s - (at + 8)) \<and>
     signed32 (fd_range s) \<and> 13 + length (fd_insts s) < 0xFFFFFFFF"

text \<open>What the reader makes of them.\<close>

definition cie_read :: "dsection \<Rightarrow> u64 \<Rightarrow> cie_src \<Rightarrow> cie \<Rightarrow> cie" where
  "cie_read ds off s c =
     (let k = length (uleb128 (cs_caf s)) + length (sleb128 (cs_daf s))
      in \<lparr>cie_offset = off, cie_length = of_nat (8 + length (cie_body s)), cie_version = 1,
          cie_augment = ds_data ds + (off + 9), cie_ehdata = cie_ehdata c, cie_caf = of_nat (cs_caf s),
          cie_daf = word_of_int (cs_daf s), cie_ra = ucast (cs_ra s), cie_auglen = 1,
          cie_augdata = ds_data ds + (off + of_nat (14 + k)), cie_fde_encode = PE_ENCODE,
          cie_initinst = ds_data ds + (off + of_nat (15 + k)), cie_instlen = of_nat (length (cs_insts s))\<rparr>)"

definition fde_read :: "dsection \<Rightarrow> u64 \<Rightarrow> fde_src \<Rightarrow> fde" where
  "fde_read ds off s =
     \<lparr>fde_addr = ds_data ds + off, fde_offset = off, fde_length = of_nat (13 + length (fd_insts s)),
      fde_cieoff = fd_cieoff s, fde_initloc = fd_loc s, fde_adrange = fd_range s, fde_auglen = 0,
      fde_augdata = ds_data ds + (off + 17), fde_inst = ds_data ds + (off + 17),
      fde_instlen = of_nat (length (fd_insts s))\<rparr>"

lemma low32_small: "unat (low32 w) < 2 ^ (8 * 4)"
  using unsigned_less [of "ucast w :: u32", where ?'a = nat] by (simp add: low32_def unat_ucast_wider)

lemma low32_narrow: "ucast (low32 w) = (ucast w :: u32)"
  by (simp add: low32_def word_unat_eq_iff unsigned_ucast_eq unsigned_take_bit_eq)

lemma of_nat_pos64: "0 < n \<Longrightarrow> n < 2 ^ 64 \<Longrightarrow> (of_nat n :: u64) \<noteq> 0"
  by (simp add: word_unat_eq_iff unat_of_nat64)

lemma read_length_enc:
  assumes "holds_at m (data + off) (enc d 4 (of_nat n))" and "n < 0xFFFFFFFF"
  shows "read_length m d data off = (4, of_nat n, off + 4)"
proof -
  have u: "unat (of_nat n :: u64) = n" using assms(2) by (intro unat_of_nat64) simp
  then have "(of_nat n :: u64) \<noteq> 0xFFFFFFFF" using assms(2) by (auto simp: word_unat_eq_iff)
  moreover have "dread d m data off 4 = (of_nat n, off + 4)"
    using dread_enc [OF assms(1), of] assms(2) u by (simp add: size_ok_def)
  ultimately show ?thesis by (simp add: read_length_def)
qed

lemma read_pe:
  assumes "holds_at m (data + off) (enc d 4 (low32 w))" and "signed32 w"
  shows "read_lsb_encoded m d val data off PE_ENCODE pc = Some (DW_DLE_NONE, w + pc, off + 4)"
proof -
  have "dread d m data off 4 = (low32 w, off + 4)"
    using dread_enc [OF assms(1)] low32_small [of w] by (simp add: size_ok_def)
  moreover have "scast (ucast (low32 w) :: u32) = w" using assms(2) by (simp add: signed32_def low32_narrow)
  ultimately show ?thesis
    by (simp add: read_lsb_encoded_def encoded_value_def PE_ENCODE_def dw_eh_defs)
qed

text \<open>One FDE.\<close>

lemma set_fde_entry:
  assumes h: "holds_at m (ds_data ds + off) (fde_bytes d (ds_addr ds + off) s)"
    and fits: "fde_fits (ds_addr ds + off) s" and sec: "unat off + 17 + length (fd_insts s) \<le> unat (ds_size ds)"
    and c: "cie_fde_encode c = PE_ENCODE" "m (cie_augment c) = of_char (CHR ''z'')"
  shows "set_fde m d ds True c junk off f =
    Some (DW_DLE_NONE, off + of_nat (17 + length (fd_insts s)), fde_read ds off s)"
proof -
  let ?p = "ds_data ds" and ?n = "13 + length (fd_insts s)"
  have h': "holds_at m (?p + off) (enc d 4 (of_nat ?n))" "holds_at m (?p + (off + 4)) (enc d 4 (fd_cieoff s))"
    "holds_at m (?p + (off + 8)) (enc d 4 (low32 (fd_loc s - (ds_addr ds + off + 8))))"
    "holds_at m (?p + (off + 12)) (enc d 4 (low32 (fd_range s)))" "holds_at m (?p + (off + 16)) (uleb128 0)"
    using h by (simp_all add: fde_bytes_def holds_at_append add.assoc)
  have len: "read_length m d ?p off = (4, of_nat ?n, off + 4)"
    using fits by (intro read_length_enc h'(1)) (simp add: fde_fits_def)
  have cieoff: "dread d m ?p (off + 4) 4 = (fd_cieoff s, off + 8)"
    using dread_enc [OF h'(2)] fits by (simp add: size_ok_def fde_fits_def word_less_nat_alt add.assoc)
  have loc: "read_lsb_encoded m d val ?p (off + 8) PE_ENCODE (ds_addr ds + (off + 8)) =
      Some (DW_DLE_NONE, fd_loc s, off + 12)" for val
    using read_pe [OF h'(3), of val "ds_addr ds + (off + 8)"] fits by (simp add: fde_fits_def algebra_simps)
  have range: "read_lsb_encoded m d val ?p (off + 12) PE_ENCODE 0 = Some (DW_DLE_NONE, fd_range s, off + 16)" for val
    using read_pe [OF h'(4), of val 0] fits by (simp add: fde_fits_def add.assoc)
  have aug: "read_uleb128 m ?p (off + 16) = Some (0, off + 17)"
    using read_uleb128_holds [OF h'(5)] by (simp add: add.assoc uleb128.simps)
  have fits_in: "\<not> of_nat ?n > ds_size ds - (off + 4)"
    using sec by (intro length_in_section) simp
  have delta: "off + 8 - (4 + fd_cieoff s) \<noteq> off"
  proof
    assume "off + 8 - (4 + fd_cieoff s) = off"
    then have "fd_cieoff s = 4" by (simp add: algebra_simps)
    then show False using fits by (simp add: fde_fits_def)
  qed
  show ?thesis
    using fits_in c delta
    by (simp add: set_fde_def len cieoff Let_def fde_range_def loc range aug entry_end_def fde_read_def)
qed

text \<open>One CIE. The literal \<^verbatim>\<open>"eh"\<close> does not occur in \<^verbatim>\<open>"zR"\<close>.\<close>

definition eh_literal :: "mem \<Rightarrow> addr \<Rightarrow> bool" where
  "eh_literal m eh \<longleftrightarrow> cstr m eh [of_char (CHR ''e''), of_char (CHR ''h'')]"

lemma zR_augment:
  assumes "holds_at m p [of_char (CHR ''z''), of_char (CHR ''R''), 0]" and "eh_literal m eh"
  shows "strstr m p eh = Some 0" "skip_augment m data (p - data) = Some (p - data + 3)"
proof -
  have c: "cstr m p [of_char (CHR ''z''), of_char (CHR ''R'')]"
    using assms(1) by (simp add: holds_at_Cons)
  then show "strstr m p eh = Some 0"
    using strstr_cstr [OF c assms(2) [unfolded eh_literal_def]] by (simp add: occurs_at_def)
  have "m p \<noteq> 0" "m (p + 1) \<noteq> 0" "m (p + 2) = 0" using assms(1) by (simp_all add: holds_at_Cons add.assoc)
  then show "skip_augment m data (p - data) = Some (p - data + 3)"
    by (simp add: skip_augment.simps [of m data] algebra_simps)
qed

lemma parse_zR:
  assumes "holds_at m (cie_augment c) [of_char (CHR ''z''), of_char (CHR ''R''), 0]" and "cie_augment c \<noteq> 0"
  shows "parse_lsb_cie_augment m d c = Some (DW_DLE_NONE, c\<lparr>cie_fde_encode := m (cie_augdata c)\<rparr>)"
proof -
  have "m (cie_augment c) = of_char (CHR ''z'')" "m (cie_augment c + 1) = of_char (CHR ''R'')"
      "m (cie_augment c + 1 + 1) = 0"
    using assms(1) by (simp_all add: holds_at_Cons)
  then show ?thesis
    using assms(2) by (simp add: parse_lsb_cie_augment_def parse_augment_loop.simps [of m d "cie_augment c + 1"]
      parse_augment_loop.simps [of m d "cie_augment c + 2"] add.assoc)
qed

lemma set_cie_entry:
  assumes h: "holds_at m (ds_data ds + off) (cie_bytes d s)" and fits: "cie_fits s"
    and sec: "unat off + 12 + length (cie_body s) \<le> unat (ds_size ds)"
    and space: "unat (ds_data ds) + unat (ds_size ds) < 2 ^ 64" and eh: "eh_literal m eh"
  shows "set_cie m d ds eh off c =
    Some (DW_DLE_NONE, off + of_nat (12 + length (cie_body s)), cie_read ds off s c)"
proof -
  let ?p = "ds_data ds" and ?n = "8 + length (cie_body s)"
  define i where "i = length (uleb128 (cs_caf s))"
  define k where "k = i + length (sleb128 (cs_daf s))"
  have h': "holds_at m (?p + off) (enc d 4 (of_nat ?n))" "holds_at m (?p + (off + 4)) (enc d 4 0)"
    "holds_at m (?p + (off + 8)) (enc d 1 1)"
    "holds_at m (?p + (off + 9)) [of_char (CHR ''z''), of_char (CHR ''R''), 0]"
    "holds_at m (?p + (off + 12)) (uleb128 (cs_caf s))" "holds_at m (?p + (off + (12 + of_nat i))) (sleb128 (cs_daf s))"
    "m (?p + (off + (12 + of_nat k))) = cs_ra s" "holds_at m (?p + (off + (13 + of_nat k))) (uleb128 1)"
    "m (?p + (off + (14 + of_nat k))) = PE_ENCODE"
    using h by (simp_all add: cie_bytes_def cie_body_def holds_at_append holds_at_Cons i_def k_def add.assoc
        uleb128.simps algebra_simps)
  have len: "read_length m d ?p off = (4, of_nat ?n, off + 4)"
    using fits by (intro read_length_enc h'(1)) (simp add: cie_fits_def)
  have r: "dread d m ?p (off + 4) 4 = (0, off + 8)" "dread d m ?p (off + 8) 1 = (1, off + 9)"
    using dread_enc [OF h'(2)] dread_enc [OF h'(3)] by (simp_all add: size_ok_def add.assoc)
  have leb: "read_uleb128 m ?p (off + 12) = Some (of_nat (cs_caf s), off + (12 + of_nat i))"
    "read_sleb128 m ?p (off + (12 + of_nat i)) = Some (word_of_int (cs_daf s), off + (12 + of_nat k))"
    "read_uleb128 m ?p (off + (13 + of_nat k)) = Some (1, off + (14 + of_nat k))"
    using read_uleb128_holds [OF h'(5)] read_sleb128_holds [OF h'(6)] read_uleb128_holds [OF h'(8)] fits
    by (simp_all add: cie_fits_def i_def k_def uleb128.simps algebra_simps)
  have ra: "dread d m ?p (off + (12 + of_nat k)) 1 = (ucast (cs_ra s), off + (13 + of_nat k))"
    using dread_byte [folded One_nat_def, of d m ?p "off + (12 + of_nat k)"] unfolding h'(7) by (simp add: add.commute)
  have sz: "unat (ds_size ds) < 2 ^ 64" using unsigned_less [of "ds_size ds"] by simp
  have "unat (?p + (off + 9)) = unat ?p + (unat off + 9)"
    using sec space sz by (simp add: unat_word_ariths)
  then have aug0: "?p + (off + 9) \<noteq> 0" by auto
  have zR: "strstr m (?p + (off + 9)) eh = Some 0" "skip_augment m ?p (off + 9) = Some (off + 12)"
    using zR_augment(1) [OF h'(4) eh] zR_augment(2) [OF h'(4) eh, of ?p] by (simp_all add: algebra_simps)
  have z: "m (?p + (off + 9)) = of_char (CHR ''z'')" using h'(4) by (simp add: holds_at_Cons)
  have fits_in: "\<not> of_nat ?n > ds_size ds - (off + 4)"
    using sec by (intro length_in_section) simp
  have body: "length (cie_body s) = k + 3 + length (cs_insts s)"
    by (simp add: cie_body_def k_def i_def uleb128.simps)
  have fields: "cie_fields m d ds eh 4 (off + 12)
      (c\<lparr>cie_offset := off, cie_length := of_nat ?n, cie_version := 1, cie_augment := ?p + (off + 9)\<rparr>) =
    Some (DW_DLE_NONE, off + of_nat (12 + length (cie_body s)), cie_read ds off s c)"
    using h'(4,9)
    by (simp add: cie_fields_def zR leb ra [unfolded One_nat_def] z parse_zR aug0 entry_end_def cie_read_def Let_def body flip: i_def k_def)
  show ?thesis
    using fits_in fields by (simp add: set_cie_def len r r(2) [unfolded One_nat_def] zR z Let_def)
qed

section \<open>The search\<close>

datatype eh_entry = Cie cie_src | Fde fde_src

fun entry_bytes :: "dwdebug \<Rightarrow> u64 \<Rightarrow> eh_entry \<Rightarrow> u8 list" where
  "entry_bytes d at (Cie s) = cie_bytes d s"
| "entry_bytes d at (Fde s) = fde_bytes d at s"

fun entry_size :: "eh_entry \<Rightarrow> nat" where
  "entry_size (Cie s) = 12 + length (cie_body s)"
| "entry_size (Fde s) = 17 + length (fd_insts s)"

text \<open>The entries from an address on, with the terminator.\<close>

fun section_bytes :: "dwdebug \<Rightarrow> u64 \<Rightarrow> eh_entry list \<Rightarrow> u8 list" where
  "section_bytes d at [] = enc d 4 0"
| "section_bytes d at (e # es) = entry_bytes d at e @ section_bytes d (at + of_nat (entry_size e)) es"

fun entry_fits :: "u64 \<Rightarrow> eh_entry \<Rightarrow> bool" where
  "entry_fits at (Cie s) = cie_fits s"
| "entry_fits at (Fde s) = fde_fits at s"

fun entries_fit :: "u64 \<Rightarrow> eh_entry list \<Rightarrow> bool" where
  "entries_fit at [] = True"
| "entries_fit at (e # es) = (entry_fits at e \<and> entries_fit (at + of_nat (entry_size e)) es)"

text \<open>The first FDE that contains \<open>pc\<close>, with the CIE that was read last before it.\<close>

fun find_entry :: "dsection \<Rightarrow> u64 \<Rightarrow> u64 \<Rightarrow> cie \<Rightarrow> eh_entry list \<Rightarrow> (cie \<times> fde) option" where
  "find_entry ds off pc c [] = None"
| "find_entry ds off pc c (Cie s # es) =
     find_entry ds (off + of_nat (entry_size (Cie s))) pc (cie_read ds off s c) es"
| "find_entry ds off pc c (Fde s # es) =
     (if fd_loc s \<le> pc \<and> pc < fd_loc s + fd_range s then Some (c, fde_read ds off s)
      else find_entry ds (off + of_nat (entry_size (Fde s))) pc c es)"

lemma enc_offset [simp]: "enc (d\<lparr>dbg_eh_offset := x\<rparr>) = enc d"
  by (rule ext)+ (simp add: enc_def)

lemma length_entry_bytes [simp]: "length (entry_bytes d at e) = entry_size e"
  by (cases e) (simp_all add: cie_bytes_def fde_bytes_def uleb128.simps)

lemma section_bytes_offset [simp]: "section_bytes (d\<lparr>dbg_eh_offset := x\<rparr>) at es = section_bytes d at es"
proof (induction es arbitrary: at)
  case (Cons e es)
  then show ?case by (cases e) (simp_all add: cie_bytes_def fde_bytes_def)
qed simp

definition known_cie :: "mem \<Rightarrow> cie \<Rightarrow> bool" where
  "known_cie m c \<longleftrightarrow> cie_fde_encode c = PE_ENCODE \<and> m (cie_augment c) = of_char (CHR ''z'')"

definition contains :: "fde \<Rightarrow> u64 \<Rightarrow> bool" where
  "contains f pc \<longleftrightarrow> fde_initloc f \<le> pc \<and> pc < fde_initloc f + fde_adrange f"

text \<open>The state of a search that stands at an offset of a loaded section.\<close>

definition searching :: "mem \<Rightarrow> addr \<Rightarrow> frame_state \<Rightarrow> u64 \<Rightarrow> eh_entry list \<Rightarrow> bool" where
  "searching m eh st off es \<longleftrightarrow>
     (let d = fs_dbg st; ds = fs_section st; bs = section_bytes d (ds_addr ds + off) es
      in dbg_eh_offset d = off \<and> dbg_eh_size d = ds_size ds \<and> holds_at m (ds_data ds + off) bs \<and>
         entries_fit (ds_addr ds + off) es \<and> unat off + length bs \<le> unat (ds_size ds) \<and>
         unat (ds_data ds) + unat (ds_size ds) < 2 ^ 64 \<and> eh_literal m eh)"

definition moved :: "frame_state \<Rightarrow> u64 \<Rightarrow> frame_state" where
  "moved st off = st\<lparr>fs_dbg := (fs_dbg st)\<lparr>dbg_eh_offset := off\<rparr>\<rparr>"

lemma searching_step:
  assumes "searching m eh st off (e # es)"
  shows "searching m eh (moved st (off + of_nat (entry_size e))) (off + of_nat (entry_size e)) es"
    "holds_at m (ds_data (fs_section st) + off) (entry_bytes (fs_dbg st) (ds_addr (fs_section st) + off) e)"
    "off < ds_size (fs_section st)" "unat off + entry_size e \<le> unat (ds_size (fs_section st))"
    "entry_fits (ds_addr (fs_section st) + off) e"
proof -
  let ?ds = "fs_section st"
  have a: "unat off + (entry_size e + length (section_bytes (fs_dbg st) (ds_addr ?ds + off + of_nat (entry_size e)) es))
      \<le> unat (ds_size ?ds)"
    using assms by (simp add: searching_def Let_def)
  have le: "unat off + entry_size e \<le> unat (ds_size ?ds)" using a by simp
  have pos: "0 < entry_size e" by (cases e) simp_all
  note sec = off_in_section [OF le pos]
  show "searching m eh (moved st (off + of_nat (entry_size e))) (off + of_nat (entry_size e)) es"
    using assms a sec(3) by (simp add: searching_def moved_def Let_def holds_at_append add.assoc)
  show "holds_at m (ds_data ?ds + off) (entry_bytes (fs_dbg st) (ds_addr ?ds + off) e)"
    using assms by (simp add: searching_def Let_def holds_at_append)
  show "off < ds_size ?ds" by (rule sec(1))
  show "unat off + entry_size e \<le> unat (ds_size ?ds)" by (rule le)
  show "entry_fits (ds_addr ?ds + off) e" using assms by (simp add: searching_def Let_def)
qed

lemma get_next_cie:
  assumes "searching m eh st off (Cie s # es)"
  shows "get_next_fde m eh True junk st c f =
    Some (0, moved st (off + of_nat (entry_size (Cie s))), cie_read (fs_section st) off s c, f)"
proof -
  let ?d = "fs_dbg st" and ?ds = "fs_section st"
  note step = searching_step [OF assms]
  have fits: "cie_fits s" using step(5) by simp
  have h: "holds_at m (ds_data ?ds + off) (cie_bytes ?d s)" using step(2) by simp
  have len: "read_length m ?d (ds_data ?ds) off = (4, of_nat (8 + length (cie_body s)), off + 4)"
    using h fits by (intro read_length_enc) (simp_all add: cie_bytes_def holds_at_append cie_fits_def)
  have id: "dread ?d m (ds_data ?ds) (off + 4) 4 = (0, off + 8)"
    using dread_enc [of m "ds_data ?ds" "off + 4" ?d 4 0] h
    by (simp add: cie_bytes_def holds_at_append size_ok_def add.assoc)
  have ok: "\<not> of_nat (8 + length (cie_body s)) > ds_size ?ds - (off + 4)"
    using step(4) by (intro length_in_section) simp
  have nz: "(of_nat (8 + length (cie_body s)) :: u64) \<noteq> 0"
    using fits by (intro of_nat_pos64) (simp_all add: cie_fits_def)
  have "set_cie m ?d ?ds eh off c =
      Some (DW_DLE_NONE, off + of_nat (12 + length (cie_body s)), cie_read ?ds off s c)"
    using step(4) assms h fits by (intro set_cie_entry) (simp_all add: searching_def Let_def)
  moreover have "dbg_eh_offset ?d = off" using assms by (simp add: searching_def Let_def)
  ultimately show ?thesis
    using step(3) ok nz id by (simp add: get_next_fde_def len Let_def moved_def)
qed

lemma get_next_fde_entry:
  assumes "searching m eh st off (Fde s # es)" and "known_cie m c"
  shows "get_next_fde m eh True junk st c f =
    Some (0, moved st (off + of_nat (entry_size (Fde s))), c, fde_read (fs_section st) off s)"
proof -
  let ?d = "fs_dbg st" and ?ds = "fs_section st"
  note step = searching_step [OF assms(1)]
  have fits: "fde_fits (ds_addr ?ds + off) s" using step(5) by simp
  have h: "holds_at m (ds_data ?ds + off) (fde_bytes ?d (ds_addr ?ds + off) s)" using step(2) by simp
  have len: "read_length m ?d (ds_data ?ds) off = (4, of_nat (13 + length (fd_insts s)), off + 4)"
    using h fits by (intro read_length_enc) (simp_all add: fde_bytes_def holds_at_append fde_fits_def)
  have id: "dread ?d m (ds_data ?ds) (off + 4) 4 = (fd_cieoff s, off + 8)"
    using dread_enc [of m "ds_data ?ds" "off + 4" ?d 4 "fd_cieoff s"] h fits
    by (simp add: fde_bytes_def holds_at_append size_ok_def add.assoc fde_fits_def word_less_nat_alt)
  have ok: "\<not> of_nat (13 + length (fd_insts s)) > ds_size ?ds - (off + 4)"
    using step(4) by (intro length_in_section) simp
  have nz: "(of_nat (13 + length (fd_insts s)) :: u64) \<noteq> 0"
    using fits by (intro of_nat_pos64) (simp_all add: fde_fits_def)
  have nz_id: "fd_cieoff s \<noteq> 0" using fits by (auto simp: fde_fits_def)
  have "set_fde m ?d ?ds True c junk off f =
      Some (DW_DLE_NONE, off + of_nat (17 + length (fd_insts s)), fde_read ?ds off s)"
    using step(4) h fits assms(2) by (intro set_fde_entry) (simp_all add: known_cie_def)
  moreover have "dbg_eh_offset ?d = off" using assms by (simp add: searching_def Let_def)
  ultimately show ?thesis
    using step(3) ok nz nz_id id by (simp add: get_next_fde_def len Let_def moved_def)
qed

lemma get_next_end:
  assumes "searching m eh st off []"
  shows "get_next_fde m eh True junk st c f = Some (- 1, st, c, f)" "off < ds_size (fs_section st)"
proof -
  let ?d = "fs_dbg st" and ?ds = "fs_section st"
  have h: "holds_at m (ds_data ?ds + off) (enc ?d 4 (of_nat 0))" and le: "unat off + 4 \<le> unat (ds_size ?ds)"
      and o: "dbg_eh_offset ?d = off"
    using assms by (simp_all add: searching_def Let_def)
  show lt: "off < ds_size ?ds" using off_in_section(1) [OF le] by simp
  show "get_next_fde m eh True junk st c f = Some (- 1, st, c, f)"
    using read_length_enc [OF h] lt o by (simp add: get_next_fde_def Let_def)
qed

lemma known_cie_read:
  assumes "searching m eh st off (Cie s # es)"
  shows "known_cie m (cie_read (fs_section st) off s c)"
proof -
  have "holds_at m (ds_data (fs_section st) + off) (cie_bytes (fs_dbg st) s)"
    using searching_step(2) [OF assms] by simp
  then show ?thesis
    by (simp add: known_cie_def cie_read_def cie_bytes_def holds_at_append holds_at_Cons add.assoc Let_def)
qed

lemma fde_at_pc_loop_step:
  assumes "get_next_fde m eh True junk st c f = Some (0, st', c', f')"
    and "dbg_eh_offset (fs_dbg st) < dbg_eh_size (fs_dbg st)"
  shows "fde_at_pc_loop m eh junk pc rng st c f =
    (if contains f' pc then Some (DW_DLV_OK, (fde_initloc f', fde_initloc f' + fde_adrange f' - 1), st', c', f')
     else fde_at_pc_loop m eh junk pc rng st' c' f')"
  using assms by (subst fde_at_pc_loop.simps) (simp add: contains_def)

lemma searching_on: "searching m eh st off (e # es) \<Longrightarrow> dbg_eh_offset (fs_dbg st) < dbg_eh_size (fs_dbg st)"
  by (frule searching_step(3)) (simp add: searching_def Let_def)

lemma moved_section [simp]: "fs_section (moved st off) = fs_section st"
  by (simp add: moved_def)

definition search_result :: "u64 \<times> u64 \<Rightarrow> (cie \<times> fde) option
    \<Rightarrow> (u32 \<times> (u64 \<times> u64) \<times> frame_state \<times> cie \<times> fde) option \<Rightarrow> bool" where
  "search_result rng found r \<longleftrightarrow>
     (case (found, r) of
        (None, Some (ret, rng', _)) \<Rightarrow> ret = DW_DLV_NO_ENTRY \<and> rng' = rng
      | (Some (c, f), Some (ret, rng', _, c', f')) \<Rightarrow>
          ret = DW_DLV_OK \<and> rng' = (fde_initloc f, fde_initloc f + fde_adrange f - 1) \<and> c' = c \<and> f' = f
      | _ \<Rightarrow> False)"

lemma fde_at_pc_loop_finds:
  assumes "searching m eh st off es" and "known_cie m c \<or> (\<exists>s es'. es = Cie s # es')" and "\<not> contains f pc"
  shows "search_result rng (find_entry (fs_section st) off pc c es) (fde_at_pc_loop m eh junk pc rng st c f)"
  using assms
proof (induction es arbitrary: st off c f)
  case Nil
  have "dbg_eh_offset (fs_dbg st) < dbg_eh_size (fs_dbg st)"
    using get_next_end(2) [OF Nil(1)] Nil(1) by (simp add: searching_def Let_def)
  then show ?case
    using get_next_end(1) [OF Nil(1), of junk c f] by (simp add: fde_at_pc_loop.simps search_result_def)
next
  case (Cons e es)
  let ?st = "moved st (off + of_nat (entry_size e))"
  note on = searching_on [OF Cons.prems(1)] and next_st = searching_step(1) [OF Cons.prems(1)]
  show ?case
  proof (cases e)
    case (Cie s)
    note st = Cons.prems(1) [unfolded Cie]
    have "known_cie m (cie_read (fs_section st) off s c)" by (rule known_cie_read [OF st])
    then show ?thesis
      using Cons.IH [OF next_st, of "cie_read (fs_section st) off s c" f] Cons.prems(3) Cie
      by (simp add: fde_at_pc_loop_step [OF get_next_cie [OF st] on])
  next
    case (Fde s)
    note st = Cons.prems(1) [unfolded Fde]
    have c: "known_cie m c" using Cons.prems(2) Fde by simp
    have found: "contains (fde_read (fs_section st) off s) pc \<longleftrightarrow> fd_loc s \<le> pc \<and> pc < fd_loc s + fd_range s"
      by (simp add: contains_def fde_read_def)
    note step = fde_at_pc_loop_step [OF get_next_fde_entry [OF st c] on]
    show ?thesis
    proof (cases "contains (fde_read (fs_section st) off s) pc")
      case True
      then show ?thesis unfolding Fde by (simp add: step found search_result_def)
    next
      case False
      then show ?thesis
        using Cons.IH [OF next_st, of c "fde_read (fs_section st) off s"] c
        unfolding Fde by (auto simp: step found search_result_def simp del: entry_size.simps)
    qed
  qed
qed

text \<open>
  C23. \<^verbatim>\<open>dwarf_get_fde_at_pc\<close> on a section of CIEs and FDEs as the assembler writes them, of any number
  and sizes and in either byte order, closed by the terminator: it returns, with the first FDE that
  contains \<^verbatim>\<open>pc\<close>, its limits and the CIE before it, or with \<^verbatim>\<open>DW_DLV_NO_ENTRY\<close> when none does.
\<close>

theorem get_fde_at_pc_finds:
  assumes "searching m eh st off (Cie s # es)"
  shows "search_result rng (find_entry (fs_section st) off pc c (Cie s # es)) (get_fde_at_pc m eh junk pc rng st c)"
  unfolding get_fde_at_pc_def using assms
  by (rule fde_at_pc_loop_finds) (auto simp: contains_def fde0_def)

theorem get_fde_at_pc_finds_witness:
  "\<forall>c. map_option (\<lambda>(ret, rng, st, c, f). (ret, rng, cie_caf c, cie_daf c, cie_initinst c, fde_inst f, fde_instlen f))
     (get_fde_at_pc
       (store (store (\<lambda>_. 0) 0x500 [0x65, 0x68, 0]) 0x1000
         [0x12, 0, 0, 0,  0, 0, 0, 0,  1, 0x7A, 0x52, 0,  1, 0x78, 16, 1, 0x1B,  0x0C, 7, 8, 0x90, 1,
          0x10, 0, 0, 0,  0x1A, 0, 0, 0,  0xE2, 0x6F, 0, 0,  0x20, 0, 0, 0,  0,  0x41, 0x0E, 16,  0, 0, 0, 0])
       0x500 0 0x8004 (0, 0)
       ((frame_state0 ((dwarf_init (\<lambda>_. 0) 0)\<lparr>dbg_eh_size := 46\<rparr>))
         \<lparr>fs_section := \<lparr>ds_name = ''.eh_frame'', ds_data = 0x1000, ds_addr = 0x1000, ds_size = 46\<rparr>\<rparr>) c) =
   Some (DW_DLV_OK, (0x8000, 0x801F), 1, - 8, 0x1011, 0x1027, 3)"
proof
  fix c
  let ?bs = "[0x12, 0, 0, 0,  0, 0, 0, 0,  1, 0x7A, 0x52, 0,  1, 0x78, 16, 1, 0x1B,  0x0C, 7, 8, 0x90, 1,
          0x10, 0, 0, 0,  0x1A, 0, 0, 0,  0xE2, 0x6F, 0, 0,  0x20, 0, 0, 0,  0,  0x41, 0x0E, 16,  0, 0, 0, 0]"
  let ?m = "store (store (\<lambda>_. 0) 0x500 [0x65, 0x68, 0]) 0x1000 ?bs"
  let ?d = "(dwarf_init (\<lambda>_. 0) 0)\<lparr>dbg_eh_size := 46\<rparr>"
  let ?st = "(frame_state0 ?d)
    \<lparr>fs_section := \<lparr>ds_name = ''.eh_frame'', ds_data = 0x1000, ds_addr = 0x1000, ds_size = 46\<rparr>\<rparr>"
  let ?c = "\<lparr>cs_caf = 1, cs_daf = - 8, cs_ra = 16, cs_insts = [0x0C, 7, 8, 0x90, 1]\<rparr>"
  let ?f = "\<lparr>fd_cieoff = 26, fd_loc = 0x8000, fd_range = 0x20, fd_insts = [0x41, 0x0E, 16]\<rparr>"
  have d: "\<not> dbg_msb ?d" "dbg_eh_offset ?d = 0"
    by (simp_all add: dwarf_init_def frame_params_init_def elf_is_msb_def)
  have st: "fs_dbg ?st = ?d" "ds_data (fs_section ?st) = 0x1000" "ds_addr (fs_section ?st) = 0x1000"
      "ds_size (fs_section ?st) = 46"
    by (simp_all add: frame_state0_def)
  have le: "le_bytes 4 0 = [0, 0, 0, 0]" "le_bytes 4 18 = [0x12, 0, 0, 0]" "le_bytes 1 1 = [1]"
      "le_bytes 4 16 = [0x10, 0, 0, 0]" "le_bytes 4 26 = [0x1A, 0, 0, 0]" "le_bytes 4 0x6FE2 = [0xE2, 0x6F, 0, 0]"
      "le_bytes 4 0x20 = [0x20, 0, 0, 0]"
    by code_simp+
  have bs: "section_bytes ?d 0x1000 [Cie ?c, Fde ?f] = ?bs"
    by (simp add: cie_bytes_def cie_body_def fde_bytes_def enc_def d le [unfolded One_nat_def] low32_def PE_ENCODE_def dw_eh_defs
      uleb128.simps sleb128.simps)
  have "searching ?m 0x500 ?st 0 [Cie ?c, Fde ?f]"
    unfolding searching_def Let_def st add_0_right bs
    by (simp add: d holds_at_def cie_fits_def fde_fits_def cie_body_def signed32_def eh_literal_def
      uleb128.simps sleb128.simps)
  from get_fde_at_pc_finds [OF this, where rng = "(0, 0)" and pc = "0x8004" and c = c and junk = 0]
  have "search_result (0, 0) (find_entry (fs_section ?st) 0 0x8004 c [Cie ?c, Fde ?f])
      (get_fde_at_pc ?m 0x500 0 0x8004 (0, 0) ?st c)" .
  moreover have "find_entry (fs_section ?st) 0 0x8004 c [Cie ?c, Fde ?f] =
      Some (cie_read (fs_section ?st) 0 ?c c, fde_read (fs_section ?st) 22 ?f)"
    by (simp add: cie_body_def uleb128.simps sleb128.simps)
  ultimately show "map_option (\<lambda>(ret, rng, st, c, f). (ret, rng, cie_caf c, cie_daf c, cie_initinst c, fde_inst f, fde_instlen f))
      (get_fde_at_pc ?m 0x500 0 0x8004 (0, 0) ?st c) = Some (DW_DLV_OK, (0x8000, 0x801F), 1, - 8, 0x1011, 0x1027, 3)"
    by (auto simp: search_result_def cie_read_def fde_read_def uleb128.simps sleb128.simps split: option.splits)
qed

end
