(* ===== verification/Paging.thy ===== *)
theory Paging
  imports MemOps Mmu
begin

text \<open>
  The page tables of \<^verbatim>\<open>kern/bootstrap.S\<close>, which the kernel runs on, and the control registers that turn them on.
  The registers of the 32-bit code are arguments; \<open>pml4\<close> is the address of the label \<^verbatim>\<open>pml4virt\<close>. \<open>translate\<close> is
  the walk of the processor through tables in memory, as the architecture documents it.
\<close>

section \<open>The tables\<close>

text \<open>\<^verbatim>\<open>movl %x,(%a)\<close>.\<close>

definition store32 :: "mem \<Rightarrow> u32 \<Rightarrow> u32 \<Rightarrow> mem" where
  "store32 m a x = store m (ucast a) (le32 x)"

definition pdpt1 :: "u32 \<Rightarrow> u32" where "pdpt1 pml4 = pml4 + 0x1000"
definition pdpt2 :: "u32 \<Rightarrow> u32" where "pdpt2 pml4 = pml4 + 2 * 0x1000"
definition pde1 :: "u32 \<Rightarrow> u32" where "pde1 pml4 = pml4 + 3 * 0x1000"
definition pde2 :: "u32 \<Rightarrow> u32" where "pde2 pml4 = pml4 + 4 * 0x1000"

definition clear_tables :: "u32 \<Rightarrow> mem \<Rightarrow> mem" where
  "clear_tables pml4 m = rep_stosl m (ucast pml4) 0 (4096 div 4 * 5)"

definition upper_tables :: "u32 \<Rightarrow> mem \<Rightarrow> mem" where
  "upper_tables pml4 m =
     (let m = store32 m pml4 (pdpt1 pml4 OR ucast PTE_P OR ucast PTE_W);
          m = store32 m (pml4 + 8) (pdpt2 pml4 OR ucast PTE_P OR ucast PTE_W);
          m = store32 m (pdpt1 pml4) (pde1 pml4 OR ucast PTE_P OR ucast PTE_W)
      in store32 m (pdpt2 pml4) (pde2 pml4 OR ucast PTE_P OR ucast PTE_W))"

text \<open>The loop at the label \<^verbatim>\<open>1\<close>: two page directories are filled side by side; the test is at the end.\<close>

function map_loop :: "mem \<Rightarrow> u32 \<Rightarrow> u32 \<Rightarrow> u32 \<Rightarrow> u32 \<Rightarrow> mem" where
  "map_loop m edi ebx eax ecx =
     (let m = store32 m edi eax;
          m = store32 m ebx eax;
          ecx = ecx - 1
      in if ecx = 0 then m else map_loop m (edi + 8) (ebx + 8) (eax + 0x200000) ecx)"
  by pat_completeness auto
termination
  by (relation "measure (\<lambda>(m, edi, ebx, eax, ecx). unat (ecx - 1))") (auto intro: unat_pred2_less)

lemmas map_loop_simps = map_loop.simps

declare map_loop.simps [simp del]

definition boot_tables :: "u32 \<Rightarrow> mem \<Rightarrow> mem" where
  "boot_tables pml4 m =
     (let m = clear_tables pml4 m;
          m = upper_tables pml4 m
      in map_loop m (pde1 pml4) (pde2 pml4 + 256) 0x183 128)"

section \<open>Control registers\<close>

definition CR0_PE :: u32 where "CR0_PE = 0x00000001"
definition CR0_MP :: u32 where "CR0_MP = 0x00000002"
definition CR0_WP :: u32 where "CR0_WP = 0x00010000"
definition CR0_AM :: u32 where "CR0_AM = 0x00040000"
definition CR0_PG :: u32 where "CR0_PG = 0x80000000"
definition CR4_PAE :: u32 where "CR4_PAE = 0x00000020"
definition EFER_LME :: nat where "EFER_LME = 8"

lemmas cr_defs = CR0_PE_def CR0_MP_def CR0_WP_def CR0_AM_def CR0_PG_def CR4_PAE_def EFER_LME_def

record ctl =
  cr0 :: u32
  cr3 :: u32
  cr4 :: u32
  efer :: u32

definition enable_pae :: "ctl \<Rightarrow> ctl" where
  "enable_pae c = c\<lparr>cr4 := CR4_PAE\<rparr>"

definition enable_paging :: "u32 \<Rightarrow> ctl \<Rightarrow> ctl" where
  "enable_paging pml4 c =
     (let c = c\<lparr>cr3 := pml4\<rparr>;
          c = c\<lparr>efer := set_bit EFER_LME (efer c)\<rparr>
      in c\<lparr>cr0 := cr0 c OR CR0_PE OR CR0_PG OR CR0_AM OR CR0_WP OR CR0_MP\<rparr>)"

definition boot_paging :: "u32 \<Rightarrow> ctl \<Rightarrow> mem \<Rightarrow> ctl \<times> mem" where
  "boot_paging pml4 c m = (enable_paging pml4 (enable_pae c), boot_tables pml4 m)"

section \<open>The walk of the processor\<close>

text \<open>
  An entry in use has bit 0 set; bit 1 allows writes, bit 7 of an entry of the third level makes it a page of
  2 megabytes (of the second level one of 1 gigabyte), and bits 12 to 51 are an address. The result is the
  physical address and whether writes are allowed; \<open>None\<close> is a page fault.
\<close>

definition entry_base :: "u64 \<Rightarrow> u64" where
  "entry_base e = e AND 0x000FFFFFFFFFF000"

definition walk :: "mem \<Rightarrow> u64 \<Rightarrow> u64 \<Rightarrow> (u64 \<times> bool) option" where
  "walk m root la =
     (let e4 = load_word m (root + 8 * PML4 la) in
      if \<not> bit e4 0 then None else
      let e3 = load_word m (entry_base e4 + 8 * PDPE la) in
      if \<not> bit e3 0 then None else
      if bit e3 7 then
        Some ((entry_base e3 AND NOT 0x3FFFFFFF) OR (la AND 0x3FFFFFFF), bit e4 1 \<and> bit e3 1) else
      let e2 = load_word m (entry_base e3 + 8 * PDX la) in
      if \<not> bit e2 0 then None else
      if bit e2 7 then
        Some ((entry_base e2 AND NOT 0x1FFFFF) OR (la AND 0x1FFFFF), bit e4 1 \<and> bit e3 1 \<and> bit e2 1) else
      let e1 = load_word m (entry_base e2 + 8 * PTX la) in
      if \<not> bit e1 0 then None
      else Some (entry_base e1 OR PGOFF la, bit e4 1 \<and> bit e3 1 \<and> bit e2 1 \<and> bit e1 1))"

text \<open>With four levels, a linear address has 48 bits and its upper bits repeat bit 47.\<close>

definition translate :: "ctl \<Rightarrow> mem \<Rightarrow> u64 \<Rightarrow> (u64 \<times> bool) option" where
  "translate c m la =
     (if cr0 c AND CR0_PG = 0 then Some (la, True)
      else if \<not> (bit (efer c) EFER_LME \<and> cr4 c AND CR4_PAE \<noteq> 0 \<and> cr0 c AND CR0_PE \<noteq> 0) then None
      else if signed_take_bit 47 la \<noteq> la then None
      else walk m (entry_base (ucast (cr3 c))) la)"

section \<open>Words of 32 bits\<close>

definition dword :: "mem \<Rightarrow> addr \<Rightarrow> u32" where
  "dword m a = foldr (\<lambda>b acc. ucast b OR push_bit 8 acc) (bytes_at m a 4) 0"

text \<open>The bits of a number that is read from bytes.\<close>

lemma bit_bytes:
  "bit (foldr (\<lambda>b acc. ucast b OR push_bit 8 acc) bs (0 :: 'a::len word)) n \<longleftrightarrow>
     n < LENGTH('a) \<and> n < 8 * length bs \<and> bit (bs ! (n div 8)) (n mod 8)" for bs :: "u8 list"
proof (induction bs arbitrary: n)
  case (Cons b bs)
  show ?case
  proof (cases "n < 8")
    case True
    then show ?thesis by (auto simp: bit_simps)
  next
    case False
    then have "n div 8 = Suc ((n - 8) div 8)" "(n - 8) mod 8 = n mod 8" by (simp_all add: le_div_geq le_mod_geq)
    moreover have "\<not> bit b n" using False bit_imp_le_length [of b n] by auto
    ultimately show ?thesis using False Cons.IH [of "n - 8"] by (auto simp: bit_simps)
  qed
qed simp

lemma dword_le32: "foldr (\<lambda>b acc. ucast b OR push_bit 8 acc) (le32 x) 0 = x" for x :: u32
proof (rule bit_word_eqI)
  fix n assume "n < LENGTH(32)"
  then have n: "n < 32" by simp
  then have "n div 8 = 0 \<or> n div 8 = 1 \<or> n div 8 = 2 \<or> n div 8 = 3" by auto
  moreover have "n = 8 * (n div 8) + n mod 8" by simp
  ultimately have "bit (le32 x ! (n div 8)) (n mod 8) = bit x n"
    by (elim disjE) (auto simp: le32_def bit_simps div_eq_0_iff)
  then show "bit (foldr (\<lambda>b acc. ucast b OR push_bit 8 acc) (le32 x) (0 :: u32)) n = bit x n"
    using n by (simp add: bit_bytes)
qed

lemma dword_same: "dword (store m a (le32 x)) a = x"
  using bytes_at_store [of "le32 x" m a] by (simp add: dword_def dword_le32 del: bytes_at.simps)

lemma dword_other: "4 \<le> unat (a - b) \<Longrightarrow> 4 \<le> unat (b - a) \<Longrightarrow> dword (store m a (le32 x)) b = dword m b"
  by (simp add: dword_def bytes_at_apart)

lemma load_word_dwords: "load_word m a = ucast (dword m a) OR push_bit 32 (ucast (dword m (a + 4)))"
proof (rule bit_word_eqI)
  fix n assume "n < LENGTH(64)"
  then have n: "n < 64" by simp
  have byte: "bytes_at m a 8 ! k = m (a + of_nat k)" if "k < 8" for k using that by (rule bytes_at_nth)
  have low: "bytes_at m b 4 ! k = m (b + of_nat k)" if "k < 4" for k b using that by (rule bytes_at_nth)
  show "bit (load_word m a) n = bit (ucast (dword m a) OR push_bit 32 (ucast (dword m (a + 4)) :: u64)) n"
  proof (cases "n < 32")
    case True
    then have "n div 8 < 4" by simp
    then show ?thesis using True byte [of "n div 8"] low [of "n div 8" a]
      by (simp add: load_word_def dword_def bit_bytes bit_simps)
  next
    case False
    then obtain k where k: "n = 32 + k" by (metis linorder_not_less nat_le_iff_add)
    then have "k div 8 < 4" and "k < 32" using n by simp_all
    have "(32 + k) div 8 = 4 + k div 8" "(32 + k) mod 8 = k mod 8" by presburger+
    then show ?thesis using \<open>k div 8 < 4\<close> \<open>k < 32\<close> byte [of "4 + k div 8"] low [of "k div 8" "a + 4"]
      by (simp add: k load_word_def dword_def bit_bytes bit_simps add.assoc)
  qed
qed

section \<open>The five pages as an array of words\<close>

definition tables_fit :: "u32 \<Rightarrow> bool" where
  "tables_fit p \<longleftrightarrow> unat p mod 4096 = 0 \<and> unat p + 5 * 4096 \<le> 2 ^ 32"

definition words :: "u32 \<Rightarrow> mem \<Rightarrow> nat \<Rightarrow> u32" where
  "words p m k = dword m (ucast p + of_nat (4 * k))"

lemma ucast_in_tables:
  assumes "tables_fit p" and "j < 5120"
  shows "ucast (p + of_nat (4 * j)) = (ucast p :: u64) + of_nat (4 * j)"
proof -
  have p: "unat p + 4 * j < 2 ^ 32" using assms by (simp add: tables_fit_def)
  have "unat (p + of_nat (4 * j)) = unat p + 4 * j" using p by (simp add: unat_word_ariths unat_of_nat)
  moreover have "unat ((ucast p :: u64) + of_nat (4 * j)) = unat p + 4 * j"
    using p by (subst unat_plus_nat) (simp_all add: unat_ucast_wider)
  moreover have "unat (ucast (p + of_nat (4 * j)) :: u64) = unat (p + of_nat (4 * j))"
    by (rule unat_ucast_wider) simp
  ultimately show ?thesis by (simp only: word_unat_eq_iff)
qed

lemma words_apart:
  fixes b :: u64
  assumes "j < 5120" and "k < 5120" and "j \<noteq> k"
  shows "4 \<le> unat ((b + of_nat (4 * j)) - (b + of_nat (4 * k)))"
proof -
  have "unat (of_nat (4 * j) :: u64) = 4 * j" "unat (of_nat (4 * k) :: u64) = 4 * k"
    using assms by (auto intro!: unat_of_nat64 simp del: of_nat_mult)
  then have "4 \<le> unat (of_nat (4 * j) - of_nat (4 * k) :: u64)"
    using assms by (auto simp: unat_sub_if')
  moreover have "(b + of_nat (4 * j)) - (b + of_nat (4 * k)) = of_nat (4 * j) - of_nat (4 * k)" by simp
  ultimately show ?thesis by (simp only:)
qed

lemma words_store32:
  assumes "tables_fit p" and "j < 5120" and "k < 5120"
  shows "words p (store32 m (p + of_nat (4 * j)) x) k = (if k = j then x else words p m k)"
  unfolding words_def store32_def ucast_in_tables [OF assms(1,2)]
  using dword_other words_apart [OF assms(2,3)] words_apart [OF assms(3,2)] by (simp add: dword_same del: of_nat_mult)

lemma store32_outside:
  assumes "tables_fit p" and "j < 5120" and "a \<notin> span (ucast p) (5 * 4096)"
  shows "store32 m (p + of_nat (4 * j)) x a = m a"
proof -
  have "span (ucast p + of_nat (4 * j)) 4 \<subseteq> span (ucast p) (4 * j + 4)" unfolding span_append by simp
  also have "\<dots> \<subseteq> span (ucast p) (5 * 4096)" using assms(2) by (intro span_mono) simp
  finally have "a \<notin> span (ucast p + of_nat (4 * j)) (length (le32 x))" using assms(3) by auto
  then show ?thesis unfolding store32_def ucast_in_tables [OF assms(1,2)] by (rule store_outside)
qed

lemma clear_tables_store: "clear_tables p m = store m (ucast p) (replicate (5 * 4096) 0)"
proof -
  have "le32 0 = replicate 4 0" by (simp add: le32_def replicate_numeral)
  moreover have "unat (4096 div 4 * 5 :: u64) = 5120" by simp
  ultimately show ?thesis
    unfolding clear_tables_def rep_stosl_store by (simp only: concat_replicate_replicate) simp
qed

lemma words_clear: "k < 5120 \<Longrightarrow> words p (clear_tables p m) k = 0"
proof -
  assume k: "k < 5120"
  have "clear_tables p m (ucast p + of_nat (4 * k) + of_nat i) = 0" if "i < 4" for i
  proof -
    have "unat (of_nat (4 * k + i) :: u64) = 4 * k + i" using k that by (intro unat_of_nat64) simp
    then show ?thesis
      using k that by (simp add: clear_tables_store store_lookup span_iff add.assoc del: replicate_numeral)
  qed
  then have "bytes_at (clear_tables p m) (ucast p + of_nat (4 * k)) 4 = replicate 4 0"
    by (intro nth_equalityI) (simp_all add: bytes_at_nth del: replicate_numeral)
  then show ?thesis unfolding words_def dword_def by (simp only:) (simp add: replicate_numeral)
qed

text \<open>One directory filled by the loop: \<open>n\<close> words two apart, for pages of 2 megabytes.\<close>

definition filled :: "nat \<Rightarrow> nat \<Rightarrow> u32 \<Rightarrow> (nat \<Rightarrow> u32) \<Rightarrow> nat \<Rightarrow> u32" where
  "filled j n x w k =
     (if j \<le> k \<and> k < j + 2 * n \<and> even (k - j) then x + of_nat ((k - j) div 2) * 0x200000 else w k)"

lemma filled_Suc: "filled (j + 2) n (x + 0x200000) (w(j := x)) k = filled j (Suc n) x w k"
proof (cases "k < j + 2")
  case True
  then have "k < j \<or> k = j \<or> k = Suc j" by auto
  then show ?thesis by (auto simp: filled_def)
next
  case False
  then obtain i where k: "k = j + 2 + i" by (metis linorder_not_less nat_le_iff_add)
  then show ?thesis by (auto simp: filled_def algebra_simps)
qed

lemma filled_cong: "w k = w' k \<Longrightarrow> filled j n x w k = filled j n x w' k"
  by (simp only: filled_def)

lemma filled_1: "filled j (Suc 0) x w k = (w(j := x)) k"
proof -
  have "j \<le> k \<and> k < j + 2 * Suc 0 \<and> even (k - j) \<longleftrightarrow> k = j" by (auto simp: less_Suc_eq)
  then show ?thesis by (simp add: filled_def)
qed

text \<open>One turn of the loop.\<close>

lemma two_stores:
  assumes "tables_fit p" and "k < 5120" and "j < 5120" and "l < 5120"
  shows "words p (store32 (store32 m (p + of_nat (4 * j)) x) (p + of_nat (4 * l)) x) k = ((words p m)(j := x, l := x)) k"
  unfolding words_store32 [OF assms(1,4,2)] words_store32 [OF assms(1,3,2)] by simp

lemma map_loop_words:
  assumes "tables_fit p" and "k < 5120" and "j + 2 * Suc n \<le> l" and "l + 2 * Suc n \<le> 5120"
  shows "words p (map_loop m (p + of_nat (4 * j)) (p + of_nat (4 * l)) x (of_nat (Suc n))) k =
    filled j (Suc n) x (filled l (Suc n) x (words p m)) k"
  using assms(3,4)
proof (induction n arbitrary: m j l x)
  case 0
  then have "j < 5120" "l < 5120" "j \<noteq> l" by simp_all
  with two_stores [OF assms(1,2) this(1,2)] show ?case
    by (simp add: map_loop_simps filled_1 fun_upd_twist del: of_nat_mult)
next
  case (Suc n)
  let ?m = "store32 (store32 m (p + of_nat (4 * j)) x) (p + of_nat (4 * l)) x"
  have "unat (of_nat (Suc n) :: u32) = Suc n" using Suc.prems by (intro unat_of_nat32) simp
  then have ecx: "(of_nat (Suc (Suc n)) :: u32) - 1 = of_nat (Suc n)" "(of_nat (Suc n) :: u32) \<noteq> 0"
    by (simp, metis nat.simps(3) unat_0)
  have m': "words p ?m k = (((words p m)(j := x))(l := x)) k"
    using Suc.prems by (intro two_stores [OF assms(1,2)]) simp_all
  have "words p (map_loop m (p + of_nat (4 * j)) (p + of_nat (4 * l)) x (of_nat (Suc (Suc n)))) k
      = words p (map_loop ?m (p + of_nat (4 * (j + 2))) (p + of_nat (4 * (l + 2))) (x + 0x200000) (of_nat (Suc n))) k"
    by (subst map_loop_simps) (simp only: Let_def ecx if_False, simp add: algebra_simps)
  also have "\<dots> = filled (j + 2) (Suc n) (x + 0x200000) (filled (l + 2) (Suc n) (x + 0x200000) (words p ?m)) k"
    using Suc.prems by (intro Suc.IH) simp_all
  also have "\<dots> = filled (j + 2) (Suc n) (x + 0x200000) ((filled l (Suc (Suc n)) x (words p m))(j := x)) k"
  proof (rule filled_cong)
    have "filled (l + 2) (Suc n) (x + 0x200000) (words p ?m) k
        = filled (l + 2) (Suc n) (x + 0x200000) (((words p m)(j := x))(l := x)) k" using m' by (rule filled_cong)
    also have "\<dots> = filled l (Suc (Suc n)) x ((words p m)(j := x)) k" by (rule filled_Suc)
    also have "\<dots> = ((filled l (Suc (Suc n)) x (words p m))(j := x)) k"
      using Suc.prems by (auto simp: filled_def)
    finally show "filled (l + 2) (Suc n) (x + 0x200000) (words p ?m) k = ((filled l (Suc (Suc n)) x (words p m))(j := x)) k" .
  qed
  finally show ?case unfolding filled_Suc .
qed

lemma map_loop_outside:
  assumes "tables_fit p" and "a \<notin> span (ucast p) (5 * 4096)" and "j + 2 * Suc n \<le> 5120" and "l + 2 * Suc n \<le> 5120"
  shows "map_loop m (p + of_nat (4 * j)) (p + of_nat (4 * l)) x (of_nat (Suc n)) a = m a"
  using assms(3,4)
proof (induction n arbitrary: m j l x)
  case 0
  then show ?case using store32_outside [OF assms(1) _ assms(2)] by (simp add: map_loop_simps)
next
  case (Suc n)
  have "unat (of_nat (Suc n) :: u32) = Suc n" using Suc.prems by (intro unat_of_nat32) simp
  then have ecx: "(of_nat (Suc (Suc n)) :: u32) - 1 = of_nat (Suc n)" "(of_nat (Suc n) :: u32) \<noteq> 0"
    by (simp, metis nat.simps(3) unat_0)
  have "map_loop m (p + of_nat (4 * j)) (p + of_nat (4 * l)) x (of_nat (Suc (Suc n))) a
      = map_loop (store32 (store32 m (p + of_nat (4 * j)) x) (p + of_nat (4 * l)) x)
          (p + of_nat (4 * (j + 2))) (p + of_nat (4 * (l + 2))) (x + 0x200000) (of_nat (Suc n)) a"
    by (subst map_loop_simps) (simp only: Let_def ecx if_False, simp add: algebra_simps)
  also have "\<dots> = store32 (store32 m (p + of_nat (4 * j)) x) (p + of_nat (4 * l)) x a"
    using Suc.prems by (intro Suc.IH) simp_all
  finally show ?case using Suc.prems store32_outside [OF assms(1) _ assms(2)] by simp
qed

section \<open>The entries\<close>

lemma tables_at:
  "pdpt1 p = p + of_nat (4 * 1024)" "pdpt2 p = p + of_nat (4 * 2048)" "pde1 p = p + of_nat (4 * 3072)"
  "pde2 p = p + of_nat (4 * 4096)" "pde2 p + 256 = p + of_nat (4 * 4160)"
  by (simp_all add: pdpt1_def pdpt2_def pde1_def pde2_def add.assoc)

definition pointer :: "u32 \<Rightarrow> u32" where
  "pointer x = x OR ucast PTE_P OR ucast PTE_W"

definition upper_words :: "u32 \<Rightarrow> nat \<Rightarrow> u32" where
  "upper_words p = (\<lambda>_. 0)(0 := pointer (pdpt1 p), 2 := pointer (pdpt2 p), 1024 := pointer (pde1 p), 2048 := pointer (pde2 p))"

lemma upper_tables_stores:
  "upper_tables p m =
     store32 (store32 (store32 (store32 m (p + of_nat (4 * 0)) (pointer (pdpt1 p))) (p + of_nat (4 * 2)) (pointer (pdpt2 p)))
       (p + of_nat (4 * 1024)) (pointer (pde1 p))) (p + of_nat (4 * 2048)) (pointer (pde2 p))"
  by (simp add: upper_tables_def pointer_def tables_at)

lemma upper_tables_words:
  assumes "tables_fit p" and "k < 5120"
  shows "words p (upper_tables p (clear_tables p m)) k = upper_words p k"
proof -
  note st = words_store32 [OF assms(1) _ assms(2)]
  have "words p (upper_tables p m) k = ((words p m)(0 := pointer (pdpt1 p), 2 := pointer (pdpt2 p),
      1024 := pointer (pde1 p), 2048 := pointer (pde2 p))) k" for m
    unfolding upper_tables_stores
    by (subst st, simp, subst st, simp, subst st, simp, subst st, simp) simp
  then show ?thesis using words_clear [OF assms(2)] by (simp add: upper_words_def)
qed

lemma boot_tables_loop:
  "boot_tables p m =
     map_loop (upper_tables p (clear_tables p m)) (p + of_nat (4 * 3072)) (p + of_nat (4 * 4160)) 0x183 (of_nat (Suc 127))"
proof -
  have "(of_nat (Suc 127) :: u32) = 128" by simp
  then show ?thesis by (simp only: boot_tables_def Let_def tables_at(3,5))
qed

lemma boot_tables_words:
  assumes "tables_fit p" and "k < 5120"
  shows "words p (boot_tables p m) k = filled 3072 128 0x183 (filled 4160 128 0x183 (upper_words p)) k"
proof -
  have n: "Suc 127 = 128" by simp
  have "words p (boot_tables p m) k =
      filled 3072 128 0x183 (filled 4160 128 0x183 (words p (upper_tables p (clear_tables p m)))) k"
    unfolding boot_tables_loop using map_loop_words [OF assms, of 3072 127 4160] unfolding n by simp
  also have "\<dots> = filled 3072 128 0x183 (filled 4160 128 0x183 (upper_words p)) k"
    by (intro filled_cong upper_tables_words assms)
  finally show ?thesis .
qed

lemma boot_tables_outside:
  assumes "tables_fit p" and "a \<notin> span (ucast p) (5 * 4096)"
  shows "boot_tables p m a = m a"
proof -
  note at = store32_outside [OF assms(1) _ assms(2)]
  have "boot_tables p m a = upper_tables p (clear_tables p m) a"
    unfolding boot_tables_loop by (rule map_loop_outside [OF assms]) simp_all
  also have "\<dots> = clear_tables p m a"
    unfolding upper_tables_stores by (subst at, simp, subst at, simp, subst at, simp, subst at, simp) simp
  also have "\<dots> = m a" using assms(2) unfolding clear_tables_store by (intro store_outside) simp
  finally show ?thesis .
qed

lemma filled_odd: "even j \<Longrightarrow> odd k \<Longrightarrow> filled j n x w k = w k"
  by (auto simp: filled_def)

lemma upper_words_odd: "odd k \<Longrightarrow> upper_words p k = 0"
  by (auto simp: upper_words_def)

text \<open>The entry \<open>i\<close> of the page \<open>t\<close>.\<close>

lemma boot_entry:
  assumes "tables_fit p" and "t < 5" and "i < 512"
  shows "load_word (boot_tables p m) (ucast p + of_nat (4096 * t + 8 * i))
    = ucast (filled 3072 128 0x183 (filled 4160 128 0x183 (upper_words p)) (1024 * t + 2 * i))"
proof -
  let ?k = "1024 * t + 2 * i"
  have k: "?k < 5120" "Suc ?k < 5120" using assms(2,3) by simp_all
  have low: "dword (boot_tables p m) (ucast p + of_nat (4096 * t + 8 * i)) = words p (boot_tables p m) ?k"
    "dword (boot_tables p m) (ucast p + of_nat (4096 * t + 8 * i) + 4) = words p (boot_tables p m) (Suc ?k)"
    by (simp_all add: words_def algebra_simps)
  have "words p (boot_tables p m) (Suc ?k) = 0"
    unfolding boot_tables_words [OF assms(1) k(2)] by (simp add: filled_odd upper_words_odd)
  then show ?thesis unfolding load_word_dwords low boot_tables_words [OF assms(1) k(1)] by simp
qed

text \<open>A pointer to a table: in use, writable, no page, and the address of the table.\<close>

lemma aligned_bits: "unat x mod 4096 = 0 \<Longrightarrow> n < 12 \<Longrightarrow> \<not> bit x n" for x :: u32
proof -
  assume al: "unat x mod 4096 = 0" "n < 12"
  have "unat (take_bit 12 x) = take_bit 12 (unat x)" by (rule unsigned_take_bit_eq)
  also have "\<dots> = unat x mod 4096" by (simp add: take_bit_eq_mod)
  finally have "unat (take_bit 12 x) = 0" using al(1) by (simp only:)
  then have "take_bit 12 x = 0" by (simp only: unat_eq_0)
  then have "\<not> bit (take_bit 12 x) n" by simp
  then show ?thesis using al(2) by (simp add: bit_take_bit_iff)
qed

lemma bit_pointer: "bit (pointer x) n \<longleftrightarrow> bit x n \<or> n < 2"
proof -
  have eq: "pointer x = x OR mask 2"
    by (simp add: pointer_def PTE_P_def PTE_W_def mask_eq_exp_minus_1 or.assoc)
  show ?thesis unfolding eq by (auto simp: bit_simps)
qed

lemma pointer_bits:
  assumes "unat x mod 4096 = 0"
  shows "bit (ucast (pointer x) :: u64) 0" "bit (ucast (pointer x) :: u64) 1" "\<not> bit (ucast (pointer x) :: u64) 7"
  using aligned_bits [OF assms, of 7] by (simp_all add: bit_ucast_iff bit_pointer)

lemma entry_mask: "bit (0x000FFFFFFFFFF000 :: u64) n \<longleftrightarrow> 12 \<le> n \<and> n < 52"
proof -
  have eq: "(0x000FFFFFFFFFF000 :: u64) = push_bit 12 (mask 40)" by (simp add: push_bit_eq_mult mask_eq_exp_minus_1)
  show ?thesis unfolding eq by (auto simp: bit_simps)
qed

lemma bit_entry_base: "bit (entry_base e) n \<longleftrightarrow> bit e n \<and> 12 \<le> n \<and> n < 52"
  unfolding entry_base_def bit_and_iff entry_mask ..

lemma base_aligned:
  assumes "unat x mod 4096 = 0"
  shows "entry_base (ucast x) = ucast x" "entry_base (ucast (pointer x)) = ucast x"
proof -
  have "bit x n \<Longrightarrow> 12 \<le> n \<and> n < 52" for n
    using aligned_bits [OF assms, of n] bit_imp_le_length [of x n] by (auto simp: linorder_not_less [symmetric])
  then show "entry_base (ucast x) = ucast x" "entry_base (ucast (pointer x)) = ucast x"
    by (auto intro!: bit_word_eqI simp: bit_entry_base bit_ucast_iff bit_pointer)
qed

text \<open>A page of 2 megabytes.\<close>

definition page :: "nat \<Rightarrow> u64" where
  "page q = ucast (0x183 + of_nat q * 0x200000 :: u32)"

lemma bit_page:
  assumes "q < 128"
  shows "bit (page q) n \<longleftrightarrow>
    n < 2 \<or> n = 7 \<or> n = 8 \<or> 21 \<le> n \<and> bit q (n - 21)"
proof -
  have low: "(0x183 :: u32) = mask 2 OR push_bit 7 (mask 2)" by (simp add: mask_eq_exp_minus_1 push_bit_eq_mult)
  have high: "of_nat q * 0x200000 = push_bit 21 (of_nat q :: u32)" by (simp add: push_bit_eq_mult)
  have sum: "(0x183 :: u32) + of_nat q * 0x200000 = (mask 2 OR push_bit 7 (mask 2)) OR push_bit 21 (of_nat q)"
    unfolding low high by (rule disjunctive_add_eq_or) (auto intro!: bit_word_eqI simp: bit_simps)
  have q: "bit q k \<Longrightarrow> k < 7" for k
    using assms take_bit_nat_eq_self [of q 7] bit_take_bit_iff [of 7 q k] by simp
  show ?thesis
    unfolding page_def sum using q [of "n - 21"] by (auto simp: bit_simps)
qed

section \<open>The walk through the tables\<close>

lemma large_page_address:
  assumes "q < 128"
  shows "(entry_base (page q) AND NOT 0x1FFFFF) OR (la AND 0x1FFFFF) = push_bit 21 (of_nat q) OR take_bit 21 la"
proof (rule bit_word_eqI)
  fix n assume "n < LENGTH(64)"
  have m: "(0x1FFFFF :: u64) = mask 21" by (simp add: mask_eq_exp_minus_1)
  have q: "bit q k \<Longrightarrow> k < 7" for k
    using assms take_bit_nat_eq_self [of q 7] bit_take_bit_iff [of 7 q k] by simp
  show "bit ((entry_base (page q) AND NOT 0x1FFFFF) OR (la AND 0x1FFFFF)) n = bit (push_bit 21 (of_nat q) OR take_bit 21 la) n"
    unfolding m using q [of "n - 21"] by (auto simp: bit_entry_base bit_page [OF assms] bit_simps)
qed

lemma page_flags: "q < 128 \<Longrightarrow> bit (page q) 0 \<and> bit (page q) 1 \<and> bit (page q) 7"
  by (simp add: bit_page)

text \<open>All entries, page by page.\<close>

lemma entries:
  assumes "tables_fit p" and "i < 512"
  shows "load_word (boot_tables p m) (ucast p + 8 * of_nat i) =
      ucast (if i = 0 then pointer (pdpt1 p) else if i = 1 then pointer (pdpt2 p) else 0)"
    and "load_word (boot_tables p m) (ucast (pdpt1 p) + 8 * of_nat i) = ucast (if i = 0 then pointer (pde1 p) else 0)"
    and "load_word (boot_tables p m) (ucast (pdpt2 p) + 8 * of_nat i) = ucast (if i = 0 then pointer (pde2 p) else 0)"
    and "load_word (boot_tables p m) (ucast (pde1 p) + 8 * of_nat i) = (if i < 128 then page i else 0)"
    and "load_word (boot_tables p m) (ucast (pde2 p) + 8 * of_nat i) = (if 32 \<le> i \<and> i < 160 then page (i - 32) else 0)"
proof -
  have at: "load_word (boot_tables p m) (ucast p + of_nat (4 * (1024 * t)) + 8 * of_nat i) =
      ucast (filled 3072 128 0x183 (filled 4160 128 0x183 (upper_words p)) (1024 * t + 2 * i))" if "t < 5" for t
    using boot_entry [OF assms(1) that assms(2), of m] by (simp add: algebra_simps)
  note ad = ucast_in_tables [OF assms(1)]
  show "load_word (boot_tables p m) (ucast p + 8 * of_nat i) =
      ucast (if i = 0 then pointer (pdpt1 p) else if i = 1 then pointer (pdpt2 p) else 0)"
    using at [of 0] assms(2) by (simp add: filled_def upper_words_def)
  show "load_word (boot_tables p m) (ucast (pdpt1 p) + 8 * of_nat i) = ucast (if i = 0 then pointer (pde1 p) else 0)"
    using at [of 1] ad [of 1024] assms(2) by (simp add: tables_at(1) filled_def upper_words_def)
  show "load_word (boot_tables p m) (ucast (pdpt2 p) + 8 * of_nat i) = ucast (if i = 0 then pointer (pde2 p) else 0)"
    using at [of 2] ad [of 2048] assms(2) by (simp add: tables_at(2) filled_def upper_words_def)
  show "load_word (boot_tables p m) (ucast (pde1 p) + 8 * of_nat i) = (if i < 128 then page i else 0)"
    using at [of 3] ad [of 3072] assms(2) by (simp add: tables_at(3) filled_def upper_words_def page_def)
  have "1024 * 4 + 2 * i - 4160 = 2 * (i - 32)" by simp
  then show "load_word (boot_tables p m) (ucast (pde2 p) + 8 * of_nat i) = (if 32 \<le> i \<and> i < 160 then page (i - 32) else 0)"
    using at [of 4] ad [of 4096] assms(2) by (auto simp: tables_at(4) filled_def upper_words_def page_def)
qed

lemma table_addresses:
  assumes "tables_fit p"
  shows "entry_base (ucast p) = ucast p" "entry_base (ucast (pointer (pdpt1 p))) = ucast (pdpt1 p)"
    "entry_base (ucast (pointer (pdpt2 p))) = ucast (pdpt2 p)" "entry_base (ucast (pointer (pde1 p))) = ucast (pde1 p)"
    "entry_base (ucast (pointer (pde2 p))) = ucast (pde2 p)"
    and table_flags: "x \<in> {pdpt1 p, pdpt2 p, pde1 p, pde2 p} \<Longrightarrow>
      bit (ucast (pointer x) :: u64) 0 \<and> bit (ucast (pointer x) :: u64) 1 \<and> \<not> bit (ucast (pointer x) :: u64) 7"
proof -
  have p: "unat p mod 4096 = 0" "unat p + 5 * 4096 \<le> 2 ^ 32" using assms by (simp_all add: tables_fit_def)
  have "unat (p + of_nat (t * 4096)) mod 4096 = 0" if "t < 5" for t
  proof -
    have "unat (p + of_nat (t * 4096)) = unat p + t * 4096"
      using p(2) that by (simp add: unat_word_ariths unat_of_nat)
    then show ?thesis using p(1) by simp
  qed
  from this [of 1] this [of 2] this [of 3] this [of 4] have al: "unat (pdpt1 p) mod 4096 = 0" "unat (pdpt2 p) mod 4096 = 0"
      "unat (pde1 p) mod 4096 = 0" "unat (pde2 p) mod 4096 = 0"
    by (simp_all add: tables_at)
  show "entry_base (ucast p) = ucast p" by (rule base_aligned(1) [OF p(1)])
  show "entry_base (ucast (pointer (pdpt1 p))) = ucast (pdpt1 p)" "entry_base (ucast (pointer (pdpt2 p))) = ucast (pdpt2 p)"
    "entry_base (ucast (pointer (pde1 p))) = ucast (pde1 p)" "entry_base (ucast (pointer (pde2 p))) = ucast (pde2 p)"
    using al by (simp_all add: base_aligned(2))
  show "x \<in> {pdpt1 p, pdpt2 p, pde1 p, pde2 p} \<Longrightarrow>
      bit (ucast (pointer x) :: u64) 0 \<and> bit (ucast (pointer x) :: u64) 1 \<and> \<not> bit (ucast (pointer x) :: u64) 7"
    using al by (auto simp: pointer_bits pointer_bits [unfolded One_nat_def])
qed

lemma index_small: "PML4 la = of_nat (unat (PML4 la))" "unat (PML4 la) < 512" "PDPE la = of_nat (unat (PDPE la))"
  "unat (PDPE la) < 512" "PDX la = of_nat (unat (PDX la))" "unat (PDX la) < 512"
proof -
  have "x AND 0x1FF < 512" for x :: u64
    using word_and_le1 [of x "0x1FF"] by (simp add: word_le_nat_alt word_less_nat_alt)
  then show "PML4 la = of_nat (unat (PML4 la))" "unat (PML4 la) < 512" "PDPE la = of_nat (unat (PDPE la))"
      "unat (PDPE la) < 512" "PDX la = of_nat (unat (PDX la))" "unat (PDX la) < 512"
    by (simp_all add: index_defs PDX_def word_less_nat_alt)
qed

lemma walk_boot:
  assumes "tables_fit p"
  shows "walk (boot_tables p m) (ucast p) la =
    (if unat (PDPE la) \<noteq> 0 then None
     else if PML4 la = 0 \<and> unat (PDX la) < 128 then Some (push_bit 21 (of_nat (unat (PDX la))) OR take_bit 21 la, True)
     else if PML4 la = 1 \<and> 32 \<le> unat (PDX la) \<and> unat (PDX la) < 160
     then Some (push_bit 21 (of_nat (unat (PDX la) - 32)) OR take_bit 21 la, True)
     else None)"
proof -
  define i4 i3 i2 where "i4 = unat (PML4 la)" and "i3 = unat (PDPE la)" and "i2 = unat (PDX la)"
  have i: "i4 < 512" "i3 < 512" "i2 < 512" using index_small [of la] by (simp_all add: i4_def i3_def i2_def)
  have ix: "PML4 la = of_nat i4" "PDPE la = of_nat i3" "PDX la = of_nat i2"
    using index_small [of la] by (simp_all add: i4_def i3_def i2_def)
  have eq: "PML4 la = 0 \<longleftrightarrow> i4 = 0" "PML4 la = 1 \<longleftrightarrow> i4 = 1"
    by (simp_all add: i4_def word_unat_eq_iff)
  note e4 = entries(1) [OF assms i(1), of m] and e3 = entries(2,3) [OF assms i(2), of m]
    and e2 = entries(4,5) [OF assms i(3), of m] and base = table_addresses [OF assms]
  have flags: "bit (ucast (pointer x) :: u64) 0" "bit (ucast (pointer x) :: u64) (Suc 0)" "\<not> bit (ucast (pointer x) :: u64) 7"
    if "x = pdpt1 p \<or> x = pdpt2 p \<or> x = pde1 p \<or> x = pde2 p" for x
    using table_flags [OF assms, of x, unfolded One_nat_def] that by auto
  have pf: "bit (page q) 0" "bit (page q) (Suc 0)" "bit (page q) 7" if "q < 128" for q
    using page_flags [OF that] by simp_all
  let ?M = "boot_tables p m" and ?e = "\<lambda>t i. load_word (boot_tables p m) (ucast t + 8 * of_nat i)"
  have w: "walk ?M (ucast p) la = (if i4 = 0 \<or> i4 = 1 then
      if i3 \<noteq> 0 then None
      else let e2 = ?e (if i4 = 0 then pde1 p else pde2 p) i2 in
        if \<not> bit e2 0 then None
        else if bit e2 7 then Some ((entry_base e2 AND NOT 0x1FFFFF) OR (la AND 0x1FFFFF), bit e2 1)
        else if \<not> bit (load_word ?M (entry_base e2 + 8 * PTX la)) 0 then None
        else Some (entry_base (load_word ?M (entry_base e2 + 8 * PTX la)) OR PGOFF la,
          bit e2 1 \<and> bit (load_word ?M (entry_base e2 + 8 * PTX la)) 1)
      else None)"
  proof (cases "i4 = 0 \<or> i4 = 1")
    case True
    then have r: "bit (?e p i4) 0" "bit (?e p i4) 1" "entry_base (?e p i4) = ucast (if i4 = 0 then pdpt1 p else pdpt2 p)"
      unfolding e4 by (auto simp: flags base)
    have s: "?e (if i4 = 0 then pdpt1 p else pdpt2 p) i3 =
        ucast (if i3 = 0 then pointer (if i4 = 0 then pde1 p else pde2 p) else 0)"
      using True e3 by (cases "i4 = 0") simp_all
    show ?thesis
      unfolding walk_def Let_def ix r(3) s using True r(1,2) by (cases "i3 = 0") (auto simp: flags base)
  next
    case False
    then show ?thesis unfolding walk_def Let_def ix e4 by simp
  qed
  have last: "(let e2 = ?e (if i4 = 0 then pde1 p else pde2 p) i2 in
        if \<not> bit e2 0 then None
        else if bit e2 7 then Some ((entry_base e2 AND NOT 0x1FFFFF) OR (la AND 0x1FFFFF), bit e2 1) else N e2) =
      (if i4 = 0 \<and> i2 < 128 then Some (push_bit 21 (of_nat i2) OR take_bit 21 la, True)
       else if i4 \<noteq> 0 \<and> 32 \<le> i2 \<and> i2 < 160 then Some (push_bit 21 (of_nat (i2 - 32)) OR take_bit 21 la, True)
       else None)" for N
  proof (cases "i4 = 0")
    case True
    then have r: "?e (if i4 = 0 then pde1 p else pde2 p) i2 = (if i2 < 128 then page i2 else 0)" using e2(1) by simp
    show ?thesis unfolding r using True by (auto simp: pf large_page_address [simplified])
  next
    case False
    then have r: "?e (if i4 = 0 then pde1 p else pde2 p) i2 = (if 32 \<le> i2 \<and> i2 < 160 then page (i2 - 32) else 0)"
      using e2(2) by simp
    show ?thesis unfolding r using False by (auto simp: pf large_page_address [simplified])
  qed
  show ?thesis
    unfolding i3_def [symmetric] i2_def [symmetric] eq w last by auto
qed

section \<open>Regions of linear addresses\<close>

lemma unat_take_bit: "unat (take_bit k la) = unat la mod 2 ^ k" for la :: u64
proof -
  have "unat (take_bit k la) = take_bit k (unat la)" by (rule unsigned_take_bit_eq)
  also have "\<dots> = unat la mod 2 ^ k" by (rule take_bit_eq_mod)
  finally show ?thesis .
qed

lemma unat_index: "unat (drop_bit k la AND 0x1FF) = unat la div 2 ^ k mod 512" for la :: u64
proof -
  have "unat la < 2 ^ LENGTH(64)" by (rule unsigned_less)
  then have len: "take_bit LENGTH(64) (unat la) = unat la" by (rule take_bit_nat_eq_self)
  have "unat (drop_bit k la) = drop_bit k (take_bit LENGTH(64) (unat la))" by (rule unsigned_drop_bit_eq)
  then have "unat (drop_bit k la) = drop_bit k (unat la)" by (simp only: len)
  then have "unat (drop_bit k la) = unat la div 2 ^ k" by (simp only: drop_bit_eq_div)
  then show ?thesis by (simp only: low_mask unat_take_bit) simp
qed

lemma indexes:
  "unat (PML4 la) = unat la div 2 ^ 39 mod 512" "unat (PDPE la) = unat la div 2 ^ 30 mod 512"
  "unat (PDX la) = unat la div 2 ^ 21 mod 512"
  unfolding PML4_def PDPE_def PDX_def shift_defs by (rule unat_index)+

lemma page_number:
  assumes "unat la < 2 ^ 47"
  shows "unat la div 2 ^ 21 = (unat (PML4 la) * 512 + unat (PDPE la)) * 512 + unat (PDX la)" and "unat (PML4 la) < 256"
proof -
  let ?L = "unat la"
  have top: "?L div 2 ^ 39 < 256" using assms by simp
  have "?L div 2 ^ 30 div 512 = ?L div 2 ^ 39" "?L div 2 ^ 21 div 512 = ?L div 2 ^ 30"
    by (simp_all add: div_mult2_eq [symmetric])
  then have "?L div 2 ^ 30 = ?L div 2 ^ 39 * 512 + unat (PDPE la)" "?L div 2 ^ 21 = ?L div 2 ^ 30 * 512 + unat (PDX la)"
    unfolding indexes by (metis div_mult_mod_eq)+
  moreover have "unat (PML4 la) = ?L div 2 ^ 39" using top by (simp add: indexes)
  ultimately show "?L div 2 ^ 21 = (unat (PML4 la) * 512 + unat (PDPE la)) * 512 + unat (PDX la)"
    and "unat (PML4 la) < 256" using top by simp_all
qed

lemma page_sum: "push_bit 21 (of_nat q) OR take_bit 21 la = of_nat (q * 2 ^ 21 + unat la mod 2 ^ 21)" for la :: u64
proof -
  have "of_nat (unat (take_bit 21 la)) = take_bit 21 la" by simp
  then have "of_nat (unat la mod 2 ^ 21) = take_bit 21 la" by (simp only: unat_take_bit)
  moreover have "push_bit 21 (of_nat q) + take_bit 21 la = push_bit 21 (of_nat q) OR take_bit 21 la"
    by (rule disjunctive_add_eq_or) (auto intro!: bit_word_eqI simp: bit_simps)
  ultimately show ?thesis by (simp add: push_bit_eq_mult)
qed

text \<open>The upper bits repeat bit 47, which is clear in the lower half.\<close>

lemma low_half: "unat la < 2 ^ 47 \<longleftrightarrow> take_bit 47 la = la" for la :: u64
proof -
  have "unat la < 2 ^ 47 \<longleftrightarrow> unat (take_bit 47 la) = unat la"
    unfolding unat_take_bit by (metis mod_less mod_less_divisor zero_less_numeral zero_less_power)
  then show ?thesis by (simp only: word_unat_eq_iff)
qed

lemma canonical_low: "unat la < 2 ^ 47 \<Longrightarrow> signed_take_bit 47 la = la" for la :: u64
proof -
  assume "unat la < 2 ^ 47"
  then have t: "take_bit 47 la = la" by (simp only: low_half)
  then have "\<not> bit la 47" by (metis bit_take_bit_iff less_irrefl)
  then show ?thesis using t by (simp add: signed_take_bit_eq_if_positive)
qed

lemma canonical_index: "signed_take_bit 47 la = la \<Longrightarrow> unat (PML4 la) < 256 \<Longrightarrow> unat la < 2 ^ 47" for la :: u64
proof -
  assume can: "signed_take_bit 47 la = la" and small: "unat (PML4 la) < 256"
  have "unat (take_bit 8 (PML4 la)) = unat (PML4 la)" unfolding unat_take_bit using small by simp
  then have "take_bit 8 (PML4 la) = PML4 la" by (simp only: word_unat_eq_iff)
  then have "\<not> bit (PML4 la) 8" by (metis bit_take_bit_iff less_irrefl)
  then have "\<not> bit la 47" by (simp add: PML4_def PML4SHIFT_def low_mask bit_simps)
  then have "take_bit 47 la = la" using can by (simp add: signed_take_bit_eq_if_positive)
  then show ?thesis by (simp only: low_half)
qed

section \<open>What the tables map\<close>

lemma enabled_translate:
  "translate (enable_paging p (enable_pae c)) m la =
     (if signed_take_bit 47 la \<noteq> la then None else walk m (entry_base (ucast p)) la)"
proof -
  have "bit (cr0 c OR CR0_PE OR CR0_PG OR CR0_AM OR CR0_WP OR CR0_MP) 31"
    "bit (cr0 c OR CR0_PE OR CR0_PG OR CR0_AM OR CR0_WP OR CR0_MP) 0"
    by (simp_all add: cr_defs bit_or_iff)
  moreover have meet: "x AND y \<noteq> 0" if "bit x n" "bit y n" for x y :: u32 and n
    using that by (metis bit_and_iff bit_0_eq bot_apply bot_bool_def)
  have "x AND CR0_PG \<noteq> 0" if "bit x 31" for x by (rule meet [OF that]) (simp add: cr_defs)
  moreover have "x AND CR0_PE \<noteq> 0" if "bit x 0" for x by (rule meet [OF that]) (simp add: cr_defs)
  ultimately show ?thesis
    by (simp add: translate_def enable_paging_def enable_pae_def Let_def bit_set_bit_iff)
       (simp add: cr_defs)
qed

lemma page_arith:
  assumes "j < 512" and "k < 512"
  shows "0x40020 \<le> (i * 512 + j) * 512 + k \<and> (i * 512 + j) * 512 + k < 0x40020 + 128 \<longleftrightarrow>
    j = 0 \<and> i = 1 \<and> 32 \<le> k \<and> k < (160 :: nat)"
proof
  assume "0x40020 \<le> (i * 512 + j) * 512 + k \<and> (i * 512 + j) * 512 + k < 0x40020 + 128"
  then have a: "0x40020 \<le> (i * 512 + j) * 512 + k" "(i * 512 + j) * 512 + k < 0x40020 + 128" by blast+
  from a(2) have "i < 2" by simp
  moreover from a(1) assms have "0 < i" by simp
  ultimately have "i = 1" by simp
  moreover from this a(2) have "j = 0" by simp
  ultimately show "j = 0 \<and> i = 1 \<and> 32 \<le> k \<and> k < 160" using a by auto
qed auto

lemma low_region:
  assumes "unat la < 2 ^ 47"
  shows "la < 0x10000000 \<longleftrightarrow> unat (PDPE la) = 0 \<and> PML4 la = 0 \<and> unat (PDX la) < 128"
    and "KERNBASE \<le> la \<and> la < KERNBASE + 0x10000000 \<longleftrightarrow>
      unat (PDPE la) = 0 \<and> PML4 la = 1 \<and> 32 \<le> unat (PDX la) \<and> unat (PDX la) < 160"
proof -
  note n = page_number(1) [OF assms] and small = index_small(4,6) [of la]
  have "la < 0x10000000 \<longleftrightarrow> unat la div 2 ^ 21 < 128"
    by (simp add: word_less_nat_alt) linarith
  also have "\<dots> \<longleftrightarrow> unat (PDPE la) = 0 \<and> unat (PML4 la) = 0 \<and> unat (PDX la) < 128"
    unfolding n using small by auto
  finally show "la < 0x10000000 \<longleftrightarrow> unat (PDPE la) = 0 \<and> PML4 la = 0 \<and> unat (PDX la) < 128"
    by (simp add: word_unat_eq_iff)
  have "KERNBASE \<le> la \<and> la < KERNBASE + 0x10000000 \<longleftrightarrow> 0x40020 \<le> unat la div 2 ^ 21 \<and> unat la div 2 ^ 21 < 0x40020 + 128"
    by (simp add: word_less_nat_alt word_le_nat_alt KERNBASE_def) linarith
  also have "\<dots> \<longleftrightarrow> unat (PDPE la) = 0 \<and> unat (PML4 la) = 1 \<and> 32 \<le> unat (PDX la) \<and> unat (PDX la) < 160"
    unfolding n using small by (rule page_arith)
  finally show "KERNBASE \<le> la \<and> la < KERNBASE + 0x10000000 \<longleftrightarrow>
      unat (PDPE la) = 0 \<and> PML4 la = 1 \<and> 32 \<le> unat (PDX la) \<and> unat (PDX la) < 160"
    by (simp add: word_unat_eq_iff)
qed

text \<open>The pages in the two regions.\<close>

lemma low_page: "la < 0x10000000 \<Longrightarrow> push_bit 21 (of_nat (unat (PDX la))) OR take_bit 21 la = la"
proof -
  assume la: "la < 0x10000000"
  then have "unat la < 0x10000000" by (simp add: word_less_nat_alt)
  then have "unat (PDX la) = unat la div 2 ^ 21" by (simp add: indexes)
  then have "unat (PDX la) * 2 ^ 21 + unat la mod 2 ^ 21 = unat la" by (simp add: div_mult_mod_eq)
  then show ?thesis unfolding page_sum by (simp only:) simp
qed

lemma kernel_page:
  assumes "KERNBASE \<le> la" and "la < KERNBASE + 0x10000000"
  shows "push_bit 21 (of_nat (unat (PDX la) - 32)) OR take_bit 21 la = la - KERNBASE"
proof -
  obtain r where r: "unat la = 0x40020 * 2 ^ 21 + r"
    using assms(1) le_Suc_ex [of "0x40020 * 2 ^ 21" "unat la"] by (auto simp: word_le_nat_alt KERNBASE_def)
  then have small: "r < 2 ^ 28" using assms(2) by (simp add: word_less_nat_alt KERNBASE_def)
  have "(0x40020 * 2 ^ 21 + r) div 2 ^ 21 = 0x40020 + r div 2 ^ 21" by (rule div_mult_self3) simp
  moreover have "r div 2 ^ 21 < 128" using small by simp
  moreover have "(0x40020 + q) mod 512 = 32 + q" if "q < 128" for q :: nat
  proof -
    have "0x40020 + q = (32 + q) + 512 * 512" by simp
    then show ?thesis using that by (simp only: mod_mult_self1) simp
  qed
  ultimately have "unat (PDX la) = 32 + r div 2 ^ 21" unfolding indexes r by simp
  moreover have "unat la mod 2 ^ 21 = r mod 2 ^ 21" unfolding r by (rule mod_mult_self3)
  ultimately have eq: "(unat (PDX la) - 32) * 2 ^ 21 + unat la mod 2 ^ 21 = r" by (simp add: div_mult_mod_eq)
  have "la = of_nat (unat la)" by simp
  also have "\<dots> = KERNBASE + of_nat r" unfolding r by (simp add: KERNBASE_def)
  finally show ?thesis unfolding page_sum eq by simp
qed

lemma walk_regions:
  assumes "tables_fit p" and "unat la < 2 ^ 47"
  shows "walk (boot_tables p m) (ucast p) la =
      (if la < 0x10000000 then Some (la, True)
       else if KERNBASE \<le> la \<and> la < KERNBASE + 0x10000000 then Some (la - KERNBASE, True)
       else None)"
proof (cases "la < 0x10000000")
  case True
  then show ?thesis
    using low_page [OF True] low_region(1) [OF assms(2)] unfolding walk_boot [OF assms(1)] by simp
next
  case high: False
  show ?thesis
  proof (cases "KERNBASE \<le> la \<and> la < KERNBASE + 0x10000000")
    case True
    then have i: "unat (PDPE la) = 0" "PML4 la = 1" "32 \<le> unat (PDX la)" "unat (PDX la) < 160"
      unfolding low_region(2) [OF assms(2)] by simp_all
    have "push_bit 21 (of_nat (unat (PDX la) - 32)) OR take_bit 21 la = la - KERNBASE"
      using True by (intro kernel_page) simp_all
    then show ?thesis using True high i unfolding walk_boot [OF assms(1)] by simp
  next
    case False
    then show ?thesis
      using high low_region [OF assms(2)] unfolding walk_boot [OF assms(1)] by (auto split: if_splits)
  qed
qed

text \<open>
  C7. With the page tables of \<^verbatim>\<open>bootstrap.S\<close>, wherever in memory they lie, the processor maps exactly two regions,
  both writable: the first 256 megabytes of physical memory at their own addresses, and the same memory from
  \<^verbatim>\<open>KERNBASE\<close> on, where the kernel is linked; every other address faults. The code writes nothing but the five pages.
\<close>

theorem boot_paging_maps:
  assumes "tables_fit p" and "boot_paging p c m = (c', m')"
  shows "translate c' m' la =
      (if la < 0x10000000 then Some (la, True)
       else if KERNBASE \<le> la \<and> la < KERNBASE + 0x10000000 then Some (la - KERNBASE, True)
       else None)
    \<and> (\<forall>a. a \<notin> span (ucast p) (5 * 4096) \<longrightarrow> m' a = m a)"
proof (intro conjI)
  have m': "m' = boot_tables p m" and c': "c' = enable_paging p (enable_pae c)"
    using assms(2) by (simp_all add: boot_paging_def)
  show "\<forall>a. a \<notin> span (ucast p) (5 * 4096) \<longrightarrow> m' a = m a" using boot_tables_outside [OF assms(1)] by (simp add: m')
  have tr: "translate c' m' la = (if signed_take_bit 47 la \<noteq> la then None else walk m' (ucast p) la)"
    unfolding c' enabled_translate table_addresses(1) [OF assms(1)] ..
  show "translate c' m' la =
      (if la < 0x10000000 then Some (la, True)
       else if KERNBASE \<le> la \<and> la < KERNBASE + 0x10000000 then Some (la - KERNBASE, True)
       else None)"
  proof (cases "unat la < 2 ^ 47")
    case True
    then show ?thesis unfolding tr unfolding m' using canonical_low [OF True] walk_regions [OF assms(1) True] by simp
  next
    case False
    then have "\<not> la < 0x10000000" "\<not> la < KERNBASE + 0x10000000"
      by (simp_all add: word_less_nat_alt KERNBASE_def)
    moreover have "signed_take_bit 47 la = la \<Longrightarrow> PML4 la \<noteq> 0 \<and> PML4 la \<noteq> 1"
      using canonical_index [of la] False by auto
    ultimately show ?thesis unfolding tr unfolding m' walk_boot [OF assms(1)] by simp
  qed
qed

text \<open>
  Page tables at \<open>0x101000\<close>: the link address of the kernel in \<^verbatim>\<open>kern/kernel.ld\<close> is mapped to its load address, and
  the first address behind the region faults.
\<close>

theorem boot_paging_maps_witness:
  "\<exists>c' m'. boot_paging 0x101000 \<lparr>cr0 = 0x11, cr3 = 0, cr4 = 0, efer = 0\<rparr> (\<lambda>_. 7) = (c', m')
     \<and> translate c' m' 0x8004200000 = Some (0x200000, True) \<and> translate c' m' 0x8014000000 = None
     \<and> m' 0x106000 = 7"
proof -
  let ?c = "\<lparr>cr0 = 0x11, cr3 = 0, cr4 = 0, efer = 0\<rparr>"
  have fit: "tables_fit 0x101000" by (simp add: tables_fit_def)
  obtain c' m' where run: "boot_paging 0x101000 ?c (\<lambda>_. 7) = (c', m')" by fastforce
  have "translate c' m' 0x8004200000 = Some (0x200000, True)"
    using boot_paging_maps [OF fit run, of "0x8004200000"] by (simp add: KERNBASE_def)
  moreover have "translate c' m' 0x8014000000 = None" "m' 0x106000 = 7"
    using boot_paging_maps [OF fit run, of "0x8014000000"] by (simp_all add: KERNBASE_def span_iff)
  ultimately show ?thesis using run by blast
qed

end
