(* ===== verification/Queue.thy ===== *)
theory Queue
  imports Main
begin

text \<open>
  The doubly linked lists of \<^verbatim>\<open>inc/queue.h\<close>. \<open>'h\<close> are the list heads and \<open>'a\<close> the elements, as
  pointers that are not null; \<open>None\<close> is the null pointer. The pointer \<^verbatim>\<open>le_prev\<close> of an element does
  not point to the element before it but to the cell that points to this element: either the
  \<^verbatim>\<open>le_next\<close> of an element or the \<^verbatim>\<open>lh_first\<close> of a head. The macros are functions on the store.
\<close>

section \<open>The store\<close>

datatype ('h, 'a) cell = First 'h | Next 'a

record ('h, 'a) links =
  lh_first :: "'h \<Rightarrow> 'a option"
  le_next :: "'a \<Rightarrow> 'a option"
  le_prev :: "'a \<Rightarrow> ('h, 'a) cell"

text \<open>Reading and writing through a \<^verbatim>\<open>struct type **\<close>.\<close>

definition get_cell :: "('h, 'a) links \<Rightarrow> ('h, 'a) cell \<Rightarrow> 'a option" where
  "get_cell s c = (case c of First h \<Rightarrow> lh_first s h | Next x \<Rightarrow> le_next s x)"

definition set_cell :: "('h, 'a) cell \<Rightarrow> 'a option \<Rightarrow> ('h, 'a) links \<Rightarrow> ('h, 'a) links" where
  "set_cell c v s = (case c of First h \<Rightarrow> s\<lparr>lh_first := (lh_first s)(h := v)\<rparr>
                             | Next x \<Rightarrow> s\<lparr>le_next := (le_next s)(x := v)\<rparr>)"

definition set_prev :: "'a \<Rightarrow> ('h, 'a) cell \<Rightarrow> ('h, 'a) links \<Rightarrow> ('h, 'a) links" where
  "set_prev x c s = s\<lparr>le_prev := (le_prev s)(x := c)\<rparr>"

section \<open>The macros\<close>

definition LIST_EMPTY :: "('h, 'a) links \<Rightarrow> 'h \<Rightarrow> bool" where
  "LIST_EMPTY s h \<longleftrightarrow> lh_first s h = None"

definition LIST_FIRST :: "('h, 'a) links \<Rightarrow> 'h \<Rightarrow> 'a option" where
  "LIST_FIRST s h = lh_first s h"

definition LIST_NEXT :: "('h, 'a) links \<Rightarrow> 'a \<Rightarrow> 'a option" where
  "LIST_NEXT s x = le_next s x"

text \<open>The elements that the loop visits; a cyclic list has no end.\<close>

partial_function (option) foreach_from :: "('h, 'a) links \<Rightarrow> 'a option \<Rightarrow> 'a list option" where
  "foreach_from s var =
     (case var of None \<Rightarrow> Some []
      | Some x \<Rightarrow> Option.bind (foreach_from s (LIST_NEXT s x)) (\<lambda>xs. Some (x # xs)))"

definition LIST_FOREACH :: "('h, 'a) links \<Rightarrow> 'h \<Rightarrow> 'a list option" where
  "LIST_FOREACH s h = foreach_from s (LIST_FIRST s h)"

definition LIST_INIT :: "'h \<Rightarrow> ('h, 'a) links \<Rightarrow> ('h, 'a) links" where
  "LIST_INIT h s = set_cell (First h) None s"

definition LIST_INSERT_AFTER :: "'a \<Rightarrow> 'a \<Rightarrow> ('h, 'a) links \<Rightarrow> ('h, 'a) links" where
  "LIST_INSERT_AFTER y x s =
     (let s = set_cell (Next x) (LIST_NEXT s y) s;
          s = (case LIST_NEXT s x of None \<Rightarrow> s
               | Some _ \<Rightarrow> (case LIST_NEXT s y of None \<Rightarrow> s | Some z \<Rightarrow> set_prev z (Next x) s));
          s = set_cell (Next y) (Some x) s
      in set_prev x (Next y) s)"

definition LIST_INSERT_BEFORE :: "'a \<Rightarrow> 'a \<Rightarrow> ('h, 'a) links \<Rightarrow> ('h, 'a) links" where
  "LIST_INSERT_BEFORE y x s =
     (let s = set_prev x (le_prev s y) s;
          s = set_cell (Next x) (Some y) s;
          s = set_cell (le_prev s y) (Some x) s
      in set_prev y (Next x) s)"

definition LIST_INSERT_HEAD :: "'h \<Rightarrow> 'a \<Rightarrow> ('h, 'a) links \<Rightarrow> ('h, 'a) links" where
  "LIST_INSERT_HEAD h x s =
     (let s = set_cell (Next x) (LIST_FIRST s h) s;
          s = (case LIST_NEXT s x of None \<Rightarrow> s
               | Some _ \<Rightarrow> (case LIST_FIRST s h of None \<Rightarrow> s | Some z \<Rightarrow> set_prev z (Next x) s));
          s = set_cell (First h) (Some x) s
      in set_prev x (First h) s)"

definition LIST_REMOVE :: "'a \<Rightarrow> ('h, 'a) links \<Rightarrow> ('h, 'a) links" where
  "LIST_REMOVE x s =
     (let s = (case LIST_NEXT s x of None \<Rightarrow> s | Some z \<Rightarrow> set_prev z (le_prev s x) s)
      in set_cell (le_prev s x) (LIST_NEXT s x) s)"

section \<open>Lists in the store\<close>

text \<open>\<open>chain s c xs\<close>: from the cell \<open>c\<close> on, the elements \<open>xs\<close> are linked in both directions.\<close>

fun chain :: "('h, 'a) links \<Rightarrow> ('h, 'a) cell \<Rightarrow> 'a list \<Rightarrow> bool" where
  "chain s c [] \<longleftrightarrow> get_cell s c = None"
| "chain s c (x # xs) \<longleftrightarrow> get_cell s c = Some x \<and> le_prev s x = c \<and> chain s (Next x) xs"

definition list_at :: "('h, 'a) links \<Rightarrow> 'h \<Rightarrow> 'a list \<Rightarrow> bool" where
  "list_at s h xs \<longleftrightarrow> chain s (First h) xs \<and> distinct xs"

lemma get_cell_set [simp]:
  "get_cell (set_cell c v s) c' = (if c' = c then v else get_cell s c')"
  "get_cell (set_prev x c s) c' = get_cell s c'"
  "le_prev (set_cell c v s) = le_prev s"
  "le_prev (set_prev x c s) = (le_prev s)(x := c)"
  by (auto simp: get_cell_def set_cell_def set_prev_def split: cell.splits)

lemma list_reads: "lh_first s h = get_cell s (First h)" "le_next s x = get_cell s (Next x)"
  by (simp_all add: get_cell_def)

text \<open>The last cell of a chain, and chains in two parts.\<close>

fun last_cell :: "('h, 'a) cell \<Rightarrow> 'a list \<Rightarrow> ('h, 'a) cell" where
  "last_cell c [] = c"
| "last_cell c (x # xs) = last_cell (Next x) xs"

fun path :: "('h, 'a) links \<Rightarrow> ('h, 'a) cell \<Rightarrow> 'a list \<Rightarrow> bool" where
  "path s c [] \<longleftrightarrow> True"
| "path s c (x # xs) \<longleftrightarrow> get_cell s c = Some x \<and> le_prev s x = c \<and> path s (Next x) xs"

lemma chain_append: "chain s c (xs @ ys) \<longleftrightarrow> path s c xs \<and> chain s (last_cell c xs) ys"
  by (induction xs arbitrary: c) auto

text \<open>What a chain depends on: the cells from its first one on, and the back pointers of its elements.\<close>

lemma last_cell_in: "last_cell c xs \<in> insert c (Next ` set xs)"
  by (induction xs arbitrary: c) auto

lemma path_cong:
  assumes "path s c xs"
    and "\<And>c'. c' \<in> insert c (Next ` set xs) - {last_cell c xs} \<Longrightarrow> get_cell s' c' = get_cell s c'"
    and "\<And>x. x \<in> set xs \<Longrightarrow> le_prev s' x = le_prev s x" and "distinct xs" and "c \<notin> Next ` set xs"
  shows "path s' c xs"
  using assms
proof (induction xs arbitrary: c)
  case (Cons x xs)
  have ne: "last_cell (Next x) xs \<noteq> c" using last_cell_in [of "Next x" xs] Cons.prems(5) by auto
  then have "get_cell s' c = get_cell s c" using Cons.prems(2) [of c] by simp
  moreover have "path s' (Next x) xs"
    by (rule Cons.IH) (use Cons.prems in \<open>auto\<close>)
  ultimately show ?case using Cons.prems(1,3) by simp
qed simp

lemma chain_cong:
  assumes "chain s c xs" and "\<And>c'. c' \<in> insert c (Next ` set xs) \<Longrightarrow> get_cell s' c' = get_cell s c'"
    and "\<And>x. x \<in> set xs \<Longrightarrow> le_prev s' x = le_prev s x"
  shows "chain s' c xs"
  using assms by (induction xs arbitrary: c) auto

section \<open>Linking and unlinking\<close>

text \<open>What an insertion of \<open>x\<close> at the cell \<open>c\<close> changes, and what the removal of \<open>x\<close> does.\<close>

definition linked :: "('h, 'a) cell \<Rightarrow> 'a \<Rightarrow> ('h, 'a) links \<Rightarrow> ('h, 'a) links \<Rightarrow> bool" where
  "linked c x s s' \<longleftrightarrow>
     get_cell s' = (get_cell s)(Next x := get_cell s c, c := Some x) \<and>
     le_prev s' = (\<lambda>z. if z = x then c else if get_cell s c = Some z then Next x else le_prev s z)"

definition unlinked :: "'a \<Rightarrow> ('h, 'a) links \<Rightarrow> ('h, 'a) links \<Rightarrow> bool" where
  "unlinked x s s' \<longleftrightarrow>
     get_cell s' = (get_cell s)(le_prev s x := get_cell s (Next x)) \<and>
     le_prev s' = (\<lambda>z. if get_cell s (Next x) = Some z then le_prev s x else le_prev s z)"

lemma linked_head: "get_cell s (First h) \<noteq> Some x \<Longrightarrow> linked (First h) x s (LIST_INSERT_HEAD h x s)"
  by (auto simp: linked_def LIST_INSERT_HEAD_def LIST_NEXT_def LIST_FIRST_def list_reads Let_def fun_eq_iff
      split: option.splits)

lemma linked_after: "x \<noteq> y \<Longrightarrow> get_cell s (Next y) \<noteq> Some x \<Longrightarrow> linked (Next y) x s (LIST_INSERT_AFTER y x s)"
  by (auto simp: linked_def LIST_INSERT_AFTER_def LIST_NEXT_def list_reads Let_def fun_eq_iff
      split: option.splits)

lemma linked_before:
  "x \<noteq> y \<Longrightarrow> get_cell s (le_prev s y) = Some y \<Longrightarrow> le_prev s y \<noteq> Next x \<Longrightarrow>
   linked (le_prev s y) x s (LIST_INSERT_BEFORE y x s)"
  by (auto simp: linked_def LIST_INSERT_BEFORE_def LIST_NEXT_def list_reads Let_def fun_eq_iff)

lemma unlinked_remove:
  "get_cell s (Next x) \<noteq> Some x \<Longrightarrow> unlinked x s (LIST_REMOVE x s)"
  by (auto simp: unlinked_def LIST_REMOVE_def LIST_NEXT_def list_reads Let_def fun_eq_iff split: option.splits)

lemma path_last:
  "path s c (xs @ [y]) \<Longrightarrow> le_prev s y = last_cell c xs \<and> get_cell s (last_cell c xs) = Some y"
  by (induction xs arbitrary: c) auto

lemma last_cell_snoc [simp]: "last_cell c (xs @ [y]) = Next y"
  by (induction xs arbitrary: c) auto

lemma linked_chain:
  assumes "linked c x s s'" and "chain s c0 (xs @ ys)" and "c = last_cell c0 xs"
    and "distinct (xs @ ys)" and "x \<notin> set (xs @ ys)" and "c0 \<notin> Next ` insert x (set (xs @ ys))"
  shows "chain s' c0 (xs @ x # ys)"
proof -
  have parts: "path s c0 xs" "chain s c ys" using assms(2,3) by (simp_all add: chain_append)
  have c: "c \<noteq> Next x" "c \<notin> Next ` set ys"
    using assms(3-6) last_cell_in [of c0 xs] by auto
  have cell: "get_cell s' c' = get_cell s c'" if "c' \<noteq> c" "c' \<noteq> Next x" for c'
    using assms(1) that by (simp add: linked_def)
  have first: "get_cell s c \<noteq> Some z" if "z \<in> set xs" for z
    using parts(2) assms(4) that by (cases ys) auto
  have "path s' c0 xs"
  proof (rule path_cong [OF parts(1)])
    show "get_cell s' c' = get_cell s c'" if "c' \<in> insert c0 (Next ` set xs) - {last_cell c0 xs}" for c'
      using that assms(3,5,6) by (intro cell) auto
    show "le_prev s' z = le_prev s z" if "z \<in> set xs" for z
      using assms(1,5) first [OF that] that by (auto simp: linked_def)
  qed (use assms(4,6) in auto)
  moreover have "chain s' (Next x) ys"
  proof (cases ys)
    case Nil
    then show ?thesis using assms(1) parts(2) c(1) by (simp add: linked_def)
  next
    case (Cons y zs)
    have "chain s' (Next y) zs"
    proof (rule chain_cong)
      show "chain s (Next y) zs" using parts(2) Cons by simp
      show "get_cell s' c' = get_cell s c'" if "c' \<in> insert (Next y) (Next ` set zs)" for c'
        using that c(2) assms(5) Cons by (intro cell) auto
      show "le_prev s' z = le_prev s z" if "z \<in> set zs" for z
        using that assms(1,4,5) parts(2) Cons by (auto simp: linked_def)
    qed
    then show ?thesis using assms(1,5) parts(2) Cons c(1) by (auto simp: linked_def)
  qed
  ultimately show ?thesis using assms(1,3) by (simp add: chain_append linked_def)
qed

lemma unlinked_chain:
  assumes "unlinked x s s'" and "chain s c0 (xs @ x # ys)"
    and "distinct (xs @ x # ys)" and "c0 \<notin> Next ` set (xs @ x # ys)"
  shows "chain s' c0 (xs @ ys)"
proof -
  define c where "c = last_cell c0 xs"
  have parts: "path s c0 xs" "get_cell s c = Some x" "le_prev s x = c" "chain s (Next x) ys"
    using assms(2) by (simp_all add: chain_append c_def)
  have c: "c \<noteq> Next x" "c \<notin> Next ` set ys"
    using assms(3,4) last_cell_in [of c0 xs] by (auto simp: c_def)
  have cell: "get_cell s' c' = get_cell s c'" if "c' \<noteq> c" for c'
    using assms(1) that parts(3) by (simp add: unlinked_def)
  have first: "get_cell s (Next x) \<noteq> Some z" if "z \<in> set xs" for z
    using parts(4) assms(3) that by (cases ys) auto
  have "path s' c0 xs"
  proof (rule path_cong [OF parts(1)])
    show "get_cell s' c' = get_cell s c'" if "c' \<in> insert c0 (Next ` set xs) - {last_cell c0 xs}" for c'
      using that by (intro cell) (auto simp: c_def)
    show "le_prev s' z = le_prev s z" if "z \<in> set xs" for z
      using assms(1) first [OF that] by (auto simp: unlinked_def)
  qed (use assms(3,4) in auto)
  moreover have "chain s' c ys"
  proof (cases ys)
    case Nil
    then show ?thesis using assms(1) parts by (simp add: unlinked_def)
  next
    case (Cons y zs)
    have "chain s' (Next y) zs"
    proof (rule chain_cong)
      show "chain s (Next y) zs" using parts(4) Cons by simp
      show "get_cell s' c' = get_cell s c'" if "c' \<in> insert (Next y) (Next ` set zs)" for c'
        using that c(2) Cons by (intro cell) auto
      show "le_prev s' z = le_prev s z" if "z \<in> set zs" for z
        using that assms(1,3) parts(4) Cons by (auto simp: unlinked_def)
    qed
    then show ?thesis using assms(1) parts Cons by (auto simp: unlinked_def)
  qed
  ultimately show ?thesis by (simp add: chain_append c_def)
qed

section \<open>The operations on lists\<close>

lemma chain_inner:
  assumes "chain s c0 (xs @ y # ys)" and "distinct (xs @ y # ys)" and "c0 \<notin> Next ` set (xs @ y # ys)"
  shows "le_prev s y = last_cell c0 xs" and "get_cell s (last_cell c0 xs) = Some y"
    and "z \<notin> set (xs @ y # ys) \<Longrightarrow> c0 \<noteq> Next z \<Longrightarrow> last_cell c0 xs \<noteq> Next z"
    and "get_cell s (Next y) \<noteq> Some y" and "z \<notin> set ys \<Longrightarrow> get_cell s (Next y) \<noteq> Some z"
proof -
  have c: "chain s (last_cell c0 xs) (y # ys)" using assms(1) by (simp add: chain_append)
  then show "le_prev s y = last_cell c0 xs" "get_cell s (last_cell c0 xs) = Some y" by simp_all
  show "last_cell c0 xs \<noteq> Next z" if "z \<notin> set (xs @ y # ys)" "c0 \<noteq> Next z" for z
    using that last_cell_in [of c0 xs] by auto
  show "get_cell s (Next y) \<noteq> Some z" if "z \<notin> set ys" for z using c that by (cases ys) auto
  then show "get_cell s (Next y) \<noteq> Some y" using assms(2) by simp
qed

lemma list_at_head:
  assumes "list_at s h xs" and "x \<notin> set xs"
  shows "list_at (LIST_INSERT_HEAD h x s) h (x # xs)"
proof -
  have "get_cell s (First h) \<noteq> Some x" using assms by (cases xs) (auto simp: list_at_def)
  from linked_chain [OF linked_head [OF this], of "First h" "[]" xs] show ?thesis
    using assms by (auto simp: list_at_def)
qed

lemma list_at_after:
  assumes "list_at s h (xs @ y # ys)" and "x \<notin> set (xs @ y # ys)"
  shows "list_at (LIST_INSERT_AFTER y x s) h (xs @ y # x # ys)"
proof -
  have "get_cell s (Next y) \<noteq> Some x"
    using chain_inner(5) [of s "First h" xs y ys x] assms by (auto simp: list_at_def)
  from linked_chain [OF linked_after [OF _ this], of "First h" "xs @ [y]" ys] show ?thesis
    using assms by (auto simp: list_at_def)
qed

lemma list_at_before:
  assumes "list_at s h (xs @ y # ys)" and "x \<notin> set (xs @ y # ys)"
  shows "list_at (LIST_INSERT_BEFORE y x s) h (xs @ x # y # ys)"
proof -
  have c: "chain s (First h) (xs @ y # ys)" "distinct (xs @ y # ys)" "First h \<notin> Next ` set (xs @ y # ys)"
    using assms(1) by (auto simp: list_at_def)
  note in_list = chain_inner [OF c]
  have "linked (le_prev s y) x s (LIST_INSERT_BEFORE y x s)"
  proof (rule linked_before)
    show "x \<noteq> y" using assms(2) by auto
    show "get_cell s (le_prev s y) = Some y" by (simp add: in_list(1,2))
    show "le_prev s y \<noteq> Next x" using in_list(3) [OF assms(2)] by (simp add: in_list(1))
  qed
  from linked_chain [OF this, of "First h" xs "y # ys"] show ?thesis
    using assms by (auto simp: list_at_def in_list(1))
qed

lemma list_at_remove:
  assumes "list_at s h (xs @ x # ys)"
  shows "list_at (LIST_REMOVE x s) h (xs @ ys)"
proof -
  have c: "chain s (First h) (xs @ x # ys)" "distinct (xs @ x # ys)" "First h \<notin> Next ` set (xs @ x # ys)"
    using assms by (auto simp: list_at_def)
  show ?thesis
    using unlinked_chain [OF unlinked_remove [OF chain_inner(4) [OF c]] c] c(2) by (simp add: list_at_def)
qed

lemma list_at_init: "list_at (LIST_INIT h s) h []"
  by (simp add: list_at_def LIST_INIT_def)

lemma foreach_chain: "chain s c xs \<Longrightarrow> foreach_from s (get_cell s c) = Some xs"
  by (induction xs arbitrary: c) (subst foreach_from.simps, simp add: LIST_NEXT_def list_reads)+

lemma foreach_list: "list_at s h xs \<Longrightarrow> LIST_FOREACH s h = Some xs"
  using foreach_chain [of s "First h" xs] by (simp add: LIST_FOREACH_def LIST_FIRST_def list_reads list_at_def)

section \<open>Other lists\<close>

lemma linked_frame:
  assumes "linked c x s s'" and "chain s k zs" and "c \<notin> insert k (Next ` set zs)"
    and "k \<noteq> Next x" and "x \<notin> set zs" and "\<And>z. z \<in> set zs \<Longrightarrow> get_cell s c \<noteq> Some z"
  shows "chain s' k zs"
  by (rule chain_cong [OF assms(2)]) (use assms in \<open>auto simp: linked_def\<close>)

lemma unlinked_frame:
  assumes "unlinked x s s'" and "chain s k zs" and "le_prev s x \<notin> insert k (Next ` set zs)"
    and "\<And>z. z \<in> set zs \<Longrightarrow> get_cell s (Next x) \<noteq> Some z"
  shows "chain s' k zs"
  by (rule chain_cong [OF assms(2)]) (use assms in \<open>auto simp: unlinked_def\<close>)

lemma list_at_frame:
  assumes s: "list_at s h (xs @ y # ys)" and x: "x \<notin> set (xs @ y # ys)"
    and k: "list_at s k zs" "k \<noteq> h" "set zs \<inter> set (x # xs @ y # ys) = {}"
  shows "list_at (LIST_INSERT_HEAD h x s) k zs" "list_at (LIST_INSERT_AFTER y x s) k zs"
    "list_at (LIST_INSERT_BEFORE y x s) k zs" "list_at (LIST_REMOVE y s) k zs"
proof -
  have c: "chain s (First h) (xs @ y # ys)" "distinct (xs @ y # ys)" "First h \<notin> Next ` set (xs @ y # ys)"
    using s by (auto simp: list_at_def)
  note in_list = chain_inner [OF c]
  have zs: "chain s (First k) zs" "distinct zs" using k(1) by (simp_all add: list_at_def)
  have first: "get_cell s (First h) \<noteq> Some z" if "z \<notin> set (xs @ y # ys)" for z
    using c(1) that by (cases xs) auto
  have zfirst: "get_cell s (First h) \<noteq> Some z" if "z \<in> set zs" for z
    using that k(3) by (intro first) auto
  have last: "last_cell (First h) xs \<notin> insert (First k) (Next ` set zs)"
    using last_cell_in [of "First h" xs] k(2,3) by auto
  have xy: "x \<noteq> y" "x \<notin> set ys" using x by auto
  have "chain (LIST_INSERT_HEAD h x s) (First k) zs"
    by (rule linked_frame [OF linked_head [OF first [OF x]] zs(1)]) (use k zfirst in auto)
  then show "list_at (LIST_INSERT_HEAD h x s) k zs" using zs(2) by (simp add: list_at_def)
  have "chain (LIST_INSERT_AFTER y x s) (First k) zs"
    by (rule linked_frame [OF linked_after [OF xy(1) in_list(5) [OF xy(2)]] zs(1)]) (use k in_list(5) in auto)
  then show "list_at (LIST_INSERT_AFTER y x s) k zs" using zs(2) by (simp add: list_at_def)
  have "linked (last_cell (First h) xs) x s (LIST_INSERT_BEFORE y x s)"
    using linked_before [of x y s] xy(1) in_list(1,2) in_list(3) [OF x] by simp
  then have "chain (LIST_INSERT_BEFORE y x s) (First k) zs"
    by (rule linked_frame [OF _ zs(1) last]) (use k in_list(2) in auto)
  then show "list_at (LIST_INSERT_BEFORE y x s) k zs" using zs(2) by (simp add: list_at_def)
  have "chain (LIST_REMOVE y s) (First k) zs"
    by (rule unlinked_frame [OF unlinked_remove [OF in_list(4)] zs(1)])
      (use last k in_list(1) in_list(5) in auto)
  then show "list_at (LIST_REMOVE y s) k zs" using zs(2) by (simp add: list_at_def)
qed

section \<open>The interface of a list of distinct nodes\<close>

text \<open>
  What a client of intrusive lists relies on: a node that is in no list can be put in front of one, a
  node is taken out of its list without naming the list, and a walk visits the nodes in order.
\<close>

locale node_list =
  fixes rep :: "'s \<Rightarrow> 'h \<Rightarrow> 'a list \<Rightarrow> bool"
    and clear :: "'h \<Rightarrow> 's \<Rightarrow> 's"
    and push :: "'h \<Rightarrow> 'a \<Rightarrow> 's \<Rightarrow> 's"
    and drop_node :: "'a \<Rightarrow> 's \<Rightarrow> 's"
    and walk :: "'s \<Rightarrow> 'h \<Rightarrow> 'a list option"
  assumes rep_clear: "rep (clear h s) h []"
    and rep_push: "rep s h xs \<Longrightarrow> x \<notin> set xs \<Longrightarrow> rep (push h x s) h (x # xs)"
    and rep_drop: "rep s h (xs @ x # ys) \<Longrightarrow> rep (drop_node x s) h (xs @ ys)"
    and rep_walk: "rep s h xs \<Longrightarrow> walk s h = Some xs"
begin

lemma pushes: "rep s h xs \<Longrightarrow> distinct (ys @ xs) \<Longrightarrow> rep (fold (push h) ys s) h (rev ys @ xs)"
  using rep_push by (induction ys arbitrary: s xs) auto

lemma drops:
  "rep s h xs \<Longrightarrow> distinct xs \<Longrightarrow> distinct ys \<Longrightarrow> set ys \<subseteq> set xs \<Longrightarrow>
   rep (fold drop_node ys s) h (filter (\<lambda>x. x \<notin> set ys) xs)"
proof (induction ys arbitrary: s xs)
  case (Cons y ys)
  then obtain as bs where xs: "xs = as @ y # bs" by (auto simp: in_set_conv_decomp)
  have "rep (fold drop_node ys (drop_node y s)) h (filter (\<lambda>x. x \<notin> set ys) (as @ bs))"
    using Cons.prems xs by (intro Cons.IH rep_drop) auto
  moreover have "filter (\<lambda>x. x \<notin> set ys) (as @ bs) = filter (\<lambda>x. x \<notin> set (y # ys)) xs"
    using Cons.prems(2,3)
    by (simp add: xs) (intro arg_cong2 [of _ _ _ _ append] filter_cong; auto)
  ultimately show ?case by simp
qed simp

text \<open>Build a list, take some nodes out, and walk what is left.\<close>

lemma build_and_walk:
  assumes "distinct ys" and "distinct zs" and "set zs \<subseteq> set ys"
  shows "walk (fold drop_node zs (fold (push h) ys (clear h s))) h =
    Some (filter (\<lambda>x. x \<notin> set zs) (rev ys))"
  using pushes [OF rep_clear [of h s], of ys] drops [of _ h "rev ys" zs] assms by (simp add: rep_walk)

end

interpretation blist: node_list list_at LIST_INIT LIST_INSERT_HEAD LIST_REMOVE LIST_FOREACH
  by unfold_locales (simp_all add: list_at_init list_at_head list_at_remove foreach_list)

section \<open>Properties\<close>

text \<open>
  C27. Each insertion and the removal keep the list well linked (every \<^verbatim>\<open>le_prev\<close> points to the cell that
  points to its element) and have the effect on the sequence of elements that the comments of the
  header state, for an element in no list, at any position.
\<close>

theorem list_operations:
  "(list_at s h xs \<and> x \<notin> set xs \<longrightarrow> list_at (LIST_INSERT_HEAD h x s) h (x # xs)) \<and>
   (list_at s h (xs @ y # ys) \<and> x \<notin> set (xs @ y # ys) \<longrightarrow>
      list_at (LIST_INSERT_AFTER y x s) h (xs @ y # x # ys) \<and>
      list_at (LIST_INSERT_BEFORE y x s) h (xs @ x # y # ys)) \<and>
   (list_at s h (xs @ x # ys) \<longrightarrow> list_at (LIST_REMOVE x s) h (xs @ ys)) \<and>
   list_at (LIST_INIT h s) h []"
  by (simp add: list_at_init list_at_head list_at_after list_at_before list_at_remove)

theorem list_operations_witness:
  "let s = LIST_INSERT_HEAD () (1 :: nat) (LIST_INSERT_HEAD () 2 (LIST_INIT ()
             \<lparr>lh_first = \<lambda>_. None, le_next = \<lambda>_. None, le_prev = \<lambda>_. First ()\<rparr>))
   in list_at (LIST_INSERT_BEFORE 2 3 s) () [1, 3, 2] \<and> list_at (LIST_REMOVE 2 s) () [1]"
proof -
  let ?s = "LIST_INIT () \<lparr>lh_first = \<lambda>_. None, le_next = \<lambda>_. None, le_prev = \<lambda>_. First ()\<rparr> :: (unit, nat) links"
  have "list_at ?s () []" by (rule list_operations [THEN conjunct2, THEN conjunct2, THEN conjunct2])
  then have "list_at (LIST_INSERT_HEAD () 2 ?s) () [2]"
    by (intro list_operations [THEN conjunct1, THEN mp]) simp
  let ?l = "LIST_INSERT_HEAD () 1 (LIST_INSERT_HEAD () 2 ?s)"
  from \<open>list_at (LIST_INSERT_HEAD () 2 ?s) () [2]\<close> have "list_at ?l () ([1] @ 2 # [])"
    using list_operations [THEN conjunct1, THEN mp, of "LIST_INSERT_HEAD () 2 ?s" "()" "[2]" 1] by simp
  then show ?thesis
    using list_operations [of ?l "()" "[1]" 3 2 "[]"] list_operations [of ?l "()" "[1]" 2 3 "[]"]
    by (simp add: Let_def)
qed

text \<open>
  The operations on a list leave every other list alone: one with another head that shares no element.
\<close>

lemma list_frame:
  assumes "list_at s h (xs @ y # ys)" and "x \<notin> set (xs @ y # ys)" and "list_at s k zs" and "k \<noteq> h"
    and "set zs \<inter> set (x # xs @ y # ys) = {}"
  shows "list_at (LIST_INSERT_HEAD h x s) k zs \<and> list_at (LIST_INSERT_AFTER y x s) k zs
    \<and> list_at (LIST_INSERT_BEFORE y x s) k zs \<and> list_at (LIST_REMOVE y s) k zs"
  using list_at_frame [OF assms] by blast

lemma list_frame_example:
  "let s = LIST_INSERT_HEAD False (2 :: nat) (LIST_INSERT_HEAD True 1
             \<lparr>lh_first = \<lambda>_. None, le_next = \<lambda>_. None, le_prev = \<lambda>_. First True\<rparr>)
   in list_at (LIST_REMOVE 1 s) False [2]"
proof -
  let ?s = "LIST_INSERT_HEAD False (2 :: nat) (LIST_INSERT_HEAD True 1
             \<lparr>lh_first = \<lambda>_. None, le_next = \<lambda>_. None, le_prev = \<lambda>_. First True\<rparr>)"
  have "list_at ?s True ([] @ 1 # [])" "list_at ?s False [2]"
    by (simp_all add: list_at_def LIST_INSERT_HEAD_def LIST_FIRST_def LIST_NEXT_def set_cell_def set_prev_def
        get_cell_def)
  then show ?thesis
    using list_frame [of ?s True "[]" 1 "[]" 3 False "[2]"] by (simp add: Let_def)
qed

text \<open>
  A list that was cleared and into which distinct elements were inserted at the head, some of which
  were removed again in any order, is walked by \<^verbatim>\<open>LIST_FOREACH\<close> in the order last in, first out; the walk ends.
\<close>

lemma list_build_walk:
  assumes "distinct ys" and "distinct zs" and "set zs \<subseteq> set ys"
  shows "LIST_FOREACH (fold LIST_REMOVE zs (fold (LIST_INSERT_HEAD h) ys (LIST_INIT h s))) h =
    Some (filter (\<lambda>x. x \<notin> set zs) (rev ys))"
  using assms by (rule blist.build_and_walk)

lemma list_build_walk_example:
  "\<forall>s :: (bool, nat) links. LIST_FOREACH (fold LIST_REMOVE [2] (fold (LIST_INSERT_HEAD True) [1, 2, 3] (LIST_INIT True s))) True
     = Some [3, 1]"
  using list_build_walk [of "[1, 2, 3 :: nat]" "[2]" True] by simp

end
