(* ===== verification/SaveRegs.thy ===== *)
theory SaveRegs
  imports Memory
begin

text \<open>
  \<^verbatim>\<open>kern/macro.h\<close>: the instructions that save all general registers on the stack and restore them. A macro is the list
  of its instructions in order; the state is the registers and the memory.
\<close>

section \<open>Instructions\<close>

datatype reg = RAX | RBX | RCX | RDX | RBP | RDI | RSI | RSP | R8 | R9 | R10 | R11 | R12 | R13 | R14 | R15

record cpu =
  regs :: "reg \<Rightarrow> u64"
  cpu_mem :: mem

text \<open>\<^verbatim>\<open>subq $n,%rsp\<close>, \<^verbatim>\<open>addq $n,%rsp\<close>, \<^verbatim>\<open>movq %r,off(%rsp)\<close> and \<^verbatim>\<open>movq off(%rsp),%r\<close>.\<close>

datatype instr = Subq u64 | Addq u64 | MovqTo reg u64 | MovqFrom u64 reg

fun exec1 :: "instr \<Rightarrow> cpu \<Rightarrow> cpu" where
  "exec1 (Subq n) s = s\<lparr>regs := (regs s)(RSP := regs s RSP - n)\<rparr>"
| "exec1 (Addq n) s = s\<lparr>regs := (regs s)(RSP := regs s RSP + n)\<rparr>"
| "exec1 (MovqTo r off) s = s\<lparr>cpu_mem := store (cpu_mem s) (regs s RSP + off) (word_bytes (regs s r))\<rparr>"
| "exec1 (MovqFrom off r) s = s\<lparr>regs := (regs s)(r := load_word (cpu_mem s) (regs s RSP + off))\<rparr>"

definition exec :: "instr list \<Rightarrow> cpu \<Rightarrow> cpu" where
  "exec is s = fold exec1 is s"

definition PUSHA :: "instr list" where
  "PUSHA =
     [Subq 120, MovqTo RAX 112, MovqTo RBX 104, MovqTo RCX 96, MovqTo RDX 88, MovqTo RBP 80, MovqTo RDI 72,
      MovqTo RSI 64, MovqTo R8 56, MovqTo R9 48, MovqTo R10 40, MovqTo R11 32, MovqTo R12 24, MovqTo R13 16,
      MovqTo R14 8, MovqTo R15 0]"

definition POPA :: "instr list" where
  "POPA =
     [MovqFrom 0 R15, MovqFrom 8 R14, MovqFrom 16 R13, MovqFrom 24 R12, MovqFrom 32 R11, MovqFrom 40 R10,
      MovqFrom 48 R9, MovqFrom 56 R8, MovqFrom 64 RSI, MovqFrom 72 RDI, MovqFrom 80 RBP, MovqFrom 88 RDX,
      MovqFrom 96 RCX, MovqFrom 104 RBX, MovqFrom 112 RAX, Addq 120]"

text \<open>The same instructions as assembly source, the macro \<^verbatim>\<open>POPA_\<close>.\<close>

definition POPA_asm :: "instr list" where
  "POPA_asm =
     [MovqFrom 0 R15, MovqFrom 8 R14, MovqFrom 16 R13, MovqFrom 24 R12, MovqFrom 32 R11, MovqFrom 40 R10,
      MovqFrom 48 R9, MovqFrom 56 R8, MovqFrom 64 RSI, MovqFrom 72 RDI, MovqFrom 80 RBP, MovqFrom 88 RDX,
      MovqFrom 96 RCX, MovqFrom 104 RBX, MovqFrom 112 RAX, Addq 120]"

section \<open>Saving and restoring\<close>

lemma store_in_area:
  assumes "8 \<le> k" and "k \<le> 120" and "a \<notin> span (p - 120) 120"
  shows "store m (p - k) (word_bytes w) a = m a"
proof -
  have "unat (120 - k) = 120 - unat k" using assms(2) by (simp add: unat_sub)
  moreover have "8 \<le> unat k" using assms(1) by (simp add: word_le_nat_alt)
  ultimately have k: "unat (120 - k) + 8 \<le> 120" by simp
  have "p - k = p - 120 + of_nat (unat (120 - k))" by simp
  then have "span (p - k) 8 \<subseteq> span (p - 120) (unat (120 - k) + 8)" unfolding span_append by simp
  also have "\<dots> \<subseteq> span (p - 120) 120" using k by (rule span_mono)
  finally show ?thesis using assms(3) by (intro store_outside) auto
qed

lemma PUSHA_regs: "regs (exec PUSHA s) = (regs s)(RSP := regs s RSP - 120)"
  by (simp add: PUSHA_def exec_def)

lemma PUSHA_mem: "a \<notin> span (regs s RSP - 120) 120 \<Longrightarrow> cpu_mem (exec PUSHA s) a = cpu_mem s a"
  by (simp add: PUSHA_def exec_def store_in_area)

lemma PUSHA_slots:
  "list_all (\<lambda>(r, off). load_word (cpu_mem (exec PUSHA s)) (regs s RSP - 120 + off) = regs s r)
     [(RAX, 112), (RBX, 104), (RCX, 96), (RDX, 88), (RBP, 80), (RDI, 72), (RSI, 64), (R8, 56), (R9, 48), (R10, 40),
      (R11, 32), (R12, 24), (R13, 16), (R14, 8), (R15, 0)]"
  by (simp add: PUSHA_def exec_def load_store_same load_store_other)

lemma POPA_mem: "cpu_mem (exec POPA s) = cpu_mem s"
  by (simp add: POPA_def exec_def)

text \<open>
  C33. The registers survive: whatever state they are in, \<^verbatim>\<open>PUSHA\<close> moves the stack pointer down by 120 bytes, changes
  nothing but those, and leaves the values where either \<^verbatim>\<open>POPA\<close> finds them: afterwards all sixteen registers are
  as they were before.
\<close>

theorem registers_restored:
  "POPA_asm = POPA \<and> regs (exec POPA (exec PUSHA s)) = regs s
     \<and> (\<forall>a. a \<notin> span (regs s RSP - 120) 120 \<longrightarrow> cpu_mem (exec POPA (exec PUSHA s)) a = cpu_mem s a)"
proof -
  have "regs (exec POPA (exec PUSHA s)) r = regs s r" for r
    using PUSHA_slots [of s] PUSHA_regs [of s] by (cases r) (simp_all add: POPA_def exec_def)
  moreover have "POPA_asm = POPA" by (simp add: POPA_def POPA_asm_def)
  ultimately show ?thesis using PUSHA_mem by (auto simp: POPA_mem)
qed

theorem registers_restored_witness:
  "let s = \<lparr>regs = (\<lambda>r. if r = RSP then 0x8004400000 else 7), cpu_mem = (\<lambda>_. 9)\<rparr>
   in regs (exec POPA (exec PUSHA s)) R11 = 7 \<and> cpu_mem (exec POPA (exec PUSHA s)) 0x8004400000 = 9"
  using registers_restored [of "\<lparr>regs = (\<lambda>r. if r = RSP then 0x8004400000 else 7), cpu_mem = (\<lambda>_. 9)\<rparr>"]
  by (simp add: Let_def span_iff)

end
