(* ===== verification/Strtol.thy ===== *)
theory Strtol
  imports Printfmt
begin

text \<open>
  \<^verbatim>\<open>strtol\<close> of \<^verbatim>\<open>lib/string.c\<close>, and its round trips with what \<^verbatim>\<open>lib/printfmt.c\<close> prints. The value is
  a word of 64 bits, so that \<^verbatim>\<open>val * base + dig\<close> wraps as the undetected overflow of the code does.
\<close>

section \<open>The routine\<close>

text \<open>\<^verbatim>\<open>while (*s == ' ' || *s == '\t') s++;\<close>\<close>

partial_function (option) strtol_skip :: "mem \<Rightarrow> addr \<Rightarrow> addr option" where
  "strtol_skip m s = (if m s = 32 \<or> m s = 9 then strtol_skip m (s + 1) else Some s)"

text \<open>The digit value of a (signed) character, up to \<^verbatim>\<open>'z'\<close>.\<close>

definition strtol_dig :: "u8 \<Rightarrow> u32 option" where
  "strtol_dig c =
     (if 48 \<le> sint c \<and> sint c \<le> 57 then Some (scast c - 48)
      else if 97 \<le> sint c \<and> sint c \<le> 122 then Some (scast c - 97 + 10)
      else if 65 \<le> sint c \<and> sint c \<le> 90 then Some (scast c - 65 + 10)
      else None)"

partial_function (option) strtol_loop :: "mem \<Rightarrow> addr \<Rightarrow> u32 \<Rightarrow> u64 \<Rightarrow> (addr \<times> u64) option" where
  "strtol_loop m s base val =
     (case strtol_dig (m s) of
        None \<Rightarrow> Some (s, val)
      | Some dig \<Rightarrow>
          if sint base \<le> sint dig then Some (s, val)
          else strtol_loop m (s + 1) base (val * scast base + scast dig))"

text \<open>The prefix of the base: the new position and the base.\<close>

definition strtol_base :: "mem \<Rightarrow> addr \<Rightarrow> u32 \<Rightarrow> addr \<times> u32" where
  "strtol_base m s base =
     (if (base = 0 \<or> base = 16) \<and> m s = 48 \<and> m (s + 1) = 120 then (s + 2, 16)
      else if base = 0 \<and> m s = 48 then (s + 1, 8)
      else if base = 0 then (s, 10)
      else (s, base))"

text \<open>\<^verbatim>\<open>*endptr = (char *) s\<close>: eight bytes, least significant first.\<close>

definition store_ptr :: "mem \<Rightarrow> addr \<Rightarrow> addr \<Rightarrow> mem" where
  "store_ptr m p a = store m p (map (\<lambda>k. ucast (drop_bit (8 * k) a)) [0..<8])"

definition strtol :: "mem \<Rightarrow> addr \<Rightarrow> addr \<Rightarrow> u32 \<Rightarrow> (u64 \<times> mem) option" where
  "strtol m s endptr base =
     (case strtol_skip m s of
        None \<Rightarrow> None
      | Some s0 \<Rightarrow>
          let (s1, neg) = (if m s0 = 43 then (s0 + 1, False)
                           else if m s0 = 45 then (s0 + 1, True) else (s0, False));
              (s2, base') = strtol_base m s1 base
          in (case strtol_loop m s2 base' 0 of
                None \<Rightarrow> None
              | Some (e, val) \<Rightarrow>
                  Some (if neg then - val else val,
                        if endptr \<noteq> 0 then store_ptr m endptr e else m)))"

section \<open>Reading back the digits of a number\<close>

definition digit_byte :: "nat \<Rightarrow> u8" where
  "digit_byte d = of_char (''0123456789abcdef'' ! d)"

lemma less_16: "d < 16 \<Longrightarrow> d \<in> {0, 1, 2, 3, 4, 5, 6, 7, 8, 9, 10, 11, 12, 13, 14, 15}" for d :: nat
  unfolding insert_iff empty_iff by presburger

lemma strtol_dig_byte: "d < 16 \<Longrightarrow> strtol_dig (digit_byte d) = Some (of_nat d)"
  by (drule less_16) (auto simp: strtol_dig_def digit_byte_def)

lemma digit_byte_range:
  "d < 16 \<Longrightarrow> digit_byte d \<noteq> 0 \<and> digit_byte d \<noteq> 32 \<and> digit_byte d \<noteq> 9 \<and> digit_byte d \<noteq> 43
     \<and> digit_byte d \<noteq> 45 \<and> digit_byte d \<noteq> 120"
  by (drule less_16) (auto simp: digit_byte_def)

lemma sint_small: "d < 16 \<Longrightarrow> sint (of_nat d :: u32) = int d"
  by (drule less_16) auto

lemma scast_small: "d < 16 \<Longrightarrow> (scast (of_nat d :: u32) :: u64) = of_nat d"
  by (drule less_16) auto

lemma strtol_loop_digits:
  assumes "cstr m s (map digit_byte ds)" and "\<forall>d \<in> set ds. d < b" and "b \<le> 16"
  shows "strtol_loop m s (of_nat b) val =
    Some (s + of_nat (length ds), foldl (\<lambda>v d. v * of_nat b + of_nat d) val ds)"
  using assms
proof (induction ds arbitrary: s val)
  case Nil
  then show ?case by (subst strtol_loop.simps) (simp add: strtol_dig_def)
next
  case (Cons d ds)
  then have d: "d < b" "d < 16" and dig: "strtol_dig (m s) = Some (of_nat d)"
    by (auto simp: strtol_dig_byte)
  have b: "sint (of_nat b :: u32) = int b" "(scast (of_nat b :: u32) :: u64) = of_nat b"
    using Cons.prems(3) sint_small [of b] scast_small [of b] by (cases "b = 16"; simp)+
  have "strtol_loop m (s + 1) (of_nat b) (val * of_nat b + of_nat d) =
      Some (s + 1 + of_nat (length ds),
            foldl (\<lambda>v d. v * of_nat b + of_nat d) (val * of_nat b + of_nat d) ds)"
    using Cons.prems by (intro Cons.IH) simp_all
  moreover have "strtol_loop m s (of_nat b) val =
      strtol_loop m (s + 1) (of_nat b) (val * of_nat b + of_nat d)"
    using d b dig by (subst strtol_loop.simps) (simp add: sint_small scast_small del: of_nat_numeral)
  ultimately show ?case by (simp add: algebra_simps)
qed

lemma foldl_digits:
  "2 \<le> b \<Longrightarrow> foldl (\<lambda>v d. v * of_nat b + of_nat d) 0 (digits b n) = (of_nat n :: 'a::comm_semiring_1)"
proof (induction b n rule: digits.induct)
  case (1 b n)
  show ?case
  proof (cases "n < b")
    case True
    then show ?thesis by (subst digits.simps) simp
  next
    case False
    have "of_nat (n div b) * of_nat b + of_nat (n mod b) = (of_nat (n div b * b + n mod b) :: 'a)"
      by (simp only: of_nat_add of_nat_mult)
    then show ?thesis using 1 False by (subst digits.simps) simp
  qed
qed

lemma strtol_digits:
  assumes "cstr m s (map digit_byte (digits b n))" and "2 \<le> b" and "b \<le> 16"
  shows "strtol_loop m s (of_nat b) 0 = Some (s + of_nat (length (digits b n)), of_nat n)"
  using strtol_loop_digits [OF assms(1) _ assms(3), of 0] digits_less [OF assms(2)]
  by (auto simp: foldl_digits [OF assms(2)])

lemma digits_head:
  "2 \<le> b \<Longrightarrow> b \<le> 16 \<Longrightarrow> cstr m s (map digit_byte (digits b n)) \<Longrightarrow>
     m s \<noteq> 32 \<and> m s \<noteq> 9 \<and> m s \<noteq> 43 \<and> m s \<noteq> 45 \<and> m s \<noteq> 120"
proof -
  assume b: "2 \<le> b" "b \<le> 16" and c: "cstr m s (map digit_byte (digits b n))"
  obtain d ds where e: "digits b n = d # ds" by (meson digits_nonempty list.exhaust)
  then have "d < 16" using digits_less [of b d n] b by simp
  with c e show ?thesis by (simp add: digit_byte_range)
qed

text \<open>No digit is an \<^verbatim>\<open>x\<close>, so the text of a number never looks like a prefix.\<close>

lemma digits_no_prefix:
  assumes "2 \<le> b" and "b \<le> 16" and "cstr m s (map digit_byte (digits b n))"
  shows "m s = 48 \<longrightarrow> m (s + 1) \<noteq> 120"
proof -
  obtain d ds where e: "digits b n = d # ds" by (meson digits_nonempty list.exhaust)
  then have "cstr m (s + 1) (map digit_byte ds)" using assms(3) by simp
  moreover have "\<forall>d \<in> set ds. d < 16"
    using digits_less [of b _ n] assms(1,2) e by fastforce
  ultimately show ?thesis by (cases ds) (auto simp: digit_byte_range)
qed

lemma strtol_unsigned:
  assumes "cstr m s (map digit_byte (digits b n))" and "2 \<le> b" and "b \<le> 16"
  shows "strtol m s endptr (of_nat b) =
    Some (of_nat n, if endptr \<noteq> 0 then store_ptr m endptr (s + of_nat (length (digits b n))) else m)"
proof -
  note h = digits_head [OF assms(2,3,1)] digits_no_prefix [OF assms(2,3,1)]
  have "(of_nat b :: u32) \<noteq> 0" using assms(2,3) by (simp add: word_of_nat_eq_0_iff nat_dvd_not_less)
  then have "strtol_base m s (of_nat b) = (s, of_nat b)" using h by (auto simp: strtol_base_def)
  then show ?thesis
    using h strtol_digits [OF assms]
    by (simp add: strtol_def strtol_skip.simps [of m s])
qed

lemma ucast_digit_char: "d < 16 \<Longrightarrow> ucast (digit_char (of_nat d)) = digit_byte d"
  by (drule less_16) (auto simp: digit_char_def digit_byte_def)

lemma ucast_num_text:
  assumes "2 \<le> unat base" and "unat base \<le> 16"
  shows "map ucast (num_text num base (-1) c) = map digit_byte (digits (unat base) (unat num))"
proof -
  have "d < 16" if "d \<in> set (digits (unat base) (unat num))" for d
    using digits_less [OF assms(1) that] assms(2) by simp
  then show ?thesis by (simp add: num_text_plain [OF assms(1)] ucast_digit_char)
qed

lemma length_num_text:
  "2 \<le> unat base \<Longrightarrow> length (num_text num base (-1) c) = length (digits (unat base) (unat num))"
  by (simp add: num_text_plain)

lemma format_p: "format ''%p'' [VInt num] = Some (map of_char ''0x'' @ num_text num 16 (-1) 32)"
  by (simp add: format_def vprintfmt_def vpf.simps vpf_dir.simps flags0_def printnum_fold
      char_int_def collect_def)

section \<open>Properties\<close>

text \<open>
  C15. \<^verbatim>\<open>strtol\<close> reads back what \<^verbatim>\<open>%d\<close> printed: base 10 gives the number, sign included, for all
  64-bit values, and \<^verbatim>\<open>endptr\<close>, when given, receives the address behind the last digit.
\<close>

theorem strtol_of_d:
  assumes "format ''%d'' [VInt num] = Some out" and "cstr m s (map ucast out)"
  shows "strtol m s endptr 10 =
    Some (num, if endptr \<noteq> 0 then store_ptr m endptr (s + of_nat (length out)) else m)"
proof (cases "sint num < 0")
  case False
  then have "out = num_text num 10 (-1) 32"
    using assms(1) by (simp add: format_simps put_dec_def printnum_fold)
  then have "cstr m s (map digit_byte (digits 10 (unat num)))" "length out = length (digits 10 (unat num))"
    using assms(2) ucast_num_text [of 10 num 32] by (simp_all add: length_num_text)
  then show ?thesis using strtol_unsigned [of m s 10 "unat num" endptr] by simp
next
  case True
  then have out: "out = 45 # num_text (- num) 10 (-1) 32"
    using assms(1) by (simp add: format_simps put_dec_def printnum_fold collect_def)
  let ?ds = "digits 10 (unat (- num))"
  have c: "m s = 45" "cstr m (s + 1) (map digit_byte ?ds)"
    and len: "length out = Suc (length ?ds)"
    using assms(2) ucast_num_text [of 10 "- num" 32] by (simp_all add: out length_num_text)
  have "strtol_skip m s = Some s" by (subst strtol_skip.simps) (simp add: c(1))
  moreover have "strtol_base m (s + 1) 10 = (s + 1, 10)" by (simp add: strtol_base_def)
  moreover have "strtol_loop m (s + 1) 10 0 = Some (s + of_nat (length out), - num)"
    using strtol_digits [OF c(2)] by (simp add: len add.assoc)
  ultimately show ?thesis using c(1) by (simp add: strtol_def)
qed

theorem strtol_of_d_witness:
  "strtol (store (\<lambda>_. 0) 0x100 [0x2d, 0x34, 0x32]) 0x100 0 10 =
     Some (- 42, store (\<lambda>_. 0) 0x100 [0x2d, 0x34, 0x32])"
proof -
  have "format ''%d'' [VInt (- 42)] = Some (map of_char ''-42'')"
    by (simp add: format_d_text decimal_def digits.simps)
  from strtol_of_d [OF this, of "store (\<lambda>_. 0) 0x100 [0x2d, 0x34, 0x32]" "0x100" 0]
  show ?thesis by simp
qed

text \<open>
  \<^verbatim>\<open>strtol\<close> with base 0 reads a pointer that \<^verbatim>\<open>%p\<close> printed: it detects the prefix \<^verbatim>\<open>0x\<close> and
  gives the 64 bits of the pointer back, by unsigned wrap-around for the upper half.
\<close>

lemma strtol_of_p:
  assumes "format ''%p'' [VInt ptr] = Some out" and "cstr m s (map ucast out)"
  shows "strtol m s endptr 0 =
    Some (ptr, if endptr \<noteq> 0 then store_ptr m endptr (s + of_nat (length out)) else m)"
proof -
  let ?ds = "digits 16 (unat ptr)"
  have out: "out = map of_char ''0x'' @ num_text ptr 16 (-1) 32" using assms(1) by (simp add: format_p)
  have c: "m s = 48" "m (s + 1) = 120" "cstr m (s + 1 + 1) (map digit_byte ?ds)"
    and len: "length out = 2 + length ?ds"
    using assms(2) ucast_num_text [of 16 ptr 32] by (simp_all add: out length_num_text)
  have "cstr m (s + 2) (map digit_byte ?ds)" using c(3) by (simp add: add.assoc)
  from strtol_digits [OF this]
  have "strtol_loop m (s + 2) 16 0 = Some (s + of_nat (length out), ptr)"
    by (simp add: len add.assoc)
  moreover have "strtol_skip m s = Some s" by (subst strtol_skip.simps) (simp add: c(1))
  moreover have "strtol_base m s 0 = (s + 2, 16)" by (simp add: strtol_base_def c(1,2))
  ultimately show ?thesis using c(1) by (simp add: strtol_def)
qed

lemma strtol_of_p_example:
  "strtol (store (\<lambda>_. 0) 0x100 [0x30, 0x78, 0x66, 0x65]) 0x100 0 0 =
     Some (0xfe, store (\<lambda>_. 0) 0x100 [0x30, 0x78, 0x66, 0x65])"
proof -
  have "format ''%p'' [VInt 0xfe] = Some (map of_char ''0xfe'')"
    by (simp add: format_p num_text_plain digits.simps digit_char_def)
  from strtol_of_p [OF this, of "store (\<lambda>_. 0) 0x100 [0x30, 0x78, 0x66, 0x65]" "0x100" 0]
  show ?thesis by simp
qed

end
